(* ===== verification/Prelude.thy ===== *)
theory Prelude
  imports Main "HOL-Library.Word" "HOL-Library.Monad_Syntax"
begin

text \<open>
  Shared ground of the development: the widths of the C integers, the option monad in which
  the operations are written, byte buffers with checked accesses, and network byte order.

  \<^item> An operation of the C code is a function into \<open>option\<close>. \<open>None\<close> is undefined
    behaviour (a read or write outside an object, a use of a freed object, a lock taken twice by
    its holder) or a loop that does not return. An operation that reports failure to its caller
    returns \<open>Some\<close> of a state together with \<open>False\<close>.
  \<^item> \<open>size_t\<close> is \<open>nat\<close>: the sizes in this program are sums of 16 bit quantities over
    objects in memory and do not reach \<open>2 ^ 64\<close>. The counters the code keeps in
    \<open>uint16_t\<close> and \<open>uint32_t\<close> are words of that width.
\<close>

unbundle bit_operations_syntax

type_synonym byte = "8 word"
type_synonym u8 = "8 word"
type_synonym u16 = "16 word"
type_synonym u32 = "32 word"
type_synonym addr = nat
type_synonym ptr = "addr option"

named_theorems mem_simps \<open>rules for reads, writes, allocation and release in the store\<close>
named_theorems wire_simps \<open>rules for the bytes of the wire format\<close>

section \<open>The option monad\<close>

text \<open>
  A continuation is simplified only once the value it waits for is known. Without this rule the
  simplifier would unfold the recursive calls of a loop below a binding before its guard.
\<close>

lemma option_bind_weak_cong [cong]: "x = y \<Longrightarrow> Option.bind x f = Option.bind y f"
  by simp

lemma bind_SomeE:
  assumes "Option.bind x f = Some r"
  obtains a where "x = Some a" and "f a = Some r"
  using assms by (auto simp: Option.bind_eq_Some_conv)

lemma bind_assoc_pair:
  "Option.bind (Option.bind x (\<lambda>(a, b). f a b)) g = Option.bind x (\<lambda>(a, b). Option.bind (f a b) g)"
  by (cases x) auto

section \<open>Byte buffers\<close>

text \<open>\<open>rd_buf xs off n\<close> reads \<open>n\<close> bytes at \<open>off\<close>; \<open>wr_buf xs off ys\<close> overwrites
  the bytes at \<open>off\<close>. An access that leaves the buffer is undefined.\<close>

definition rd_buf :: "'a list \<Rightarrow> nat \<Rightarrow> nat \<Rightarrow> 'a list option" where
  "rd_buf xs off n = (if off + n \<le> length xs then Some (take n (drop off xs)) else None)"

definition wr_buf :: "'a list \<Rightarrow> nat \<Rightarrow> 'a list \<Rightarrow> 'a list option" where
  "wr_buf xs off ys =
     (if off + length ys \<le> length xs
      then Some (take off xs @ ys @ drop (off + length ys) xs) else None)"

lemma rd_buf_Some_iff: "rd_buf xs off n = Some ys \<longleftrightarrow> off + n \<le> length xs \<and> ys = take n (drop off xs)"
  by (auto simp: rd_buf_def)

lemma rd_buf_length: "rd_buf xs off n = Some ys \<Longrightarrow> length ys = n"
  by (auto simp: rd_buf_def split: if_splits)

lemma rd_buf_append [simp]: "off = length pre \<Longrightarrow> n = length ys \<Longrightarrow> rd_buf (pre @ ys @ post) off n = Some ys"
  by (simp add: rd_buf_def)

lemma rd_buf_mono: "rd_buf xs off n = Some ys \<Longrightarrow> rd_buf (xs @ zs) off n = Some ys"
  by (auto simp: rd_buf_def split: if_splits)

lemma wr_buf_length: "wr_buf xs off ys = Some zs \<Longrightarrow> length zs = length xs"
  by (auto simp: wr_buf_def split: if_splits)

lemma wr_buf_frontier:
  assumes "off = length pre" and "length ys \<le> k"
  shows "wr_buf (pre @ replicate k z) off ys = Some ((pre @ ys) @ replicate (k - length ys) z)"
proof -
  have t: "take off (pre @ replicate k z) = pre"
    using assms(1) by simp
  have d: "drop (off + length ys) (pre @ replicate k z) = replicate (k - length ys) z"
    using assms by (simp only: drop_append drop_replicate) simp
  have l: "off + length ys \<le> length (pre @ replicate k z)"
    using assms by simp
  show ?thesis unfolding wr_buf_def t d using l by (simp only: if_True append_assoc)
qed

section \<open>Network byte order\<close>

definition be16 :: "u16 \<Rightarrow> byte list" where
  "be16 w = [ucast (drop_bit 8 w), ucast w]"

definition be32 :: "u32 \<Rightarrow> byte list" where
  "be32 w = [ucast (drop_bit 24 w), ucast (drop_bit 16 w), ucast (drop_bit 8 w), ucast w]"

fun of_be16 :: "byte list \<Rightarrow> u16" where
  "of_be16 [a, b] = push_bit 8 (ucast a) OR ucast b"
| "of_be16 _ = 0"

fun of_be32 :: "byte list \<Rightarrow> u32" where
  "of_be32 [a, b, c, d] =
     push_bit 24 (ucast a) OR push_bit 16 (ucast b) OR push_bit 8 (ucast c) OR ucast d"
| "of_be32 _ = 0"

definition get16 :: "byte list \<Rightarrow> nat \<Rightarrow> u16 option" where
  "get16 xs off = map_option of_be16 (rd_buf xs off 2)"

definition get32 :: "byte list \<Rightarrow> nat \<Rightarrow> u32 option" where
  "get32 xs off = map_option of_be32 (rd_buf xs off 4)"

lemma length_be16 [simp, wire_simps]: "length (be16 w) = 2"
  by (simp add: be16_def)

lemma length_be32 [simp, wire_simps]: "length (be32 w) = 4"
  by (simp add: be32_def)

lemma of_be16_be16 [simp, wire_simps]: "of_be16 (be16 w) = w"
  unfolding be16_def of_be16.simps
  by (rule bit_word_eqI) (auto simp: bit_simps)

lemma of_be32_be32 [simp, wire_simps]: "of_be32 (be32 w) = w"
proof (rule bit_word_eqI)
  fix n assume "n < LENGTH(32)"
  show "bit (of_be32 (be32 w)) n = bit w n"
    by (cases "n < 8"; cases "n < 16"; cases "n < 24")
       (use \<open>n < LENGTH(32)\<close> in \<open>auto simp: be32_def bit_simps\<close>)
qed

lemma be16_inject [simp]: "be16 v = be16 w \<longleftrightarrow> v = w"
  by (metis of_be16_be16)

lemma be32_inject [simp]: "be32 v = be32 w \<longleftrightarrow> v = w"
  by (metis of_be32_be32)

lemma get16_be16 [wire_simps]: "off = length pre \<Longrightarrow> get16 (pre @ be16 w @ post) off = Some w"
  by (simp add: get16_def)

lemma get32_be32 [wire_simps]: "off = length pre \<Longrightarrow> get32 (pre @ be32 w @ post) off = Some w"
  by (simp add: get32_def)

lemma get16_None_iff: "get16 xs off = None \<longleftrightarrow> length xs < off + 2"
  by (auto simp: get16_def rd_buf_def)

lemma get32_None_iff: "get32 xs off = None \<longleftrightarrow> length xs < off + 4"
  by (auto simp: get32_def rd_buf_def)

subsection \<open>The byte order of the host does not matter\<close>

text \<open>
  The C code stores \<open>htons(v)\<close> through a \<open>uint16_t *\<close> and reads it back through
  \<open>ntohs\<close>. On either kind of host that is \<open>be16 v\<close>, which the model writes directly.
\<close>

datatype endian = Little | Big

definition store16 :: "endian \<Rightarrow> u16 \<Rightarrow> byte list" where
  "store16 e w = (case e of Big \<Rightarrow> [ucast (drop_bit 8 w), ucast w]
                          | Little \<Rightarrow> [ucast w, ucast (drop_bit 8 w)])"

definition store32 :: "endian \<Rightarrow> u32 \<Rightarrow> byte list" where
  "store32 e w =
     (let bs = [ucast (drop_bit 24 w), ucast (drop_bit 16 w), ucast (drop_bit 8 w), ucast w]
      in case e of Big \<Rightarrow> bs | Little \<Rightarrow> rev bs)"

definition htons :: "endian \<Rightarrow> u16 \<Rightarrow> u16" where
  "htons e w = (case e of Big \<Rightarrow> w | Little \<Rightarrow> push_bit 8 w OR drop_bit 8 w)"

definition htonl :: "endian \<Rightarrow> u32 \<Rightarrow> u32" where
  "htonl e w = (case e of Big \<Rightarrow> w
     | Little \<Rightarrow> push_bit 24 w OR push_bit 8 (w AND 0xFF00) OR
               (drop_bit 8 w AND 0xFF00) OR drop_bit 24 w)"

lemma store16_htons: "store16 e (htons e w) = be16 w"
proof (cases e)
  case Little
  have hi: "(ucast (push_bit 8 w OR drop_bit 8 w) :: byte) = ucast (drop_bit 8 w)"
    by (rule bit_word_eqI) (auto simp: bit_simps)
  have lo: "(ucast (drop_bit 8 (push_bit 8 w OR drop_bit 8 w)) :: byte) = ucast w"
    by (rule bit_word_eqI) (auto simp: bit_simps)
  show ?thesis unfolding Little store16_def htons_def be16_def endian.case by (simp only: hi lo)
next
  case Big
  then show ?thesis by (simp add: store16_def htons_def be16_def)
qed

lemma find_skip: "find P xs = None \<Longrightarrow> find P (xs @ ys) = find P ys"
  by (induction xs) (auto split: if_splits)

end
