(* ===== verification/Intrusive_List.thy ===== *)
theory Intrusive_List
  imports Prelude
begin

text \<open>
  Intrusive doubly linked lists: nodes that carry their own \<open>next\<close> and \<open>previous\<close>
  pointers, reached from a head and a tail pointer kept by an owner. Packets chain their fields
  this way, and fields chain their entries. The locale \<open>links\<close> states what both node types
  provide (readable and writable links, a payload the link writes leave alone) and proves once
  what linking a node at the tail or at the head does to the chain.
\<close>

section \<open>Segments\<close>

text \<open>
  \<open>dlseg nx pv m bk p as q lst\<close>: in the store \<open>m\<close> the pointer \<open>p\<close> leads
  through the initialised nodes \<open>as\<close> to \<open>q\<close>; every \<open>previous\<close> pointer is the
  node before it, \<open>bk\<close> for the first one; \<open>lst\<close> is the last node (\<open>bk\<close> if
  there is none).
\<close>

fun dlseg :: "('n \<Rightarrow> ptr) \<Rightarrow> ('n \<Rightarrow> ptr) \<Rightarrow> (addr \<rightharpoonup> 'n option) \<Rightarrow>
    ptr \<Rightarrow> ptr \<Rightarrow> addr list \<Rightarrow> ptr \<Rightarrow> ptr \<Rightarrow> bool" where
  "dlseg nx pv m bk p [] q lst \<longleftrightarrow> p = q \<and> lst = bk"
| "dlseg nx pv m bk p (a # as) q lst \<longleftrightarrow>
     p = Some a \<and> (\<exists>n. m a = Some (Some n) \<and> pv n = bk \<and> dlseg nx pv m (Some a) (nx n) as q lst)"

lemma dlseg_append [simp]:
  "dlseg nx pv m bk p (as @ bs) q lst \<longleftrightarrow>
     (\<exists>r mid. dlseg nx pv m bk p as r mid \<and> dlseg nx pv m mid r bs q lst)"
  by (induction as arbitrary: bk p) auto

lemma dlseg_cong:
  "(\<And>a. a \<in> set as \<Longrightarrow> m' a = m a) \<Longrightarrow>
     dlseg nx pv m' bk p as q lst = dlseg nx pv m bk p as q lst"
  by (induction as arbitrary: bk p) auto

lemma dlseg_dom: "dlseg nx pv m bk p as q lst \<Longrightarrow> a \<in> set as \<Longrightarrow> \<exists>n. m a = Some (Some n)"
  by (induction as arbitrary: bk p) auto

lemma dlseg_last:
  "dlseg nx pv m bk p as q lst \<Longrightarrow> lst = (if as = [] then bk else Some (last as))"
  by (induction as arbitrary: bk p) auto

lemma dlseg_first:
  "dlseg nx pv m bk p as q lst \<Longrightarrow> p = (if as = [] then q else Some (hd as))"
  by (cases as) auto

lemma dlseg_head_None: "dlseg nx pv m None p as None lst \<Longrightarrow> p = None \<longleftrightarrow> as = []"
  by (cases as) auto

lemma dlseg_tail_None: "dlseg nx pv m None p as None lst \<Longrightarrow> lst = None \<longleftrightarrow> as = []"
  by (drule dlseg_last) auto

section \<open>The link interface\<close>

locale links =
  fixes nx :: "'n \<Rightarrow> ptr" and pv :: "'n \<Rightarrow> ptr"
    and set_nx :: "ptr \<Rightarrow> 'n \<Rightarrow> 'n" and set_pv :: "ptr \<Rightarrow> 'n \<Rightarrow> 'n"
    and pay :: "'n \<Rightarrow> 'v"
  assumes nx_set_nx: "nx (set_nx p n) = p"
    and nx_set_pv: "nx (set_pv p n) = nx n"
    and pv_set_nx: "pv (set_nx p n) = pv n"
    and pv_set_pv: "pv (set_pv p n) = p"
    and pay_set_nx: "pay (set_nx p n) = pay n"
    and pay_set_pv: "pay (set_pv p n) = pay n"
begin

lemmas link_laws = nx_set_nx nx_set_pv pv_set_nx pv_set_pv pay_set_nx pay_set_pv

lemma dlseg_relink_last:
  assumes "dlseg nx pv m bk p (as @ [t]) q lst" and "m t = Some (Some k)" and "t \<notin> set as"
  shows "dlseg nx pv (m(t \<mapsto> Some (set_nx r k))) bk p (as @ [t]) r (Some t)"
proof -
  have eq: "dlseg nx pv (m(t \<mapsto> Some (set_nx r k))) bk p as s mid = dlseg nx pv m bk p as s mid" for s mid
    using assms(3) by (intro dlseg_cong) auto
  show ?thesis using assms(1,2) by (auto simp: eq link_laws)
qed

lemma dlseg_relink_first:
  assumes "dlseg nx pv m bk p (a # as) q lst" and "m a = Some (Some k)" and "a \<notin> set as"
  shows "dlseg nx pv (m(a \<mapsto> Some (set_pv bk' k))) bk' p (a # as) q lst"
proof -
  have eq: "dlseg nx pv (m(a \<mapsto> Some (set_pv bk' k))) (Some a) s as q l = dlseg nx pv m (Some a) s as q l" for s l
    using assms(3) by (intro dlseg_cong) auto
  show ?thesis using assms(1,2) by (auto simp: eq link_laws)
qed

text \<open>Linking \<open>x\<close> behind a non-empty chain.\<close>

lemma dlseg_link_tail:
  assumes seg: "dlseg nx pv m None p as None (Some t)"
    and x: "x \<notin> set as" "m x = Some (Some n)" "nx n = None" and dist: "distinct as"
    and t: "m t = Some (Some k)"
  shows "dlseg nx pv (m(x \<mapsto> Some (set_pv (Some t) n), t \<mapsto> Some (set_nx (Some x) k)))
           None p (as @ [x]) None (Some x)"
proof -
  from seg have "as \<noteq> []" by (auto dest: dlseg_last)
  then obtain bs where as: "as = bs @ [t]"
    using dlseg_last [OF seg] by (metis append_butlast_last_id option.inject)
  let ?m1 = "m(x \<mapsto> Some (set_pv (Some t) n))"
  have "dlseg nx pv ?m1 None p (bs @ [t]) None (Some t)"
    using seg x(1) unfolding as by (subst dlseg_cong) auto
  moreover have "?m1 t = Some (Some k)" using x(1) t as by auto
  ultimately have "dlseg nx pv (?m1(t \<mapsto> Some (set_nx (Some x) k))) None p (bs @ [t]) (Some x) (Some t)"
    using dist as by (intro dlseg_relink_last) auto
  with x as show ?thesis by (auto simp: link_laws)
qed

text \<open>Linking \<open>x\<close> in front of a non-empty chain.\<close>

lemma dlseg_link_head:
  assumes seg: "dlseg nx pv m None (Some a) as None l"
    and x: "x \<notin> set as" "m x = Some (Some n)" "pv n = None" and dist: "distinct as"
    and a: "m a = Some (Some k)"
  shows "dlseg nx pv (m(x \<mapsto> Some (set_nx (Some a) n), a \<mapsto> Some (set_pv (Some x) k)))
           None (Some x) (x # as) None l"
proof -
  obtain bs where as: "as = a # bs" using seg by (cases as) auto
  let ?m1 = "m(x \<mapsto> Some (set_nx (Some a) n))"
  have "dlseg nx pv ?m1 None (Some a) (a # bs) None l"
    using seg x(1) unfolding as by (subst dlseg_cong) auto
  moreover have "?m1 a = Some (Some k)" using x(1) a as by auto
  ultimately have "dlseg nx pv (?m1(a \<mapsto> Some (set_pv (Some x) k))) (Some x) (Some a) (a # bs) None l"
    using dist as by (intro dlseg_relink_first) auto
  with x as show ?thesis by (auto simp: link_laws)
qed

lemma dlseg_link_only:
  assumes "m x = Some (Some n)" and "nx n = None" and "pv n = None"
  shows "dlseg nx pv (m(x \<mapsto> Some (set_pv None n))) None (Some x) [x] None (Some x)"
    and "dlseg nx pv (m(x \<mapsto> Some (set_nx None n))) None (Some x) [x] None (Some x)"
  using assms by (auto simp: link_laws)

end

end
