(* ===== verification/Store.thy ===== *)
theory Store
  imports Intrusive_List
begin

text \<open>
  The memory the packet code works on: \<open>malloc\<close>ed field, entry and data objects and the
  packets that own them, with the structs of \<open>include/srvd/protocol/packet.h\<close>.

  Each kind of object has its own map from addresses. An address maps to nothing while the object
  is not allocated, to \<open>Some None\<close> while it is allocated and not yet written, and to its
  contents afterwards. Reading an object in one of the first two states, writing or releasing one
  in the first, is undefined behaviour. Addresses are handed out by a counter and never reused, so
  a stale pointer stays recognisable. Whether the \<open>k\<close>-th call of \<open>malloc\<close> fails is
  \<open>oom h k\<close>, so a theorem about every store is a theorem about every pattern of failures.
\<close>

section \<open>The structs\<close>

datatype mutex = Destroyed | Unlocked | Locked

record pentry =
  e_size :: u16
  e_data :: ptr
  e_next :: ptr
  e_previous :: ptr

record pfield =
  entry_count :: u16
  entry_lock :: mutex
  entry_head :: ptr
  entry_tail :: ptr
  f_type :: u16
  f_next :: ptr
  f_previous :: ptr

record packet =
  field_count :: u16
  field_lock :: mutex
  field_head :: ptr
  field_tail :: ptr

record heap =
  ents :: "addr \<rightharpoonup> pentry option"
  flds :: "addr \<rightharpoonup> pfield option"
  pkts :: "addr \<rightharpoonup> packet option"
  blks :: "addr \<rightharpoonup> byte list"
  brk :: nat
  oom :: "nat \<Rightarrow> bool"

section \<open>Allocation\<close>

text \<open>Every call of \<open>malloc\<close> consumes one number, whether it succeeds or not.\<close>

definition malloc_entry :: "heap \<Rightarrow> ptr \<times> heap" where
  "malloc_entry h = (let a = brk h; h' = h\<lparr>brk := Suc a\<rparr> in
     if oom h a then (None, h') else (Some a, h'\<lparr>ents := (ents h)(a \<mapsto> None)\<rparr>))"

definition malloc_field :: "heap \<Rightarrow> ptr \<times> heap" where
  "malloc_field h = (let a = brk h; h' = h\<lparr>brk := Suc a\<rparr> in
     if oom h a then (None, h') else (Some a, h'\<lparr>flds := (flds h)(a \<mapsto> None)\<rparr>))"

definition malloc_packet :: "heap \<Rightarrow> ptr \<times> heap" where
  "malloc_packet h = (let a = brk h; h' = h\<lparr>brk := Suc a\<rparr> in
     if oom h a then (None, h') else (Some a, h'\<lparr>pkts := (pkts h)(a \<mapsto> None)\<rparr>))"

text \<open>The bytes of a new data block are unspecified; the code writes them all before it reads any.\<close>

definition malloc_block :: "nat \<Rightarrow> heap \<Rightarrow> ptr \<times> heap" where
  "malloc_block n h = (let a = brk h; h' = h\<lparr>brk := Suc a\<rparr> in
     if oom h a then (None, h') else (Some a, h'\<lparr>blks := (blks h)(a \<mapsto> replicate n 0)\<rparr>))"

text \<open>A local variable of packet type: an allocation that cannot fail.\<close>

definition local_packet :: "heap \<Rightarrow> ptr \<times> heap" where
  "local_packet h = (Some (brk h), h\<lparr>brk := Suc (brk h), pkts := (pkts h)(brk h \<mapsto> None)\<rparr>)"

section \<open>Reads, writes and release\<close>

definition deref :: "(addr \<rightharpoonup> 'n option) \<Rightarrow> ptr \<Rightarrow> 'n option" where
  "deref m p = (case p of None \<Rightarrow> None | Some a \<Rightarrow> (case m a of Some (Some n) \<Rightarrow> Some n | _ \<Rightarrow> None))"

definition rd_entry :: "ptr \<Rightarrow> heap \<Rightarrow> pentry option" where
  "rd_entry p h = deref (ents h) p"

definition rd_field :: "ptr \<Rightarrow> heap \<Rightarrow> pfield option" where
  "rd_field p h = deref (flds h) p"

definition rd_packet :: "ptr \<Rightarrow> heap \<Rightarrow> packet option" where
  "rd_packet p h = deref (pkts h) p"

definition assign :: "ptr \<Rightarrow> 'n \<Rightarrow> (addr \<rightharpoonup> 'n option) \<Rightarrow> (addr \<rightharpoonup> 'n option) option" where
  "assign p n m = (case p of None \<Rightarrow> None
     | Some a \<Rightarrow> (if m a = None then None else Some (m(a \<mapsto> Some n))))"

definition put_entry :: "ptr \<Rightarrow> pentry \<Rightarrow> heap \<Rightarrow> heap option" where
  "put_entry p n h = map_option (\<lambda>m. h\<lparr>ents := m\<rparr>) (assign p n (ents h))"

definition put_field :: "ptr \<Rightarrow> pfield \<Rightarrow> heap \<Rightarrow> heap option" where
  "put_field p f h = map_option (\<lambda>m. h\<lparr>flds := m\<rparr>) (assign p f (flds h))"

definition put_packet :: "ptr \<Rightarrow> packet \<Rightarrow> heap \<Rightarrow> heap option" where
  "put_packet p k h = map_option (\<lambda>m. h\<lparr>pkts := m\<rparr>) (assign p k (pkts h))"

definition upd_entry :: "ptr \<Rightarrow> (pentry \<Rightarrow> pentry) \<Rightarrow> heap \<Rightarrow> heap option" where
  "upd_entry p g h = do { n \<leftarrow> rd_entry p h; put_entry p (g n) h }"

definition upd_field :: "ptr \<Rightarrow> (pfield \<Rightarrow> pfield) \<Rightarrow> heap \<Rightarrow> heap option" where
  "upd_field p g h = do { f \<leftarrow> rd_field p h; put_field p (g f) h }"

definition upd_packet :: "ptr \<Rightarrow> (packet \<Rightarrow> packet) \<Rightarrow> heap \<Rightarrow> heap option" where
  "upd_packet p g h = do { k \<leftarrow> rd_packet p h; put_packet p (g k) h }"

definition rd_block :: "ptr \<Rightarrow> nat \<Rightarrow> nat \<Rightarrow> heap \<Rightarrow> byte list option" where
  "rd_block p off n h = (case p of None \<Rightarrow> None
     | Some a \<Rightarrow> do { bs \<leftarrow> blks h a; rd_buf bs off n })"

definition wr_block :: "ptr \<Rightarrow> nat \<Rightarrow> byte list \<Rightarrow> heap \<Rightarrow> heap option" where
  "wr_block p off ys h = (case p of None \<Rightarrow> None
     | Some a \<Rightarrow> do { bs \<leftarrow> blks h a; bs' \<leftarrow> wr_buf bs off ys;
                       Some (h\<lparr>blks := (blks h)(a \<mapsto> bs')\<rparr>) })"

text \<open>\<open>free(NULL)\<close> does nothing; releasing what is not allocated is undefined.\<close>

definition release :: "ptr \<Rightarrow> (addr \<rightharpoonup> 'n) \<Rightarrow> (addr \<rightharpoonup> 'n) option" where
  "release p m = (case p of None \<Rightarrow> Some m | Some a \<Rightarrow> (if m a = None then None else Some (m(a := None))))"

definition free_entry :: "ptr \<Rightarrow> heap \<Rightarrow> heap option" where
  "free_entry p h = map_option (\<lambda>m. h\<lparr>ents := m\<rparr>) (release p (ents h))"

definition free_field :: "ptr \<Rightarrow> heap \<Rightarrow> heap option" where
  "free_field p h = map_option (\<lambda>m. h\<lparr>flds := m\<rparr>) (release p (flds h))"

definition free_packet :: "ptr \<Rightarrow> heap \<Rightarrow> heap option" where
  "free_packet p h = map_option (\<lambda>m. h\<lparr>pkts := m\<rparr>) (release p (pkts h))"

definition free_block :: "ptr \<Rightarrow> heap \<Rightarrow> heap option" where
  "free_block p h = map_option (\<lambda>m. h\<lparr>blks := m\<rparr>) (release p (blks h))"

text \<open>\<open>memcpy\<close> reads \<open>n\<close> bytes from the source, which must hold that many.\<close>

definition memcpy_bytes :: "nat \<Rightarrow> byte list option \<Rightarrow> byte list option" where
  "memcpy_bytes n src = (case src of None \<Rightarrow> (if n = 0 then Some [] else None)
     | Some bs \<Rightarrow> rd_buf bs 0 n)"

section \<open>Locks\<close>

text \<open>
  The mutexes are not recursive: a thread that locks one it holds never returns, and unlocking or
  destroying one in the wrong state is undefined.
\<close>

definition lock_mutex :: "mutex \<Rightarrow> mutex option" where
  "lock_mutex m = (if m = Unlocked then Some Locked else None)"

definition unlock_mutex :: "mutex \<Rightarrow> mutex option" where
  "unlock_mutex m = (if m = Locked then Some Unlocked else None)"

definition destroy_mutex :: "mutex \<Rightarrow> mutex option" where
  "destroy_mutex m = (if m = Unlocked then Some Destroyed else None)"

definition with_entry_lock :: "(mutex \<Rightarrow> mutex option) \<Rightarrow> ptr \<Rightarrow> heap \<Rightarrow> heap option" where
  "with_entry_lock g p h = do {
     f \<leftarrow> rd_field p h;
     l \<leftarrow> g (entry_lock f);
     put_field p (f\<lparr>entry_lock := l\<rparr>) h }"

definition with_field_lock :: "(mutex \<Rightarrow> mutex option) \<Rightarrow> ptr \<Rightarrow> heap \<Rightarrow> heap option" where
  "with_field_lock g p h = do {
     k \<leftarrow> rd_packet p h;
     l \<leftarrow> g (field_lock k);
     put_packet p (k\<lparr>field_lock := l\<rparr>) h }"

section \<open>Rules for symbolic execution\<close>

lemma deref_Some [simp]: "deref m (Some a) = Some n \<longleftrightarrow> m a = Some (Some n)"
  by (auto simp: deref_def split: option.splits)

lemma deref_at [mem_simps]: "m a = Some (Some n) \<Longrightarrow> deref m (Some a) = Some n"
  by simp

lemma deref_None [simp, mem_simps]: "deref m None = None"
  by (simp add: deref_def)

lemma deref_gone [mem_simps]: "m a = None \<Longrightarrow> deref m (Some a) = None"
  by (simp add: deref_def)

lemma deref_raw [mem_simps]: "m a = Some None \<Longrightarrow> deref m (Some a) = None"
  by (simp add: deref_def)

lemma assign_at [mem_simps]: "m a = Some c \<Longrightarrow> assign (Some a) n m = Some (m(a \<mapsto> Some n))"
  by (simp add: assign_def)

lemma release_at [mem_simps]: "m a = Some c \<Longrightarrow> release (Some a) m = Some (m(a := None))"
  by (simp add: release_def)

lemma release_gone [mem_simps]: "m a = None \<Longrightarrow> release (Some a) m = None"
  by (simp add: release_def)

lemma release_NULL [simp, mem_simps]: "release None m = Some m"
  by (simp add: release_def)

lemmas access_defs = rd_entry_def rd_field_def rd_packet_def put_entry_def put_field_def
  put_packet_def upd_entry_def upd_field_def upd_packet_def free_entry_def free_field_def
  free_packet_def free_block_def with_entry_lock_def with_field_lock_def lock_mutex_def
  unlock_mutex_def destroy_mutex_def

declare access_defs [mem_simps]

lemma wr_block_at [mem_simps]:
  "blks h a = Some bs \<Longrightarrow> wr_buf bs off ys = Some bs' \<Longrightarrow>
     wr_block (Some a) off ys h = Some (h\<lparr>blks := (blks h)(a \<mapsto> bs')\<rparr>)"
  by (simp add: wr_block_def)

lemma rd_block_at [mem_simps]:
  "blks h a = Some bs \<Longrightarrow> rd_block (Some a) off n h = rd_buf bs off n"
  by (simp add: rd_block_def)

subsection \<open>Well-formed stores\<close>

text \<open>Every allocated object has a number the counter has passed.\<close>

definition heap_ok :: "heap \<Rightarrow> bool" where
  "heap_ok h \<longleftrightarrow> (\<forall>a \<ge> brk h. ents h a = None \<and> flds h a = None \<and>
                            pkts h a = None \<and> blks h a = None)"

lemma heap_okD:
  "heap_ok h \<Longrightarrow> brk h \<le> a \<Longrightarrow>
     ents h a = None \<and> flds h a = None \<and> pkts h a = None \<and> blks h a = None"
  by (simp add: heap_ok_def)

lemma heap_ok_below:
  "heap_ok h \<Longrightarrow> ents h a \<noteq> None \<or> flds h a \<noteq> None \<or> pkts h a \<noteq> None \<or> blks h a \<noteq> None
     \<Longrightarrow> a < brk h"
  by (meson heap_okD not_less)

interpretation entry_links: links e_next e_previous "\<lambda>p. e_next_update (\<lambda>_. p)"
    "\<lambda>p. e_previous_update (\<lambda>_. p)" "\<lambda>n. (e_size n, e_data n)"
  by unfold_locales simp_all

interpretation field_links: links f_next f_previous "\<lambda>p. f_next_update (\<lambda>_. p)"
    "\<lambda>p. f_previous_update (\<lambda>_. p)"
    "\<lambda>f. (entry_count f, entry_lock f, entry_head f, entry_tail f, f_type f)"
  by unfold_locales simp_all

end
