(* ===== verification/Packet.thy ===== *)
theory Packet
  imports Store
begin

text \<open>
  The packet structure: \<open>lib/srvd/libsrvd/protocol/packet.c\<close> and the inline functions of
  \<open>include/srvd/protocol/packet.h\<close>, operation by operation, over the store.

  A pointer argument is a \<open>ptr\<close> and its NULL guard is the first test of the operation, as in
  the code. An out parameter \<open>T **out\<close> is an option: \<open>None\<close> is a NULL \<open>out\<close>,
  \<open>Some v\<close> points to a variable that holds \<open>v\<close>; the operation returns its new value.
  A \<open>const void *data\<close> is the bytes readable from that address, \<open>None\<close> for NULL.
\<close>

section \<open>Packets: allocation, initialisation, release\<close>

definition SRVD_PROTOCOL_NONE :: u16 where "SRVD_PROTOCOL_NONE = 0"

definition srvd_protocol_packet_allocate :: "heap \<Rightarrow> ptr \<times> heap" where
  "srvd_protocol_packet_allocate h = malloc_packet h"

definition srvd_protocol_packet_free :: "ptr \<Rightarrow> heap \<Rightarrow> heap option" where
  "srvd_protocol_packet_free packet h = (if packet = None then Some h else free_packet packet h)"

definition srvd_protocol_packet_initialize :: "ptr \<Rightarrow> heap \<Rightarrow> (bool \<times> heap) option" where
  "srvd_protocol_packet_initialize packet h =
     (if packet = None then Some (False, h)
      else do {
        h \<leftarrow> put_packet packet \<lparr>field_count = 0, field_lock = Unlocked,
                                field_head = None, field_tail = None\<rparr> h;
        Some (True, h) })"

section \<open>Fields and their entries\<close>

definition srvd_protocol_packet_field_allocate :: "heap \<Rightarrow> ptr \<times> heap" where
  "srvd_protocol_packet_field_allocate h = malloc_field h"

definition srvd_protocol_packet_field_free :: "ptr \<Rightarrow> heap \<Rightarrow> heap option" where
  "srvd_protocol_packet_field_free field h = (if field = None then Some h else free_field field h)"

definition srvd_protocol_packet_field_initialize :: "ptr \<Rightarrow> u16 \<Rightarrow> heap \<Rightarrow> (bool \<times> heap) option" where
  "srvd_protocol_packet_field_initialize field ty h =
     (if field = None then Some (False, h)
      else do {
        h \<leftarrow> put_field field \<lparr>entry_count = 0, entry_lock = Unlocked, entry_head = None,
               entry_tail = None, f_type = ty, f_next = None, f_previous = None\<rparr> h;
        Some (True, h) })"

text \<open>The loop that releases the entries of a field: \<open>next\<close> is read before the entry goes.\<close>

partial_function (option) field_finalize_entries :: "ptr \<Rightarrow> heap \<Rightarrow> heap option" where
  "field_finalize_entries i h =
     (if i = None then Some h
      else do {
        n \<leftarrow> rd_entry i h;
        h \<leftarrow> (if e_data n \<noteq> None then free_block (e_data n) h else Some h);
        h \<leftarrow> free_entry i h;
        field_finalize_entries (e_next n) h })"

definition srvd_protocol_packet_field_finalize :: "ptr \<Rightarrow> heap \<Rightarrow> (bool \<times> heap) option" where
  "srvd_protocol_packet_field_finalize field h =
     (if field = None then Some (False, h)
      else do {
        f \<leftarrow> rd_field field h;
        h \<leftarrow> field_finalize_entries (entry_head f) h;
        h \<leftarrow> upd_field field (entry_count_update (\<lambda>_. 0)) h;
        h \<leftarrow> with_entry_lock destroy_mutex field h;
        h \<leftarrow> upd_field field (\<lambda>f. f\<lparr>f_type := SRVD_PROTOCOL_NONE, entry_head := None,
               entry_tail := None, f_next := None, f_previous := None\<rparr>) h;
        Some (True, h) })"

partial_function (option) packet_finalize_fields :: "ptr \<Rightarrow> heap \<Rightarrow> heap option" where
  "packet_finalize_fields i h =
     (if i = None then Some h
      else do {
        f \<leftarrow> rd_field i h;
        (_, h) \<leftarrow> srvd_protocol_packet_field_finalize i h;
        h \<leftarrow> srvd_protocol_packet_field_free i h;
        packet_finalize_fields (f_next f) h })"

definition srvd_protocol_packet_finalize :: "ptr \<Rightarrow> heap \<Rightarrow> (bool \<times> heap) option" where
  "srvd_protocol_packet_finalize packet h =
     (if packet = None then Some (False, h)
      else do {
        k \<leftarrow> rd_packet packet h;
        h \<leftarrow> packet_finalize_fields (field_head k) h;
        h \<leftarrow> upd_packet packet (field_count_update (\<lambda>_. 0)) h;
        h \<leftarrow> with_field_lock destroy_mutex packet h;
        h \<leftarrow> upd_packet packet (\<lambda>k. k\<lparr>field_head := None, field_tail := None\<rparr>) h;
        Some (True, h) })"

text \<open>
  The part that adding and injecting an entry share: the guards on size and data, the entry
  object, the copy of the data. The result is the entry, or \<open>NULL\<close> when the caller returns
  \<open>SRVD_FALSE\<close>. When the data block cannot be allocated the entry object stays allocated.
\<close>

definition entry_create :: "u16 \<Rightarrow> byte list option \<Rightarrow> heap \<Rightarrow> (ptr \<times> heap) option" where
  "entry_create sz data h =
     (if sz = 0 \<and> data \<noteq> None then Some (None, h)
      else if sz \<noteq> 0 \<and> data = None then Some (None, h)
      else let (entry, h) = malloc_entry h in
        if entry = None then Some (None, h)
        else if sz > 0 then
          let (blk, h) = malloc_block (unat sz) h in
          if blk = None then Some (None, h)
          else do {
            bs \<leftarrow> memcpy_bytes (unat sz) data;
            h \<leftarrow> wr_block blk 0 bs h;
            h \<leftarrow> put_entry entry \<lparr>e_size = sz, e_data = blk, e_next = None, e_previous = None\<rparr> h;
            Some (entry, h) }
        else do {
          h \<leftarrow> put_entry entry \<lparr>e_size = sz, e_data = None, e_next = None, e_previous = None\<rparr> h;
          Some (entry, h) })"

definition entry_link_tail :: "ptr \<Rightarrow> ptr \<Rightarrow> heap \<Rightarrow> heap option" where
  "entry_link_tail field entry h = do {
     f \<leftarrow> rd_field field h;
     h \<leftarrow> (if entry_head f = None then upd_field field (entry_head_update (\<lambda>_. entry)) h else Some h);
     h \<leftarrow> upd_entry entry (e_previous_update (\<lambda>_. entry_tail f)) h;
     n \<leftarrow> rd_entry entry h;
     h \<leftarrow> (if e_previous n \<noteq> None then upd_entry (e_previous n) (e_next_update (\<lambda>_. entry)) h else Some h);
     h \<leftarrow> upd_field field (entry_tail_update (\<lambda>_. entry)) h;
     upd_field field (\<lambda>f. f\<lparr>entry_count := entry_count f + 1\<rparr>) h }"

definition entry_link_head :: "ptr \<Rightarrow> ptr \<Rightarrow> heap \<Rightarrow> heap option" where
  "entry_link_head field entry h = do {
     f \<leftarrow> rd_field field h;
     h \<leftarrow> (if entry_tail f = None then upd_field field (entry_tail_update (\<lambda>_. entry)) h else Some h);
     h \<leftarrow> upd_entry entry (e_next_update (\<lambda>_. entry_head f)) h;
     n \<leftarrow> rd_entry entry h;
     h \<leftarrow> (if e_next n \<noteq> None then upd_entry (e_next n) (e_previous_update (\<lambda>_. entry)) h else Some h);
     h \<leftarrow> upd_field field (entry_head_update (\<lambda>_. entry)) h;
     upd_field field (\<lambda>f. f\<lparr>entry_count := entry_count f + 1\<rparr>) h }"

definition srvd_protocol_packet_field_entry_add ::
    "ptr \<Rightarrow> u16 \<Rightarrow> byte list option \<Rightarrow> heap \<Rightarrow> (bool \<times> heap) option" where
  "srvd_protocol_packet_field_entry_add field sz data h =
     (if field = None then Some (False, h)
      else do {
        (entry, h) \<leftarrow> entry_create sz data h;
        if entry = None then Some (False, h)
        else do {
          h \<leftarrow> with_entry_lock lock_mutex field h;
          h \<leftarrow> entry_link_tail field entry h;
          h \<leftarrow> with_entry_lock unlock_mutex field h;
          Some (True, h) } })"

definition srvd_protocol_packet_field_entry_inject ::
    "ptr \<Rightarrow> u16 \<Rightarrow> byte list option \<Rightarrow> heap \<Rightarrow> (bool \<times> heap) option" where
  "srvd_protocol_packet_field_entry_inject field sz data h =
     (if field = None then Some (False, h)
      else do {
        (entry, h) \<leftarrow> entry_create sz data h;
        if entry = None then Some (False, h)
        else do {
          h \<leftarrow> with_entry_lock lock_mutex field h;
          h \<leftarrow> entry_link_head field entry h;
          h \<leftarrow> with_entry_lock unlock_mutex field h;
          Some (True, h) } })"

partial_function (option) entry_find_offset :: "ptr \<Rightarrow> u16 \<Rightarrow> u16 \<Rightarrow> heap \<Rightarrow> ptr option" where
  "entry_find_offset i c offset h =
     (if i = None then Some None
      else if c = offset then Some i
      else do { n \<leftarrow> rd_entry i h; entry_find_offset (e_next n) (c + 1) offset h })"

definition srvd_protocol_packet_field_entry_get ::
    "ptr \<Rightarrow> u16 \<Rightarrow> ptr option \<Rightarrow> heap \<Rightarrow> (bool \<times> ptr option) option" where
  "srvd_protocol_packet_field_entry_get field offset entry h =
     (if field = None then Some (False, entry)
      else if entry = None then Some (False, entry)
      else if entry \<noteq> Some None then Some (False, entry)
      else do {
        f \<leftarrow> rd_field field h;
        if \<not> offset < entry_count f then Some (False, entry)
        else do {
          i \<leftarrow> entry_find_offset (entry_head f) 0 offset h;
          if i \<noteq> None then Some (True, Some i) else Some (False, entry) } })"

section \<open>Linking fields into packets\<close>

definition srvd_protocol_packet_field_add_locked :: "ptr \<Rightarrow> ptr \<Rightarrow> heap \<Rightarrow> heap option" where
  "srvd_protocol_packet_field_add_locked packet field h = do {
     k \<leftarrow> rd_packet packet h;
     h \<leftarrow> (if field_head k = None then upd_packet packet (field_head_update (\<lambda>_. field)) h else Some h);
     h \<leftarrow> upd_field field (f_previous_update (\<lambda>_. field_tail k)) h;
     f \<leftarrow> rd_field field h;
     h \<leftarrow> (if f_previous f \<noteq> None then upd_field (f_previous f) (f_next_update (\<lambda>_. field)) h else Some h);
     h \<leftarrow> upd_packet packet (field_tail_update (\<lambda>_. field)) h;
     upd_packet packet (\<lambda>k. k\<lparr>field_count := field_count k + 1\<rparr>) h }"

definition srvd_protocol_packet_field_inject_locked :: "ptr \<Rightarrow> ptr \<Rightarrow> heap \<Rightarrow> heap option" where
  "srvd_protocol_packet_field_inject_locked packet field h = do {
     k \<leftarrow> rd_packet packet h;
     h \<leftarrow> (if field_tail k = None then upd_packet packet (field_tail_update (\<lambda>_. field)) h else Some h);
     h \<leftarrow> upd_field field (f_next_update (\<lambda>_. field_head k)) h;
     f \<leftarrow> rd_field field h;
     h \<leftarrow> (if f_next f \<noteq> None then upd_field (f_next f) (f_previous_update (\<lambda>_. field)) h else Some h);
     h \<leftarrow> upd_packet packet (field_head_update (\<lambda>_. field)) h;
     upd_packet packet (\<lambda>k. k\<lparr>field_count := field_count k + 1\<rparr>) h }"

definition srvd_protocol_packet_field_add :: "ptr \<Rightarrow> ptr \<Rightarrow> heap \<Rightarrow> (bool \<times> heap) option" where
  "srvd_protocol_packet_field_add packet field h =
     (if packet = None then Some (False, h)
      else if field = None then Some (False, h)
      else do {
        h \<leftarrow> with_field_lock lock_mutex packet h;
        h \<leftarrow> srvd_protocol_packet_field_add_locked packet field h;
        h \<leftarrow> with_field_lock unlock_mutex packet h;
        Some (True, h) })"

definition srvd_protocol_packet_field_inject :: "ptr \<Rightarrow> ptr \<Rightarrow> heap \<Rightarrow> (bool \<times> heap) option" where
  "srvd_protocol_packet_field_inject packet field h =
     (if packet = None then Some (False, h)
      else if field = None then Some (False, h)
      else do {
        h \<leftarrow> with_field_lock lock_mutex packet h;
        h \<leftarrow> srvd_protocol_packet_field_inject_locked packet field h;
        h \<leftarrow> with_field_lock unlock_mutex packet h;
        Some (True, h) })"

section \<open>Looking fields up\<close>

partial_function (option) field_find_offset :: "ptr \<Rightarrow> u16 \<Rightarrow> u16 \<Rightarrow> heap \<Rightarrow> ptr option" where
  "field_find_offset i c offset h =
     (if i = None then Some None
      else if c = offset then Some i
      else do { f \<leftarrow> rd_field i h; field_find_offset (f_next f) (c + 1) offset h })"

definition srvd_protocol_packet_field_get_by_offset ::
    "ptr \<Rightarrow> u16 \<Rightarrow> ptr option \<Rightarrow> heap \<Rightarrow> (bool \<times> ptr option) option" where
  "srvd_protocol_packet_field_get_by_offset packet offset field h =
     (if packet = None then Some (False, field)
      else if field = None then Some (False, field)
      else if field \<noteq> Some None then Some (False, field)
      else do {
        k \<leftarrow> rd_packet packet h;
        if \<not> offset < field_count k then Some (False, field)
        else do {
          i \<leftarrow> field_find_offset (field_head k) 0 offset h;
          if i \<noteq> None then Some (True, Some i) else Some (False, field) } })"

partial_function (option) field_find_type :: "ptr \<Rightarrow> u16 \<Rightarrow> heap \<Rightarrow> ptr option" where
  "field_find_type i ty h =
     (if i = None then Some None
      else do {
        f \<leftarrow> rd_field i h;
        if f_type f = ty then Some i else field_find_type (f_next f) ty h })"

definition srvd_protocol_packet_field_get_by_type ::
    "ptr \<Rightarrow> u16 \<Rightarrow> ptr option \<Rightarrow> heap \<Rightarrow> (bool \<times> ptr option) option" where
  "srvd_protocol_packet_field_get_by_type packet ty field h =
     (if packet = None then Some (False, field)
      else if field = None then Some (False, field)
      else if field \<noteq> Some None then Some (False, field)
      else do {
        k \<leftarrow> rd_packet packet h;
        i \<leftarrow> field_find_type (field_head k) ty h;
        if i \<noteq> None then Some (True, Some i) else Some (False, field) })"

definition srvd_protocol_packet_field_get_first ::
    "ptr \<Rightarrow> ptr option \<Rightarrow> heap \<Rightarrow> (bool \<times> ptr option) option" where
  "srvd_protocol_packet_field_get_first packet field h =
     (if packet = None then Some (False, field)
      else if field = None then Some (False, field)
      else if field \<noteq> Some None then Some (False, field)
      else do {
        k \<leftarrow> rd_packet packet h;
        Some (field_head k \<noteq> None, Some (field_head k)) })"

definition srvd_protocol_packet_field_entry_get_first ::
    "ptr \<Rightarrow> ptr option \<Rightarrow> heap \<Rightarrow> (bool \<times> ptr option) option" where
  "srvd_protocol_packet_field_entry_get_first field entry h =
     (if field = None then Some (False, entry)
      else if entry = None then Some (False, entry)
      else if entry \<noteq> Some None then Some (False, entry)
      else do {
        f \<leftarrow> rd_field field h;
        Some (entry_head f \<noteq> None, Some (entry_head f)) })"

section \<open>Look up or create; create with one entry\<close>

definition srvd_protocol_packet_field_get_or_add ::
    "ptr \<Rightarrow> u16 \<Rightarrow> ptr option \<Rightarrow> heap \<Rightarrow> (bool \<times> ptr option \<times> heap) option" where
  "srvd_protocol_packet_field_get_or_add packet ty field h =
     (if packet = None then Some (False, field, h)
      else if field = None then Some (False, field, h)
      else if field \<noteq> Some None then Some (False, field, h)
      else do {
        h \<leftarrow> with_field_lock lock_mutex packet h;
        (found, field) \<leftarrow> srvd_protocol_packet_field_get_by_type packet ty field h;
        (status, field, h) \<leftarrow>
          (if found then Some (True, field, h)
           else let (f, h) = srvd_protocol_packet_field_allocate h in
             if f = None then Some (False, Some None, h)
             else do {
               (ok, h) \<leftarrow> srvd_protocol_packet_field_initialize f ty h;
               if \<not> ok then do {
                 h \<leftarrow> srvd_protocol_packet_field_free f h;
                 Some (False, Some None, h) }
               else do {
                 h \<leftarrow> srvd_protocol_packet_field_add_locked packet f h;
                 Some (True, Some f, h) } });
        h \<leftarrow> with_field_lock unlock_mutex packet h;
        Some (status, field, h) })"

definition srvd_protocol_packet_field_get_or_inject ::
    "ptr \<Rightarrow> u16 \<Rightarrow> ptr option \<Rightarrow> heap \<Rightarrow> (bool \<times> ptr option \<times> heap) option" where
  "srvd_protocol_packet_field_get_or_inject packet ty field h =
     (if packet = None then Some (False, field, h)
      else if field = None then Some (False, field, h)
      else if field \<noteq> Some None then Some (False, field, h)
      else do {
        h \<leftarrow> with_field_lock lock_mutex packet h;
        (found, field) \<leftarrow> srvd_protocol_packet_field_get_by_type packet ty field h;
        (status, field, h) \<leftarrow>
          (if found then Some (True, field, h)
           else let (f, h) = srvd_protocol_packet_field_allocate h in
             if f = None then Some (False, Some None, h)
             else do {
               (ok, h) \<leftarrow> srvd_protocol_packet_field_initialize f ty h;
               if \<not> ok then do {
                 h \<leftarrow> srvd_protocol_packet_field_free f h;
                 Some (False, Some None, h) }
               else do {
                 h \<leftarrow> srvd_protocol_packet_field_inject_locked packet f h;
                 Some (True, Some f, h) } });
        h \<leftarrow> with_field_lock unlock_mutex packet h;
        Some (status, field, h) })"

text \<open>
  Appending and inserting a field differ only in the last call: \<open>link\<close> is
  \<open>field_add_locked\<close> in one and \<open>field_inject_locked\<close> in the other.
\<close>

definition field_create ::
    "(ptr \<Rightarrow> ptr \<Rightarrow> heap \<Rightarrow> heap option) \<Rightarrow> ptr \<Rightarrow> u16 \<Rightarrow> u16 \<Rightarrow> byte list option \<Rightarrow> heap
     \<Rightarrow> (bool \<times> heap) option" where
  "field_create link packet ty sz data h = do {
     (found, _) \<leftarrow> srvd_protocol_packet_field_get_by_type packet ty (Some None) h;
     if found then Some (False, h)
     else let (field, h) = srvd_protocol_packet_field_allocate h in
       if field = None then Some (False, h)
       else do {
         (ok, h) \<leftarrow> srvd_protocol_packet_field_initialize field ty h;
         if \<not> ok then do { h \<leftarrow> srvd_protocol_packet_field_free field h; Some (False, h) }
         else do {
           (ok, h) \<leftarrow> srvd_protocol_packet_field_entry_add field sz data h;
           if \<not> ok then do {
             (_, h) \<leftarrow> srvd_protocol_packet_field_finalize field h;
             h \<leftarrow> srvd_protocol_packet_field_free field h;
             Some (False, h) }
           else do {
             h \<leftarrow> link packet field h;
             Some (True, h) } } } }"

definition srvd_protocol_packet_field_append ::
    "ptr \<Rightarrow> u16 \<Rightarrow> u16 \<Rightarrow> byte list option \<Rightarrow> heap \<Rightarrow> (bool \<times> heap) option" where
  "srvd_protocol_packet_field_append packet ty sz data h =
     (if packet = None then Some (False, h)
      else do {
        h \<leftarrow> with_field_lock lock_mutex packet h;
        (status, h) \<leftarrow> field_create srvd_protocol_packet_field_add_locked packet ty sz data h;
        h \<leftarrow> with_field_lock unlock_mutex packet h;
        Some (status, h) })"

definition srvd_protocol_packet_field_insert ::
    "ptr \<Rightarrow> u16 \<Rightarrow> u16 \<Rightarrow> byte list option \<Rightarrow> heap \<Rightarrow> (bool \<times> heap) option" where
  "srvd_protocol_packet_field_insert packet ty sz data h =
     (if packet = None then Some (False, h)
      else do {
        h \<leftarrow> with_field_lock lock_mutex packet h;
        (status, h) \<leftarrow> field_create srvd_protocol_packet_field_inject_locked packet ty sz data h;
        h \<leftarrow> with_field_lock unlock_mutex packet h;
        Some (status, h) })"

section \<open>Typed values, in network byte order\<close>

definition srvd_protocol_packet_field_entry_add_uint32 :: "ptr \<Rightarrow> u32 \<Rightarrow> heap \<Rightarrow> (bool \<times> heap) option" where
  "srvd_protocol_packet_field_entry_add_uint32 field v h =
     srvd_protocol_packet_field_entry_add field 4 (Some (be32 v)) h"

definition srvd_protocol_packet_field_entry_add_uint16 :: "ptr \<Rightarrow> u16 \<Rightarrow> heap \<Rightarrow> (bool \<times> heap) option" where
  "srvd_protocol_packet_field_entry_add_uint16 field v h =
     srvd_protocol_packet_field_entry_add field 2 (Some (be16 v)) h"

definition srvd_protocol_packet_field_entry_add_uint8 :: "ptr \<Rightarrow> u8 \<Rightarrow> heap \<Rightarrow> (bool \<times> heap) option" where
  "srvd_protocol_packet_field_entry_add_uint8 field v h =
     srvd_protocol_packet_field_entry_add field 1 (Some [v]) h"

definition srvd_protocol_packet_field_entry_inject_uint32 :: "ptr \<Rightarrow> u32 \<Rightarrow> heap \<Rightarrow> (bool \<times> heap) option" where
  "srvd_protocol_packet_field_entry_inject_uint32 field v h =
     srvd_protocol_packet_field_entry_inject field 4 (Some (be32 v)) h"

definition srvd_protocol_packet_field_entry_inject_uint16 :: "ptr \<Rightarrow> u16 \<Rightarrow> heap \<Rightarrow> (bool \<times> heap) option" where
  "srvd_protocol_packet_field_entry_inject_uint16 field v h =
     srvd_protocol_packet_field_entry_inject field 2 (Some (be16 v)) h"

definition srvd_protocol_packet_field_entry_inject_uint8 :: "ptr \<Rightarrow> u8 \<Rightarrow> heap \<Rightarrow> (bool \<times> heap) option" where
  "srvd_protocol_packet_field_entry_inject_uint8 field v h =
     srvd_protocol_packet_field_entry_inject field 1 (Some [v]) h"

definition srvd_protocol_packet_field_append_uint32 :: "ptr \<Rightarrow> u16 \<Rightarrow> u32 \<Rightarrow> heap \<Rightarrow> (bool \<times> heap) option" where
  "srvd_protocol_packet_field_append_uint32 packet ty v h =
     srvd_protocol_packet_field_append packet ty 4 (Some (be32 v)) h"

definition srvd_protocol_packet_field_append_uint16 :: "ptr \<Rightarrow> u16 \<Rightarrow> u16 \<Rightarrow> heap \<Rightarrow> (bool \<times> heap) option" where
  "srvd_protocol_packet_field_append_uint16 packet ty v h =
     srvd_protocol_packet_field_append packet ty 2 (Some (be16 v)) h"

definition srvd_protocol_packet_field_append_uint8 :: "ptr \<Rightarrow> u16 \<Rightarrow> u8 \<Rightarrow> heap \<Rightarrow> (bool \<times> heap) option" where
  "srvd_protocol_packet_field_append_uint8 packet ty v h =
     srvd_protocol_packet_field_append packet ty 1 (Some [v]) h"

definition srvd_protocol_packet_field_insert_uint32 :: "ptr \<Rightarrow> u16 \<Rightarrow> u32 \<Rightarrow> heap \<Rightarrow> (bool \<times> heap) option" where
  "srvd_protocol_packet_field_insert_uint32 packet ty v h =
     srvd_protocol_packet_field_insert packet ty 4 (Some (be32 v)) h"

definition srvd_protocol_packet_field_insert_uint16 :: "ptr \<Rightarrow> u16 \<Rightarrow> u16 \<Rightarrow> heap \<Rightarrow> (bool \<times> heap) option" where
  "srvd_protocol_packet_field_insert_uint16 packet ty v h =
     srvd_protocol_packet_field_insert packet ty 2 (Some (be16 v)) h"

definition srvd_protocol_packet_field_insert_uint8 :: "ptr \<Rightarrow> u16 \<Rightarrow> u8 \<Rightarrow> heap \<Rightarrow> (bool \<times> heap) option" where
  "srvd_protocol_packet_field_insert_uint8 packet ty v h =
     srvd_protocol_packet_field_insert packet ty 1 (Some [v]) h"

text \<open>
  The getters check the stored size before they read, and leave the out parameter alone when it
  does not match. The out parameter is \<open>None\<close> for NULL.
\<close>

definition srvd_protocol_packet_field_entry_get_uint32 ::
    "ptr \<Rightarrow> u32 option \<Rightarrow> heap \<Rightarrow> (bool \<times> u32 option) option" where
  "srvd_protocol_packet_field_entry_get_uint32 entry data h =
     (if entry = None then Some (False, data)
      else do {
        n \<leftarrow> rd_entry entry h;
        if e_size n \<noteq> 4 then Some (False, data)
        else if data = None then Some (False, data)
        else do { bs \<leftarrow> rd_block (e_data n) 0 4 h; Some (True, Some (of_be32 bs)) } })"

definition srvd_protocol_packet_field_entry_get_uint16 ::
    "ptr \<Rightarrow> u16 option \<Rightarrow> heap \<Rightarrow> (bool \<times> u16 option) option" where
  "srvd_protocol_packet_field_entry_get_uint16 entry data h =
     (if entry = None then Some (False, data)
      else do {
        n \<leftarrow> rd_entry entry h;
        if e_size n \<noteq> 2 then Some (False, data)
        else if data = None then Some (False, data)
        else do { bs \<leftarrow> rd_block (e_data n) 0 2 h; Some (True, Some (of_be16 bs)) } })"

definition srvd_protocol_packet_field_entry_get_uint8 ::
    "ptr \<Rightarrow> u8 option \<Rightarrow> heap \<Rightarrow> (bool \<times> u8 option) option" where
  "srvd_protocol_packet_field_entry_get_uint8 entry data h =
     (if entry = None then Some (False, data)
      else do {
        n \<leftarrow> rd_entry entry h;
        if e_size n \<noteq> 1 then Some (False, data)
        else if data = None then Some (False, data)
        else do { bs \<leftarrow> rd_block (e_data n) 0 1 h; Some (True, Some (hd bs)) } })"

end
