(* ===== verification/Serial.thy ===== *)
theory Serial
  imports Packet
begin

text \<open>
  The wire format: \<open>lib/srvd/libsrvd/protocol/serial_packet.c\<close> with the constants of
  \<open>include/srvd/protocol/serial_packet.h\<close>.

  A serial packet is a record of the two sizes, the field count and a pointer to the buffer; a
  pointer to one is an option, \<open>None\<close> for NULL. The buffer is a block of the store: the
  serialiser's writes into it are checked against its length. The header and the body that the
  unserialiser reads are byte lists, its reads checked in the same way.
\<close>

definition SRVD_PROTOCOL_SERIAL_PACKET_VERSION :: u16 where
  "SRVD_PROTOCOL_SERIAL_PACKET_VERSION = 110"

definition SRVD_PROTOCOL_SERIAL_PACKET_HEADER_SIZE :: nat where
  "SRVD_PROTOCOL_SERIAL_PACKET_HEADER_SIZE = 8"

definition SRVD_PROTOCOL_SERIAL_PACKET_FIELD_HEADER_SIZE :: nat where
  "SRVD_PROTOCOL_SERIAL_PACKET_FIELD_HEADER_SIZE = 4"

definition SRVD_PROTOCOL_SERIAL_PACKET_FIELD_ENTRY_HEADER_SIZE :: nat where
  "SRVD_PROTOCOL_SERIAL_PACKET_FIELD_ENTRY_HEADER_SIZE = 2"

lemmas serial_consts = SRVD_PROTOCOL_SERIAL_PACKET_VERSION_def SRVD_PROTOCOL_SERIAL_PACKET_HEADER_SIZE_def
  SRVD_PROTOCOL_SERIAL_PACKET_FIELD_HEADER_SIZE_def SRVD_PROTOCOL_SERIAL_PACKET_FIELD_ENTRY_HEADER_SIZE_def

declare serial_consts [wire_simps]

text \<open>Where the parts of a header are; \<open>ntohs\<close> and \<open>ntohl\<close> are part of \<open>get16\<close> and \<open>get32\<close>.\<close>

definition SRVD_PROTOCOL_SERIAL_PACKET_HEADER_OFFSET_VERSION :: nat where
  [simp]: "SRVD_PROTOCOL_SERIAL_PACKET_HEADER_OFFSET_VERSION = 0"

definition SRVD_PROTOCOL_SERIAL_PACKET_HEADER_OFFSET_COUNT :: nat where
  [simp]: "SRVD_PROTOCOL_SERIAL_PACKET_HEADER_OFFSET_COUNT = 2"

definition SRVD_PROTOCOL_SERIAL_PACKET_HEADER_OFFSET_SIZE :: nat where
  [simp]: "SRVD_PROTOCOL_SERIAL_PACKET_HEADER_OFFSET_SIZE = 4"

definition SRVD_PROTOCOL_SERIAL_PACKET_FIELD_HEADER_OFFSET_TYPE :: nat where
  [simp]: "SRVD_PROTOCOL_SERIAL_PACKET_FIELD_HEADER_OFFSET_TYPE = 0"

definition SRVD_PROTOCOL_SERIAL_PACKET_FIELD_HEADER_OFFSET_COUNT :: nat where
  [simp]: "SRVD_PROTOCOL_SERIAL_PACKET_FIELD_HEADER_OFFSET_COUNT = 2"

definition SRVD_PROTOCOL_SERIAL_PACKET_FIELD_ENTRY_HEADER_OFFSET_SIZE :: nat where
  [simp]: "SRVD_PROTOCOL_SERIAL_PACKET_FIELD_ENTRY_HEADER_OFFSET_SIZE = 0"

definition SRVD_PROTOCOL_SERIAL_PACKET_VERSION_GET :: "byte list \<Rightarrow> u16 option" where
  [simp]: "SRVD_PROTOCOL_SERIAL_PACKET_VERSION_GET buffer = get16 buffer SRVD_PROTOCOL_SERIAL_PACKET_HEADER_OFFSET_VERSION"

definition SRVD_PROTOCOL_SERIAL_PACKET_COUNT_GET :: "byte list \<Rightarrow> u16 option" where
  [simp]: "SRVD_PROTOCOL_SERIAL_PACKET_COUNT_GET buffer = get16 buffer SRVD_PROTOCOL_SERIAL_PACKET_HEADER_OFFSET_COUNT"

definition SRVD_PROTOCOL_SERIAL_PACKET_SIZE_GET :: "byte list \<Rightarrow> u32 option" where
  [simp]: "SRVD_PROTOCOL_SERIAL_PACKET_SIZE_GET buffer = get32 buffer SRVD_PROTOCOL_SERIAL_PACKET_HEADER_OFFSET_SIZE"

record serial =
  s_size :: nat
  s_body_size :: nat
  s_field_count :: u16
  s_data :: ptr

definition srvd_protocol_serial_packet_initialize :: "serial option \<Rightarrow> bool \<times> serial option" where
  "srvd_protocol_serial_packet_initialize serial =
     (case serial of None \<Rightarrow> (False, None)
      | Some s \<Rightarrow> (True, Some (s\<lparr>s_size := 0, s_body_size := 0, s_data := None\<rparr>)))"

text \<open>The data pointer is released and not cleared.\<close>

definition srvd_protocol_serial_packet_finalize ::
    "serial option \<Rightarrow> heap \<Rightarrow> (bool \<times> serial option \<times> heap) option" where
  "srvd_protocol_serial_packet_finalize serial h =
     (case serial of None \<Rightarrow> Some (False, None, h)
      | Some s \<Rightarrow> do {
          h \<leftarrow> (if s_data s \<noteq> None then free_block (s_data s) h else Some h);
          Some (True, Some (s\<lparr>s_size := 0, s_body_size := 0\<rparr>), h) })"

section \<open>Sizes\<close>

partial_function (option) body_size_entries :: "ptr \<Rightarrow> nat \<Rightarrow> heap \<Rightarrow> nat option" where
  "body_size_entries i acc h =
     (if i = None then Some acc
      else do { n \<leftarrow> rd_entry i h; body_size_entries (e_next n) (acc + unat (e_size n)) h })"

partial_function (option) body_size_fields :: "ptr \<Rightarrow> nat \<Rightarrow> heap \<Rightarrow> nat option" where
  "body_size_fields i acc h =
     (if i = None then Some acc
      else do {
        f \<leftarrow> rd_field i h;
        acc \<leftarrow> body_size_entries (entry_head f)
          (acc + SRVD_PROTOCOL_SERIAL_PACKET_FIELD_ENTRY_HEADER_SIZE * unat (entry_count f)) h;
        body_size_fields (f_next f) acc h })"

definition srvd_protocol_serial_packet_body_size :: "ptr \<Rightarrow> heap \<Rightarrow> nat option" where
  "srvd_protocol_serial_packet_body_size packet h = do {
     k \<leftarrow> rd_packet packet h;
     body_size_fields (field_head k)
       (SRVD_PROTOCOL_SERIAL_PACKET_FIELD_HEADER_SIZE * unat (field_count k)) h }"

section \<open>Serialising\<close>

text \<open>\<open>memcpy(p, entry->data, entry->size)\<close>: nothing is read when the size is 0.\<close>

definition rd_data :: "pentry \<Rightarrow> heap \<Rightarrow> byte list option" where
  "rd_data n h = (if e_size n = 0 then Some [] else rd_block (e_data n) 0 (unat (e_size n)) h)"

partial_function (option) serialize_entries :: "ptr \<Rightarrow> ptr \<Rightarrow> nat \<Rightarrow> heap \<Rightarrow> (nat \<times> heap) option" where
  "serialize_entries i blk p h =
     (if i = None then Some (p, h)
      else do {
        n \<leftarrow> rd_entry i h;
        h \<leftarrow> wr_block blk (p + SRVD_PROTOCOL_SERIAL_PACKET_FIELD_ENTRY_HEADER_OFFSET_SIZE) (be16 (e_size n)) h;
        bs \<leftarrow> rd_data n h;
        h \<leftarrow> wr_block blk (p + SRVD_PROTOCOL_SERIAL_PACKET_FIELD_ENTRY_HEADER_SIZE) bs h;
        serialize_entries (e_next n) blk
          (p + SRVD_PROTOCOL_SERIAL_PACKET_FIELD_ENTRY_HEADER_SIZE + unat (e_size n)) h })"

partial_function (option) serialize_fields :: "ptr \<Rightarrow> ptr \<Rightarrow> nat \<Rightarrow> heap \<Rightarrow> heap option" where
  "serialize_fields i blk p h =
     (if i = None then Some h
      else do {
        f \<leftarrow> rd_field i h;
        h \<leftarrow> wr_block blk (p + SRVD_PROTOCOL_SERIAL_PACKET_FIELD_HEADER_OFFSET_TYPE) (be16 (f_type f)) h;
        h \<leftarrow> wr_block blk (p + SRVD_PROTOCOL_SERIAL_PACKET_FIELD_HEADER_OFFSET_COUNT) (be16 (entry_count f)) h;
        (p, h) \<leftarrow> serialize_entries (entry_head f) blk (p + SRVD_PROTOCOL_SERIAL_PACKET_FIELD_HEADER_SIZE) h;
        serialize_fields (f_next f) blk p h })"

definition srvd_protocol_serial_packet_serialize ::
    "serial option \<Rightarrow> ptr \<Rightarrow> heap \<Rightarrow> (bool \<times> serial option \<times> heap) option" where
  "srvd_protocol_serial_packet_serialize serial packet h =
     (case serial of None \<Rightarrow> Some (False, None, h)
      | Some s \<Rightarrow>
        if packet = None then Some (False, Some s, h)
        else do {
          body_size \<leftarrow> srvd_protocol_serial_packet_body_size packet h;
          k \<leftarrow> rd_packet packet h;
          let size = body_size + SRVD_PROTOCOL_SERIAL_PACKET_HEADER_SIZE;
          let (data, h) = malloc_block size h;
          let s = s\<lparr>s_field_count := field_count k, s_size := size, s_body_size := body_size, s_data := data\<rparr>;
          if data = None then Some (False, Some s, h)
          else do {
            h \<leftarrow> wr_block data 0 (replicate size 0) h;
            h \<leftarrow> wr_block data SRVD_PROTOCOL_SERIAL_PACKET_HEADER_OFFSET_VERSION (be16 SRVD_PROTOCOL_SERIAL_PACKET_VERSION) h;
            h \<leftarrow> wr_block data SRVD_PROTOCOL_SERIAL_PACKET_HEADER_OFFSET_COUNT (be16 (field_count k)) h;
            h \<leftarrow> wr_block data SRVD_PROTOCOL_SERIAL_PACKET_HEADER_OFFSET_SIZE (be32 (of_nat body_size)) h;
            h \<leftarrow> serialize_fields (field_head k) data SRVD_PROTOCOL_SERIAL_PACKET_HEADER_SIZE h;
            Some (True, Some s, h) } })"

section \<open>Unserialising\<close>

definition srvd_protocol_serial_packet_unserialize_header ::
    "serial option \<Rightarrow> ptr \<Rightarrow> byte list option \<Rightarrow> (bool \<times> serial option) option" where
  "srvd_protocol_serial_packet_unserialize_header serial packet header =
     (case serial of None \<Rightarrow> Some (False, None)
      | Some s \<Rightarrow>
        if packet = None then Some (False, Some s)
        else case header of None \<Rightarrow> Some (False, Some s)
        | Some hdr \<Rightarrow> do {
            v \<leftarrow> SRVD_PROTOCOL_SERIAL_PACKET_VERSION_GET hdr;
            if v \<noteq> SRVD_PROTOCOL_SERIAL_PACKET_VERSION then Some (False, Some s)
            else do {
              count \<leftarrow> SRVD_PROTOCOL_SERIAL_PACKET_COUNT_GET hdr;
              size \<leftarrow> SRVD_PROTOCOL_SERIAL_PACKET_SIZE_GET hdr;
              Some (True, Some (s\<lparr>s_field_count := count, s_body_size := unat size,
                                  s_size := SRVD_PROTOCOL_SERIAL_PACKET_HEADER_SIZE + unat size\<rparr>)) } })"

text \<open>
  The loop over the entries of one field, \<open>n\<close> of them left, with \<open>p\<close> the offset in the
  body. When an entry is refused the field is finalised and freed and the body is refused; the
  offset is then \<open>None\<close>. The field is still part of the packet at that point.
\<close>

fun unserialize_entries :: "nat \<Rightarrow> nat \<Rightarrow> byte list \<Rightarrow> ptr \<Rightarrow> nat \<Rightarrow> heap \<Rightarrow> (nat option \<times> heap) option" where
  "unserialize_entries 0 body_size body field p h = Some (Some p, h)"
| "unserialize_entries (Suc n) body_size body field p h = do {
     sz \<leftarrow> get16 body (p + SRVD_PROTOCOL_SERIAL_PACKET_FIELD_ENTRY_HEADER_OFFSET_SIZE);
     if p + SRVD_PROTOCOL_SERIAL_PACKET_FIELD_ENTRY_HEADER_SIZE + unat sz > body_size then do {
       (_, h) \<leftarrow> srvd_protocol_packet_field_finalize field h;
       h \<leftarrow> srvd_protocol_packet_field_free field h;
       Some (None, h) }
     else do {
       (ok, h) \<leftarrow> srvd_protocol_packet_field_entry_add field sz
         (Some (drop (p + SRVD_PROTOCOL_SERIAL_PACKET_FIELD_ENTRY_HEADER_SIZE) body)) h;
       if \<not> ok then do {
         (_, h) \<leftarrow> srvd_protocol_packet_field_finalize field h;
         h \<leftarrow> srvd_protocol_packet_field_free field h;
         Some (None, h) }
       else unserialize_entries n body_size body field
              (p + (SRVD_PROTOCOL_SERIAL_PACKET_FIELD_ENTRY_HEADER_SIZE + unat sz)) h } }"

fun unserialize_fields :: "nat \<Rightarrow> nat \<Rightarrow> byte list \<Rightarrow> ptr \<Rightarrow> nat \<Rightarrow> heap \<Rightarrow> (bool \<times> heap) option" where
  "unserialize_fields 0 body_size body packet p h = Some (True, h)"
| "unserialize_fields (Suc n) body_size body packet p h =
     (if p \<ge> body_size then Some (False, h)
      else do {
        ty \<leftarrow> get16 body (p + SRVD_PROTOCOL_SERIAL_PACKET_FIELD_HEADER_OFFSET_TYPE);
        entry_count \<leftarrow> get16 body (p + SRVD_PROTOCOL_SERIAL_PACKET_FIELD_HEADER_OFFSET_COUNT);
        if p + SRVD_PROTOCOL_SERIAL_PACKET_FIELD_HEADER_SIZE +
           unat entry_count * SRVD_PROTOCOL_SERIAL_PACKET_FIELD_ENTRY_HEADER_SIZE > body_size
        then Some (False, h)
        else do {
          (ok, field, h) \<leftarrow> srvd_protocol_packet_field_get_or_add packet ty (Some None) h;
          if \<not> ok then Some (False, h)
          else do {
            (p', h) \<leftarrow> unserialize_entries (unat entry_count) body_size body (the field)
                        (p + SRVD_PROTOCOL_SERIAL_PACKET_FIELD_HEADER_SIZE) h;
            case p' of None \<Rightarrow> Some (False, h)
            | Some p' \<Rightarrow> unserialize_fields n body_size body packet p' h } } })"

definition srvd_protocol_serial_packet_unserialize_body ::
    "serial option \<Rightarrow> ptr \<Rightarrow> byte list \<Rightarrow> heap \<Rightarrow> (bool \<times> heap) option" where
  "srvd_protocol_serial_packet_unserialize_body serial packet body h =
     (case serial of None \<Rightarrow> None
      | Some s \<Rightarrow>
        if s_body_size s < unat (s_field_count s) * SRVD_PROTOCOL_SERIAL_PACKET_FIELD_HEADER_SIZE
        then Some (False, h)
        else unserialize_fields (unat (s_field_count s)) (s_body_size s) body packet 0 h)"

end
