(* ===== verification/Packet_Rep.thy ===== *)
theory Packet_Rep
  imports Packet
begin

text \<open>
  What a packet in the store stands for: a list of typed fields, each a list of byte strings. The
  representation predicates tie the pointers, the counters and the locks of the structs to that
  list and say which objects the packet owns; \<open>modifies\<close> says which objects an operation may
  touch, so that a packet it does not touch keeps its meaning.
\<close>

section \<open>Abstract packets\<close>

type_synonym sfield = "u16 \<times> byte list list"
type_synonym spacket = "sfield list"

section \<open>Shapes: an abstract packet with the addresses of its objects\<close>

type_synonym etree = "addr \<times> ptr \<times> byte list"
type_synonym ftree = "addr \<times> u16 \<times> etree list"

abbreviation e_addr :: "etree \<Rightarrow> addr" where "e_addr \<equiv> fst"
abbreviation e_blk :: "etree \<Rightarrow> ptr" where "e_blk \<equiv> \<lambda>e. fst (snd e)"
abbreviation e_bytes :: "etree \<Rightarrow> byte list" where "e_bytes \<equiv> \<lambda>e. snd (snd e)"
abbreviation f_addr :: "ftree \<Rightarrow> addr" where "f_addr \<equiv> fst"
abbreviation f_ty :: "ftree \<Rightarrow> u16" where "f_ty \<equiv> \<lambda>f. fst (snd f)"
abbreviation f_ents :: "ftree \<Rightarrow> etree list" where "f_ents \<equiv> \<lambda>f. snd (snd f)"

definition abs_field :: "ftree \<Rightarrow> sfield" where
  "abs_field f = (f_ty f, map e_bytes (f_ents f))"

definition abs_packet :: "ftree list \<Rightarrow> spacket" where
  "abs_packet T = map abs_field T"

definition own_ents :: "ftree list \<Rightarrow> addr list" where
  "own_ents T = concat (map (\<lambda>f. map e_addr (f_ents f)) T)"

definition entry_blks :: "etree list \<Rightarrow> addr list" where
  "entry_blks es = concat (map (\<lambda>e. case e_blk e of None \<Rightarrow> [] | Some b \<Rightarrow> [b]) es)"

definition own_blks :: "ftree list \<Rightarrow> addr list" where
  "own_blks T = concat (map (\<lambda>f. entry_blks (f_ents f)) T)"

lemma own_simps [simp]:
  "own_ents [] = []" "own_blks [] = []" "entry_blks [] = []" "abs_packet [] = []"
  "own_ents (f # T) = map e_addr (f_ents f) @ own_ents T"
  "own_blks (f # T) = entry_blks (f_ents f) @ own_blks T"
  "entry_blks (e # es) = (case e_blk e of None \<Rightarrow> [] | Some b \<Rightarrow> [b]) @ entry_blks es"
  "own_ents (T @ U) = own_ents T @ own_ents U"
  "own_blks (T @ U) = own_blks T @ own_blks U"
  "entry_blks (es @ gs) = entry_blks es @ entry_blks gs"
  "abs_packet (f # T) = abs_field f # abs_packet T"
  "abs_packet (T @ U) = abs_packet T @ abs_packet U"
  by (simp_all add: own_ents_def own_blks_def entry_blks_def abs_packet_def)

lemma abs_field_simps [simp]: "abs_field (a, ty, es) = (ty, map e_bytes es)"
  by (simp add: abs_field_def)

section \<open>Representation\<close>

definition entry_ok :: "heap \<Rightarrow> etree \<Rightarrow> bool" where
  "entry_ok h e \<longleftrightarrow> (\<exists>n. ents h (e_addr e) = Some (Some n) \<and> e_size n = of_nat (length (e_bytes e)) \<and>
     e_data n = e_blk e \<and> length (e_bytes e) < 65536 \<and>
     (case e_blk e of None \<Rightarrow> e_bytes e = []
                    | Some b \<Rightarrow> e_bytes e \<noteq> [] \<and> blks h b = Some (e_bytes e)))"

definition field_ok :: "heap \<Rightarrow> ftree \<Rightarrow> bool" where
  "field_ok h t \<longleftrightarrow> (\<exists>f. flds h (f_addr t) = Some (Some f) \<and> f_type f = f_ty t \<and>
     entry_lock f = Unlocked \<and> entry_count f = of_nat (length (f_ents t)) \<and>
     dlseg e_next e_previous (ents h) None (entry_head f) (map e_addr (f_ents t)) None (entry_tail f)) \<and>
     (\<forall>e \<in> set (f_ents t). entry_ok h e) \<and>
     distinct (map e_addr (f_ents t)) \<and> distinct (entry_blks (f_ents t))"

definition packet_at :: "mutex \<Rightarrow> heap \<Rightarrow> addr \<Rightarrow> ftree list \<Rightarrow> bool" where
  "packet_at lk h p T \<longleftrightarrow> (\<exists>k. pkts h p = Some (Some k) \<and> field_lock k = lk \<and>
     field_count k = of_nat (length T) \<and>
     dlseg f_next f_previous (flds h) None (field_head k) (map f_addr T) None (field_tail k)) \<and>
     (\<forall>t \<in> set T. field_ok h t) \<and>
     distinct (map f_addr T) \<and> distinct (own_ents T) \<and> distinct (own_blks T)"

text \<open>A packet that is whole: its lock is free and it stands for \<open>sp\<close>.\<close>

definition packet_rep :: "heap \<Rightarrow> addr \<Rightarrow> spacket \<Rightarrow> bool" where
  "packet_rep h p sp \<longleftrightarrow> (\<exists>T. packet_at Unlocked h p T \<and> abs_packet T = sp)"

section \<open>Frames\<close>

definition modifies :: "addr set \<Rightarrow> addr set \<Rightarrow> addr set \<Rightarrow> addr set \<Rightarrow> heap \<Rightarrow> heap \<Rightarrow> bool" where
  "modifies P F E B h h' \<longleftrightarrow> heap_ok h' \<and> brk h \<le> brk h' \<and> oom h' = oom h \<and>
     (\<forall>a < brk h. (a \<notin> P \<longrightarrow> pkts h' a = pkts h a) \<and> (a \<notin> F \<longrightarrow> flds h' a = flds h a) \<and>
                  (a \<notin> E \<longrightarrow> ents h' a = ents h a) \<and> (a \<notin> B \<longrightarrow> blks h' a = blks h a))"

lemma modifies_refl: "heap_ok h \<Longrightarrow> modifies P F E B h h"
  by (simp add: modifies_def)

lemma modifies_trans:
  "modifies P F E B h h' \<Longrightarrow> modifies P F E B h' h'' \<Longrightarrow> modifies P F E B h h''"
  unfolding modifies_def by (metis order_less_le_trans order_trans)

lemma modifies_mono:
  "modifies P F E B h h' \<Longrightarrow> P \<subseteq> P' \<Longrightarrow> F \<subseteq> F' \<Longrightarrow> E \<subseteq> E' \<Longrightarrow> B \<subseteq> B' \<Longrightarrow>
     modifies P' F' E' B' h h'"
  unfolding modifies_def by blast

lemma modifies_heap_ok: "modifies P F E B h h' \<Longrightarrow> heap_ok h'"
  by (simp add: modifies_def)

lemma modifiesD:
  assumes "modifies P F E B h h'" and "a < brk h"
  shows "a \<notin> P \<Longrightarrow> pkts h' a = pkts h a" "a \<notin> F \<Longrightarrow> flds h' a = flds h a"
    "a \<notin> E \<Longrightarrow> ents h' a = ents h a" "a \<notin> B \<Longrightarrow> blks h' a = blks h a"
  using assms by (auto simp: modifies_def)

text \<open>Objects made during an operation are not in the caller's footprint.\<close>

lemma modifies_weaken_new:
  assumes "modifies (P \<union> P') (F \<union> F') (E \<union> E') (B \<union> B') h h'"
    and "\<And>a. a \<in> P' \<union> F' \<union> E' \<union> B' \<Longrightarrow> brk h \<le> a"
  shows "modifies P F E B h h'"
  using assms unfolding modifies_def by (meson UnE UnI1 UnI2 not_less)

text \<open>Success of an operation: every \<open>malloc\<close> it made succeeded.\<close>

definition no_oom :: "heap \<Rightarrow> heap \<Rightarrow> bool" where
  "no_oom h h' \<longleftrightarrow> (\<forall>k. brk h \<le> k \<and> k < brk h' \<longrightarrow> \<not> oom h k)"

lemma no_oom_same [simp]: "brk h' = brk h \<Longrightarrow> no_oom h h'"
  by (auto simp: no_oom_def)

lemma no_oom_trans:
  "brk h \<le> brk h' \<Longrightarrow> brk h' \<le> brk h'' \<Longrightarrow> oom h' = oom h \<Longrightarrow>
     no_oom h h'' \<longleftrightarrow> no_oom h h' \<and> no_oom h' h''"
  by (auto simp: no_oom_def) (metis leI)

lemma no_oom_never: "(\<And>k. \<not> oom h k) \<Longrightarrow> no_oom h h'"
  by (simp add: no_oom_def)

subsection \<open>Addresses in use lie below the counter\<close>

lemma entry_ok_below:
  "heap_ok h \<Longrightarrow> entry_ok h e \<Longrightarrow> e_addr e < brk h"
  by (auto simp: entry_ok_def intro!: heap_ok_below)

lemma entry_blk_below:
  "heap_ok h \<Longrightarrow> entry_ok h e \<Longrightarrow> e_blk e = Some b \<Longrightarrow> b < brk h"
  by (auto simp: entry_ok_def intro!: heap_ok_below)

lemma set_entry_blks: "b \<in> set (entry_blks es) \<longleftrightarrow> (\<exists>e \<in> set es. e_blk e = Some b)"
  by (auto simp: entry_blks_def split: option.splits intro!: bexI)

lemma set_own_blks: "b \<in> set (own_blks T) \<longleftrightarrow> (\<exists>t \<in> set T. b \<in> set (entry_blks (f_ents t)))"
  by (auto simp: own_blks_def)

lemma set_own_ents: "a \<in> set (own_ents T) \<longleftrightarrow> (\<exists>t \<in> set T. a \<in> e_addr ` set (f_ents t))"
  by (auto simp: own_ents_def)

lemma field_ok_below:
  assumes "heap_ok h" and "field_ok h t"
  shows "f_addr t < brk h" "a \<in> e_addr ` set (f_ents t) \<Longrightarrow> a < brk h"
    "b \<in> set (entry_blks (f_ents t)) \<Longrightarrow> b < brk h"
proof -
  show "f_addr t < brk h"
    using assms by (auto simp: field_ok_def intro!: heap_ok_below)
  show "a < brk h" if "a \<in> e_addr ` set (f_ents t)"
    using assms that entry_ok_below unfolding field_ok_def by blast
  show "b < brk h" if "b \<in> set (entry_blks (f_ents t))"
    using assms that entry_blk_below unfolding field_ok_def set_entry_blks by blast
qed

lemma packet_at_below:
  assumes "heap_ok h" and "packet_at lk h p T"
  shows "p < brk h" "a \<in> f_addr ` set T \<Longrightarrow> a < brk h" "a \<in> set (own_ents T) \<Longrightarrow> a < brk h"
    "b \<in> set (own_blks T) \<Longrightarrow> b < brk h"
proof -
  have ok: "field_ok h t" if "t \<in> set T" for t
    using assms(2) that by (simp add: packet_at_def)
  show "p < brk h"
    using assms by (auto simp: packet_at_def intro!: heap_ok_below)
  show "a < brk h" if "a \<in> f_addr ` set T"
    using that ok field_ok_below(1) [OF assms(1)] by blast
  show "a < brk h" if "a \<in> set (own_ents T)"
    using that ok field_ok_below(2) [OF assms(1)] unfolding set_own_ents by blast
  show "b < brk h" if "b \<in> set (own_blks T)"
    using that ok field_ok_below(3) [OF assms(1)] unfolding set_own_blks by blast
qed

subsection \<open>Untouched objects keep their meaning\<close>

lemma entry_ok_cong:
  "ents h' (e_addr e) = ents h (e_addr e) \<Longrightarrow> (\<And>b. e_blk e = Some b \<Longrightarrow> blks h' b = blks h b) \<Longrightarrow>
     entry_ok h' e = entry_ok h e"
  by (auto simp: entry_ok_def split: option.splits)

text \<open>Relinking an entry leaves its size and data alone.\<close>

lemma entry_ok_links:
  assumes "entry_ok h e" and "ents h (e_addr e) = Some (Some n)"
    and "ents h' (e_addr e) = Some (Some n')" and "e_size n' = e_size n" and "e_data n' = e_data n"
    and "\<And>b. e_blk e = Some b \<Longrightarrow> blks h' b = blks h b"
  shows "entry_ok h' e"
  using assms by (auto simp: entry_ok_def split: option.splits)

lemma field_ok_cong:
  assumes "flds h' (f_addr t) = flds h (f_addr t)"
    and "\<And>a. a \<in> e_addr ` set (f_ents t) \<Longrightarrow> ents h' a = ents h a"
    and "\<And>b. b \<in> set (entry_blks (f_ents t)) \<Longrightarrow> blks h' b = blks h b"
  shows "field_ok h' t = field_ok h t"
proof -
  have seg: "dlseg e_next e_previous (ents h') None p (map e_addr (f_ents t)) None l =
        dlseg e_next e_previous (ents h) None p (map e_addr (f_ents t)) None l" for p l
    using assms(2) by (intro dlseg_cong) auto
  have "entry_ok h' e = entry_ok h e" if "e \<in> set (f_ents t)" for e
    using that assms(2,3) by (intro entry_ok_cong) (auto simp: set_entry_blks)
  then show ?thesis by (simp add: field_ok_def seg assms(1))
qed

lemma field_ok_modifies:
  assumes "modifies P F E B h h'" and "heap_ok h" and "field_ok h t"
    and "f_addr t \<notin> F" and "e_addr ` set (f_ents t) \<inter> E = {}" and "set (entry_blks (f_ents t)) \<inter> B = {}"
  shows "field_ok h' t"
proof -
  note below = field_ok_below [OF assms(2,3)]
  have "field_ok h' t = field_ok h t"
  proof (rule field_ok_cong)
    show "flds h' (f_addr t) = flds h (f_addr t)"
      using assms(4) by (rule modifiesD(2) [OF assms(1) below(1)])
    show "ents h' a = ents h a" if "a \<in> e_addr ` set (f_ents t)" for a
      by (rule modifiesD(3) [OF assms(1) below(2) [OF that]]) (use that assms(5) in blast)
    show "blks h' b = blks h b" if "b \<in> set (entry_blks (f_ents t))" for b
      by (rule modifiesD(4) [OF assms(1) below(3) [OF that]]) (use that assms(6) in blast)
  qed
  with assms(3) show ?thesis by simp
qed

lemma packet_at_modifies:
  assumes m: "modifies P F E B h h'" and ok: "heap_ok h" and at: "packet_at lk h p T"
    and "p \<notin> P" and "f_addr ` set T \<inter> F = {}" and "set (own_ents T) \<inter> E = {}" and "set (own_blks T) \<inter> B = {}"
  shows "packet_at lk h' p T"
proof -
  note below = packet_at_below [OF ok at]
  have seg: "dlseg f_next f_previous (flds h') None q (map f_addr T) None l =
        dlseg f_next f_previous (flds h) None q (map f_addr T) None l" for q l
    using assms(5) modifiesD(2) [OF m below(2)] by (intro dlseg_cong) auto
  have "field_ok h' t" if t: "t \<in> set T" for t
  proof (rule field_ok_modifies [OF m ok])
    show "field_ok h t" using at t by (simp add: packet_at_def)
    show "f_addr t \<notin> F" using assms(5) t by blast
    show "e_addr ` set (f_ents t) \<inter> E = {}"
      using assms(6) t set_own_ents [of _ T] by blast
    show "set (entry_blks (f_ents t)) \<inter> B = {}"
      using assms(7) t set_own_blks [of _ T] by blast
  qed
  moreover have "pkts h' p = pkts h p" using assms(4) modifiesD(1) [OF m below(1)] by simp
  ultimately show ?thesis using at by (simp add: packet_at_def seg)
qed

lemma packet_rep_modifies:
  "modifies {} {} {} {} h h' \<Longrightarrow> heap_ok h \<Longrightarrow> packet_rep h p sp \<Longrightarrow> packet_rep h' p sp"
  unfolding packet_rep_def by (blast intro: packet_at_modifies)

end
