(* ===== verification/Entry_Refine.thy ===== *)
theory Entry_Refine
  imports Packet_Rep
begin

text \<open>
  The entry operations against their meaning: adding an entry appends a byte string to the field,
  injecting prepends one, looking one up indexes the list. Every operation is proved for every
  pattern of allocation failures, with the objects it may touch.
\<close>

section \<open>Creating an entry\<close>

text \<open>Size and data agree when both or neither are empty, and the data is readable.\<close>

definition payload_ok :: "u16 \<Rightarrow> byte list option \<Rightarrow> bool" where
  "payload_ok sz data \<longleftrightarrow> (case data of None \<Rightarrow> sz = 0 | Some ds \<Rightarrow> sz \<noteq> 0 \<and> unat sz \<le> length ds)"

definition payload :: "u16 \<Rightarrow> byte list option \<Rightarrow> byte list" where
  "payload sz data = (case data of None \<Rightarrow> [] | Some ds \<Rightarrow> take (unat sz) ds)"

lemma payload_ok_Some [simp]:
  "payload_ok sz (Some ds) \<longleftrightarrow> sz \<noteq> 0 \<and> unat sz \<le> length ds" and payload_ok_None [simp]:
  "payload_ok sz None \<longleftrightarrow> sz = 0"
  by (simp_all add: payload_ok_def)

lemma unat_16_less [simp]: "unat (sz :: u16) < 65536"
  by (rule order_less_le_trans [OF unsigned_less]) simp

lemma unat_of_nat_16 [simp]: "n < 65536 \<Longrightarrow> unat (of_nat n :: u16) = n"
  by (rule of_nat_inverse [OF refl]) simp

lemma of_nat_0_16: "n < 65536 \<Longrightarrow> (of_nat n :: u16) = 0 \<longleftrightarrow> n = 0"
  by (simp only: unat_0_iff [symmetric] unat_of_nat_16)

lemma of_nat_unat_16 [simp]: "(of_nat (unat (sz :: u16)) :: u16) = sz"
  by simp

lemma length_payload: "payload_ok sz data \<Longrightarrow> length (payload sz data) = unat sz"
  by (auto simp: payload_def payload_ok_def split: option.splits)

lemma payload_empty_iff: "payload_ok sz data \<Longrightarrow> payload sz data = [] \<longleftrightarrow> sz = 0"
proof -
  assume "payload_ok sz data"
  then have "length (payload sz data) = unat sz" by (rule length_payload)
  moreover have "unat sz = 0 \<longleftrightarrow> sz = 0" by (simp add: unat_eq_0)
  ultimately show ?thesis by (simp only: length_0_conv [symmetric])
qed

lemma wr_buf_fill [simp]: "wr_buf (replicate (length ys) z) 0 ys = Some ys"
  using wr_buf_frontier [of 0 "[]" ys "length ys" z] by simp

text \<open>What a successful creation leaves: a fresh, unlinked entry that holds the payload.\<close>

definition fresh_entry :: "heap \<Rightarrow> heap \<Rightarrow> etree \<Rightarrow> bool" where
  "fresh_entry h h' e \<longleftrightarrow> brk h \<le> e_addr e \<and> (\<forall>b. e_blk e = Some b \<longrightarrow> brk h \<le> b) \<and> entry_ok h' e \<and>
     (\<exists>n. ents h' (e_addr e) = Some (Some n) \<and> e_next n = None \<and> e_previous n = None)"

lemma entry_create_bad:
  "(sz = 0) \<noteq> (data = None) \<Longrightarrow> entry_create sz data h = Some (None, h)"
  by (auto simp: entry_create_def)

lemma entry_create_None:
  assumes "heap_ok h"
  obtains h' where "entry_create 0 None h = Some (None, h')" "modifies {} {} {} {} h h'" "\<not> no_oom h h'"
  | e h' where "entry_create 0 None h = Some (Some e, h')" "modifies {} {} {} {} h h'" "no_oom h h'"
      "fresh_entry h h' (e, None, [])"
proof (cases "oom h (brk h)")
  case True
  show ?thesis
    by (rule that(1))
       (use True assms in \<open>auto simp: entry_create_def malloc_entry_def modifies_def heap_ok_def
          no_oom_def Let_def\<close>)
next
  case False
  show ?thesis
    by (rule that(2))
       (use False assms in \<open>auto simp: entry_create_def malloc_entry_def modifies_def heap_ok_def
          no_oom_def Let_def fresh_entry_def entry_ok_def mem_simps less_Suc_eq\<close>)
qed

lemma entry_create_Some:
  assumes "heap_ok h" and "sz \<noteq> 0" and "unat sz \<le> length ds"
  obtains h' where "entry_create sz (Some ds) h = Some (None, h')" "modifies {} {} {} {} h h'" "\<not> no_oom h h'"
  | e b h' where "entry_create sz (Some ds) h = Some (Some e, h')" "modifies {} {} {} {} h h'" "no_oom h h'"
      "fresh_entry h h' (e, Some b, take (unat sz) ds)"
proof -
  have sz: "sz > 0" using assms(2) by (simp add: word_gt_0)
  let ?d = "take (unat sz) ds"
  have len: "length ?d = unat sz" using assms(3) by simp
  have wr: "wr_buf (replicate (unat sz) 0) 0 ?d = Some ?d"
    using wr_buf_fill [of ?d 0] by (simp only: len)
  have ne: "?d \<noteq> []" using len assms(2) unat_eq_0 [of sz] by force
  consider "oom h (brk h)" | "\<not> oom h (brk h)" "oom h (Suc (brk h))" | "\<not> oom h (brk h)" "\<not> oom h (Suc (brk h))"
    by blast
  then show ?thesis
  proof cases
    case 1
    show ?thesis
      by (rule that(1))
         (use 1 assms(1,2) in \<open>auto simp: entry_create_def malloc_entry_def modifies_def heap_ok_def
            no_oom_def Let_def\<close>)
  next
    case 2
    show ?thesis
      by (rule that(1))
         (use 2 assms(1,2) sz in \<open>auto simp: entry_create_def malloc_entry_def malloc_block_def
            modifies_def heap_ok_def no_oom_def Let_def intro: exI [of _ "Suc (brk h)"]\<close>)
  next
    case 3
    let ?h = "h\<lparr>brk := Suc (Suc (brk h)), ents := (ents h)(brk h \<mapsto>
                Some \<lparr>e_size = sz, e_data = Some (Suc (brk h)), e_next = None, e_previous = None\<rparr>),
              blks := (blks h)(Suc (brk h) \<mapsto> ?d)\<rparr>"
    have "entry_create sz (Some ds) h = Some (Some (brk h), ?h)"
      using 3 assms(2,3) sz wr
      by (simp add: entry_create_def malloc_entry_def malloc_block_def Let_def memcpy_bytes_def
          rd_buf_def mem_simps)
    moreover have "modifies {} {} {} {} h ?h" and "no_oom h ?h"
      using 3 assms(1) by (auto simp: modifies_def heap_ok_def no_oom_def less_Suc_eq)
    moreover have "fresh_entry h ?h (brk h, Some (Suc (brk h)), ?d)"
      using assms(3) ne by (simp add: fresh_entry_def entry_ok_def)
    ultimately show ?thesis by (rule that(2))
  qed
qed

lemma entry_create_spec:
  assumes "heap_ok h" and "payload_ok sz data"
  obtains h' where "entry_create sz data h = Some (None, h')" "modifies {} {} {} {} h h'" "\<not> no_oom h h'"
  | e b h' where "entry_create sz data h = Some (Some e, h')" "modifies {} {} {} {} h h'" "no_oom h h'"
      "fresh_entry h h' (e, b, payload sz data)"
proof (cases data)
  case None
  with assms show ?thesis
    using entry_create_None [OF assms(1)] that by (metis payload_def option.simps(4) payload_ok_None)
next
  case (Some ds)
  with assms have "sz \<noteq> 0" "unat sz \<le> length ds" by auto
  from entry_create_Some [OF assms(1) this] Some show ?thesis
    using that by (metis payload_def option.simps(5))
qed


section \<open>Linking an entry into a field\<close>

text \<open>The locked region of \<open>field_entry_add\<close> and of \<open>field_entry_inject\<close>.\<close>

definition entry_attach :: "(ptr \<Rightarrow> ptr \<Rightarrow> heap \<Rightarrow> heap option) \<Rightarrow> ptr \<Rightarrow> ptr \<Rightarrow> heap \<Rightarrow> heap option" where
  "entry_attach link field entry h = do {
     h \<leftarrow> with_entry_lock lock_mutex field h;
     h \<leftarrow> link field entry h;
     with_entry_lock unlock_mutex field h }"

lemma entry_attach_tail:
  assumes f: "flds h a = Some (Some f)" "entry_lock f = Unlocked"
    and n: "ents h e = Some (Some n)"
    and seg: "dlseg e_next e_previous (ents h) None (entry_head f) as None (entry_tail f)"
    and e: "e \<notin> set as"
  shows "\<exists>E f'. entry_attach entry_link_tail (Some a) (Some e) h = Some (h\<lparr>ents := E, flds := (flds h)(a \<mapsto> Some f')\<rparr>) \<and>
     E = (case entry_tail f of None \<Rightarrow> (ents h)(e \<mapsto> Some (n\<lparr>e_previous := None\<rparr>))
          | Some t \<Rightarrow> (ents h)(e \<mapsto> Some (n\<lparr>e_previous := Some t\<rparr>),
                          t \<mapsto> Some (the (the (ents h t))\<lparr>e_next := Some e\<rparr>))) \<and>
     f' = (if as = [] then f\<lparr>entry_head := Some e\<rparr> else f)\<lparr>entry_tail := Some e,
            entry_count := entry_count f + 1, entry_lock := Unlocked\<rparr>"
proof (cases "as = []")
  case True
  with seg have "entry_head f = None" "entry_tail f = None" by simp_all
  then show ?thesis using f n True
    by (simp add: entry_attach_def entry_link_tail_def mem_simps)
next
  case False
  then obtain t where t: "entry_tail f = Some t" "t \<in> set as"
    using dlseg_last [OF seg] by auto
  obtain k where k: "ents h t = Some (Some k)" using dlseg_dom [OF seg t(2)] by blast
  obtain g where "entry_head f = Some g" using dlseg_first [OF seg] False by auto
  moreover have "t \<noteq> e" using t(2) e by auto
  ultimately show ?thesis using f n t k False
    by (simp add: entry_attach_def entry_link_tail_def mem_simps)
qed

lemma entry_attach_head:
  assumes f: "flds h a = Some (Some f)" "entry_lock f = Unlocked"
    and n: "ents h e = Some (Some n)"
    and seg: "dlseg e_next e_previous (ents h) None (entry_head f) as None (entry_tail f)"
    and e: "e \<notin> set as"
  shows "\<exists>E f'. entry_attach entry_link_head (Some a) (Some e) h = Some (h\<lparr>ents := E, flds := (flds h)(a \<mapsto> Some f')\<rparr>) \<and>
     E = (case entry_head f of None \<Rightarrow> (ents h)(e \<mapsto> Some (n\<lparr>e_next := None\<rparr>))
          | Some t \<Rightarrow> (ents h)(e \<mapsto> Some (n\<lparr>e_next := Some t\<rparr>),
                          t \<mapsto> Some (the (the (ents h t))\<lparr>e_previous := Some e\<rparr>))) \<and>
     f' = (if as = [] then f\<lparr>entry_tail := Some e\<rparr> else f)\<lparr>entry_head := Some e,
            entry_count := entry_count f + 1, entry_lock := Unlocked\<rparr>"
proof (cases "as = []")
  case True
  with seg have "entry_head f = None" "entry_tail f = None" by simp_all
  then show ?thesis using f n True
    by (simp add: entry_attach_def entry_link_head_def mem_simps)
next
  case False
  then obtain t where t: "entry_head f = Some t" "t \<in> set as"
    using dlseg_first [OF seg] by auto
  obtain k where k: "ents h t = Some (Some k)" using dlseg_dom [OF seg t(2)] by blast
  obtain g where "entry_tail f = Some g" using dlseg_last [OF seg] False by auto
  moreover have "t \<noteq> e" using t(2) e by auto
  ultimately show ?thesis using f n t k False
    by (simp add: entry_attach_def entry_link_head_def mem_simps)
qed

text \<open>The links of a field in its packet, which the entry operations leave alone.\<close>

definition links_at :: "heap \<Rightarrow> addr \<Rightarrow> (ptr \<times> ptr) option option" where
  "links_at h a = map_option (map_option (\<lambda>f. (f_next f, f_previous f))) (flds h a)"

text \<open>
  What attaching \<open>e\<close> to the field at \<open>a\<close> achieves, in either direction: the field then
  holds \<open>es'\<close>, and only the field and the entries of its chain were written.
\<close>

definition attaches :: "heap \<Rightarrow> heap \<Rightarrow> addr \<Rightarrow> u16 \<Rightarrow> etree list \<Rightarrow> etree list \<Rightarrow> bool" where
  "attaches h h' a ty es es' \<longleftrightarrow> field_ok h' (a, ty, es') \<and>
     modifies {} {a} (e_addr ` set es) {} h h' \<and> brk h' = brk h \<and> links_at h' a = links_at h a"

lemma entry_ok_relinked:
  assumes "\<forall>e \<in> set es. entry_ok h e"
    and "\<And>a n. a \<in> e_addr ` set es \<Longrightarrow> ents h a = Some (Some n) \<Longrightarrow>
           \<exists>n'. ents h' a = Some (Some n') \<and> e_size n' = e_size n \<and> e_data n' = e_data n"
    and "blks h' = blks h"
  shows "\<forall>e \<in> set es. entry_ok h' e"
proof
  fix e assume e: "e \<in> set es"
  then obtain n where n: "ents h (e_addr e) = Some (Some n)"
    using assms(1) by (auto simp: entry_ok_def)
  with e assms(2) obtain n' where "ents h' (e_addr e) = Some (Some n')" "e_size n' = e_size n" "e_data n' = e_data n"
    by blast
  then show "entry_ok h' e" using assms(1,3) e n by (auto intro: entry_ok_links)
qed


lemma attach_tail:
  assumes ok: "heap_ok h" and fld: "field_ok h (a, ty, es)"
    and e: "entry_ok h e" "ents h (e_addr e) = Some (Some n)" "e_next n = None" "e_previous n = None"
    and new: "e_addr e \<notin> e_addr ` set es" "set (entry_blks [e]) \<inter> set (entry_blks es) = {}"
  shows "\<exists>h'. entry_attach entry_link_tail (Some a) (Some (e_addr e)) h = Some h' \<and>
           attaches h h' a ty (e # es) (es @ [e])"
proof -
  from fld obtain f where f: "flds h a = Some (Some f)" "f_type f = ty" "entry_lock f = Unlocked"
      "entry_count f = of_nat (length es)"
    and seg: "dlseg e_next e_previous (ents h) None (entry_head f) (map e_addr es) None (entry_tail f)"
    and oks: "\<forall>e \<in> set es. entry_ok h e" and dist: "distinct (map e_addr es)" "distinct (entry_blks es)"
    unfolding field_ok_def by auto
  let ?as = "map e_addr es"
  obtain E f' where at: "entry_attach entry_link_tail (Some a) (Some (e_addr e)) h =
        Some (h\<lparr>ents := E, flds := (flds h)(a \<mapsto> Some f')\<rparr>)"
    and E: "E = (case entry_tail f of None \<Rightarrow> (ents h)(e_addr e \<mapsto> Some (n\<lparr>e_previous := None\<rparr>))
          | Some t \<Rightarrow> (ents h)(e_addr e \<mapsto> Some (n\<lparr>e_previous := Some t\<rparr>),
                          t \<mapsto> Some (the (the (ents h t))\<lparr>e_next := Some (e_addr e)\<rparr>)))"
    and f': "f' = (if ?as = [] then f\<lparr>entry_head := Some (e_addr e)\<rparr> else f)\<lparr>entry_tail := Some (e_addr e),
            entry_count := entry_count f + 1, entry_lock := Unlocked\<rparr>"
    using entry_attach_tail [OF f(1,3) e(2) seg] new(1) by auto
  let ?h = "h\<lparr>ents := E, flds := (flds h)(a \<mapsto> Some f')\<rparr>"
  have tl: "entry_tail f = Some t \<Longrightarrow> t \<in> set ?as" for t
    using dlseg_last [OF seg] last_in_set [of ?as] by (auto split: if_splits simp del: set_map)
  have lt: "x \<in> set ?as \<Longrightarrow> x < brk h" for x
    using field_ok_below(2) [OF ok fld, of x] by simp
  have keep: "\<exists>n'. E x = Some (Some n') \<and> e_size n' = e_size m \<and> e_data n' = e_data m"
    if "ents h x = Some (Some m)" for x m
    using that e(2) by (auto simp: E split: option.splits)
  have seg': "dlseg e_next e_previous E None (entry_head f') (?as @ [e_addr e]) None (Some (e_addr e))"
  proof (cases "entry_tail f")
    case None
    then have nil: "?as = []" using dlseg_tail_None [OF seg] by simp
    show ?thesis using entry_links.dlseg_link_only(1) [where m = "ents h", OF e(2-4)] None nil
      unfolding E f' by simp
  next
    case (Some t)
    with seg have ne: "?as \<noteq> []" by (auto dest: dlseg_last)
    obtain k where k: "ents h t = Some (Some k)" using dlseg_dom [OF seg tl [OF Some]] by blast
    show ?thesis
      using entry_links.dlseg_link_tail [OF seg [unfolded Some] _ e(2,3) dist(1) k] new(1) Some k ne
      unfolding E f' by auto
  qed
  have "\<forall>x \<in> set (e # es). entry_ok ?h x"
    by (rule entry_ok_relinked [of _ h]) (use e(1) oks keep in auto)
  then have "field_ok ?h (a, ty, es @ [e])"
    using seg' f f' dist new unfolding field_ok_def by (auto simp: disjoint_iff split: option.splits)
  moreover have "modifies {} {a} (e_addr ` set (e # es)) {} h ?h"
    unfolding modifies_def heap_ok_def
    using heap_okD [OF ok] e(2) tl lt f(1) by (fastforce simp: E split: option.splits)
  ultimately show ?thesis
    using at f(1) f' by (auto simp: attaches_def links_at_def)
qed


lemma attach_head:
  assumes ok: "heap_ok h" and fld: "field_ok h (a, ty, es)"
    and e: "entry_ok h e" "ents h (e_addr e) = Some (Some n)" "e_next n = None" "e_previous n = None"
    and new: "e_addr e \<notin> e_addr ` set es" "set (entry_blks [e]) \<inter> set (entry_blks es) = {}"
  shows "\<exists>h'. entry_attach entry_link_head (Some a) (Some (e_addr e)) h = Some h' \<and>
           attaches h h' a ty (e # es) (e # es)"
proof -
  from fld obtain f where f: "flds h a = Some (Some f)" "f_type f = ty" "entry_lock f = Unlocked"
      "entry_count f = of_nat (length es)"
    and seg: "dlseg e_next e_previous (ents h) None (entry_head f) (map e_addr es) None (entry_tail f)"
    and oks: "\<forall>e \<in> set es. entry_ok h e" and dist: "distinct (map e_addr es)" "distinct (entry_blks es)"
    unfolding field_ok_def by auto
  let ?as = "map e_addr es"
  obtain E f' where at: "entry_attach entry_link_head (Some a) (Some (e_addr e)) h =
        Some (h\<lparr>ents := E, flds := (flds h)(a \<mapsto> Some f')\<rparr>)"
    and E: "E = (case entry_head f of None \<Rightarrow> (ents h)(e_addr e \<mapsto> Some (n\<lparr>e_next := None\<rparr>))
          | Some t \<Rightarrow> (ents h)(e_addr e \<mapsto> Some (n\<lparr>e_next := Some t\<rparr>),
                          t \<mapsto> Some (the (the (ents h t))\<lparr>e_previous := Some (e_addr e)\<rparr>)))"
    and f': "f' = (if ?as = [] then f\<lparr>entry_tail := Some (e_addr e)\<rparr> else f)\<lparr>entry_head := Some (e_addr e),
            entry_count := entry_count f + 1, entry_lock := Unlocked\<rparr>"
    using entry_attach_head [OF f(1,3) e(2) seg] new(1) by auto
  let ?h = "h\<lparr>ents := E, flds := (flds h)(a \<mapsto> Some f')\<rparr>"
  have hdl: "entry_head f = Some t \<Longrightarrow> t \<in> set ?as" for t
    using dlseg_first [OF seg] hd_in_set [of ?as] by (auto split: if_splits simp del: set_map)
  have lt: "x \<in> set ?as \<Longrightarrow> x < brk h" for x
    using field_ok_below(2) [OF ok fld, of x] by simp
  have keep: "\<exists>n'. E x = Some (Some n') \<and> e_size n' = e_size m \<and> e_data n' = e_data m"
    if "ents h x = Some (Some m)" for x m
    using that e(2) by (auto simp: E split: option.splits)
  have seg': "dlseg e_next e_previous E None (Some (e_addr e)) (e_addr e # ?as) None (entry_tail f')"
  proof (cases "entry_head f")
    case None
    then have nil: "?as = []" using dlseg_head_None [OF seg] by simp
    show ?thesis using entry_links.dlseg_link_only(2) [where m = "ents h", OF e(2-4)] None nil
      unfolding E f' by simp
  next
    case (Some t)
    with seg have ne: "?as \<noteq> []" by (auto dest: dlseg_first)
    obtain k where k: "ents h t = Some (Some k)" using dlseg_dom [OF seg hdl [OF Some]] by blast
    show ?thesis
      using entry_links.dlseg_link_head [OF seg [unfolded Some] _ e(2,4) dist(1) k] new(1) Some k ne
      unfolding E f' by auto
  qed
  have "\<forall>x \<in> set (e # es). entry_ok ?h x"
    by (rule entry_ok_relinked [of _ h]) (use e(1) oks keep in auto)
  then have "field_ok ?h (a, ty, e # es)"
    using seg' f f' dist new unfolding field_ok_def by (auto simp: disjoint_iff split: option.splits)
  moreover have "modifies {} {a} (e_addr ` set (e # es)) {} h ?h"
    unfolding modifies_def heap_ok_def
    using heap_okD [OF ok] e(2) hdl lt f(1) by (fastforce simp: E split: option.splits)
  ultimately show ?thesis
    using at f(1) f' by (auto simp: attaches_def links_at_def)
qed

section \<open>Adding and injecting\<close>

lemma entry_add_alt:
  "srvd_protocol_packet_field_entry_add (Some a) sz data h = do {
     (entry, h) \<leftarrow> entry_create sz data h;
     if entry = None then Some (False, h)
     else do { h \<leftarrow> entry_attach entry_link_tail (Some a) entry h; Some (True, h) } }"
  unfolding srvd_protocol_packet_field_entry_add_def entry_attach_def Option.bind_assoc by simp

lemma entry_inject_alt:
  "srvd_protocol_packet_field_entry_inject (Some a) sz data h = do {
     (entry, h) \<leftarrow> entry_create sz data h;
     if entry = None then Some (False, h)
     else do { h \<leftarrow> entry_attach entry_link_head (Some a) entry h; Some (True, h) } }"
  unfolding srvd_protocol_packet_field_entry_inject_def entry_attach_def Option.bind_assoc by simp

text \<open>
  The outcome of putting a byte string into the field at \<open>a\<close>: success exactly when no
  allocation failed, and then the field holds the result of \<open>put\<close>; otherwise it is unchanged.
\<close>

definition entry_put ::
    "(etree \<Rightarrow> etree list \<Rightarrow> etree list) \<Rightarrow> heap \<Rightarrow> addr \<Rightarrow> u16 \<Rightarrow> etree list \<Rightarrow> byte list \<Rightarrow> bool \<Rightarrow> heap \<Rightarrow> bool" where
  "entry_put put h a ty es d ok h' \<longleftrightarrow>
     modifies {} {a} (e_addr ` set es) {} h h' \<and> links_at h' a = links_at h a \<and>
     (ok \<longleftrightarrow> no_oom h h') \<and>
     (if ok then \<exists>e b. brk h \<le> e \<and> (\<forall>x. b = Some x \<longrightarrow> brk h \<le> x) \<and> field_ok h' (a, ty, put (e, b, d) es)
      else field_ok h' (a, ty, es))"

lemma entry_put_step:
  assumes ok: "heap_ok h" "field_ok h (a, ty, es)"
    and mid: "modifies {} {} {} {} h h1" "no_oom h h1" "fresh_entry h h1 (e, b, d)"
    and att: "attaches h1 h' a ty ((e, b, d) # es) (put (e, b, d) es)"
  shows "entry_put put h a ty es d True h'"
proof -
  have br: "brk h' = brk h1" and m: "modifies {} {a} (insert e (e_addr ` set es)) {} h1 h'"
    and l: "links_at h' a = links_at h1 a" and fo: "field_ok h' (a, ty, put (e, b, d) es)"
    using att by (auto simp: attaches_def)
  have "modifies {} {a} (insert e (e_addr ` set es)) {} h h'"
    by (rule modifies_trans [OF modifies_mono [OF mid(1)] m]) auto
  then have "modifies {} {a} (e_addr ` set es) {} h h'"
    by (intro modifies_weaken_new [of "{}" "{}" "{a}" "{}" "e_addr ` set es" "{e}" "{}" "{}"])
       (use mid(3) in \<open>auto simp: fresh_entry_def\<close>)
  moreover have "links_at h' a = links_at h a"
    using l modifiesD(2) [OF mid(1) field_ok_below(1) [OF ok]] by (simp add: links_at_def)
  moreover have "no_oom h h'" using mid(2) br by (simp add: no_oom_def)
  ultimately show ?thesis using fo mid(3) by (auto simp: entry_put_def fresh_entry_def)
qed

lemma fresh_entry_new:
  assumes ok: "heap_ok h" "field_ok h (a, ty, es)" and fr: "fresh_entry h h1 (e, b, d)"
  shows "e \<notin> e_addr ` set es" "set (entry_blks [(e, b, d)]) \<inter> set (entry_blks es) = {}"
proof -
  show "e \<notin> e_addr ` set es"
    using fr field_ok_below(2) [OF ok] unfolding fresh_entry_def by force
  show "set (entry_blks [(e, b, d)]) \<inter> set (entry_blks es) = {}"
    using fr field_ok_below(3) [OF ok] unfolding fresh_entry_def by (force split: option.splits)
qed

lemma field_entry_add_spec:
  assumes ok: "heap_ok h" "field_ok h (a, ty, es)" and p: "payload_ok sz data"
  shows "\<exists>r h'. srvd_protocol_packet_field_entry_add (Some a) sz data h = Some (r, h') \<and>
           entry_put (\<lambda>e es. es @ [e]) h a ty es (payload sz data) r h'"
proof (rule entry_create_spec [OF ok(1) p])
  fix h1
  assume c: "entry_create sz data h = Some (None, h1)" "modifies {} {} {} {} h h1" "\<not> no_oom h h1"
  have "field_ok h1 (a, ty, es)" using field_ok_modifies [OF c(2) ok] by simp
  moreover have "links_at h1 a = links_at h a"
    using modifiesD(2) [OF c(2) field_ok_below(1) [OF ok]] by (simp add: links_at_def)
  ultimately show ?thesis using c modifies_mono [OF c(2)]
    by (auto simp: entry_add_alt entry_put_def)
next
  fix e b h1
  assume c: "entry_create sz data h = Some (Some e, h1)" "modifies {} {} {} {} h h1" "no_oom h h1"
    and fr: "fresh_entry h h1 (e, b, payload sz data)"
  from fr obtain n where n: "ents h1 e = Some (Some n)" "e_next n = None" "e_previous n = None"
    by (auto simp: fresh_entry_def)
  have "field_ok h1 (a, ty, es)" using field_ok_modifies [OF c(2) ok] by simp
  from attach_tail [OF modifies_heap_ok [OF c(2)] this, of "(e, b, payload sz data)" n] fr n
    fresh_entry_new [OF ok fr]
  obtain h' where "entry_attach entry_link_tail (Some a) (Some e) h1 = Some h'"
    and "attaches h1 h' a ty ((e, b, payload sz data) # es) (es @ [(e, b, payload sz data)])"
    by (auto simp: fresh_entry_def)
  with entry_put_step [OF ok c(2,3) fr] c(1) show ?thesis by (auto simp: entry_add_alt)
qed

lemma field_entry_inject_spec:
  assumes ok: "heap_ok h" "field_ok h (a, ty, es)" and p: "payload_ok sz data"
  shows "\<exists>r h'. srvd_protocol_packet_field_entry_inject (Some a) sz data h = Some (r, h') \<and>
           entry_put (\<lambda>e es. e # es) h a ty es (payload sz data) r h'"
proof (rule entry_create_spec [OF ok(1) p])
  fix h1
  assume c: "entry_create sz data h = Some (None, h1)" "modifies {} {} {} {} h h1" "\<not> no_oom h h1"
  have "field_ok h1 (a, ty, es)" using field_ok_modifies [OF c(2) ok] by simp
  moreover have "links_at h1 a = links_at h a"
    using modifiesD(2) [OF c(2) field_ok_below(1) [OF ok]] by (simp add: links_at_def)
  ultimately show ?thesis using c modifies_mono [OF c(2)]
    by (auto simp: entry_inject_alt entry_put_def)
next
  fix e b h1
  assume c: "entry_create sz data h = Some (Some e, h1)" "modifies {} {} {} {} h h1" "no_oom h h1"
    and fr: "fresh_entry h h1 (e, b, payload sz data)"
  from fr obtain n where n: "ents h1 e = Some (Some n)" "e_next n = None" "e_previous n = None"
    by (auto simp: fresh_entry_def)
  have "field_ok h1 (a, ty, es)" using field_ok_modifies [OF c(2) ok] by simp
  from attach_head [OF modifies_heap_ok [OF c(2)] this, of "(e, b, payload sz data)" n] fr n
    fresh_entry_new [OF ok fr]
  obtain h' where "entry_attach entry_link_head (Some a) (Some e) h1 = Some h'"
    and "attaches h1 h' a ty ((e, b, payload sz data) # es) ((e, b, payload sz data) # es)"
    by (auto simp: fresh_entry_def)
  with entry_put_step [where put = "\<lambda>e es. e # es", OF ok c(2,3) fr] c(1)
  show ?thesis by (auto simp: entry_inject_alt)
qed

lemma field_entry_bad_payload:
  assumes "(sz = 0) \<noteq> (data = None)"
  shows "srvd_protocol_packet_field_entry_add (Some a) sz data h = Some (False, h)"
    and "srvd_protocol_packet_field_entry_inject (Some a) sz data h = Some (False, h)"
  using entry_create_bad [OF assms] by (simp_all add: entry_add_alt entry_inject_alt)

end
