(* ===== verification/Release_Refine.thy ===== *)
theory Release_Refine
  imports Entry_Refine
begin

text \<open>
  Lookups by position, and the release of fields and packets: finalising a whole packet releases
  each object it owns exactly once and nothing else.
\<close>

section \<open>Lookup by position\<close>

lemma succ_below_16:
  fixes c offset :: u16
  assumes "unat offset = unat c + Suc j"
  shows "c \<noteq> offset \<and> unat (c + 1) = Suc (unat c)"
proof
  show "c \<noteq> offset" using assms by auto
  have "unat c + 1 < 65536" using assms unat_16_less [of offset] by simp
  then show "unat (c + 1) = Suc (unat c)" by (simp add: unat_word_ariths)
qed

lemma entry_find_offset_nth:
  assumes "dlseg e_next e_previous (ents h) bk p as None l" and "unat offset = unat c + k" and "k < length as"
  shows "entry_find_offset p c offset h = Some (Some (as ! k))"
  using assms
proof (induction as arbitrary: bk p c k)
  case Nil
  then show ?case by simp
next
  case (Cons a as)
  from Cons.prems(1) obtain n where n: "p = Some a" "ents h a = Some (Some n)"
    and seg: "dlseg e_next e_previous (ents h) (Some a) (e_next n) as None l" by auto
  show ?case
  proof (cases k)
    case 0
    with Cons.prems(2) have "c = offset" by (simp add: word_eq_iff_unsigned [where 'a = nat])
    with 0 n show ?thesis by (subst entry_find_offset.simps) simp
  next
    case (Suc j)
    with Cons.prems(2) have "c \<noteq> offset \<and> unat (c + 1) = Suc (unat c)"
      by (intro succ_below_16) simp
    then show ?thesis
      using Cons.IH [OF seg, of "c + 1" j] Cons.prems Suc n
      by (subst entry_find_offset.simps) (simp add: mem_simps)
  qed
qed

lemma field_find_offset_nth:
  assumes "dlseg f_next f_previous (flds h) bk p as None l" and "unat offset = unat c + k" and "k < length as"
  shows "field_find_offset p c offset h = Some (Some (as ! k))"
  using assms
proof (induction as arbitrary: bk p c k)
  case Nil
  then show ?case by simp
next
  case (Cons a as)
  from Cons.prems(1) obtain n where n: "p = Some a" "flds h a = Some (Some n)"
    and seg: "dlseg f_next f_previous (flds h) (Some a) (f_next n) as None l" by auto
  show ?case
  proof (cases k)
    case 0
    with Cons.prems(2) have "c = offset" by (simp add: word_eq_iff_unsigned [where 'a = nat])
    with 0 n show ?thesis by (subst field_find_offset.simps) simp
  next
    case (Suc j)
    with Cons.prems(2) have "c \<noteq> offset \<and> unat (c + 1) = Suc (unat c)"
      by (intro succ_below_16) simp
    then show ?thesis
      using Cons.IH [OF seg, of "c + 1" j] Cons.prems Suc n
      by (subst field_find_offset.simps) (simp add: mem_simps)
  qed
qed

text \<open>The 16 bit counter never exceeds the number of nodes, even when it has wrapped.\<close>

lemma count_bound: "offset < (of_nat n :: u16) \<Longrightarrow> unat offset < n"
proof -
  assume "offset < (of_nat n :: u16)"
  then have "unat offset < unat (of_nat n :: u16)" by (simp add: word_less_nat_alt)
  also have "\<dots> \<le> n" by (simp add: unat_of_nat)
  finally show ?thesis .
qed

lemma field_entry_get_spec:
  assumes "field_ok h (a, ty, es)"
  shows "srvd_protocol_packet_field_entry_get (Some a) offset (Some None) h =
     Some (if offset < of_nat (length es) then (True, Some (Some (e_addr (es ! unat offset))))
           else (False, Some None))"
proof -
  from assms obtain f where f: "flds h a = Some (Some f)" "entry_count f = of_nat (length es)"
    and seg: "dlseg e_next e_previous (ents h) None (entry_head f) (map e_addr es) None (entry_tail f)"
    by (auto simp: field_ok_def)
  show ?thesis
    using f entry_find_offset_nth [OF seg, of offset 0 "unat offset"] count_bound [of offset "length es"]
    by (auto simp: srvd_protocol_packet_field_entry_get_def mem_simps)
qed

lemma packet_get_by_offset_spec:
  assumes "packet_at lk h p T"
  shows "srvd_protocol_packet_field_get_by_offset (Some p) offset (Some None) h =
     Some (if offset < of_nat (length T) then (True, Some (Some (f_addr (T ! unat offset))))
           else (False, Some None))"
proof -
  from assms obtain k where k: "pkts h p = Some (Some k)" "field_count k = of_nat (length T)"
    and seg: "dlseg f_next f_previous (flds h) None (field_head k) (map f_addr T) None (field_tail k)"
    by (auto simp: packet_at_def)
  show ?thesis
    using k field_find_offset_nth [OF seg, of offset 0 "unat offset"] count_bound [of offset "length T"]
    by (auto simp: srvd_protocol_packet_field_get_by_offset_def mem_simps)
qed

section \<open>Releasing a field\<close>

lemma restrict_insert_upd: "m(a := None) |` (- S) = m |` (- insert a S)"
  by (rule ext) (simp add: restrict_map_def)

text \<open>The store without the entries at \<open>as\<close> and the blocks \<open>bs\<close>.\<close>

definition drop_ents :: "addr set \<Rightarrow> addr set \<Rightarrow> heap \<Rightarrow> heap" where
  "drop_ents E B h = h\<lparr>blks := blks h |` (- B), ents := ents h |` (- E)\<rparr>"

lemma drop_ents_simps [simp]:
  "flds (drop_ents E B h) = flds h" "pkts (drop_ents E B h) = pkts h"
  "ents (drop_ents E B h) = ents h |` (- E)" "blks (drop_ents E B h) = blks h |` (- B)"
  "brk (drop_ents E B h) = brk h" "oom (drop_ents E B h) = oom h"
  "drop_ents {} {} h = h"
  by (simp_all add: drop_ents_def restrict_map_def)

lemma drop_ents_twice: "drop_ents E B (drop_ents E' B' h) = drop_ents (E' \<union> E) (B' \<union> B) h"
  by (simp add: drop_ents_def restrict_map_def fun_eq_iff)

lemma release_entry_step:
  assumes "entry_ok h e" and "ents h (e_addr e) = Some (Some n)"
  shows "do { h \<leftarrow> (if e_data n \<noteq> None then free_block (e_data n) h else Some h); free_entry (Some (e_addr e)) h } =
     Some (drop_ents {e_addr e} (set (entry_blks [e])) h)"
proof -
  have *: "m(a := None) = m |` (- {a})" for m :: "addr \<rightharpoonup> 'x" and a
    by (rule ext) (simp add: restrict_map_def)
  show ?thesis using assms
    by (auto simp: entry_ok_def mem_simps drop_ents_def * restrict_map_def split: option.splits)
qed

lemma field_finalize_entries_spec:
  assumes "dlseg e_next e_previous (ents h) bk p (map e_addr es) None l"
    and "\<forall>e \<in> set es. entry_ok h e" and "distinct (map e_addr es)" and "distinct (entry_blks es)"
  shows "field_finalize_entries p h = Some (drop_ents (e_addr ` set es) (set (entry_blks es)) h)"
  using assms
proof (induction es arbitrary: bk p h)
  case Nil
  then show ?case by (subst field_finalize_entries.simps) simp
next
  case (Cons e es)
  let ?h = "drop_ents {e_addr e} (set (entry_blks [e])) h"
  from Cons.prems(1) obtain n where n: "p = Some (e_addr e)" "ents h (e_addr e) = Some (Some n)"
    and seg: "dlseg e_next e_previous (ents h) (Some (e_addr e)) (e_next n) (map e_addr es) None l" by auto
  have "dlseg e_next e_previous (ents ?h) (Some (e_addr e)) (e_next n) (map e_addr es) None l"
    by (rule dlseg_cong [THEN iffD2, OF _ seg]) (use Cons.prems(3) in \<open>auto simp: restrict_map_def simp del: set_map\<close>)
  moreover have "\<forall>x \<in> set es. entry_ok ?h x"
  proof
    fix x assume x: "x \<in> set es"
    have "entry_ok ?h x = entry_ok h x"
    proof (rule entry_ok_cong)
      have "e_addr x \<in> set (map e_addr es)" using imageI [OF x, of e_addr] by (simp only: set_map)
      with Cons.prems(3) show "ents ?h (e_addr x) = ents h (e_addr x)"
        by (auto simp: restrict_map_def simp del: set_map)
      show "blks ?h b = blks h b" if "e_blk x = Some b" for b
        using x that Cons.prems(4) set_entry_blks [of b es]
        by (auto simp: restrict_map_def split: option.splits)
    qed
    with x Cons.prems(2) show "entry_ok ?h x" by simp
  qed
  ultimately have IH: "field_finalize_entries (e_next n) ?h =
      Some (drop_ents (e_addr ` set es) (set (entry_blks es)) ?h)"
    using Cons.prems(3,4) by (intro Cons.IH) auto
  have "field_finalize_entries p h = do {
      h \<leftarrow> (do { h \<leftarrow> (if e_data n \<noteq> None then free_block (e_data n) h else Some h); free_entry (Some (e_addr e)) h });
      field_finalize_entries (e_next n) h }"
    unfolding n(1) Option.bind_assoc by (subst field_finalize_entries.simps) (simp add: n mem_simps)
  also have "\<dots> = field_finalize_entries (e_next n) ?h"
    using Cons.prems(2) n(2) by (subst release_entry_step) auto
  finally show ?case using IH by (simp add: drop_ents_twice)
qed

text \<open>A field after its finalisation, still allocated and of no use.\<close>

definition dead_field :: pfield where
  "dead_field = \<lparr>entry_count = 0, entry_lock = Destroyed, entry_head = None, entry_tail = None,
     f_type = SRVD_PROTOCOL_NONE, f_next = None, f_previous = None\<rparr>"

lemma field_finalize_spec:
  assumes "field_ok h (a, ty, es)"
  shows "srvd_protocol_packet_field_finalize (Some a) h =
     Some (True, drop_ents (e_addr ` set es) (set (entry_blks es)) h\<lparr>flds := (flds h)(a \<mapsto> Some dead_field)\<rparr>)"
proof -
  from assms obtain f where f: "flds h a = Some (Some f)" "entry_lock f = Unlocked"
    and seg: "dlseg e_next e_previous (ents h) None (entry_head f) (map e_addr es) None (entry_tail f)"
    by (auto simp: field_ok_def)
  have "field_finalize_entries (entry_head f) h = Some (drop_ents (e_addr ` set es) (set (entry_blks es)) h)"
    using assms by (intro field_finalize_entries_spec [OF seg]) (auto simp: field_ok_def)
  moreover have "f\<lparr>entry_count := 0, entry_lock := Destroyed, f_type := SRVD_PROTOCOL_NONE, entry_head := None,
      entry_tail := None, f_next := None, f_previous := None\<rparr> = dead_field"
    by (cases f) (simp add: dead_field_def)
  ultimately show ?thesis using f
    by (simp add: srvd_protocol_packet_field_finalize_def mem_simps drop_ents_def)
qed

text \<open>Finalising and freeing a field leaves no trace of it.\<close>

definition drop_field :: "ftree \<Rightarrow> heap \<Rightarrow> heap" where
  "drop_field t h = (drop_ents (e_addr ` set (f_ents t)) (set (entry_blks (f_ents t))) h)
     \<lparr>flds := (flds h)(f_addr t := None)\<rparr>"

definition release_field :: "addr \<Rightarrow> heap \<Rightarrow> heap option" where
  "release_field a h = do {
     (_, h) \<leftarrow> srvd_protocol_packet_field_finalize (Some a) h;
     srvd_protocol_packet_field_free (Some a) h }"

lemma field_release_spec:
  assumes "field_ok h t"
  shows "release_field (f_addr t) h = Some (drop_field t h)"
proof -
  obtain a ty es where t: "t = (a, ty, es)" by (cases t)
  from assms show ?thesis unfolding t
    by (simp add: release_field_def field_finalize_spec srvd_protocol_packet_field_free_def mem_simps
        drop_field_def drop_ents_def)
qed

end
