(* ===== verification/Packet_Refine.thy ===== *)
theory Packet_Refine
  imports Release_Refine
begin

text \<open>
  The packet operations against their meaning: lookup by type finds the first field of that type,
  adding and injecting extend the list at its two ends, and finalising releases everything.
\<close>

section \<open>Releasing a packet\<close>

definition drop_fields :: "ftree list \<Rightarrow> heap \<Rightarrow> heap" where
  "drop_fields T h = h\<lparr>blks := blks h |` (- set (own_blks T)), ents := ents h |` (- set (own_ents T)),
                        flds := flds h |` (- f_addr ` set T)\<rparr>"

lemma drop_fields_Nil [simp]: "drop_fields [] h = h"
  by (simp add: drop_fields_def restrict_map_def)

lemma drop_fields_Cons: "drop_fields T (drop_field t h) = drop_fields (t # T) h"
  by (auto simp: drop_fields_def drop_field_def drop_ents_def restrict_map_def fun_eq_iff)

lemma drop_field_simps [simp]:
  "flds (drop_field t h) = (flds h)(f_addr t := None)" "pkts (drop_field t h) = pkts h"
  "ents (drop_field t h) = ents h |` (- e_addr ` set (f_ents t))"
  "blks (drop_field t h) = blks h |` (- set (entry_blks (f_ents t)))"
  by (simp_all add: drop_field_def)

lemma field_ok_drop_field:
  assumes "field_ok h u" and "f_addr u \<noteq> f_addr t"
    and "e_addr ` set (f_ents u) \<inter> e_addr ` set (f_ents t) = {}"
    and "set (entry_blks (f_ents u)) \<inter> set (entry_blks (f_ents t)) = {}"
  shows "field_ok (drop_field t h) u"
proof -
  have "field_ok (drop_field t h) u = field_ok h u"
    by (rule field_ok_cong) (use assms(2-4) in \<open>auto simp: restrict_map_def\<close>)
  with assms(1) show ?thesis by simp
qed

text \<open>Two fields of one packet share nothing.\<close>

lemma field_disjoint:
  assumes "distinct (map f_addr (t # T))" "distinct (own_ents (t # T))" "distinct (own_blks (t # T))" "u \<in> set T"
  shows "f_addr u \<noteq> f_addr t" "e_addr ` set (f_ents u) \<inter> e_addr ` set (f_ents t) = {}"
    "set (entry_blks (f_ents u)) \<inter> set (entry_blks (f_ents t)) = {}"
proof -
  have "f_addr u \<in> set (map f_addr T)" using imageI [OF assms(4), of f_addr] by (simp only: set_map)
  then show "f_addr u \<noteq> f_addr t" using assms(1) by (auto simp del: set_map)
  have "e_addr ` set (f_ents u) \<subseteq> set (own_ents T)" "set (entry_blks (f_ents u)) \<subseteq> set (own_blks T)"
    using assms(4) by (auto simp only: set_own_ents set_own_blks subset_iff)
  then show "e_addr ` set (f_ents u) \<inter> e_addr ` set (f_ents t) = {}"
    "set (entry_blks (f_ents u)) \<inter> set (entry_blks (f_ents t)) = {}"
    using assms(2,3) by auto
qed

text \<open>The loop over any stretch of the chain.\<close>

lemma packet_finalize_fields_prefix:
  assumes "dlseg f_next f_previous (flds h) bk p (map f_addr T) q l"
    and "\<forall>t \<in> set T. field_ok h t"
    and "distinct (map f_addr T)" and "distinct (own_ents T)" and "distinct (own_blks T)"
  shows "packet_finalize_fields p h = packet_finalize_fields q (drop_fields T h)"
  using assms
proof (induction T arbitrary: bk p h)
  case Nil
  then show ?case by simp
next
  case (Cons t T)
  from Cons.prems(1) obtain f where f: "p = Some (f_addr t)" "flds h (f_addr t) = Some (Some f)"
    and seg: "dlseg f_next f_previous (flds h) (Some (f_addr t)) (f_next f) (map f_addr T) q l" by auto
  have "dlseg f_next f_previous (flds (drop_field t h)) (Some (f_addr t)) (f_next f) (map f_addr T) q l"
    by (rule dlseg_cong [THEN iffD2, OF _ seg]) (use Cons.prems(3) in \<open>auto simp del: set_map\<close>)
  moreover have "\<forall>u \<in> set T. field_ok (drop_field t h) u"
    using Cons.prems(2) by (intro ballI field_ok_drop_field field_disjoint [OF Cons.prems(3-5)]) auto
  ultimately have IH: "packet_finalize_fields (f_next f) (drop_field t h) =
      packet_finalize_fields q (drop_fields T (drop_field t h))"
    using Cons.prems(3-5) by (intro Cons.IH [of "drop_field t h" "Some (f_addr t)"]) (simp_all add: fun_upd_def)
  have "packet_finalize_fields p h = do {
      h \<leftarrow> release_field (f_addr t) h;
      packet_finalize_fields (f_next f) h }"
    unfolding f(1)
    by (subst packet_finalize_fields.simps, cases "srvd_protocol_packet_field_finalize (Some (f_addr t)) h")
       (auto simp: f mem_simps release_field_def)
  also have "\<dots> = packet_finalize_fields (f_next f) (drop_field t h)"
    using Cons.prems(2) by (subst field_release_spec) auto
  finally show ?case using IH by (simp add: drop_fields_Cons)
qed

lemma packet_finalize_fields_spec:
  assumes "dlseg f_next f_previous (flds h) bk p (map f_addr T) None l"
    and "\<forall>t \<in> set T. field_ok h t"
    and "distinct (map f_addr T)" and "distinct (own_ents T)" and "distinct (own_blks T)"
  shows "packet_finalize_fields p h = Some (drop_fields T h)"
  using packet_finalize_fields_prefix [OF assms] by (subst (asm) (2) packet_finalize_fields.simps) simp

text \<open>
  A field that was released while it is still linked: finalising the packet runs into it, which is
  a use of freed memory.
\<close>

lemma packet_finalize_dangling:
  assumes at: "packet_at lk h p T" and t: "t \<in> set T" and h': "release_field (f_addr t) h = Some h'"
  shows "srvd_protocol_packet_finalize (Some p) h' = None"
proof -
  from t obtain T1 T2 where T: "T = T1 @ t # T2" by (meson split_list)
  from at obtain k where k: "pkts h p = Some (Some k)"
    and seg: "dlseg f_next f_previous (flds h) None (field_head k) (map f_addr T) None (field_tail k)"
    and oks: "\<forall>t \<in> set T. field_ok h t"
    and dist: "distinct (map f_addr T)" "distinct (own_ents T)" "distinct (own_blks T)"
    by (auto simp: packet_at_def)
  have eq: "h' = drop_field t h" using field_release_spec [of h t] oks t h' by simp
  from seg T obtain mid where
    s1: "dlseg f_next f_previous (flds h) None (field_head k) (map f_addr T1) (Some (f_addr t)) mid" by auto
  have d: "distinct (map f_addr (t # T1))" "distinct (own_ents (t # T1))" "distinct (own_blks (t # T1))"
    using dist unfolding T by auto
  have "dlseg f_next f_previous (flds h') None (field_head k) (map f_addr T1) (Some (f_addr t)) mid"
    by (rule dlseg_cong [THEN iffD2, OF _ s1]) (use d(1) in \<open>auto simp: eq simp del: set_map\<close>)
  moreover have "\<forall>u \<in> set T1. field_ok h' u"
    unfolding eq using oks T by (intro ballI field_ok_drop_field field_disjoint [OF d]) auto
  ultimately have "packet_finalize_fields (field_head k) h' = packet_finalize_fields (Some (f_addr t)) (drop_fields T1 h')"
    using d by (intro packet_finalize_fields_prefix) auto
  also have "\<dots> = None"
    by (subst packet_finalize_fields.simps) (simp add: mem_simps drop_fields_def eq restrict_map_def)
  finally show ?thesis using k by (simp add: srvd_protocol_packet_finalize_def mem_simps eq)
qed

definition dead_packet :: packet where
  "dead_packet = \<lparr>field_count = 0, field_lock = Destroyed, field_head = None, field_tail = None\<rparr>"

lemma packet_finalize_spec:
  assumes "packet_at Unlocked h p T"
  shows "srvd_protocol_packet_finalize (Some p) h =
     Some (True, drop_fields T h\<lparr>pkts := (pkts h)(p \<mapsto> Some dead_packet)\<rparr>)"
proof -
  from assms obtain k where k: "pkts h p = Some (Some k)" "field_lock k = Unlocked"
    and seg: "dlseg f_next f_previous (flds h) None (field_head k) (map f_addr T) None (field_tail k)"
    by (auto simp: packet_at_def)
  have "packet_finalize_fields (field_head k) h = Some (drop_fields T h)"
    using assms by (intro packet_finalize_fields_spec [OF seg]) (auto simp: packet_at_def)
  moreover have "k\<lparr>field_count := 0, field_lock := Destroyed, field_head := None, field_tail := None\<rparr> = dead_packet"
    by (cases k) (simp add: dead_packet_def)
  ultimately show ?thesis using k
    by (simp add: srvd_protocol_packet_finalize_def mem_simps drop_fields_def)
qed

section \<open>Lookup by type\<close>

lemma field_find_type_spec:
  assumes "dlseg f_next f_previous (flds h) bk p (map f_addr T) None l"
    and "\<forall>t \<in> set T. field_ok h t"
  shows "field_find_type p ty h = Some (map_option f_addr (find (\<lambda>t. f_ty t = ty) T))"
  using assms
proof (induction T arbitrary: bk p)
  case Nil
  then show ?case by (subst field_find_type.simps) simp
next
  case (Cons t T)
  from Cons.prems(1) obtain f where f: "p = Some (f_addr t)" "flds h (f_addr t) = Some (Some f)"
    and seg: "dlseg f_next f_previous (flds h) (Some (f_addr t)) (f_next f) (map f_addr T) None l" by auto
  have "f_type f = f_ty t" using Cons.prems(2) f(2) by (auto simp: field_ok_def)
  with f Cons.IH [OF seg] Cons.prems(2) show ?case
    by (subst field_find_type.simps) (simp add: mem_simps)
qed

lemma get_by_type_spec:
  assumes "packet_at lk h p T"
  shows "srvd_protocol_packet_field_get_by_type (Some p) ty (Some None) h =
     Some (case find (\<lambda>t. f_ty t = ty) T of None \<Rightarrow> (False, Some None) | Some t \<Rightarrow> (True, Some (Some (f_addr t))))"
proof -
  from assms obtain k where k: "pkts h p = Some (Some k)"
    and seg: "dlseg f_next f_previous (flds h) None (field_head k) (map f_addr T) None (field_tail k)"
    by (auto simp: packet_at_def)
  from assms have "\<forall>t \<in> set T. field_ok h t" by (simp add: packet_at_def)
  from field_find_type_spec [OF seg this] k show ?thesis
    by (auto simp: srvd_protocol_packet_field_get_by_type_def mem_simps split: option.splits)
qed

lemma get_first_spec:
  assumes "packet_at lk h p T"
  shows "srvd_protocol_packet_field_get_first (Some p) (Some None) h =
     Some (T \<noteq> [], Some (if T = [] then None else Some (f_addr (hd T))))"
proof -
  from assms obtain k where k: "pkts h p = Some (Some k)"
    and seg: "dlseg f_next f_previous (flds h) None (field_head k) (map f_addr T) None (field_tail k)"
    by (auto simp: packet_at_def)
  from dlseg_first [OF seg] k show ?thesis
    by (auto simp: srvd_protocol_packet_field_get_first_def mem_simps hd_map)
qed

lemma entry_get_first_spec:
  assumes "field_ok h (a, ty, es)"
  shows "srvd_protocol_packet_field_entry_get_first (Some a) (Some None) h =
     Some (es \<noteq> [], Some (if es = [] then None else Some (e_addr (hd es))))"
proof -
  from assms obtain f where f: "flds h a = Some (Some f)"
    and seg: "dlseg e_next e_previous (ents h) None (entry_head f) (map e_addr es) None (entry_tail f)"
    by (auto simp: field_ok_def)
  from dlseg_first [OF seg] f show ?thesis
    by (auto simp: srvd_protocol_packet_field_entry_get_first_def mem_simps hd_map)
qed

section \<open>Linking a field\<close>

lemma field_ok_relink:
  assumes "field_ok h t" and "flds h (f_addr t) = Some (Some f)" and "flds h' (f_addr t) = Some (Some f')"
    and "entry_count f' = entry_count f" "entry_lock f' = entry_lock f" "entry_head f' = entry_head f"
    "entry_tail f' = entry_tail f" "f_type f' = f_type f"
    and "ents h' = ents h" and "blks h' = blks h"
  shows "field_ok h' t"
proof -
  have "entry_ok h' e = entry_ok h e" for e
    using assms(9,10) by (intro entry_ok_cong) simp_all
  with assms show ?thesis by (simp add: field_ok_def)
qed

text \<open>
  A field that is not in a packet yet: it stands for \<open>t\<close>, its links are clear, and it shares
  nothing with the packet \<open>T\<close>.
\<close>

definition loose_field :: "heap \<Rightarrow> ftree list \<Rightarrow> ftree \<Rightarrow> bool" where
  "loose_field h T t \<longleftrightarrow> field_ok h t \<and> links_at h (f_addr t) = Some (Some (None, None)) \<and>
     f_addr t \<notin> f_addr ` set T \<and> e_addr ` set (f_ents t) \<inter> set (own_ents T) = {} \<and>
     set (entry_blks (f_ents t)) \<inter> set (own_blks T) = {}"

lemma loose_fieldE:
  assumes "loose_field h T t"
  obtains f where "flds h (f_addr t) = Some (Some f)" "f_next f = None" "f_previous f = None"
  using assms by (auto simp: loose_field_def field_ok_def links_at_def)

text \<open>Any relinking of the fields of \<open>T\<close> that yields a proper chain yields a packet.\<close>

lemma packet_at_relink:
  assumes k: "pkts h' p = Some (Some k)" "field_lock k = lk" "field_count k = of_nat (length U)"
    and seg: "dlseg f_next f_previous (flds h') None (field_head k) (map f_addr U) None (field_tail k)"
    and oks: "\<forall>t \<in> set U. field_ok h t"
    and keep: "\<And>a f. a \<in> f_addr ` set U \<Longrightarrow> flds h a = Some (Some f) \<Longrightarrow>
       \<exists>f'. flds h' a = Some (Some f') \<and> entry_count f' = entry_count f \<and> entry_lock f' = entry_lock f \<and>
         entry_head f' = entry_head f \<and> entry_tail f' = entry_tail f \<and> f_type f' = f_type f"
    and same: "ents h' = ents h" "blks h' = blks h"
    and dist: "distinct (map f_addr U)" "distinct (own_ents U)" "distinct (own_blks U)"
  shows "packet_at lk h' p U"
proof -
  have "field_ok h' t" if t: "t \<in> set U" for t
  proof -
    have ok: "field_ok h t" using t oks by blast
    then obtain f where f: "flds h (f_addr t) = Some (Some f)" by (auto simp: field_ok_def)
    obtain f' where f': "flds h' (f_addr t) = Some (Some f')" "entry_count f' = entry_count f"
      "entry_lock f' = entry_lock f" "entry_head f' = entry_head f" "entry_tail f' = entry_tail f" "f_type f' = f_type f"
      using keep [OF imageI [OF t] f] by blast
    show ?thesis by (rule field_ok_relink [OF ok f f' same])
  qed
  with k seg dist show ?thesis unfolding packet_at_def by blast
qed

lemma add_locked_run:
  assumes k: "pkts h p = Some (Some k)" and f: "flds h a = Some (Some f)"
    and seg: "dlseg f_next f_previous (flds h) None (field_head k) as None (field_tail k)" and a: "a \<notin> set as"
  shows "srvd_protocol_packet_field_add_locked (Some p) (Some a) h = Some (h\<lparr>
     flds := (case field_tail k of None \<Rightarrow> (flds h)(a \<mapsto> Some (f\<lparr>f_previous := None\<rparr>))
       | Some t \<Rightarrow> (flds h)(a \<mapsto> Some (f\<lparr>f_previous := Some t\<rparr>),
                       t \<mapsto> Some (the (the (flds h t))\<lparr>f_next := Some a\<rparr>))),
     pkts := (pkts h)(p \<mapsto> Some ((if as = [] then k\<lparr>field_head := Some a\<rparr> else k)
       \<lparr>field_tail := Some a, field_count := field_count k + 1\<rparr>))\<rparr>)"
proof (cases "as = []")
  case True
  with seg have "field_head k = None" "field_tail k = None" by simp_all
  then show ?thesis using k f True
    by (simp add: srvd_protocol_packet_field_add_locked_def mem_simps)
next
  case False
  then obtain t where t: "field_tail k = Some t" "t \<in> set as"
    using dlseg_last [OF seg] by auto
  obtain g where g: "flds h t = Some (Some g)" using dlseg_dom [OF seg t(2)] by blast
  obtain s where "field_head k = Some s" using dlseg_first [OF seg] False by auto
  moreover have "t \<noteq> a" using t(2) a by auto
  ultimately show ?thesis using k f t g False
    by (simp add: srvd_protocol_packet_field_add_locked_def mem_simps)
qed

lemma inject_locked_run:
  assumes k: "pkts h p = Some (Some k)" and f: "flds h a = Some (Some f)"
    and seg: "dlseg f_next f_previous (flds h) None (field_head k) as None (field_tail k)" and a: "a \<notin> set as"
  shows "srvd_protocol_packet_field_inject_locked (Some p) (Some a) h = Some (h\<lparr>
     flds := (case field_head k of None \<Rightarrow> (flds h)(a \<mapsto> Some (f\<lparr>f_next := None\<rparr>))
       | Some t \<Rightarrow> (flds h)(a \<mapsto> Some (f\<lparr>f_next := Some t\<rparr>),
                       t \<mapsto> Some (the (the (flds h t))\<lparr>f_previous := Some a\<rparr>))),
     pkts := (pkts h)(p \<mapsto> Some ((if as = [] then k\<lparr>field_tail := Some a\<rparr> else k)
       \<lparr>field_head := Some a, field_count := field_count k + 1\<rparr>))\<rparr>)"
proof (cases "as = []")
  case True
  with seg have "field_head k = None" "field_tail k = None" by simp_all
  then show ?thesis using k f True
    by (simp add: srvd_protocol_packet_field_inject_locked_def mem_simps)
next
  case False
  then obtain t where t: "field_head k = Some t" "t \<in> set as"
    using dlseg_first [OF seg] by auto
  obtain g where g: "flds h t = Some (Some g)" using dlseg_dom [OF seg t(2)] by blast
  obtain s where "field_tail k = Some s" using dlseg_last [OF seg] False by auto
  moreover have "t \<noteq> a" using t(2) a by auto
  ultimately show ?thesis using k f t g False
    by (simp add: srvd_protocol_packet_field_inject_locked_def mem_simps)
qed


text \<open>
  Linking the loose field \<open>t\<close> at either end of the packet at \<open>p\<close>, which ends up with the
  fields \<open>U\<close>: only the packet and fields of \<open>U\<close> are written.
\<close>

definition links_field :: "heap \<Rightarrow> heap \<Rightarrow> mutex \<Rightarrow> addr \<Rightarrow> ftree list \<Rightarrow> bool" where
  "links_field h h' lk p U \<longleftrightarrow> packet_at lk h' p U \<and> modifies {p} (f_addr ` set U) {} {} h h' \<and> brk h' = brk h"

lemma add_locked_spec:
  assumes ok: "heap_ok h" and at: "packet_at lk h p T" and t: "loose_field h T t"
  shows "\<exists>h'. srvd_protocol_packet_field_add_locked (Some p) (Some (f_addr t)) h = Some h' \<and>
           links_field h h' lk p (T @ [t])"
proof -
  from at obtain k where k: "pkts h p = Some (Some k)" "field_lock k = lk" "field_count k = of_nat (length T)"
    and seg: "dlseg f_next f_previous (flds h) None (field_head k) (map f_addr T) None (field_tail k)"
    and oks: "\<forall>t \<in> set T. field_ok h t"
    and dist: "distinct (map f_addr T)" "distinct (own_ents T)" "distinct (own_blks T)"
    by (auto simp: packet_at_def)
  from t obtain f where f: "flds h (f_addr t) = Some (Some f)" "f_next f = None" "f_previous f = None"
    by (rule loose_fieldE)
  let ?as = "map f_addr T" and ?a = "f_addr t"
  have new: "?a \<notin> set ?as" using t by (simp add: loose_field_def)
  let ?F = "case field_tail k of None \<Rightarrow> (flds h)(?a \<mapsto> Some (f\<lparr>f_previous := None\<rparr>))
       | Some u \<Rightarrow> (flds h)(?a \<mapsto> Some (f\<lparr>f_previous := Some u\<rparr>),
                       u \<mapsto> Some (the (the (flds h u))\<lparr>f_next := Some ?a\<rparr>))"
  let ?k = "(if ?as = [] then k\<lparr>field_head := Some ?a\<rparr> else k)\<lparr>field_tail := Some ?a, field_count := field_count k + 1\<rparr>"
  let ?h = "h\<lparr>flds := ?F, pkts := (pkts h)(p \<mapsto> Some ?k)\<rparr>"
  have tl: "field_tail k = Some u \<Longrightarrow> u \<in> set ?as" for u
    using dlseg_last [OF seg] last_in_set [of ?as] by (auto split: if_splits simp del: set_map)
  have seg': "dlseg f_next f_previous ?F None (field_head ?k) (?as @ [?a]) None (Some ?a)"
  proof (cases "field_tail k")
    case None
    then have nil: "?as = []" using dlseg_tail_None [OF seg] by simp
    show ?thesis using field_links.dlseg_link_only(1) [where m = "flds h", OF f] None nil by simp
  next
    case (Some u)
    with seg have ne: "?as \<noteq> []" by (auto dest: dlseg_last)
    obtain g where g: "flds h u = Some (Some g)" using dlseg_dom [OF seg tl [OF Some]] by blast
    show ?thesis
      using field_links.dlseg_link_tail [OF seg [unfolded Some] new f(1,2) dist(1) g] Some g ne by simp
  qed
  have "packet_at lk ?h p (T @ [t])"
  proof (rule packet_at_relink [where k = ?k and h = h])
    show "\<forall>u \<in> set (T @ [t]). field_ok h u" using oks t by (simp add: loose_field_def)
    show "\<exists>f'. flds ?h a = Some (Some f') \<and> entry_count f' = entry_count g \<and> entry_lock f' = entry_lock g \<and>
         entry_head f' = entry_head g \<and> entry_tail f' = entry_tail g \<and> f_type f' = f_type g"
      if "flds h a = Some (Some g)" for a g
      using that f(1) by (auto split: option.splits)
    show "distinct (map f_addr (T @ [t]))" "distinct (own_ents (T @ [t]))" "distinct (own_blks (T @ [t]))"
      using dist new t by (simp_all add: loose_field_def field_ok_def Int_commute)
  qed (use k seg' in simp_all)
  moreover have "modifies {p} (f_addr ` set (T @ [t])) {} {} h ?h"
    unfolding modifies_def heap_ok_def
    using heap_okD [OF ok] packet_at_below(1,2) [OF ok at] k(1) f(1) tl
    by (fastforce split: option.splits)
  ultimately show ?thesis using add_locked_run [OF k(1) f(1) seg new] by (simp add: links_field_def)
qed

lemma inject_locked_spec:
  assumes ok: "heap_ok h" and at: "packet_at lk h p T" and t: "loose_field h T t"
  shows "\<exists>h'. srvd_protocol_packet_field_inject_locked (Some p) (Some (f_addr t)) h = Some h' \<and>
           links_field h h' lk p (t # T)"
proof -
  from at obtain k where k: "pkts h p = Some (Some k)" "field_lock k = lk" "field_count k = of_nat (length T)"
    and seg: "dlseg f_next f_previous (flds h) None (field_head k) (map f_addr T) None (field_tail k)"
    and oks: "\<forall>t \<in> set T. field_ok h t"
    and dist: "distinct (map f_addr T)" "distinct (own_ents T)" "distinct (own_blks T)"
    by (auto simp: packet_at_def)
  from t obtain f where f: "flds h (f_addr t) = Some (Some f)" "f_next f = None" "f_previous f = None"
    by (rule loose_fieldE)
  let ?as = "map f_addr T" and ?a = "f_addr t"
  have new: "?a \<notin> set ?as" using t by (simp add: loose_field_def)
  let ?F = "case field_head k of None \<Rightarrow> (flds h)(?a \<mapsto> Some (f\<lparr>f_next := None\<rparr>))
       | Some u \<Rightarrow> (flds h)(?a \<mapsto> Some (f\<lparr>f_next := Some u\<rparr>),
                       u \<mapsto> Some (the (the (flds h u))\<lparr>f_previous := Some ?a\<rparr>))"
  let ?k = "(if ?as = [] then k\<lparr>field_tail := Some ?a\<rparr> else k)\<lparr>field_head := Some ?a, field_count := field_count k + 1\<rparr>"
  let ?h = "h\<lparr>flds := ?F, pkts := (pkts h)(p \<mapsto> Some ?k)\<rparr>"
  have hdl: "field_head k = Some u \<Longrightarrow> u \<in> set ?as" for u
    using dlseg_first [OF seg] hd_in_set [of ?as] by (auto split: if_splits simp del: set_map)
  have seg': "dlseg f_next f_previous ?F None (Some ?a) (?a # ?as) None (field_tail ?k)"
  proof (cases "field_head k")
    case None
    then have nil: "?as = []" using dlseg_head_None [OF seg] by simp
    show ?thesis using field_links.dlseg_link_only(2) [where m = "flds h", OF f] None nil by simp
  next
    case (Some u)
    with seg have ne: "?as \<noteq> []" by (auto dest: dlseg_first)
    obtain g where g: "flds h u = Some (Some g)" using dlseg_dom [OF seg hdl [OF Some]] by blast
    show ?thesis
      using field_links.dlseg_link_head [OF seg [unfolded Some] new f(1,3) dist(1) g] Some g ne by simp
  qed
  have "packet_at lk ?h p (t # T)"
  proof (rule packet_at_relink [where k = ?k and h = h])
    show "\<forall>u \<in> set (t # T). field_ok h u" using oks t by (simp add: loose_field_def)
    show "\<exists>f'. flds ?h a = Some (Some f') \<and> entry_count f' = entry_count g \<and> entry_lock f' = entry_lock g \<and>
         entry_head f' = entry_head g \<and> entry_tail f' = entry_tail g \<and> f_type f' = f_type g"
      if "flds h a = Some (Some g)" for a g
      using that f(1) by (auto split: option.splits)
    show "distinct (map f_addr (t # T))" "distinct (own_ents (t # T))" "distinct (own_blks (t # T))"
      using dist new t by (simp_all add: loose_field_def field_ok_def Int_commute)
  qed (use k seg' in simp_all)
  moreover have "modifies {p} (f_addr ` set (t # T)) {} {} h ?h"
    unfolding modifies_def heap_ok_def
    using heap_okD [OF ok] packet_at_below(1,2) [OF ok at] k(1) f(1) hdl
    by (fastforce split: option.splits)
  ultimately show ?thesis using inject_locked_run [OF k(1) f(1) seg new] by (simp add: links_field_def)
qed

end
