(* ===== verification/Packet_Ops.thy ===== *)
theory Packet_Ops
  imports Packet_Refine
begin

text \<open>
  The locked packet operations: find-or-create and create-with-one-entry. Both come in a variant
  that links new fields at the tail and one that links them at the head; what they share is proved
  in the locale \<open>field_linker\<close>, whose one law is the contract of the link step.
\<close>

section \<open>Taking and releasing the packet lock\<close>

lemma packet_at_set_lock:
  assumes "heap_ok h" and "packet_at lk h p T" and "pkts h p = Some (Some k)"
  shows "packet_at lk' (h\<lparr>pkts := (pkts h)(p \<mapsto> Some (k\<lparr>field_lock := lk'\<rparr>))\<rparr>) p T"
    and "modifies {p} {} {} {} h (h\<lparr>pkts := (pkts h)(p \<mapsto> Some (k\<lparr>field_lock := lk'\<rparr>))\<rparr>)"
proof -
  let ?h = "h\<lparr>pkts := (pkts h)(p \<mapsto> Some (k\<lparr>field_lock := lk'\<rparr>))\<rparr>"
  have "field_ok ?h t = field_ok h t" for t by (rule field_ok_cong) simp_all
  then show "packet_at lk' ?h p T" using assms(2,3) by (simp add: packet_at_def)
  show "modifies {p} {} {} {} h ?h"
    using assms(1,3) by (auto simp: modifies_def heap_ok_def)
qed

text \<open>A locked region: take the lock, run the body, release the lock.\<close>

definition locked :: "addr \<Rightarrow> heap \<Rightarrow> (heap \<Rightarrow> ('r \<times> heap) option) \<Rightarrow> ('r \<times> heap) option" where
  "locked p h body = do {
     h \<leftarrow> with_field_lock lock_mutex (Some p) h;
     (r, h) \<leftarrow> body h;
     h \<leftarrow> with_field_lock unlock_mutex (Some p) h;
     Some (r, h) }"

lemma locked_spec:
  assumes ok: "heap_ok h" and at: "packet_at Unlocked h p T"
    and body: "\<And>h1. heap_ok h1 \<Longrightarrow> packet_at Locked h1 p T \<Longrightarrow> modifies {p} {} {} {} h h1 \<Longrightarrow> brk h1 = brk h \<Longrightarrow>
       \<exists>r h2 U. body h1 = Some (r, h2) \<and> packet_at Locked h2 p U \<and> modifies {p} F {} {} h1 h2 \<and> Q r h2 U"
    and Q: "\<And>r h2 h' U. Q r h2 U \<Longrightarrow> modifies {p} {} {} {} h2 h' \<Longrightarrow> brk h' = brk h2 \<Longrightarrow> Q' r h' U"
  shows "\<exists>r h' U. locked p h body = Some (r, h') \<and> packet_at Unlocked h' p U \<and> modifies {p} F {} {} h h' \<and> Q' r h' U"
proof -
  from at obtain k where k: "pkts h p = Some (Some k)" "field_lock k = Unlocked" by (auto simp: packet_at_def)
  let ?h1 = "h\<lparr>pkts := (pkts h)(p \<mapsto> Some (k\<lparr>field_lock := Locked\<rparr>))\<rparr>"
  note s1 = packet_at_set_lock [OF ok at k(1), of Locked]
  from body [OF modifies_heap_ok [OF s1(2)] s1] obtain r h2 U where
    b: "body ?h1 = Some (r, h2)" "packet_at Locked h2 p U" "modifies {p} F {} {} ?h1 h2" "Q r h2 U"
    by auto
  from b(2) obtain k2 where k2: "pkts h2 p = Some (Some k2)" "field_lock k2 = Locked" by (auto simp: packet_at_def)
  let ?h3 = "h2\<lparr>pkts := (pkts h2)(p \<mapsto> Some (k2\<lparr>field_lock := Unlocked\<rparr>))\<rparr>"
  note s2 = packet_at_set_lock [OF modifies_heap_ok [OF b(3)] b(2) k2(1), of Unlocked]
  have "locked p h body = Some (r, ?h3)"
    using k b(1) k2 by (simp add: locked_def mem_simps)
  moreover have "modifies {p} F {} {} h ?h3"
    by (rule modifies_trans [OF modifies_mono [OF s1(2)] modifies_trans [OF b(3) modifies_mono [OF s2(2)]]]) auto
  moreover have "Q' r ?h3 U" by (rule Q [OF b(4) s2(2)]) simp
  ultimately show ?thesis using s2(1) by blast
qed

section \<open>A new field\<close>

lemma new_field_spec:
  assumes ok: "heap_ok h" and at: "packet_at lk h p T"
  obtains h1 where "srvd_protocol_packet_field_allocate h = (None, h1)" "packet_at lk h1 p T"
      "modifies {} {} {} {} h h1" "\<not> no_oom h h1"
  | a h1 h2 where "srvd_protocol_packet_field_allocate h = (Some a, h1)" "brk h \<le> a"
      "srvd_protocol_packet_field_initialize (Some a) ty h1 = Some (True, h2)"
      "packet_at lk h2 p T" "loose_field h2 T (a, ty, [])" "modifies {} {} {} {} h h2" "no_oom h h2"
proof (cases "oom h (brk h)")
  case True
  let ?h = "h\<lparr>brk := Suc (brk h)\<rparr>"
  have m: "modifies {} {} {} {} h ?h" using ok by (auto simp: modifies_def heap_ok_def)
  show ?thesis
    by (rule that(1) [of ?h])
       (use True m packet_at_modifies [OF m ok at] in \<open>auto simp: srvd_protocol_packet_field_allocate_def
          malloc_field_def Let_def no_oom_def\<close>)
next
  case False
  let ?f = "\<lparr>entry_count = 0, entry_lock = Unlocked, entry_head = None, entry_tail = None,
             f_type = ty, f_next = None, f_previous = None\<rparr> :: pfield"
  let ?h1 = "h\<lparr>brk := Suc (brk h), flds := (flds h)(brk h \<mapsto> None)\<rparr>"
  let ?h2 = "h\<lparr>brk := Suc (brk h), flds := (flds h)(brk h \<mapsto> Some ?f)\<rparr>"
  have m: "modifies {} {} {} {} h ?h2" using ok by (auto simp: modifies_def heap_ok_def)
  have "brk h \<notin> f_addr ` set T" using packet_at_below(2) [OF ok at] by blast
  then have "loose_field ?h2 T (brk h, ty, [])"
    by (simp add: loose_field_def field_ok_def links_at_def)
  moreover have "no_oom h ?h2" using False by (auto simp: no_oom_def less_Suc_eq)
  moreover have "packet_at lk ?h2 p T" using packet_at_modifies [OF m ok at] by simp
  ultimately show ?thesis
    by (intro that(2) [of "brk h" ?h1 ?h2])
       (use False m in \<open>auto simp: srvd_protocol_packet_field_allocate_def malloc_field_def Let_def
          srvd_protocol_packet_field_initialize_def mem_simps\<close>)
qed

section \<open>The two directions of linking\<close>

locale field_linker =
  fixes link :: "ptr \<Rightarrow> ptr \<Rightarrow> heap \<Rightarrow> heap option"
    and put :: "ftree \<Rightarrow> ftree list \<Rightarrow> ftree list"
  assumes link_spec: "heap_ok h \<Longrightarrow> packet_at lk h p T \<Longrightarrow> loose_field h T t \<Longrightarrow>
      \<exists>h'. link (Some p) (Some (f_addr t)) h = Some h' \<and> links_field h h' lk p (put t T)"
    and set_put: "set (put t T) = insert t (set T)"
begin

lemma link_new:
  assumes ok: "heap_ok h" and at: "packet_at lk h2 p T" and t: "loose_field h2 T t"
    and m: "modifies {} {} {} {} h h2" and new: "brk h \<le> f_addr t"
  shows "\<exists>h3. link (Some p) (Some (f_addr t)) h2 = Some h3 \<and> packet_at lk h3 p (put t T) \<and>
           modifies {p} (f_addr ` set T) {} {} h h3 \<and> brk h3 = brk h2"
proof -
  from link_spec [OF modifies_heap_ok [OF m] at t] obtain h3 where
    h3: "link (Some p) (Some (f_addr t)) h2 = Some h3" "packet_at lk h3 p (put t T)"
      "modifies {p} (f_addr ` insert t (set T)) {} {} h2 h3" "brk h3 = brk h2"
    by (auto simp: links_field_def set_put)
  have "modifies {p} (f_addr ` set T \<union> {f_addr t}) {} {} h h3"
    by (rule modifies_trans [OF modifies_mono [OF m] modifies_mono [OF h3(3)]]) auto
  then have "modifies {p} (f_addr ` set T) {} {} h h3"
    by (intro modifies_weaken_new [of "{p}" "{}" _ "{f_addr t}" "{}" "{}" "{}" "{}"]) (use new in auto)
  with h3 show ?thesis by blast
qed

text \<open>The body of find-or-create.\<close>

definition get_or_body :: "addr \<Rightarrow> u16 \<Rightarrow> heap \<Rightarrow> ((bool \<times> ptr option) \<times> heap) option" where
  "get_or_body p ty h = do {
     (found, field) \<leftarrow> srvd_protocol_packet_field_get_by_type (Some p) ty (Some None) h;
     if found then Some ((True, field), h)
     else let (f, h) = srvd_protocol_packet_field_allocate h in
       if f = None then Some ((False, Some None), h)
       else do {
         (ok, h) \<leftarrow> srvd_protocol_packet_field_initialize f ty h;
         if \<not> ok then do { h \<leftarrow> srvd_protocol_packet_field_free f h; Some ((False, Some None), h) }
         else do { h \<leftarrow> link (Some p) f h; Some ((True, Some f), h) } } }"

definition get_or_post :: "heap \<Rightarrow> u16 \<Rightarrow> ftree list \<Rightarrow> bool \<times> ptr option \<Rightarrow> heap \<Rightarrow> ftree list \<Rightarrow> bool" where
  "get_or_post h ty T r h' U \<longleftrightarrow> brk h \<le> brk h' \<and> (fst r \<longleftrightarrow> no_oom h h') \<and>
     (case find (\<lambda>t. f_ty t = ty) T of
        Some t \<Rightarrow> r = (True, Some (Some (f_addr t))) \<and> U = T \<and> brk h' = brk h
      | None \<Rightarrow> (if fst r then \<exists>a. brk h \<le> a \<and> snd r = Some (Some a) \<and> U = put (a, ty, []) T
                 else snd r = Some None \<and> U = T))"

lemma get_or_body_spec:
  assumes ok: "heap_ok h" and at: "packet_at lk h p T"
  shows "\<exists>r h' U. get_or_body p ty h = Some (r, h') \<and> packet_at lk h' p U \<and>
           modifies {p} (f_addr ` set T) {} {} h h' \<and> get_or_post h ty T r h' U"
proof (cases "find (\<lambda>t. f_ty t = ty) T")
  case (Some t)
  with get_by_type_spec [OF at, of ty] at ok show ?thesis
    by (intro exI [of _ "(True, Some (Some (f_addr t)))"] exI [of _ h] exI [of _ T])
       (simp add: get_or_body_def get_or_post_def modifies_refl)
next
  case None
  note nf = get_by_type_spec [OF at, of ty, unfolded None, simplified]
  show ?thesis
  proof (rule new_field_spec [OF ok at, where ty = ty])
    fix h1
    assume "srvd_protocol_packet_field_allocate h = (None, h1)" "packet_at lk h1 p T"
      and m: "modifies {} {} {} {} h h1" "\<not> no_oom h h1"
    then show ?thesis using nf None modifies_mono [OF m(1)]
      by (intro exI [of _ "(False, Some None)"] exI [of _ h1] exI [of _ T])
         (auto simp: get_or_body_def get_or_post_def modifies_def)
  next
    fix a h1 h2
    assume n: "srvd_protocol_packet_field_allocate h = (Some a, h1)" "brk h \<le> a"
        "srvd_protocol_packet_field_initialize (Some a) ty h1 = Some (True, h2)"
      and at2: "packet_at lk h2 p T" and t: "loose_field h2 T (a, ty, [])"
      and m: "modifies {} {} {} {} h h2" "no_oom h h2"
    from link_new [OF ok at2 t m(1)] n(2) obtain h3 where
      h3: "link (Some p) (Some a) h2 = Some h3" "packet_at lk h3 p (put (a, ty, []) T)"
        "modifies {p} (f_addr ` set T) {} {} h h3" "brk h3 = brk h2" by auto
    moreover have "no_oom h h3" using m(2) h3(4) by (simp add: no_oom_def)
    moreover have "brk h \<le> brk h3" using h3(3) by (simp add: modifies_def)
    ultimately show ?thesis using nf None n
      by (intro exI [of _ "(True, Some (Some a))"] exI [of _ h3] exI [of _ "put (a, ty, []) T"])
         (auto simp: get_or_body_def get_or_post_def)
  qed
qed

lemma get_or_locked_spec:
  assumes ok: "heap_ok h" and at: "packet_at Unlocked h p T"
  shows "\<exists>r h' U. locked p h (get_or_body p ty) = Some (r, h') \<and> packet_at Unlocked h' p U \<and>
           modifies {p} (f_addr ` set T) {} {} h h' \<and> get_or_post h ty T r h' U"
proof (rule locked_spec [OF ok at, where Q = "get_or_post h ty T"])
  fix h1 assume h1: "heap_ok h1" "packet_at Locked h1 p T" "modifies {p} {} {} {} h h1" "brk h1 = brk h"
  have "oom h1 = oom h" using h1(3) by (simp add: modifies_def)
  then have "get_or_post h1 ty T r h2 U = get_or_post h ty T r h2 U" for r h2 U
    unfolding get_or_post_def no_oom_def h1(4) by simp
  with get_or_body_spec [OF h1(1,2), of ty]
  show "\<exists>r h2 U. get_or_body p ty h1 = Some (r, h2) \<and> packet_at Locked h2 p U \<and>
      modifies {p} (f_addr ` set T) {} {} h1 h2 \<and> get_or_post h ty T r h2 U" by simp
next
  fix r h2 U and h' :: heap assume post: "get_or_post h ty T r h2 U" and br: "brk h' = brk h2"
  from post show "get_or_post h ty T r h' U" unfolding get_or_post_def no_oom_def br .
qed

text \<open>The body of create-with-one-entry.\<close>

definition create_post :: "heap \<Rightarrow> u16 \<Rightarrow> u16 \<Rightarrow> byte list option \<Rightarrow> ftree list \<Rightarrow> bool \<Rightarrow> heap \<Rightarrow> ftree list \<Rightarrow> bool" where
  "create_post h ty sz data T r h' U \<longleftrightarrow> brk h \<le> brk h' \<and>
     (r \<longleftrightarrow> ty \<notin> f_ty ` set T \<and> payload_ok sz data \<and> no_oom h h') \<and>
     (if r then \<exists>a e b. brk h \<le> a \<and> brk h \<le> e \<and> (\<forall>x. b = Some x \<longrightarrow> brk h \<le> x) \<and>
                 U = put (a, ty, [(e, b, payload sz data)]) T
      else U = T)"

lemma create_fail:
  assumes ok: "heap_ok h" and at: "packet_at lk h p T"
    and m: "modifies {} {} {} {} h h3" and fo: "field_ok h3 (a, ty, [])" and a: "brk h \<le> a"
  shows "\<exists>h4. release_field a h3 = Some h4 \<and>
           packet_at lk h4 p T \<and> modifies {} {} {} {} h h4 \<and> brk h4 = brk h3"
proof -
  let ?h4 = "drop_field (a, ty, []) h3"
  have r: "?h4 = h3\<lparr>flds := (flds h3)(a := None)\<rparr>" by (simp add: drop_field_def)
  have m4: "modifies {} {} {} {} h ?h4"
    unfolding r using m a by (auto simp: modifies_def heap_ok_def)
  show ?thesis using field_release_spec [OF fo, unfolded fst_conv] packet_at_modifies [OF m4 ok at] m4
    by (intro exI [of _ ?h4]) (auto simp: r)
qed

lemma create_body_spec:
  assumes ok: "heap_ok h" and at: "packet_at lk h p T"
    and pay: "payload_ok sz data \<or> (sz = 0) \<noteq> (data = None)"
  shows "\<exists>r h' U. field_create link (Some p) ty sz data h = Some (r, h') \<and> packet_at lk h' p U \<and>
           modifies {p} (f_addr ` set T) {} {} h h' \<and> create_post h ty sz data T r h' U"
proof (cases "find (\<lambda>t. f_ty t = ty) T")
  case (Some t)
  then have "ty \<in> f_ty ` set T" by (auto simp: find_Some_iff)
  with get_by_type_spec [OF at, of ty] Some at ok show ?thesis
    by (intro exI [of _ False] exI [of _ h] exI [of _ T])
       (simp add: field_create_def create_post_def modifies_refl)
next
  case None
  then have fresh: "ty \<notin> f_ty ` set T" by (auto simp: find_None_iff)
  note nf = get_by_type_spec [OF at, of ty, unfolded None, simplified]
  show ?thesis
  proof (rule new_field_spec [OF ok at, where ty = ty])
    fix h1
    assume n: "srvd_protocol_packet_field_allocate h = (None, h1)" "packet_at lk h1 p T"
      and m: "modifies {} {} {} {} h h1" "\<not> no_oom h h1"
    then show ?thesis using nf modifies_mono [OF m(1)]
      by (intro exI [of _ False] exI [of _ h1] exI [of _ T])
         (auto simp: field_create_def create_post_def modifies_def)
  next
    fix a h1 h2
    assume n: "srvd_protocol_packet_field_allocate h = (Some a, h1)" "brk h \<le> a"
        "srvd_protocol_packet_field_initialize (Some a) ty h1 = Some (True, h2)"
      and at2: "packet_at lk h2 p T" and t: "loose_field h2 T (a, ty, [])"
      and m: "modifies {} {} {} {} h h2" "no_oom h h2"
    have ok2: "heap_ok h2" and fo2: "field_ok h2 (a, ty, [])" and br: "brk h \<le> brk h2"
      using m t by (auto simp: modifies_def loose_field_def)
    have run: "field_create link (Some p) ty sz data h = do {
         (ok, h) \<leftarrow> srvd_protocol_packet_field_entry_add (Some a) sz data h2;
         if \<not> ok then do {
           h \<leftarrow> release_field a h;
           Some (False, h) }
         else do { h \<leftarrow> link (Some p) (Some a) h; Some (True, h) } }"
      unfolding release_field_def bind_assoc_pair
      by (cases "srvd_protocol_packet_field_entry_add (Some a) sz data h2") (auto simp: field_create_def nf n)
    show ?thesis
    proof (cases "payload_ok sz data")
      case False
      with pay have bad: "srvd_protocol_packet_field_entry_add (Some a) sz data h2 = Some (False, h2)"
        by (simp add: field_entry_bad_payload(1))
      obtain h4 where h4: "release_field a h2 = Some h4"
          "packet_at lk h4 p T" "modifies {} {} {} {} h h4" "brk h4 = brk h2"
        using create_fail [OF ok at m(1) fo2 n(2)] by blast
      show ?thesis
        by (intro exI [of _ False] exI [of _ h4] exI [of _ T])
           (use run bad h4 False br modifies_mono [OF h4(3)] in \<open>auto simp: create_post_def\<close>)
    next
      case True
      obtain r h3 where r: "srvd_protocol_packet_field_entry_add (Some a) sz data h2 = Some (r, h3)"
        and ep: "entry_put (\<lambda>e es. es @ [e]) h2 a ty [] (payload sz data) r h3"
        using field_entry_add_spec [OF ok2 fo2 True] by blast
      have m23: "modifies {} {a} {} {} h2 h3" and l3: "links_at h3 a = links_at h2 a"
        and r3: "r \<longleftrightarrow> no_oom h2 h3"
        using ep by (auto simp: entry_put_def)
      have m3: "modifies {} {} {} {} h h3"
        by (rule modifies_weaken_new [of "{}" "{}" "{}" "{a}" "{}" "{}" "{}" "{}"])
           (use n(2) modifies_trans [OF modifies_mono [OF m(1)] m23] in auto)
      have no: "no_oom h h3 \<longleftrightarrow> no_oom h2 h3"
        using no_oom_trans [of h h2 h3] m m23 by (simp add: modifies_def)
      show ?thesis
      proof (cases r)
        case False
        then have "field_ok h3 (a, ty, [])" using ep by (simp add: entry_put_def)
        then obtain h4 where h4: "release_field a h3 = Some h4"
          "packet_at lk h4 p T" "modifies {} {} {} {} h h4" "brk h4 = brk h3"
          using create_fail [OF ok at m3 _ n(2)] by blast
        have "\<not> no_oom h h4" using False r3 no h4(4) by (simp add: no_oom_def)
        then show ?thesis
          by (intro exI [of _ False] exI [of _ h4] exI [of _ T])
             (use run r False h4 modifies_mono [OF h4(3)] in \<open>auto simp: create_post_def modifies_def\<close>)
      next
        case True
        with ep obtain e b where eb: "brk h2 \<le> e" "\<forall>x. b = Some x \<longrightarrow> brk h2 \<le> x"
            "field_ok h3 (a, ty, [(e, b, payload sz data)])" by (auto simp: entry_put_def)
        have at3: "packet_at lk h3 p T" using packet_at_modifies [OF m3 ok at] by simp
        have "loose_field h3 T (a, ty, [(e, b, payload sz data)])"
          using t eb l3 br packet_at_below(3,4) [OF ok at]
          by (force simp: loose_field_def split: option.splits)
        from link_new [OF ok at3 this m3] n(2) obtain h4 where
          h4: "link (Some p) (Some a) h3 = Some h4"
            "packet_at lk h4 p (put (a, ty, [(e, b, payload sz data)]) T)"
            "modifies {p} (f_addr ` set T) {} {} h h4" "brk h4 = brk h3" by auto
        have "no_oom h h4" using True r3 no h4(4) by (simp add: no_oom_def)
        moreover have "brk h \<le> brk h4" using h4(3) by (simp add: modifies_def)
        moreover have "\<exists>a' e' b'. brk h \<le> a' \<and> brk h \<le> e' \<and> (\<forall>x. b' = Some x \<longrightarrow> brk h \<le> x) \<and>
            put (a, ty, [(e, b, payload sz data)]) T = put (a', ty, [(e', b', payload sz data)]) T"
          by (rule exI [of _ a], rule exI [of _ e], rule exI [of _ b]) (use n(2) eb br in auto)
        ultimately have "create_post h ty sz data T True h4 (put (a, ty, [(e, b, payload sz data)]) T)"
          using \<open>payload_ok sz data\<close> fresh by (simp add: create_post_def)
        then show ?thesis using run r True h4 by auto
      qed
    qed
  qed
qed

lemma create_locked_spec:
  assumes ok: "heap_ok h" and at: "packet_at Unlocked h p T"
    and pay: "payload_ok sz data \<or> (sz = 0) \<noteq> (data = None)"
  shows "\<exists>r h' U. locked p h (field_create link (Some p) ty sz data) = Some (r, h') \<and> packet_at Unlocked h' p U \<and>
           modifies {p} (f_addr ` set T) {} {} h h' \<and> create_post h ty sz data T r h' U"
proof (rule locked_spec [OF ok at, where Q = "create_post h ty sz data T"])
  fix h1 assume h1: "heap_ok h1" "packet_at Locked h1 p T" "modifies {p} {} {} {} h h1" "brk h1 = brk h"
  have "oom h1 = oom h" using h1(3) by (simp add: modifies_def)
  then have "create_post h1 ty sz data T r h2 U = create_post h ty sz data T r h2 U" for r h2 U
    unfolding create_post_def no_oom_def h1(4) by simp
  with create_body_spec [OF h1(1,2) pay, of ty]
  show "\<exists>r h2 U. field_create link (Some p) ty sz data h1 = Some (r, h2) \<and> packet_at Locked h2 p U \<and>
      modifies {p} (f_addr ` set T) {} {} h1 h2 \<and> create_post h ty sz data T r h2 U" by simp
next
  fix r h2 U and h' :: heap assume post: "create_post h ty sz data T r h2 U" and br: "brk h' = brk h2"
  from post show "create_post h ty sz data T r h' U" unfolding create_post_def no_oom_def br .
qed

end

interpretation adder: field_linker srvd_protocol_packet_field_add_locked "\<lambda>t T. T @ [t]"
  by unfold_locales (use add_locked_spec in \<open>simp_all\<close>)

interpretation injector: field_linker srvd_protocol_packet_field_inject_locked "\<lambda>t T. t # T"
  by unfold_locales (use inject_locked_spec in \<open>simp_all\<close>)

end
