(* ===== verification/Packet_Contract.thy ===== *)
theory Packet_Contract
  imports Packet_Ops
begin

text \<open>
  What callers of the packet code may rely on: every operation as a function on the abstract
  packet, in every pattern of allocation failures, and adding entries to a field that is already
  part of a packet.
\<close>

section \<open>The locked operations\<close>

lemma append_alt:
  "srvd_protocol_packet_field_append (Some p) ty sz data h =
     locked p h (field_create srvd_protocol_packet_field_add_locked (Some p) ty sz data)"
  by (simp add: srvd_protocol_packet_field_append_def locked_def)

lemma insert_alt:
  "srvd_protocol_packet_field_insert (Some p) ty sz data h =
     locked p h (field_create srvd_protocol_packet_field_inject_locked (Some p) ty sz data)"
  by (simp add: srvd_protocol_packet_field_insert_def locked_def)

definition flat :: "(bool \<times> ptr option) \<times> heap \<Rightarrow> bool \<times> ptr option \<times> heap" where
  "flat x = (fst (fst x), snd (fst x), snd x)"

lemma flat_simp [simp]: "flat ((r, out), h) = (r, out, h)"
  by (simp add: flat_def)

lemma get_or_add_alt:
  "srvd_protocol_packet_field_get_or_add (Some p) ty (Some None) h =
     map_option flat (locked p h (adder.get_or_body p ty))"
proof (cases "with_field_lock lock_mutex (Some p) h")
  case (Some h1)
  show ?thesis
  proof (cases "srvd_protocol_packet_field_get_by_type (Some p) ty (Some None) h1")
    case (Some r)
    show ?thesis using \<open>with_field_lock lock_mutex (Some p) h = Some h1\<close> Some
      by (cases r; cases "srvd_protocol_packet_field_allocate h1")
         (auto simp: srvd_protocol_packet_field_get_or_add_def locked_def adder.get_or_body_def
            Let_def map_option_bind bind_assoc_pair Option.bind_map_option comp_def
            split: prod.splits Option.bind_splits if_splits)
  qed (use \<open>with_field_lock lock_mutex (Some p) h = Some h1\<close> in
        \<open>simp add: srvd_protocol_packet_field_get_or_add_def locked_def adder.get_or_body_def\<close>)
qed (simp add: srvd_protocol_packet_field_get_or_add_def locked_def)

lemma get_or_inject_alt:
  "srvd_protocol_packet_field_get_or_inject (Some p) ty (Some None) h =
     map_option flat (locked p h (injector.get_or_body p ty))"
proof (cases "with_field_lock lock_mutex (Some p) h")
  case (Some h1)
  show ?thesis
  proof (cases "srvd_protocol_packet_field_get_by_type (Some p) ty (Some None) h1")
    case (Some r)
    show ?thesis using \<open>with_field_lock lock_mutex (Some p) h = Some h1\<close> Some
      by (cases r; cases "srvd_protocol_packet_field_allocate h1")
         (auto simp: srvd_protocol_packet_field_get_or_inject_def locked_def injector.get_or_body_def
            Let_def map_option_bind bind_assoc_pair Option.bind_map_option comp_def
            split: prod.splits Option.bind_splits if_splits)
  qed (use \<open>with_field_lock lock_mutex (Some p) h = Some h1\<close> in
        \<open>simp add: srvd_protocol_packet_field_get_or_inject_def locked_def injector.get_or_body_def\<close>)
qed (simp add: srvd_protocol_packet_field_get_or_inject_def locked_def)

lemma append_spec:
  assumes "heap_ok h" and "packet_at Unlocked h p T"
    and "payload_ok sz data \<or> (sz = 0) \<noteq> (data = None)"
  obtains r h' U where "srvd_protocol_packet_field_append (Some p) ty sz data h = Some (r, h')"
    "packet_at Unlocked h' p U" "modifies {p} (f_addr ` set T) {} {} h h'"
    "adder.create_post h ty sz data T r h' U"
  using adder.create_locked_spec [OF assms, of ty] unfolding append_alt by blast

lemma insert_spec:
  assumes "heap_ok h" and "packet_at Unlocked h p T"
    and "payload_ok sz data \<or> (sz = 0) \<noteq> (data = None)"
  obtains r h' U where "srvd_protocol_packet_field_insert (Some p) ty sz data h = Some (r, h')"
    "packet_at Unlocked h' p U" "modifies {p} (f_addr ` set T) {} {} h h'"
    "injector.create_post h ty sz data T r h' U"
  using injector.create_locked_spec [OF assms, of ty] unfolding insert_alt by blast

lemma get_or_add_spec:
  assumes "heap_ok h" and "packet_at Unlocked h p T"
  obtains r out h' U where "srvd_protocol_packet_field_get_or_add (Some p) ty (Some None) h = Some (r, out, h')"
    "packet_at Unlocked h' p U" "modifies {p} (f_addr ` set T) {} {} h h'"
    "adder.get_or_post h ty T (r, out) h' U"
  using adder.get_or_locked_spec [OF assms, of ty] unfolding get_or_add_alt by fastforce

lemma get_or_inject_spec:
  assumes "heap_ok h" and "packet_at Unlocked h p T"
  obtains r out h' U where "srvd_protocol_packet_field_get_or_inject (Some p) ty (Some None) h = Some (r, out, h')"
    "packet_at Unlocked h' p U" "modifies {p} (f_addr ` set T) {} {} h h'"
    "injector.get_or_post h ty T (r, out) h' U"
  using injector.get_or_locked_spec [OF assms, of ty] unfolding get_or_inject_alt by fastforce

section \<open>Adding an entry to a field of a packet\<close>

lemma set_fst_abs: "fst ` set (abs_packet T) = f_ty ` set T"
  by (force simp: abs_packet_def abs_field_def)

lemma packet_at_put_entry:
  assumes ok: "heap_ok h" and at: "packet_at lk h p (T1 @ (a, ty, es) # T2)"
    and m: "modifies {} {a} (e_addr ` set es) {} h h'" and l: "links_at h' a = links_at h a"
    and fo: "field_ok h' (a, ty, es')"
    and new: "\<And>x. x \<in> e_addr ` set es' \<Longrightarrow> x \<in> e_addr ` set es \<or> brk h \<le> x"
      "\<And>x. x \<in> set (entry_blks es') \<Longrightarrow> x \<in> set (entry_blks es) \<or> brk h \<le> x"
  shows "packet_at lk h' p (T1 @ (a, ty, es') # T2)"
proof -
  let ?T = "T1 @ (a, ty, es) # T2" and ?U = "T1 @ (a, ty, es') # T2"
  note below = packet_at_below [OF ok at]
  from at obtain k where k: "pkts h p = Some (Some k)" "field_lock k = lk" "field_count k = of_nat (length ?T)"
    and seg: "dlseg f_next f_previous (flds h) None (field_head k) (map f_addr ?T) None (field_tail k)"
    and oks: "\<forall>t \<in> set ?T. field_ok h t"
    and dist: "distinct (map f_addr ?T)" "distinct (own_ents ?T)" "distinct (own_blks ?T)"
    by (auto simp: packet_at_def)
  have seg': "dlseg f_next f_previous (flds h') None (field_head k) (map f_addr ?U) None (field_tail k)"
  proof -
    have "links_at h' x = links_at h x" if "x \<in> set (map f_addr ?T)" for x
    proof (cases "x = a")
      case False
      have "x \<in> f_addr ` set ?T" using that by (simp only: set_map)
      from modifiesD(2) [OF m below(2) [OF this]] False show ?thesis by (simp add: links_at_def)
    qed (simp add: l)
    then have seg_eq: "dlseg f_next f_previous (flds h') bk q xs None z = dlseg f_next f_previous (flds h) bk q xs None z"
      if "set xs \<subseteq> set (map f_addr ?T)" for bk q xs z
      using that
    proof (induction xs arbitrary: bk q)
      case (Cons x xs)
      from Cons.prems have x: "links_at h' x = links_at h x" by auto
      show ?case
      proof (cases "flds h x")
        case (Some c)
        with x show ?thesis using Cons by (cases c) (auto simp: links_at_def)
      qed (use x in \<open>simp add: links_at_def\<close>)
    qed simp
    have "map f_addr ?U = map f_addr ?T" by simp
    then show ?thesis using seg seg_eq [OF subset_refl] by (simp only:)
  qed
  have others: "field_ok h' t" if t: "t \<in> set T1 \<union> set T2" for t
  proof (rule field_ok_modifies [OF m ok])
    show "field_ok h t" using t oks by auto
    have "f_addr t \<in> set (map f_addr (T1 @ T2))" using imageI [of t "set T1 \<union> set T2" f_addr] t by (auto simp: image_Un)
    then show "f_addr t \<notin> {a}" using dist(1) by (auto simp del: set_map)
    have "e_addr ` set (f_ents t) \<subseteq> set (own_ents T1) \<union> set (own_ents T2)"
      using t by (auto simp only: set_own_ents subset_iff Un_iff)
    then show "e_addr ` set (f_ents t) \<inter> e_addr ` set es = {}" using dist(2) by auto
  qed simp
  have "distinct (own_ents ?U)"
    using dist(2) fo new(1) below(3) by (simp add: field_ok_def) (meson disjoint_iff leD set_append Un_iff)
  moreover have "distinct (own_blks ?U)"
    using dist(3) fo new(2) below(4) by (simp add: field_ok_def) (meson disjoint_iff leD set_append Un_iff)
  moreover have "pkts h' p = pkts h p" using modifiesD(1) [OF m below(1)] by simp
  ultimately show ?thesis
    using k seg' others fo dist(1) by (simp add: packet_at_def)
qed

text \<open>Adding an entry to a field through its pointer changes that field of the packet.\<close>

lemma entry_add_in_packet:
  assumes ok: "heap_ok h" and at: "packet_at lk h p (T1 @ (a, ty, es) # T2)" and pay: "payload_ok sz data"
  obtains r h' es' where "srvd_protocol_packet_field_entry_add (Some a) sz data h = Some (r, h')"
    "modifies {} {a} (e_addr ` set es) {} h h'" "r \<longleftrightarrow> no_oom h h'"
    "packet_at lk h' p (T1 @ (a, ty, es') # T2)"
    "if r then (\<exists>e. es' = es @ [e] \<and> e_bytes e = payload sz data \<and> brk h \<le> e_addr e \<and> (\<forall>b. e_blk e = Some b \<longrightarrow> brk h \<le> b))
     else es' = es"
proof -
  have fo: "field_ok h (a, ty, es)" using at by (simp add: packet_at_def)
  from field_entry_add_spec [OF ok fo pay] obtain r h' where
    r: "srvd_protocol_packet_field_entry_add (Some a) sz data h = Some (r, h')"
    and ep: "entry_put (\<lambda>e es. es @ [e]) h a ty es (payload sz data) r h'" by blast
  have m: "modifies {} {a} (e_addr ` set es) {} h h'" and l: "links_at h' a = links_at h a" and n: "r \<longleftrightarrow> no_oom h h'"
    using ep by (auto simp: entry_put_def)
  show ?thesis
  proof (cases r)
    case True
    with ep obtain e b where e: "brk h \<le> e" "\<forall>x. b = Some x \<longrightarrow> brk h \<le> x"
      "field_ok h' (a, ty, es @ [(e, b, payload sz data)])" by (auto simp: entry_put_def)
    have "packet_at lk h' p (T1 @ (a, ty, es @ [(e, b, payload sz data)]) # T2)"
      by (rule packet_at_put_entry [OF ok at m l e(3)]) (use e(1,2) in \<open>auto split: option.splits\<close>)
    with that [OF r m n] True e(1,2) show ?thesis by auto
  next
    case False
    with ep have "field_ok h' (a, ty, es)" by (simp add: entry_put_def)
    then have "packet_at lk h' p (T1 @ (a, ty, es) # T2)"
      by (rule packet_at_put_entry [OF ok at m l]) auto
    with that [OF r m n] False show ?thesis by auto
  qed
qed

lemma entry_inject_in_packet:
  assumes ok: "heap_ok h" and at: "packet_at lk h p (T1 @ (a, ty, es) # T2)" and pay: "payload_ok sz data"
  obtains r h' es' where "srvd_protocol_packet_field_entry_inject (Some a) sz data h = Some (r, h')"
    "modifies {} {a} (e_addr ` set es) {} h h'" "r \<longleftrightarrow> no_oom h h'"
    "packet_at lk h' p (T1 @ (a, ty, es') # T2)"
    "if r then (\<exists>e. es' = e # es \<and> e_bytes e = payload sz data) else es' = es"
proof -
  have fo: "field_ok h (a, ty, es)" using at by (simp add: packet_at_def)
  from field_entry_inject_spec [OF ok fo pay] obtain r h' where
    r: "srvd_protocol_packet_field_entry_inject (Some a) sz data h = Some (r, h')"
    and ep: "entry_put (\<lambda>e es. e # es) h a ty es (payload sz data) r h'" by blast
  have m: "modifies {} {a} (e_addr ` set es) {} h h'" and l: "links_at h' a = links_at h a" and n: "r \<longleftrightarrow> no_oom h h'"
    using ep by (auto simp: entry_put_def)
  show ?thesis
  proof (cases r)
    case True
    with ep obtain e b where e: "brk h \<le> e" "\<forall>x. b = Some x \<longrightarrow> brk h \<le> x"
      "field_ok h' (a, ty, (e, b, payload sz data) # es)" by (auto simp: entry_put_def)
    have "packet_at lk h' p (T1 @ (a, ty, (e, b, payload sz data) # es) # T2)"
      by (rule packet_at_put_entry [OF ok at m l e(3)]) (use e(1,2) in \<open>auto split: option.splits\<close>)
    with that [OF r m n] True show ?thesis by auto
  next
    case False
    with ep have "field_ok h' (a, ty, es)" by (simp add: entry_put_def)
    then have "packet_at lk h' p (T1 @ (a, ty, es) # T2)"
      by (rule packet_at_put_entry [OF ok at m l]) auto
    with that [OF r m n] False show ?thesis by auto
  qed
qed

end
