(* ===== verification/Serial_Refine.thy ===== *)
theory Serial_Refine
  imports Serial Packet_Contract
begin

text \<open>
  The serialiser against the wire format: the size computation is exact, no write leaves the
  buffer, and the buffer ends up holding the wire form of the packet, byte for byte.
\<close>

section \<open>The wire form of an abstract packet\<close>

definition wire_entry :: "byte list \<Rightarrow> byte list" where
  "wire_entry d = be16 (of_nat (length d)) @ d"

definition wire_field :: "sfield \<Rightarrow> byte list" where
  "wire_field f = be16 (fst f) @ be16 (of_nat (length (snd f))) @ concat (map wire_entry (snd f))"

definition wire_body :: "spacket \<Rightarrow> byte list" where
  "wire_body sp = concat (map wire_field sp)"

definition wire_header :: "spacket \<Rightarrow> byte list" where
  "wire_header sp = be16 SRVD_PROTOCOL_SERIAL_PACKET_VERSION @ be16 (of_nat (length sp)) @
     be32 (of_nat (length (wire_body sp)))"

definition wire_packet :: "spacket \<Rightarrow> byte list" where
  "wire_packet sp = wire_header sp @ wire_body sp"

text \<open>The counts fit the 16 bits the wire has for them.\<close>

definition counts_fit :: "spacket \<Rightarrow> bool" where
  "counts_fit sp \<longleftrightarrow> length sp < 65536 \<and> (\<forall>f \<in> set sp. length (snd f) < 65536)"

lemma length_wire_header [simp]: "length (wire_header sp) = 8"
  by (simp add: wire_header_def)

lemma length_wire_entry [simp]: "length (wire_entry d) = 2 + length d"
  by (simp add: wire_entry_def)

lemma wire_body_simps [simp]:
  "wire_body [] = []" "wire_body (f # sp) = wire_field f @ wire_body sp"
  by (simp_all add: wire_body_def)

section \<open>The size computation\<close>

lemma body_size_entries_spec:
  assumes "dlseg e_next e_previous (ents h) bk p (map e_addr es) None l" and "\<forall>e \<in> set es. entry_ok h e"
  shows "body_size_entries p acc h = Some (acc + sum_list (map length (map e_bytes es)))"
  using assms
proof (induction es arbitrary: bk p acc)
  case Nil
  then show ?case by (subst body_size_entries.simps) simp
next
  case (Cons e es)
  from Cons.prems obtain n where n: "p = Some (e_addr e)" "ents h (e_addr e) = Some (Some n)"
      "unat (e_size n) = length (e_bytes e)"
    and seg: "dlseg e_next e_previous (ents h) (Some (e_addr e)) (e_next n) (map e_addr es) None l"
    by (auto simp: entry_ok_def)
  with Cons.IH [OF seg] Cons.prems(2) show ?case
    by (subst body_size_entries.simps) (simp add: mem_simps)
qed

lemma length_wire_field:
  "length (wire_field f) = 4 + (2 * length (snd f) + sum_list (map length (snd f)))"
proof -
  have "length (concat (map wire_entry ds)) = 2 * length ds + sum_list (map length ds)" for ds
    by (induction ds) simp_all
  then show ?thesis by (simp add: wire_field_def)
qed



lemma body_size_fields_spec:
  assumes "dlseg f_next f_previous (flds h) bk p (map f_addr T) None l" and "\<forall>t \<in> set T. field_ok h t"
    and "\<forall>f \<in> set (abs_packet T). length (snd f) < 65536"
  shows "body_size_fields p (acc + 4 * length T) h = Some (acc + length (wire_body (abs_packet T)))"
  using assms
proof (induction T arbitrary: bk p acc)
  case Nil
  then show ?case by (subst body_size_fields.simps) simp
next
  case (Cons t T)
  from Cons.prems(1) obtain f where f: "p = Some (f_addr t)" "flds h (f_addr t) = Some (Some f)"
    and seg: "dlseg f_next f_previous (flds h) (Some (f_addr t)) (f_next f) (map f_addr T) None l" by auto
  have fo: "field_ok h t" using Cons.prems(2) by simp
  have len: "length (f_ents t) < 65536" using Cons.prems(3) by (simp add: abs_field_def)
  from fo f(2) have fe: "unat (entry_count f) = length (f_ents t)"
    "dlseg e_next e_previous (ents h) None (entry_head f) (map e_addr (f_ents t)) None (entry_tail f)"
    "\<forall>e \<in> set (f_ents t). entry_ok h e"
    using len by (auto simp: field_ok_def)
  have "length (wire_field (abs_field t)) =
      4 + (2 * length (f_ents t) + sum_list (map length (map e_bytes (f_ents t))))"
    by (simp add: length_wire_field abs_field_def)
  then have sz: "acc + 4 * length (t # T) + 2 * unat (entry_count f) + sum_list (map length (map e_bytes (f_ents t)))
      = (acc + length (wire_field (abs_field t))) + 4 * length T"
    using fe(1) by simp
  have IH: "body_size_fields (f_next f) ((acc + length (wire_field (abs_field t))) + 4 * length T) h =
      Some (acc + length (wire_field (abs_field t)) + length (wire_body (abs_packet T)))"
    using Cons.prems(2,3) by (intro Cons.IH [OF seg]) auto
  have "body_size_entries (entry_head f) (acc + 4 * length (t # T) + 2 * unat (entry_count f)) h =
      Some ((acc + length (wire_field (abs_field t))) + 4 * length T)"
    unfolding body_size_entries_spec [OF fe(2,3)] sz ..
  then show ?case using f IH
    by (subst body_size_fields.simps) (simp add: mem_simps wire_simps del: length_Cons)
qed

lemma body_size_spec:
  assumes "packet_at lk h p T" and "counts_fit (abs_packet T)"
  shows "srvd_protocol_serial_packet_body_size (Some p) h = Some (length (wire_body (abs_packet T)))"
proof -
  from assms(1) obtain k where k: "pkts h p = Some (Some k)" "field_count k = of_nat (length T)"
    and seg: "dlseg f_next f_previous (flds h) None (field_head k) (map f_addr T) None (field_tail k)"
    and oks: "\<forall>t \<in> set T. field_ok h t"
    by (auto simp: packet_at_def)
  have "length T < 65536" using assms(2) by (simp add: counts_fit_def abs_packet_def)
  then show ?thesis
    using k body_size_fields_spec [OF seg oks, of 0] assms(2)
    by (simp add: srvd_protocol_serial_packet_body_size_def mem_simps wire_simps counts_fit_def)
qed

section \<open>Writing at the frontier of the buffer\<close>

lemma wr_block_frontier:
  assumes "blks h b = Some (pre @ replicate k 0)" and "off = length pre" and "length ys \<le> k"
  shows "wr_block (Some b) off ys h =
     Some (h\<lparr>blks := (blks h)(b \<mapsto> (pre @ ys) @ replicate (k - length ys) 0)\<rparr>)"
  using wr_buf_frontier [OF assms(2,3), of 0] assms(1) by (simp add: wr_block_def)

text \<open>The store with the buffer at \<open>b\<close> replaced.\<close>

definition set_blk :: "addr \<Rightarrow> byte list \<Rightarrow> heap \<Rightarrow> heap" where
  "set_blk b xs h = h\<lparr>blks := (blks h)(b \<mapsto> xs)\<rparr>"

lemma set_blk_simps [simp]:
  "ents (set_blk b xs h) = ents h" "flds (set_blk b xs h) = flds h" "pkts (set_blk b xs h) = pkts h"
  "brk (set_blk b xs h) = brk h" "oom (set_blk b xs h) = oom h" "blks (set_blk b xs h) = (blks h)(b \<mapsto> xs)"
  "set_blk b xs (set_blk b ys h) = set_blk b xs h"
  by (simp_all add: set_blk_def)

lemma wr_frontier:
  assumes "blks h b = Some (pre @ replicate k 0)" and "off = length pre" and "length ys \<le> k"
  shows "wr_block (Some b) off ys h = Some (set_blk b ((pre @ ys) @ replicate (k - length ys) 0) h)"
  using wr_block_frontier [OF assms] by (simp add: set_blk_def)

lemma entry_ok_set_blk: "e_blk e \<noteq> Some b \<Longrightarrow> entry_ok (set_blk b xs h) e = entry_ok h e"
  by (intro entry_ok_cong) auto

lemma field_ok_set_blk: "b \<notin> set (entry_blks (f_ents t)) \<Longrightarrow> field_ok (set_blk b xs h) t = field_ok h t"
  by (intro field_ok_cong) auto

lemma rd_data_entry:
  assumes "entry_ok h e" and "ents h (e_addr e) = Some (Some n)"
  shows "rd_data n h = Some (e_bytes e)"
proof (cases "e_blk e")
  case None
  with assms have "e_size n = 0" "e_bytes e = []" by (auto simp: entry_ok_def)
  then show ?thesis by (simp add: rd_data_def)
next
  case (Some b)
  with assms have n: "e_data n = Some b" "blks h b = Some (e_bytes e)" "e_bytes e \<noteq> []"
    "length (e_bytes e) < 65536" "e_size n = of_nat (length (e_bytes e))" by (auto simp: entry_ok_def)
  then have "unat (e_size n) = length (e_bytes e)" "e_size n \<noteq> 0" by (simp_all add: of_nat_0_16)
  with n show ?thesis by (simp add: rd_data_def rd_block_def rd_buf_def)
qed

lemma serialize_entries_spec:
  assumes "dlseg e_next e_previous (ents h) bk i (map e_addr es) None l" and "\<forall>e \<in> set es. entry_ok h e"
    and "b \<notin> set (entry_blks es)" and "blks h b = Some (pre @ replicate k 0)"
    and "length (concat (map (wire_entry \<circ> e_bytes) es)) \<le> k"
  shows "serialize_entries i (Some b) (length pre) h =
     Some (length (pre @ concat (map (wire_entry \<circ> e_bytes) es)),
           set_blk b ((pre @ concat (map (wire_entry \<circ> e_bytes) es)) @
              replicate (k - length (concat (map (wire_entry \<circ> e_bytes) es))) 0) h)"
  using assms
proof (induction es arbitrary: bk i h pre k)
  case Nil
  then have "set_blk b (pre @ replicate k 0) h = h"
    by (simp add: set_blk_def fun_upd_idem)
  with Nil show ?case by (subst serialize_entries.simps) simp
next
  case (Cons e es)
  let ?d = "e_bytes e" and ?w = "wire_entry (e_bytes e)"
  from Cons.prems(1) obtain n where n: "i = Some (e_addr e)" "ents h (e_addr e) = Some (Some n)"
    and seg: "dlseg e_next e_previous (ents h) (Some (e_addr e)) (e_next n) (map e_addr es) None l" by auto
  from Cons.prems(2) n(2) have sz: "e_size n = of_nat (length ?d)" "length ?d < 65536"
    by (auto simp: entry_ok_def)
  let ?h1 = "set_blk b ((pre @ be16 (e_size n)) @ replicate (k - 2) 0) h"
  let ?h2 = "set_blk b ((pre @ ?w) @ replicate (k - length ?w) 0) h"
  have k: "2 + length ?d \<le> k" using Cons.prems(5) by simp
  have w1: "wr_block (Some b) (length pre) (be16 (e_size n)) h = Some ?h1"
    using k by (subst wr_frontier [OF Cons.prems(4)]) auto
  have e_b: "e_blk e \<noteq> Some b" using Cons.prems(3) by auto
  then have "entry_ok ?h1 e" using Cons.prems(2) by (simp add: entry_ok_set_blk)
  then have rd: "rd_data n ?h1 = Some ?d" using n(2) by (intro rd_data_entry) auto
  have w2: "wr_block (Some b) (length pre + 2) ?d ?h1 = Some ?h2"
  proof -
    have b1: "blks ?h1 b = Some ((pre @ be16 (e_size n)) @ replicate (k - 2) 0)" by simp
    have "length pre + 2 = length (pre @ be16 (e_size n))" by simp
    from wr_frontier [OF b1 this] k sz show ?thesis by (simp add: wire_entry_def)
  qed
  have IH: "serialize_entries (e_next n) (Some b) (length (pre @ ?w)) ?h2 =
      Some (length ((pre @ ?w) @ concat (map (wire_entry \<circ> e_bytes) es)),
            set_blk b (((pre @ ?w) @ concat (map (wire_entry \<circ> e_bytes) es)) @
              replicate (k - length ?w - length (concat (map (wire_entry \<circ> e_bytes) es))) 0) ?h2)"
  proof (rule Cons.IH)
    show "dlseg e_next e_previous (ents ?h2) (Some (e_addr e)) (e_next n) (map e_addr es) None l"
      using seg by simp
    show "\<forall>x \<in> set es. entry_ok ?h2 x"
      using Cons.prems(2,3) by (auto simp: entry_ok_set_blk set_entry_blks)
  qed (use Cons.prems(3,5) in auto)
  have "length (pre @ ?w) = length pre + 2 + unat (e_size n)" using sz by simp
  with IH w1 rd w2 n show ?case
    by (subst serialize_entries.simps) (simp add: mem_simps wire_simps)
qed


lemma serialize_fields_spec:
  assumes "dlseg f_next f_previous (flds h) bk i (map f_addr T) None l" and "\<forall>t \<in> set T. field_ok h t"
    and "\<forall>f \<in> set (abs_packet T). length (snd f) < 65536"
    and "b \<notin> set (own_blks T)" and "blks h b = Some (pre @ replicate k 0)"
    and "length (wire_body (abs_packet T)) \<le> k"
  shows "serialize_fields i (Some b) (length pre) h =
     Some (set_blk b ((pre @ wire_body (abs_packet T)) @ replicate (k - length (wire_body (abs_packet T))) 0) h)"
  using assms
proof (induction T arbitrary: bk i h pre k)
  case Nil
  then have "set_blk b (pre @ replicate k 0) h = h"
    by (simp add: set_blk_def fun_upd_idem)
  with Nil show ?case by (subst serialize_fields.simps) simp
next
  case (Cons t T)
  let ?es = "f_ents t" and ?w = "wire_field (abs_field t)" and ?W = "wire_body (abs_packet T)"
  from Cons.prems(1) obtain f where f: "i = Some (f_addr t)" "flds h (f_addr t) = Some (Some f)"
    and seg: "dlseg f_next f_previous (flds h) (Some (f_addr t)) (f_next f) (map f_addr T) None l" by auto
  have fo: "field_ok h t" using Cons.prems(2) by simp
  have len: "length ?es < 65536" using Cons.prems(3) by (simp add: abs_field_def)
  from fo f(2) have fe: "f_type f = f_ty t" "entry_count f = of_nat (length ?es)"
    "dlseg e_next e_previous (ents h) None (entry_head f) (map e_addr ?es) None (entry_tail f)"
    "\<forall>e \<in> set ?es. entry_ok h e"
    by (auto simp: field_ok_def)
  have nb: "b \<notin> set (entry_blks ?es)" "b \<notin> set (own_blks T)" using Cons.prems(4) by auto
  let ?E = "concat (map (wire_entry \<circ> e_bytes) ?es)"
  have w: "?w = be16 (f_type f) @ be16 (entry_count f) @ ?E"
    using fe by (simp add: wire_field_def abs_field_def)
  have k: "4 + length ?E + length ?W \<le> k" using Cons.prems(6) unfolding abs_packet_def
    by (simp add: w [symmetric, unfolded abs_field_def] flip: abs_packet_def) (simp add: w)
  let ?h1 = "set_blk b ((pre @ be16 (f_type f)) @ replicate (k - 2) 0) h"
  let ?h2 = "set_blk b (((pre @ be16 (f_type f)) @ be16 (entry_count f)) @ replicate (k - 2 - 2) 0) h"
  let ?h3 = "set_blk b ((pre @ ?w) @ replicate (k - length ?w) 0) h"
  have w1: "wr_block (Some b) (length pre) (be16 (f_type f)) h = Some ?h1"
    using k by (subst wr_frontier [OF Cons.prems(5)]) auto
  have w2: "wr_block (Some b) (length pre + 2) (be16 (entry_count f)) ?h1 = Some ?h2"
  proof -
    have b1: "blks ?h1 b = Some ((pre @ be16 (f_type f)) @ replicate (k - 2) 0)" by simp
    have "length pre + 2 = length (pre @ be16 (f_type f))" by simp
    from wr_frontier [OF b1 this, of "be16 (entry_count f)"] k show ?thesis by simp
  qed
  have w3: "serialize_entries (entry_head f) (Some b) (length pre + 4) ?h2 = Some (length (pre @ ?w), ?h3)"
  proof -
    have "serialize_entries (entry_head f) (Some b) (length ((pre @ be16 (f_type f)) @ be16 (entry_count f))) ?h2 =
      Some (length (((pre @ be16 (f_type f)) @ be16 (entry_count f)) @ ?E),
        set_blk b ((((pre @ be16 (f_type f)) @ be16 (entry_count f)) @ ?E) @ replicate (k - 2 - 2 - length ?E) 0) ?h2)"
    proof (rule serialize_entries_spec)
      show "dlseg e_next e_previous (ents ?h2) None (entry_head f) (map e_addr ?es) None (entry_tail f)"
        using fe(3) by simp
      show "\<forall>e \<in> set ?es. entry_ok ?h2 e"
        using fe(4) nb(1) by (auto simp: entry_ok_set_blk set_entry_blks)
    qed (use nb k in auto)
    moreover have "k - 2 - 2 - length ?E = k - length ?w" by (simp add: w)
    moreover have "length ((pre @ be16 (f_type f)) @ be16 (entry_count f)) = length pre + 4" by simp
    moreover have "((pre @ be16 (f_type f)) @ be16 (entry_count f)) @ ?E = pre @ ?w" by (simp add: w)
    ultimately show ?thesis by (simp only: set_blk_simps)
  qed
  have IH: "serialize_fields (f_next f) (Some b) (length (pre @ ?w)) ?h3 =
      Some (set_blk b (((pre @ ?w) @ ?W) @ replicate (k - length ?w - length ?W) 0) ?h3)"
  proof (rule Cons.IH)
    show "dlseg f_next f_previous (flds ?h3) (Some (f_addr t)) (f_next f) (map f_addr T) None l"
      using seg by simp
    show "\<forall>u \<in> set T. field_ok ?h3 u"
      using Cons.prems(2) nb(2) by (auto simp: field_ok_set_blk set_own_blks)
  qed (use Cons.prems(3) nb k in \<open>auto simp: w\<close>)
  with w1 w2 w3 f show ?case
    by (subst serialize_fields.simps) (simp add: mem_simps wire_simps)
qed

section \<open>The whole packet\<close>

text \<open>What the serialiser returns when the buffer can be allocated.\<close>

lemma serialize_spec:
  assumes ok: "heap_ok h" and at: "packet_at lk h p T" and fit: "counts_fit (abs_packet T)"
    and mem: "\<not> oom h (brk h)"
  shows "srvd_protocol_serial_packet_serialize (Some s) (Some p) h =
     Some (True, Some \<lparr>s_size = length (wire_packet (abs_packet T)), s_body_size = length (wire_body (abs_packet T)),
                       s_field_count = of_nat (length T), s_data = Some (brk h)\<rparr>,
           set_blk (brk h) (wire_packet (abs_packet T)) (h\<lparr>brk := Suc (brk h)\<rparr>))"
proof -
  let ?sp = "abs_packet T" and ?b = "brk h"
  let ?n = "length (wire_body ?sp)" and ?h0 = "h\<lparr>brk := Suc (brk h)\<rparr>"
  from at obtain k where k: "pkts h p = Some (Some k)" "field_count k = of_nat (length T)"
    and seg: "dlseg f_next f_previous (flds h) None (field_head k) (map f_addr T) None (field_tail k)"
    and oks: "\<forall>t \<in> set T. field_ok h t"
    by (auto simp: packet_at_def)
  let ?v = "be16 SRVD_PROTOCOL_SERIAL_PACKET_VERSION" and ?c = "be16 (field_count k)" and ?z = "be32 (of_nat ?n)"
  have hdr: "wire_header ?sp = ?v @ ?c @ ?z" using k(2) by (simp add: wire_header_def abs_packet_def)
  have nb: "?b \<notin> set (own_blks T)" using packet_at_below(4) [OF ok at] by blast
  have s0: "wr_block (Some ?b) 0 (replicate (?n + 8) 0) (set_blk ?b (replicate (?n + 8) 0) ?h0) =
      Some (set_blk ?b (replicate (?n + 8) 0) ?h0)"
    by (subst wr_frontier [where pre = "[]" and k = "?n + 8"]) auto
  have s1: "wr_block (Some ?b) 0 ?v (set_blk ?b (replicate (?n + 8) 0) ?h0) =
      Some (set_blk ?b (?v @ replicate (?n + 6) 0) ?h0)"
    by (subst wr_frontier [where pre = "[]" and k = "?n + 8"]) (auto simp: add.commute)
  have s2: "wr_block (Some ?b) 2 ?c (set_blk ?b (?v @ replicate (?n + 6) 0) ?h0) =
      Some (set_blk ?b ((?v @ ?c) @ replicate (?n + 4) 0) ?h0)"
    by (subst wr_frontier [where pre = ?v and k = "?n + 6"]) (auto simp: add.commute)
  have s3: "wr_block (Some ?b) 4 ?z (set_blk ?b ((?v @ ?c) @ replicate (?n + 4) 0) ?h0) =
      Some (set_blk ?b (wire_header ?sp @ replicate ?n 0) ?h0)"
    unfolding hdr by (subst wr_frontier [where pre = "?v @ ?c" and k = "?n + 4"]) (auto simp: add.commute)
  have "serialize_fields (field_head k) (Some ?b) (length (wire_header ?sp))
      (set_blk ?b (wire_header ?sp @ replicate ?n 0) ?h0) =
      Some (set_blk ?b ((wire_header ?sp @ wire_body ?sp) @ replicate (?n - ?n) 0)
         (set_blk ?b (wire_header ?sp @ replicate ?n 0) ?h0))"
  proof (rule serialize_fields_spec)
    show "dlseg f_next f_previous (flds (set_blk ?b (wire_header ?sp @ replicate ?n 0) ?h0)) None
        (field_head k) (map f_addr T) None (field_tail k)"
      using seg by simp
    have "field_ok ?h0 t = field_ok h t" for t by (rule field_ok_cong) auto
    then show "\<forall>t \<in> set T. field_ok (set_blk ?b (wire_header ?sp @ replicate ?n 0) ?h0) t"
      using oks nb by (auto simp: field_ok_set_blk set_own_blks)
  qed (use nb fit in \<open>auto simp: counts_fit_def\<close>)
  then have s4: "serialize_fields (field_head k) (Some ?b) 8 (set_blk ?b (wire_header ?sp @ replicate ?n 0) ?h0) =
      Some (set_blk ?b (wire_packet ?sp) ?h0)"
    by (simp add: wire_packet_def)
  have "malloc_block (?n + 8) h = (Some ?b, set_blk ?b (replicate (?n + 8) 0) ?h0)"
    using mem by (simp add: malloc_block_def set_blk_def Let_def)
  then show ?thesis
    using body_size_spec [OF at fit] k s0 s1 s2 s3 s4
    by (simp add: srvd_protocol_serial_packet_serialize_def mem_simps serial_consts wire_packet_def)
qed

lemma serialize_oom:
  assumes ok: "heap_ok h" and at: "packet_at lk h p T" and fit: "counts_fit (abs_packet T)"
    and mem: "oom h (brk h)"
  shows "\<exists>s'. srvd_protocol_serial_packet_serialize (Some s) (Some p) h =
     Some (False, Some s', h\<lparr>brk := Suc (brk h)\<rparr>) \<and> s_data s' = None"
proof -
  from at obtain k where k: "pkts h p = Some (Some k)" by (auto simp: packet_at_def)
  with body_size_spec [OF at fit] mem show ?thesis
    by (simp add: srvd_protocol_serial_packet_serialize_def mem_simps malloc_block_def Let_def)
qed

end
