(* ===== verification/Unserialize_Refine.thy ===== *)
theory Unserialize_Refine
  imports Serial_Refine
begin

text \<open>
  The unserialiser against a parser on byte lists. The parser says, for every sequence of bytes,
  whether the body is accepted and with which fields, refused with the packet still whole, refused
  with a released field left in the packet, or read past its end. The code is proved to follow it
  in every pattern of allocation failures; the round trip and the read bound are facts of the
  parser.
\<close>

section \<open>The parser\<close>

datatype 'a parse = Parsed 'a | Refused spacket | Broken | Overrun

text \<open>Entries of a field whose type the packet already has join the field that is there.\<close>

fun sp_extend :: "u16 \<Rightarrow> byte list list \<Rightarrow> spacket \<Rightarrow> spacket" where
  "sp_extend ty ds [] = [(ty, ds)]"
| "sp_extend ty ds ((t, es) # sp) = (if t = ty then (t, es @ ds) # sp else (t, es) # sp_extend ty ds sp)"

fun parse_entries :: "nat \<Rightarrow> nat \<Rightarrow> byte list \<Rightarrow> nat \<Rightarrow> (byte list list \<times> nat) parse" where
  "parse_entries 0 sz body p = Parsed ([], p)"
| "parse_entries (Suc n) sz body p =
     (case get16 body p of None \<Rightarrow> Overrun
      | Some z \<Rightarrow>
        if p + 2 + unat z > sz \<or> z = 0 then Broken
        else case parse_entries n sz body (p + 2 + unat z) of
          Parsed (ds, q) \<Rightarrow> Parsed (take (unat z) (drop (p + 2) body) # ds, q)
        | r \<Rightarrow> r)"

fun parse_fields :: "nat \<Rightarrow> nat \<Rightarrow> byte list \<Rightarrow> nat \<Rightarrow> spacket \<Rightarrow> spacket parse" where
  "parse_fields 0 sz body p sp = Parsed sp"
| "parse_fields (Suc n) sz body p sp =
     (if p \<ge> sz then Refused sp
      else case get16 body p of None \<Rightarrow> Overrun
      | Some ty \<Rightarrow> (case get16 body (p + 2) of None \<Rightarrow> Overrun
        | Some c \<Rightarrow>
          if p + 4 + unat c * 2 > sz then Refused sp
          else case parse_entries (unat c) sz body (p + 4) of
            Parsed (ds, q) \<Rightarrow> parse_fields n sz body q (sp_extend ty ds sp)
          | Refused sp' \<Rightarrow> Refused sp'
          | Broken \<Rightarrow> Broken
          | Overrun \<Rightarrow> Overrun))"

definition parse_body :: "u16 \<Rightarrow> nat \<Rightarrow> byte list \<Rightarrow> spacket \<Rightarrow> spacket parse" where
  "parse_body c sz body sp = (if sz < unat c * 4 then Refused sp else parse_fields (unat c) sz body 0 sp)"

lemma parse_entries_not_Refused: "parse_entries n sz body p \<noteq> Refused sp"
  by (induction n arbitrary: p) (auto split: option.splits parse.splits)

section \<open>The code follows the parser\<close>

text \<open>
  How an outcome of the code matches an outcome of the parser: the answer, the packet that is left,
  and no failed allocation on the way. A failed allocation makes the code answer \<open>SRVD_FALSE\<close>.
\<close>

definition out_of_memory :: "heap \<Rightarrow> (bool \<times> heap) option \<Rightarrow> bool" where
  "out_of_memory h res \<longleftrightarrow> (\<exists>h'. res = Some (False, h') \<and> \<not> no_oom h h')"

definition follows :: "heap \<Rightarrow> addr \<Rightarrow> spacket parse \<Rightarrow> (bool \<times> heap) option \<Rightarrow> bool" where
  "follows h p out res \<longleftrightarrow> out_of_memory h res \<or>
     (case out of
        Parsed sp \<Rightarrow> \<exists>h'. res = Some (True, h') \<and> no_oom h h' \<and> heap_ok h' \<and> packet_rep h' p sp
      | Refused sp \<Rightarrow> \<exists>h'. res = Some (False, h') \<and> no_oom h h' \<and> heap_ok h' \<and> packet_rep h' p sp
      | Broken \<Rightarrow> \<exists>h'. res = Some (False, h') \<and> no_oom h h' \<and> srvd_protocol_packet_finalize (Some p) h' = None
      | Overrun \<Rightarrow> res = None)"

lemma no_oom_after:
  "brk h \<le> brk h1 \<Longrightarrow> oom h1 = oom h \<Longrightarrow> no_oom h h1 \<Longrightarrow> no_oom h1 h' \<longleftrightarrow> no_oom h h'"
  by (auto simp: no_oom_def) (metis leI)

lemma follows_cong:
  assumes "\<And>h'. no_oom h1 h' \<longleftrightarrow> no_oom h h'"
  shows "follows h1 p out res \<longleftrightarrow> follows h p out res"
  unfolding follows_def out_of_memory_def assms ..

text \<open>The entries of one field: the offset after the last one, or the field released.\<close>

definition entries_follow :: "heap \<Rightarrow> addr \<Rightarrow> ftree list \<Rightarrow> ftree \<Rightarrow> ftree list \<Rightarrow> (byte list list \<times> nat) parse
    \<Rightarrow> (nat option \<times> heap) option \<Rightarrow> bool" where
  "entries_follow h p T1 t T2 out res \<longleftrightarrow>
     (\<exists>h'. res = Some (None, h') \<and> \<not> no_oom h h') \<or>
     (case out of
        Parsed (ds, q) \<Rightarrow> \<exists>h' es. res = Some (Some q, h') \<and> no_oom h h' \<and> brk h \<le> brk h' \<and> oom h' = oom h \<and>
          heap_ok h' \<and> packet_at Unlocked h' p (T1 @ (f_addr t, f_ty t, f_ents t @ es) # T2) \<and> map e_bytes es = ds
      | Refused sp \<Rightarrow> False
      | Broken \<Rightarrow> \<exists>h'. res = Some (None, h') \<and> no_oom h h' \<and> srvd_protocol_packet_finalize (Some p) h' = None
      | Overrun \<Rightarrow> res = None)"

lemma unserialize_entries_reject:
  "do { (_, h) \<leftarrow> srvd_protocol_packet_field_finalize (Some a) h;
        h \<leftarrow> srvd_protocol_packet_field_free (Some a) h; Some (None, h) } =
   map_option (Pair None) (release_field a h)"
  by (cases "srvd_protocol_packet_field_finalize (Some a) h")
     (auto simp: release_field_def map_option_bind comp_def bind_map_option split: prod.splits Option.bind_splits)

lemma release_dangles:
  assumes at: "packet_at Unlocked h p T" and t: "t \<in> set T"
  obtains h' where "release_field (f_addr t) h = Some h'" "brk h' = brk h" "oom h' = oom h"
    "srvd_protocol_packet_finalize (Some p) h' = None"
proof -
  have "field_ok h t" using at t by (simp add: packet_at_def)
  then have r: "release_field (f_addr t) h = Some (drop_field t h)" by (rule field_release_spec)
  show ?thesis by (rule that [OF r]) (use packet_finalize_dangling [OF at t r] in \<open>auto simp: drop_field_def\<close>)
qed

lemma unserialize_entries_follows:
  assumes "heap_ok h" and "packet_at Unlocked h p (T1 @ (a, ty, es) # T2)" and "sz \<le> length body"
  shows "entries_follow h p T1 (a, ty, es) T2 (parse_entries n sz body off)
     (unserialize_entries n sz body (Some a) off h)"
  using assms
proof (induction n arbitrary: h es off)
  case 0
  then show ?case by (auto simp: entries_follow_def intro: exI [of _ "[]"])
next
  case (Suc n)
  note ok = Suc.prems(1) and at = Suc.prems(2)
  have reject: "\<exists>h'. map_option (Pair None) (release_field a h1) = Some (None :: nat option, h') \<and> brk h' = brk h1 \<and>
      srvd_protocol_packet_finalize (Some p) h' = None"
    if "packet_at Unlocked h1 p (T1 @ (a, ty, es1) # T2)" for h1 es1
    by (rule release_dangles [OF that, of "(a, ty, es1)"]) auto
  show ?case
  proof (cases "get16 body off")
    case None
    then show ?thesis by (simp add: entries_follow_def)
  next
    case (Some z)
    show ?thesis
    proof (cases "off + 2 + unat z > sz")
      case True
      with Some reject [OF at] show ?thesis
        by (auto simp: entries_follow_def serial_consts unserialize_entries_reject)
    next
      case fits: False
      let ?data = "Some (drop (off + 2) body)"
      show ?thesis
      proof (cases "z = 0")
        case True
        with Some fits reject [OF at] show ?thesis
          by (auto simp: entries_follow_def serial_consts unserialize_entries_reject field_entry_bad_payload)
      next
        case False
        have pay: "payload_ok z ?data" using fits False Suc.prems(3) by auto
        obtain r h1 es1 where add: "srvd_protocol_packet_field_entry_add (Some a) z ?data h = Some (r, h1)"
          and m: "modifies {} {a} (e_addr ` set es) {} h h1" and no: "r \<longleftrightarrow> no_oom h h1"
          and at1: "packet_at Unlocked h1 p (T1 @ (a, ty, es1) # T2)"
          and es1: "if r then (\<exists>e. es1 = es @ [e] \<and> e_bytes e = payload z ?data) else es1 = es"
          by (rule entry_add_in_packet [OF ok at pay]) (auto split: if_splits)
        have run: "unserialize_entries (Suc n) sz body (Some a) off h =
            (if r then unserialize_entries n sz body (Some a) (off + 2 + unat z) h1
             else map_option (Pair None) (release_field a h1))"
          using Some fits add unserialize_entries_reject [of a h1]
          by (cases r) (simp_all add: serial_consts add.assoc)
        show ?thesis
        proof (cases r)
          case False
          with reject [OF at1] no run show ?thesis by (auto simp: entries_follow_def no_oom_def)
        next
          case True
          with es1 obtain e where e: "es1 = es @ [e]" "e_bytes e = take (unat z) (drop (off + 2) body)"
            by (auto simp: payload_def)
          have IH: "entries_follow h1 p T1 (a, ty, es1) T2 (parse_entries n sz body (off + 2 + unat z))
              (unserialize_entries n sz body (Some a) (off + 2 + unat z) h1)"
            using Suc.IH [OF modifies_heap_ok [OF m] at1 Suc.prems(3)] .
          have br: "brk h \<le> brk h1" "oom h1 = oom h" using m by (auto simp: modifies_def)

          have eq: "no_oom h1 h' \<longleftrightarrow> no_oom h h'" for h' using no_oom_after [OF br] no True by simp
          have le: "brk h \<le> brk h'" if "brk h1 \<le> brk h'" for h' using br(1) that by simp
          show ?thesis
          proof (cases "parse_entries n sz body (off + 2 + unat z)")
            case (Parsed dq)
            obtain ds q where dq: "dq = (ds, q)" by (cases dq)
            have pe: "parse_entries (Suc n) sz body off = Parsed (e_bytes e # ds, q)"
              using Some fits \<open>z \<noteq> 0\<close> Parsed dq e(2) by simp
            from IH consider h' where "unserialize_entries (Suc n) sz body (Some a) off h = Some (None, h')" "\<not> no_oom h h'"
              | h' es2 where "unserialize_entries (Suc n) sz body (Some a) off h = Some (Some q, h')" "no_oom h h'"
                "brk h1 \<le> brk h'" "oom h' = oom h1" "heap_ok h'"
                "packet_at Unlocked h' p (T1 @ (a, ty, es1 @ es2) # T2)" "map e_bytes es2 = ds"
              unfolding run entries_follow_def eq Parsed dq using True by auto
            then show ?thesis
            proof cases
              case 1
              then show ?thesis by (auto simp: entries_follow_def)
            next
              case 2
              then show ?thesis unfolding entries_follow_def pe using br e(1)
                by (auto intro!: disjI2 exI [of _ "e # es2"])
            qed
          next
            case (Refused sp)
            then show ?thesis using parse_entries_not_Refused by blast
          next
            case Broken
            show ?thesis using IH Some fits \<open>z \<noteq> 0\<close> run True Broken unfolding entries_follow_def eq by auto
          next
            case Overrun
            show ?thesis using IH Some fits \<open>z \<noteq> 0\<close> run True Overrun unfolding entries_follow_def eq by auto
          qed
        qed
      qed
    qed
  qed
qed

text \<open>Where the entries of a wire field go: the first field of that type, or a new last one.\<close>

lemma sp_extend_at:
  "ty \<notin> f_ty ` set T1 \<Longrightarrow> sp_extend ty (map e_bytes es') (abs_packet (T1 @ (a, ty, es) # T2)) =
     abs_packet (T1 @ (a, ty, es @ es') # T2)"
  by (induction T1) (auto simp: abs_field_def)

lemma sp_extend_new:
  "ty \<notin> f_ty ` set T \<Longrightarrow> sp_extend ty (map e_bytes es) (abs_packet T) = abs_packet (T @ [(a, ty, es)])"
  by (induction T) (auto simp: abs_field_def)

lemma get_or_add_target:
  assumes "heap_ok h" and "packet_at Unlocked h p T"
  obtains h1 where "srvd_protocol_packet_field_get_or_add (Some p) ty (Some None) h = Some (False, Some None, h1)"
    "\<not> no_oom h h1" "modifies {p} (f_addr ` set T) {} {} h h1" "packet_at Unlocked h1 p T"
  | a h1 T1 es T2 where
    "srvd_protocol_packet_field_get_or_add (Some p) ty (Some None) h = Some (True, Some (Some a), h1)"
    "packet_at Unlocked h1 p (T1 @ (a, ty, es) # T2)" "modifies {p} (f_addr ` set T) {} {} h h1" "no_oom h h1"
    "\<And>es'. sp_extend ty (map e_bytes es') (abs_packet T) = abs_packet (T1 @ (a, ty, es @ es') # T2)"
    "T1 @ (a, ty, es) # T2 = T \<or> (T1 @ (a, ty, es) # T2 = T @ [(a, ty, [])] \<and> brk h \<le> a)"
proof (rule get_or_add_spec [OF assms, of ty])
  fix r out h1 U
  assume g: "srvd_protocol_packet_field_get_or_add (Some p) ty (Some None) h = Some (r, out, h1)"
    and at: "packet_at Unlocked h1 p U" and m: "modifies {p} (f_addr ` set T) {} {} h h1"
    and post: "adder.get_or_post h ty T (r, out) h1 U"
  show ?thesis
  proof (cases "find (\<lambda>t. f_ty t = ty) T")
    case None
    then have new: "ty \<notin> f_ty ` set T" by (auto simp: find_None_iff)
    show ?thesis
    proof (cases r)
      case True
      with None post obtain a where a: "out = Some (Some a)" "U = T @ [(a, ty, [])]" "no_oom h h1" "brk h \<le> a"
        by (auto simp: adder.get_or_post_def)
      show ?thesis
        by (rule that(2) [of a h1 T "[]" "[]"]) (use g at m a True sp_extend_new [OF new] in auto)
    next
      case False
      with None post g m at that(1) show ?thesis by (auto simp: adder.get_or_post_def)
    qed
  next
    case (Some t)
    then obtain i where i: "i < length T" "f_ty (T ! i) = ty" "t = T ! i" "\<forall>j < i. f_ty (T ! j) \<noteq> ty"
      by (auto simp: find_Some_iff)
    have T: "T = take i T @ (f_addr t, ty, f_ents t) # drop (Suc i) T"
      using id_take_nth_drop [OF i(1)] i(2,3) by (cases t) auto
    have new: "ty \<notin> f_ty ` set (take i T)" using i(1,4) by (force simp: in_set_conv_nth)
    from Some post have o: "r" "out = Some (Some (f_addr t))" "U = T" "no_oom h h1"
      by (auto simp: adder.get_or_post_def)
    show ?thesis
    proof (rule that(2))
      show "packet_at Unlocked h1 p (take i T @ (f_addr t, ty, f_ents t) # drop (Suc i) T)" using at o(3) T by simp
      show "sp_extend ty (map e_bytes es') (abs_packet T) =
          abs_packet (take i T @ (f_addr t, ty, f_ents t @ es') # drop (Suc i) T)" for es'
        using sp_extend_at [OF new, of es' "f_addr t" "f_ents t" "drop (Suc i) T"] T by simp
      show "take i T @ (f_addr t, ty, f_ents t) # drop (Suc i) T = T \<or>
          (take i T @ (f_addr t, ty, f_ents t) # drop (Suc i) T = T @ [(f_addr t, ty, [])] \<and> brk h \<le> f_addr t)"
        using T by simp
    qed (use g m o in auto)
  qed
qed

lemma unserialize_fields_follows:
  assumes "heap_ok h" and "packet_at Unlocked h p T" and "sz \<le> length body"
  shows "follows h p (parse_fields n sz body off (abs_packet T)) (unserialize_fields n sz body (Some p) off h)"
  using assms
proof (induction n arbitrary: h T off)
  case 0
  then show ?case by (auto simp: follows_def packet_rep_def)
next
  case (Suc n)
  note ok = Suc.prems(1) and at = Suc.prems(2)
  have refused: "follows h p (Refused (abs_packet T)) (Some (False, h))"
    using ok at by (auto simp: follows_def packet_rep_def)
  have overrun: "follows h p Overrun None" by (simp add: follows_def)
  show ?case
  proof (cases "off < sz \<and> get16 body off \<noteq> None \<and> get16 body (off + 2) \<noteq> None")
    case False
    then show ?thesis using refused overrun by (cases "off < sz"; cases "get16 body off") auto
  next
    case True
    then obtain ty c where g: "off < sz" "get16 body off = Some ty" "get16 body (off + 2) = Some c" by auto
    show ?thesis
    proof (cases "off + 4 + unat c * 2 > sz")
      case True
      with g refused show ?thesis by (simp add: serial_consts)
    next
      case fits: False
      show ?thesis
      proof (rule get_or_add_target [OF ok at, of ty])
        fix h1
        assume "srvd_protocol_packet_field_get_or_add (Some p) ty (Some None) h = Some (False, Some None, h1)"
          and "\<not> no_oom h h1"
        with g fits show ?thesis by (simp add: serial_consts follows_def out_of_memory_def)
      next
        fix a h1 T1 es T2
        assume go: "srvd_protocol_packet_field_get_or_add (Some p) ty (Some None) h = Some (True, Some (Some a), h1)"
          and at1: "packet_at Unlocked h1 p (T1 @ (a, ty, es) # T2)"
          and m: "modifies {p} (f_addr ` set T) {} {} h h1" and no: "no_oom h h1"
          and ext: "\<And>es'. sp_extend ty (map e_bytes es') (abs_packet T) = abs_packet (T1 @ (a, ty, es @ es') # T2)"
        have br: "brk h \<le> brk h1" "oom h1 = oom h" using m by (auto simp: modifies_def)
        note eq = no_oom_after [OF br no]
        let ?res = "unserialize_entries (unat c) sz body (Some a) (off + 4) h1"
        have run: "unserialize_fields (Suc n) sz body (Some p) off h = do {
            (p', h) \<leftarrow> ?res;
            case p' of None \<Rightarrow> Some (False, h) | Some p' \<Rightarrow> unserialize_fields n sz body (Some p) p' h }"
          using g fits go by (simp add: serial_consts)
        have ents: "entries_follow h1 p T1 (a, ty, es) T2 (parse_entries (unat c) sz body (off + 4)) ?res"
          by (rule unserialize_entries_follows [OF modifies_heap_ok [OF m] at1 Suc.prems(3)])
        have parse: "parse_fields (Suc n) sz body off (abs_packet T) =
            (case parse_entries (unat c) sz body (off + 4) of
               Parsed (ds, q) \<Rightarrow> parse_fields n sz body q (sp_extend ty ds (abs_packet T))
             | Refused sp' \<Rightarrow> Refused sp' | Broken \<Rightarrow> Broken | Overrun \<Rightarrow> Overrun)"
          using g fits by simp
        show ?thesis
        proof (cases "\<exists>h'. ?res = Some (None, h') \<and> \<not> no_oom h1 h'")
          case True
          then show ?thesis unfolding run eq by (auto simp: follows_def out_of_memory_def)
        next
          case False
          show ?thesis
          proof (cases "parse_entries (unat c) sz body (off + 4)")
            case (Parsed dq)
            obtain ds q where dq: "dq = (ds, q)" by (cases dq)
            from ents False obtain h2 es' where h2: "?res = Some (Some q, h2)" "no_oom h h2" "brk h1 \<le> brk h2"
                "oom h2 = oom h1" "heap_ok h2" "packet_at Unlocked h2 p (T1 @ (a, ty, es @ es') # T2)" "map e_bytes es' = ds"
              unfolding entries_follow_def Parsed dq eq by auto
            have "follows h2 p (parse_fields n sz body q (abs_packet (T1 @ (a, ty, es @ es') # T2)))
                (unserialize_fields n sz body (Some p) q h2)"
              by (rule Suc.IH [OF h2(5,6) Suc.prems(3)])
            moreover have "no_oom h2 h' \<longleftrightarrow> no_oom h h'" for h'
              using h2(2-4) br by (intro no_oom_after) auto
            ultimately have "follows h p (parse_fields n sz body q (sp_extend ty ds (abs_packet T)))
                (unserialize_fields n sz body (Some p) q h2)"
              using ext [of es'] h2(7) by (simp only: follows_cong [of h2 h])
            then show ?thesis unfolding run parse Parsed dq h2(1) by simp
          next
            case (Refused sp)
            then show ?thesis using parse_entries_not_Refused by blast
          next
            case Broken
            show ?thesis using ents False unfolding run parse Broken entries_follow_def eq
              by (auto simp: follows_def)
          next
            case Overrun
            show ?thesis using ents False unfolding run parse Overrun entries_follow_def eq
              by (auto simp: follows_def)
          qed
        qed
      qed
    qed
  qed
qed

text \<open>The whole body, from the header fields in the serial record.\<close>

lemma unserialize_body_follows:
  assumes "heap_ok h" and "packet_at Unlocked h p T" and "s_body_size s \<le> length body"
  shows "follows h p (parse_body (s_field_count s) (s_body_size s) body (abs_packet T))
     (srvd_protocol_serial_packet_unserialize_body (Some s) (Some p) body h)"
  using unserialize_fields_follows [OF assms, of "unat (s_field_count s)" 0] assms(1,2)
  by (auto simp: srvd_protocol_serial_packet_unserialize_body_def parse_body_def serial_consts
      follows_def packet_rep_def)

section \<open>Reads stay within three bytes of the body\<close>

lemma parse_entries_end:
  "parse_entries n sz body p = Parsed (ds, q) \<Longrightarrow> p \<le> sz \<Longrightarrow> q \<le> sz"
  by (induction n arbitrary: p ds q) (auto split: option.splits parse.splits if_splits)

lemma parse_entries_reads:
  "sz + 2 \<le> length body \<Longrightarrow> p \<le> sz \<Longrightarrow> parse_entries n sz body p \<noteq> Overrun"
  by (induction n arbitrary: p) (auto split: option.splits parse.splits simp: get16_None_iff)

lemma parse_fields_reads:
  "sz + 3 \<le> length body \<Longrightarrow> parse_fields n sz body p sp \<noteq> Overrun"
proof (induction n arbitrary: p sp)
  case (Suc n)
  then show ?case
    using parse_entries_reads [of sz body]
    by (auto split: option.splits parse.splits simp: get16_None_iff)
qed simp

lemma parse_body_reads: "sz + 3 \<le> length body \<Longrightarrow> parse_body c sz body sp \<noteq> Overrun"
  by (simp add: parse_body_def parse_fields_reads)

lemma follows_defined: "follows h p out res \<Longrightarrow> out \<noteq> Overrun \<Longrightarrow> res \<noteq> None"
  by (auto simp: follows_def out_of_memory_def split: parse.splits)

section \<open>Parsing what the serialiser writes\<close>

text \<open>Putting the fields of \<open>sp\<close> one after the other into a packet.\<close>

definition sp_merge :: "spacket \<Rightarrow> spacket \<Rightarrow> spacket" where
  "sp_merge sp acc = fold (\<lambda>f. sp_extend (fst f) (snd f)) sp acc"

lemma sp_extend_fresh: "ty \<notin> fst ` set sp \<Longrightarrow> sp_extend ty ds sp = sp @ [(ty, ds)]"
  by (induction sp) auto

lemma sp_merge_distinct: "distinct (map fst (acc @ sp)) \<Longrightarrow> sp_merge sp acc = acc @ sp"
proof (induction sp arbitrary: acc)
  case (Cons f sp)
  then have "fst f \<notin> fst ` set acc" by auto
  with Cons sp_extend_fresh [of "fst f" acc "snd f"] show ?case
    by (simp add: sp_merge_def)
qed (simp add: sp_merge_def)

definition entries_fit :: "spacket \<Rightarrow> bool" where
  "entries_fit sp \<longleftrightarrow> (\<forall>f \<in> set sp. \<forall>d \<in> set (snd f). length d < 65536)"

lemma packet_at_entries_fit: "packet_at lk h p T \<Longrightarrow> entries_fit (abs_packet T)"
  by (fastforce simp: packet_at_def field_ok_def entry_ok_def entries_fit_def abs_packet_def abs_field_def)

lemma parse_wire_entries:
  assumes "\<forall>d \<in> set ds. length d < 65536" and "off = length pre"
    and "length (pre @ concat (map wire_entry ds)) \<le> sz"
  shows "parse_entries (length ds) sz (pre @ concat (map wire_entry ds) @ post) off =
     (if [] \<in> set ds then Broken else Parsed (ds, length (pre @ concat (map wire_entry ds))))"
  using assms
proof (induction ds arbitrary: pre off)
  case (Cons d ds)
  let ?body = "pre @ concat (map wire_entry (d # ds)) @ post"
  have len: "unat (of_nat (length d) :: u16) = length d" using Cons.prems(1) by simp
  have g: "get16 ?body off = Some (of_nat (length d))"
    using Cons.prems(2) by (simp add: wire_entry_def get16_be16)
  have z: "(of_nat (length d) :: u16) = 0 \<longleftrightarrow> d = []" using Cons.prems(1) by (simp add: of_nat_0_16)
  have IH: "parse_entries (length ds) sz ((pre @ wire_entry d) @ concat (map wire_entry ds) @ post) (off + 2 + length d) =
      (if [] \<in> set ds then Broken else Parsed (ds, length ((pre @ wire_entry d) @ concat (map wire_entry ds))))"
    by (rule Cons.IH) (use Cons.prems in auto)
  have body: "(pre @ wire_entry d) @ concat (map wire_entry ds) @ post = ?body" by simp
  have fits: "\<not> off + 2 + length d > sz" using Cons.prems(2,3) by simp
  have data: "take (length d) (drop (off + 2) ?body) = d"
    using Cons.prems(2) by (simp add: wire_entry_def)
  show ?case
    using IH unfolding body list.size parse_entries.simps(2) [of "length ds"] add_Suc_right add_0_right g option.case len z data
    using fits by auto
qed simp

text \<open>The fields of a packet in front of a body are read, and the rest of the body is left to do.\<close>

lemma parse_wire_fields:
  assumes "counts_fit sp" and "entries_fit sp" and "off = length pre" and "length (pre @ wire_body sp) \<le> sz"
  shows "parse_fields (length sp + n) sz (pre @ wire_body sp @ post) off acc =
     (if \<exists>f \<in> set sp. [] \<in> set (snd f) then Broken
      else parse_fields n sz (pre @ wire_body sp @ post) (length (pre @ wire_body sp)) (sp_merge sp acc))"
  using assms
proof (induction sp arbitrary: pre off acc)
  case Nil
  then show ?case by (simp add: sp_merge_def)
next
  case (Cons f sp)
  let ?E = "concat (map wire_entry (snd f))" and ?c = "of_nat (length (snd f)) :: u16"
  let ?body = "pre @ wire_body (f # sp) @ post"
  have fits: "length (snd f) < 65536" "\<forall>d \<in> set (snd f). length d < 65536"
    using Cons.prems(1,2) by (auto simp: counts_fit_def entries_fit_def)
  have body1: "?body = pre @ be16 (fst f) @ be16 ?c @ ?E @ wire_body sp @ post" by (simp add: wire_field_def)
  have g1: "get16 ?body off = Some (fst f)" unfolding body1 by (rule get16_be16 [OF Cons.prems(3)])
  have g2: "get16 ?body (off + 2) = Some ?c"
    using get16_be16 [of "off + 2" "pre @ be16 (fst f)" ?c "?E @ wire_body sp @ post"] Cons.prems(3)
    unfolding body1 by simp
  have c: "unat ?c = length (snd f)" using fits(1) by simp
  have "2 * length ds \<le> length (concat (map wire_entry ds))" for ds by (induction ds) simp_all
  then have lenE: "2 * length (snd f) \<le> length ?E" .
  have sz: "off + 4 + length ?E + length (wire_body sp) \<le> sz" using Cons.prems(3,4) by (simp add: wire_field_def)
  have pe: "parse_entries (length (snd f)) sz ?body (off + 4) =
      (if [] \<in> set (snd f) then Broken else Parsed (snd f, off + 4 + length ?E))"
    using parse_wire_entries [of "snd f" "off + 4" "pre @ be16 (fst f) @ be16 ?c" sz "wire_body sp @ post"]
      fits Cons.prems(3,4) by (simp add: wire_field_def)
  let ?all = "(pre @ wire_field f) @ wire_body sp @ post"
  have IH: "parse_fields (length sp + n) sz ?all (off + 4 + length ?E) (sp_extend (fst f) (snd f) acc) =
      (if \<exists>f \<in> set sp. [] \<in> set (snd f) then Broken
       else parse_fields n sz ?all (length ((pre @ wire_field f) @ wire_body sp)) (sp_merge sp (sp_extend (fst f) (snd f) acc)))"
    by (rule Cons.IH) (use Cons.prems in \<open>auto simp: counts_fit_def entries_fit_def wire_field_def\<close>)
  have body2: "?all = ?body" "(pre @ wire_field f) @ wire_body sp = pre @ wire_body (f # sp)" by simp_all
  have "off < sz" "\<not> off + 4 + length (snd f) * 2 > sz" using sz lenE by auto
  then show ?case
    using IH pe unfolding body2 list.size add_Suc add_Suc_right add_0_right add_0 parse_fields.simps(2) g1 g2 option.case c
    by (simp add: sp_merge_def)
qed

lemma parse_wire_body:
  assumes "counts_fit sp" and "entries_fit sp"
  shows "parse_body (of_nat (length sp)) (length (wire_body sp)) (wire_body sp) acc =
     (if \<exists>f \<in> set sp. [] \<in> set (snd f) then Broken else Parsed (sp_merge sp acc))"
proof -
  have "4 * length sp \<le> length (wire_body sp)"
    by (induction sp) (simp_all add: length_wire_field)
  moreover have "length sp < 65536" using assms(1) by (simp add: counts_fit_def)
  ultimately show ?thesis
    using parse_wire_fields [OF assms, of 0 "[]" _ 0 "[]"] by (simp add: parse_body_def mult.commute)
qed

text \<open>
  A body that announces more fields than it holds, with one to three bytes after the last field:
  the type and the count of the next field are read in front of the check of the size, whether the
  buffer has their four bytes or not.
\<close>

lemma parse_wire_more_fields:
  assumes sp: "counts_fit sp" "entries_fit sp" "\<forall>f \<in> set sp. [] \<notin> set (snd f)" and more: "length sp < unat c"
    and t: "t \<noteq> []" "length t < 4" and sz: "sz = length (wire_body sp @ t)" "unat c * 4 \<le> sz"
  shows "parse_body c sz (wire_body sp @ t @ ex) acc =
     (if length t + length ex < 4 then Overrun else Refused (sp_merge sp acc))"
proof -
  obtain n where n: "unat c = length sp + Suc n" using more less_iff_Suc_add by auto
  let ?B = "wire_body sp @ t @ ex" and ?p = "length (wire_body sp)"
  have "parse_body c sz ?B acc = parse_fields (Suc n) sz ?B ?p (sp_merge sp acc)"
    using parse_wire_fields [OF sp(1,2), of 0 "[]" sz "Suc n" "t @ ex" acc] sp(3) sz n by (auto simp: parse_body_def)
  moreover have "get16 ?B (?p + 2) \<noteq> None \<longleftrightarrow> 4 \<le> length t + length ex" "get16 ?B (?p + 2) \<noteq> None \<Longrightarrow> get16 ?B ?p \<noteq> None"
    by (auto simp: get16_None_iff)
  moreover have "?p < sz" "sz < ?p + 4" using t sz(1) by auto
  ultimately show ?thesis by (auto split: option.splits)
qed

section \<open>The header\<close>

lemma unserialize_header_spec:
  assumes "8 \<le> length hdr"
  shows "srvd_protocol_serial_packet_unserialize_header (Some s) (Some p) (Some hdr) =
     (if of_be16 (take 2 hdr) \<noteq> SRVD_PROTOCOL_SERIAL_PACKET_VERSION then Some (False, Some s)
      else Some (True, Some (s\<lparr>s_field_count := of_be16 (take 2 (drop 2 hdr)),
                              s_body_size := unat (of_be32 (take 4 (drop 4 hdr))),
                              s_size := 8 + unat (of_be32 (take 4 (drop 4 hdr)))\<rparr>)))"
  using assms by (simp add: srvd_protocol_serial_packet_unserialize_header_def get16_def get32_def rd_buf_def serial_consts)

lemma unserialize_wire_header:
  assumes "length (wire_body sp) < 4294967296"
  shows "srvd_protocol_serial_packet_unserialize_header (Some s) (Some p) (Some (wire_header sp)) =
     Some (True, Some (s\<lparr>s_field_count := of_nat (length sp), s_body_size := length (wire_body sp),
                         s_size := 8 + length (wire_body sp)\<rparr>))"
proof -
  have "unat (of_nat (length (wire_body sp)) :: u32) = length (wire_body sp)"
    using assms by (intro of_nat_inverse [OF refl]) simp
  then show ?thesis
    by (subst unserialize_header_spec) (simp_all add: wire_header_def serial_consts)
qed

end
