(* ===== verification/Typed_Refine.thy ===== *)
theory Typed_Refine
  imports Packet_Contract
begin

text \<open>
  Typed values in entries: a getter answers exactly for entries of its width, and gives back what
  the setter of that width stored. Appending a typed value is appending its bytes.
\<close>

section \<open>The getters\<close>

lemma entry_ok_read:
  assumes "entry_ok h e"
  obtains n where "ents h (e_addr e) = Some (Some n)" "e_size n = of_nat (length (e_bytes e))"
    "length (e_bytes e) < 65536" "e_bytes e = [] \<or> rd_block (e_data n) off k h = rd_buf (e_bytes e) off k"
  using assms by (cases "e_blk e") (auto simp: entry_ok_def mem_simps)

lemma entry_size_is:
  assumes "n < 65536" and "k < 65536"
  shows "(of_nat n :: u16) = of_nat k \<longleftrightarrow> n = k"
  by (metis assms unat_of_nat_16)

lemma entry_get_uint32_spec:
  assumes "entry_ok h e"
  shows "srvd_protocol_packet_field_entry_get_uint32 (Some (e_addr e)) (Some x) h =
     Some (if length (e_bytes e) = 4 then (True, Some (of_be32 (e_bytes e))) else (False, Some x))"
  by (rule entry_ok_read [OF assms, of 0 4])
     (use entry_size_is [of "length (e_bytes e)" 4] in
       \<open>auto simp: srvd_protocol_packet_field_entry_get_uint32_def mem_simps rd_buf_def\<close>)

lemma entry_get_uint16_spec:
  assumes "entry_ok h e"
  shows "srvd_protocol_packet_field_entry_get_uint16 (Some (e_addr e)) (Some x) h =
     Some (if length (e_bytes e) = 2 then (True, Some (of_be16 (e_bytes e))) else (False, Some x))"
  by (rule entry_ok_read [OF assms, of 0 2])
     (use entry_size_is [of "length (e_bytes e)" 2] in
       \<open>auto simp: srvd_protocol_packet_field_entry_get_uint16_def mem_simps rd_buf_def\<close>)

lemma entry_get_uint8_spec:
  assumes "entry_ok h e"
  shows "srvd_protocol_packet_field_entry_get_uint8 (Some (e_addr e)) (Some x) h =
     Some (if length (e_bytes e) = 1 then (True, Some (hd (e_bytes e))) else (False, Some x))"
  by (rule entry_ok_read [OF assms, of 0 1])
     (use entry_size_is [of "length (e_bytes e)" 1] in
       \<open>auto simp: srvd_protocol_packet_field_entry_get_uint8_def mem_simps rd_buf_def take_Suc\<close>)

section \<open>The setters\<close>

text \<open>Data that can be read for the size given, as far as the guards let it be read.\<close>

definition readable :: "u16 \<Rightarrow> byte list option \<Rightarrow> bool" where
  "readable sz data \<longleftrightarrow> (case data of None \<Rightarrow> True | Some ds \<Rightarrow> unat sz \<le> length ds)"

lemma readable_cases: "readable sz data \<Longrightarrow> payload_ok sz data \<or> (sz = 0) \<noteq> (data = None)"
  by (auto simp: readable_def payload_ok_def split: option.splits)

lemma payload_be [simp]:
  "payload 4 (Some (be32 v)) = be32 v" "payload 2 (Some (be16 w)) = be16 w" "payload 1 (Some [b]) = [b]"
  by (simp_all add: payload_def)

text \<open>Creating a one-entry field at either end of the packet.\<close>

lemma append_abs:
  assumes "heap_ok h" and "packet_at Unlocked h p T" and "readable sz data"
  obtains r h' U where "srvd_protocol_packet_field_append (Some p) ty sz data h = Some (r, h')"
    "packet_at Unlocked h' p U" "modifies {p} (f_addr ` set T) {} {} h h'"
    "r \<longleftrightarrow> ty \<notin> fst ` set (abs_packet T) \<and> payload_ok sz data \<and> no_oom h h'"
    "abs_packet U = (if r then abs_packet T @ [(ty, [payload sz data])] else abs_packet T)"
proof (rule append_spec [OF assms(1,2) readable_cases [OF assms(3)], of ty])
  fix r h' U
  assume run: "srvd_protocol_packet_field_append (Some p) ty sz data h = Some (r, h')"
    "packet_at Unlocked h' p U" "modifies {p} (f_addr ` set T) {} {} h h'"
    and post: "adder.create_post h ty sz data T r h' U"
  show ?thesis
    by (rule that [OF run]) (use post in \<open>auto simp: adder.create_post_def set_fst_abs simp flip: set_fst_abs\<close>)
qed

lemma insert_abs:
  assumes "heap_ok h" and "packet_at Unlocked h p T" and "readable sz data"
  obtains r h' U where "srvd_protocol_packet_field_insert (Some p) ty sz data h = Some (r, h')"
    "packet_at Unlocked h' p U" "modifies {p} (f_addr ` set T) {} {} h h'"
    "r \<longleftrightarrow> ty \<notin> fst ` set (abs_packet T) \<and> payload_ok sz data \<and> no_oom h h'"
    "abs_packet U = (if r then (ty, [payload sz data]) # abs_packet T else abs_packet T)"
proof (rule insert_spec [OF assms(1,2) readable_cases [OF assms(3)], of ty])
  fix r h' U
  assume run: "srvd_protocol_packet_field_insert (Some p) ty sz data h = Some (r, h')"
    "packet_at Unlocked h' p U" "modifies {p} (f_addr ` set T) {} {} h h'"
    and post: "injector.create_post h ty sz data T r h' U"
  show ?thesis
    by (rule that [OF run]) (use post in \<open>auto simp: injector.create_post_def set_fst_abs simp flip: set_fst_abs\<close>)
qed

section \<open>Initialisation\<close>

lemma packet_initialize_spec:
  assumes "heap_ok h" and "pkts h p = Some c"
  obtains h' where "srvd_protocol_packet_initialize (Some p) h = Some (True, h')"
    "packet_at Unlocked h' p []" "modifies {p} {} {} {} h h'" "brk h' = brk h"
proof -
  let ?k = "\<lparr>field_count = 0, field_lock = Unlocked, field_head = None, field_tail = None\<rparr>"
  show ?thesis
    by (rule that [of "h\<lparr>pkts := (pkts h)(p \<mapsto> Some ?k)\<rparr>"])
       (use assms in \<open>auto simp: srvd_protocol_packet_initialize_def mem_simps packet_at_def modifies_def heap_ok_def\<close>)
qed

end
