(* ===== verification/Demo.thy ===== *)
theory Demo
  imports Unserialize_Refine Typed_Refine
begin

text \<open>
  Small concrete stores at which the properties are applied: an empty packet, and one that holds
  the name field of a passwd request with the entry \<open>hi\<close>.
\<close>

definition demo_packet :: "ptr \<Rightarrow> u16 \<Rightarrow> packet" where
  "demo_packet f n = \<lparr>field_count = n, field_lock = Unlocked, field_head = f, field_tail = f\<rparr>"

definition demo_empty :: heap where
  "demo_empty = \<lparr>ents = Map.empty, flds = Map.empty, pkts = [0 \<mapsto> Some (demo_packet None 0)],
     blks = Map.empty, brk = 1, oom = (\<lambda>_. False)\<rparr>"

definition demo_full :: heap where
  "demo_full = \<lparr>
     ents = [2 \<mapsto> Some \<lparr>e_size = 2, e_data = Some 3, e_next = None, e_previous = None\<rparr>],
     flds = [4 \<mapsto> Some \<lparr>entry_count = 1, entry_lock = Unlocked, entry_head = Some 2, entry_tail = Some 2,
                         f_type = 701, f_next = None, f_previous = None\<rparr>],
     pkts = [0 \<mapsto> Some (demo_packet (Some 4) 1)],
     blks = [3 \<mapsto> [104, 105]], brk = 5, oom = (\<lambda>_. False)\<rparr>"

abbreviation demo_shape :: "ftree list" where
  "demo_shape \<equiv> [(4, 701, [(2, Some 3, [104, 105])])]"

lemma demo_heap_ok [simp]: "heap_ok demo_empty" "heap_ok demo_full"
  by (simp_all add: heap_ok_def demo_empty_def demo_full_def)

lemma demo_empty_at [simp]: "packet_at Unlocked demo_empty 0 []"
  by (simp add: packet_at_def demo_empty_def demo_packet_def)

lemma demo_field [simp]: "field_ok demo_full (4, 701, [(2, Some 3, [104, 105])])"
  by (simp add: field_ok_def entry_ok_def demo_full_def)

lemma demo_full_at [simp]: "packet_at Unlocked demo_full 0 demo_shape"
  using demo_field by (simp add: packet_at_def) (simp add: demo_full_def demo_packet_def)

lemma demo_empty_rep [simp]: "packet_rep demo_empty 0 []"
  unfolding packet_rep_def by (rule exI [of _ "[]"]) simp

lemma demo_full_rep [simp]: "packet_rep demo_full 0 [(701, [[104, 105]])]"
  unfolding packet_rep_def by (rule exI [of _ demo_shape]) simp

lemma demo_oom [simp]: "oom demo_empty k = False" "oom demo_full k = False"
  "no_oom demo_empty h" "no_oom demo_full h"
  by (simp_all add: demo_empty_def demo_full_def no_oom_def)

lemma demo_fits [simp]: "counts_fit [(701, [[104, 105]])]" "entries_fit [(701, [[104, 105]])]"
  by (simp_all add: counts_fit_def entries_fit_def)

end
