(* ===== verification/Protocol_Properties.thy ===== *)
theory Protocol_Properties
  imports Demo
begin

text \<open>
  The properties of the packets and of their wire format. Every one is followed by its use at a
  concrete store.
\<close>

section \<open>Packets on the wire\<close>

text \<open>C1. Serialising a packet whose counts fit 16 bits succeeds when the buffer can be allocated.
  The buffer is a new block that holds exactly the wire form of the packet, header and body; the
  sizes in the serial record are those of the wire form; the packet itself is unchanged.\<close>

theorem serialize_writes_wire_form:
  assumes "heap_ok h" and "packet_rep h p sp" and "counts_fit sp" and "\<not> oom h (brk h)"
  shows "\<exists>s' h'. srvd_protocol_serial_packet_serialize (Some s) (Some p) h = Some (True, Some s', h') \<and>
     s_data s' = Some (brk h) \<and> blks h' (brk h) = Some (wire_packet sp) \<and>
     s_size s' = length (wire_packet sp) \<and> s_body_size s' = length (wire_body sp) \<and>
     packet_rep h' p sp"
proof -
  from assms(2) obtain T where T: "packet_at Unlocked h p T" "abs_packet T = sp" by (auto simp: packet_rep_def)
  let ?h' = "set_blk (brk h) (wire_packet sp) (h\<lparr>brk := Suc (brk h)\<rparr>)"
  have "modifies {} {} {} {} h ?h'" using assms(1) by (auto simp: modifies_def heap_ok_def)
  then have "packet_rep ?h' p sp" by (rule packet_rep_modifies [OF _ assms(1,2)])
  with serialize_spec [OF assms(1) T(1), unfolded T(2), OF assms(3,4), of s] show ?thesis by simp
qed

theorem serialize_writes_wire_form_witness:
  "\<exists>s' h'. srvd_protocol_serial_packet_serialize (Some \<lparr>s_size = 0, s_body_size = 0, s_field_count = 0, s_data = None\<rparr>)
      (Some 0) demo_full = Some (True, Some s', h') \<and>
     s_data s' = Some (brk demo_full) \<and> blks h' (brk demo_full) = Some (wire_packet [(701, [[104, 105]])]) \<and>
     s_size s' = length (wire_packet [(701, [[104, 105]])]) \<and>
     s_body_size s' = length (wire_body [(701, [[104, 105]])]) \<and> packet_rep h' 0 [(701, [[104, 105]])]"
  by (rule serialize_writes_wire_form) simp_all

text \<open>C2. The unserialiser does, on every sequence of bytes of at least the announced size and in
  every pattern of allocation failures, what the parser on byte lists says: it accepts with the
  parsed fields merged into the packet, refuses and leaves the packet whole, refuses and leaves a
  released field linked in the packet, or reads past the end of the body; only a failed allocation
  makes it answer \<open>SRVD_FALSE\<close> instead.\<close>

theorem unserialize_body_follows_parser:
  assumes "heap_ok h" and "packet_rep h p sp" and "s_body_size s \<le> length body"
  shows "follows h p (parse_body (s_field_count s) (s_body_size s) body sp)
     (srvd_protocol_serial_packet_unserialize_body (Some s) (Some p) body h)"
proof -
  from assms(2) obtain T where T: "packet_at Unlocked h p T" "abs_packet T = sp" by (auto simp: packet_rep_def)
  from unserialize_body_follows [OF assms(1) T(1) assms(3)] T(2) show ?thesis by simp
qed

theorem unserialize_body_follows_parser_witness:
  "follows demo_empty 0 (parse_body 1 8 (be16 701 @ be16 1 @ be16 2 @ [104, 105]) [])
     (srvd_protocol_serial_packet_unserialize_body
       (Some \<lparr>s_size = 16, s_body_size = 8, s_field_count = 1, s_data = None\<rparr>) (Some 0)
       (be16 701 @ be16 1 @ be16 2 @ [104, 105]) demo_empty)"
  using unserialize_body_follows_parser [of demo_empty 0 "[]" "\<lparr>s_size = 16, s_body_size = 8, s_field_count = 1, s_data = None\<rparr>"
    "be16 701 @ be16 1 @ be16 2 @ [104, 105]"] by simp

text \<open>C3. What one side serialises the other side gets back: for a packet with distinct field types,
  counts within 16 bits, no empty entry and a body below \<open>2 ^ 32\<close> bytes, the header of its wire
  form announces the counts and sizes, and unserialising the body into an empty packet yields the
  same fields and entries, in order, when memory does not run out.\<close>

theorem wire_round_trip:
  assumes "heap_ok h" and "packet_rep h p []" and "\<forall>k. \<not> oom h k"
    and "distinct (map fst sp)" and "counts_fit sp" and "entries_fit sp"
    and "\<forall>f \<in> set sp. [] \<notin> set (snd f)" and "length (wire_body sp) < 4294967296"
  shows "\<exists>s' h'. srvd_protocol_serial_packet_unserialize_header (Some s) (Some p) (Some (take 8 (wire_packet sp))) =
       Some (True, Some s') \<and> s_body_size s' = length (drop 8 (wire_packet sp)) \<and>
     srvd_protocol_serial_packet_unserialize_body (Some s') (Some p) (drop 8 (wire_packet sp)) h = Some (True, h') \<and>
     heap_ok h' \<and> packet_rep h' p sp"
proof -
  have w: "take 8 (wire_packet sp) = wire_header sp" "drop 8 (wire_packet sp) = wire_body sp"
    by (simp_all add: wire_packet_def)
  from assms(2) obtain T where T: "packet_at Unlocked h p T" "abs_packet T = []" by (auto simp: packet_rep_def)
  let ?s' = "s\<lparr>s_field_count := of_nat (length sp), s_body_size := length (wire_body sp), s_size := 8 + length (wire_body sp)\<rparr>"
  have "parse_body (of_nat (length sp)) (length (wire_body sp)) (wire_body sp) [] = Parsed sp"
    using parse_wire_body [OF assms(5,6)] assms(4,7) sp_merge_distinct [of "[]" sp] by auto
  then obtain h' where "srvd_protocol_serial_packet_unserialize_body (Some ?s') (Some p) (wire_body sp) h = Some (True, h')"
      "heap_ok h'" "packet_rep h' p sp"
    using unserialize_body_follows [OF assms(1) T(1), of ?s' "wire_body sp"] T(2) no_oom_never assms(3)
    by (auto simp: follows_def out_of_memory_def)
  then show ?thesis using unserialize_wire_header [OF assms(8), of s p] unfolding w by auto
qed

theorem wire_round_trip_witness:
  "\<exists>s' h'. srvd_protocol_serial_packet_unserialize_header
       (Some \<lparr>s_size = 0, s_body_size = 0, s_field_count = 0, s_data = None\<rparr>) (Some 0)
       (Some (take 8 (wire_packet [(701, [[104, 105]])]))) = Some (True, Some s') \<and>
     s_body_size s' = length (drop 8 (wire_packet [(701, [[104, 105]])])) \<and>
     srvd_protocol_serial_packet_unserialize_body (Some s') (Some 0) (drop 8 (wire_packet [(701, [[104, 105]])])) demo_empty =
       Some (True, h') \<and> heap_ok h' \<and> packet_rep h' 0 [(701, [[104, 105]])]"
  by (rule wire_round_trip) (simp_all add: length_wire_field)

text \<open>C4. Whatever bytes arrive, in whatever state of memory: unserialising into a whole packet
  stays within three bytes of the announced body size and always returns.\<close>

theorem unserialize_body_bounded:
  assumes "heap_ok h" and "packet_rep h p sp" and "s_body_size s + 3 \<le> length body"
  shows "\<exists>r h'. srvd_protocol_serial_packet_unserialize_body (Some s) (Some p) body h = Some (r, h')"
proof -
  from assms(2) obtain T where T: "packet_at Unlocked h p T" "abs_packet T = sp" by (auto simp: packet_rep_def)
  have "srvd_protocol_serial_packet_unserialize_body (Some s) (Some p) body h \<noteq> None"
    by (rule follows_defined [OF unserialize_body_follows [OF assms(1) T(1)] parse_body_reads]) (use assms(3) in simp_all)
  then show ?thesis by auto
qed

theorem unserialize_body_bounded_witness:
  "\<exists>r h'. srvd_protocol_serial_packet_unserialize_body
     (Some \<lparr>s_size = 9, s_body_size = 1, s_field_count = 0, s_data = None\<rparr>) (Some 0) [1, 2, 3, 4] demo_empty = Some (r, h')"
  by (rule unserialize_body_bounded [where sp = "[]"]) simp_all

text \<open>C5. The three bytes are needed, and a missing bound check before the header of a field is why.
  Take any whole fields without empty entries, one to three bytes after them, and an announced count
  that says there is another field and is not more than a quarter of the announced size, which is
  that of these bytes: the unserialiser reads past the end of the buffer exactly when the buffer has less
  than four bytes after the fields. So when one byte is left over, one or two bytes more than the
  announced size are still too few, and three are enough; they are refused. Memory does not run
  out.\<close>

theorem unserialize_body_reads_past_end:
  assumes "heap_ok h" and "packet_rep h p old" and "\<forall>k. \<not> oom h k"
    and "counts_fit sp" and "entries_fit sp" and "\<forall>f \<in> set sp. [] \<notin> set (snd f)"
    and "length sp < unat (s_field_count s)" and "t \<noteq> []" and "length t < 4"
    and "s_body_size s = length (wire_body sp @ t)" and "unat (s_field_count s) * 4 \<le> s_body_size s"
  shows "(srvd_protocol_serial_packet_unserialize_body (Some s) (Some p) (wire_body sp @ t @ ex) h = None \<longleftrightarrow>
       length t + length ex < 4) \<and>
     (4 \<le> length t + length ex \<longrightarrow>
       (\<exists>h'. srvd_protocol_serial_packet_unserialize_body (Some s) (Some p) (wire_body sp @ t @ ex) h = Some (False, h')))"
proof -
  from assms(2) obtain T where T: "packet_at Unlocked h p T" "abs_packet T = old" by (auto simp: packet_rep_def)
  have "follows h p (parse_body (s_field_count s) (s_body_size s) (wire_body sp @ t @ ex) old)
      (srvd_protocol_serial_packet_unserialize_body (Some s) (Some p) (wire_body sp @ t @ ex) h)"
    using unserialize_body_follows [OF assms(1) T(1), of s "wire_body sp @ t @ ex"] T(2) assms(10) by simp
  then show ?thesis using parse_wire_more_fields [OF assms(4-11), of ex old] assms(3)
    by (auto simp: follows_def out_of_memory_def no_oom_never split: if_splits)
qed

theorem unserialize_body_reads_past_end_witness:
  "srvd_protocol_serial_packet_unserialize_body (Some \<lparr>s_size = 16, s_body_size = 8, s_field_count = 2, s_data = None\<rparr>)
     (Some 0) (wire_body [(701, [[104]])] @ [2] @ [189, 0]) demo_empty = None \<and>
   (\<exists>h'. srvd_protocol_serial_packet_unserialize_body (Some \<lparr>s_size = 16, s_body_size = 8, s_field_count = 2, s_data = None\<rparr>)
     (Some 0) (wire_body [(701, [[104]])] @ [2] @ [189, 0, 1]) demo_empty = Some (False, h'))"
proof -
  let ?s = "\<lparr>s_size = 16, s_body_size = 8, s_field_count = 2, s_data = None\<rparr>" and ?sp = "[(701, [[104]])] :: spacket"
  have "counts_fit ?sp" "entries_fit ?sp" "s_body_size ?s = length (wire_body ?sp @ [2])"
    by (simp_all add: counts_fit_def entries_fit_def length_wire_field)
  then show ?thesis
    using unserialize_body_reads_past_end [of demo_empty 0 "[]" ?sp ?s "[2]" "[189, 0]"]
      unserialize_body_reads_past_end [of demo_empty 0 "[]" ?sp ?s "[2]" "[189, 0, 1]"] by simp
qed

text \<open>C6. An entry of size 0, which the sender may store and serialise, is refused by the receiver;
  the field it belongs to is released while it is still linked in the packet, and finalising that
  packet, which every caller does next, uses freed memory.\<close>

theorem empty_entry_poisons_packet:
  assumes "heap_ok h" and "packet_rep h p []" and "\<forall>k. \<not> oom h k"
    and "counts_fit sp" and "entries_fit sp" and "\<exists>f \<in> set sp. [] \<in> set (snd f)"
    and "s_field_count s = of_nat (length sp)" and "s_body_size s = length (wire_body sp)"
  shows "\<exists>h'. srvd_protocol_serial_packet_unserialize_body (Some s) (Some p) (wire_body sp) h = Some (False, h') \<and>
     srvd_protocol_packet_finalize (Some p) h' = None"
proof -
  from assms(2) obtain T where T: "packet_at Unlocked h p T" "abs_packet T = []" by (auto simp: packet_rep_def)
  have "parse_body (s_field_count s) (s_body_size s) (wire_body sp) [] = Broken"
    using parse_wire_body [OF assms(4,5)] assms(6-8) by simp
  then show ?thesis
    using unserialize_body_follows [OF assms(1) T(1), of s "wire_body sp"] T(2) no_oom_never assms(3,8)
    by (auto simp: follows_def out_of_memory_def)
qed

theorem empty_entry_poisons_packet_witness:
  "\<exists>h'. srvd_protocol_serial_packet_unserialize_body
     (Some \<lparr>s_size = 14, s_body_size = 6, s_field_count = 1, s_data = None\<rparr>) (Some 0) (wire_body [(701, [[]])]) demo_empty =
       Some (False, h') \<and> srvd_protocol_packet_finalize (Some 0) h' = None"
  by (rule empty_entry_poisons_packet) (simp_all add: counts_fit_def entries_fit_def length_wire_field)

section \<open>Packets in memory\<close>

text \<open>C7. Appending a field: it succeeds exactly when no field of that type exists, size and data
  agree and no allocation failed; then the packet ends with a new field that holds the data as its
  only entry. Otherwise the packet is as before. Nothing outside the packet and its fields is
  touched, and the lock is free again.\<close>

theorem append_refines:
  assumes "heap_ok h" and "packet_at Unlocked h p T" and "readable sz data"
  shows "\<exists>r h' U. srvd_protocol_packet_field_append (Some p) ty sz data h = Some (r, h') \<and>
     packet_at Unlocked h' p U \<and> modifies {p} (f_addr ` set T) {} {} h h' \<and>
     (r \<longleftrightarrow> ty \<notin> fst ` set (abs_packet T) \<and> payload_ok sz data \<and> no_oom h h') \<and>
     abs_packet U = (if r then abs_packet T @ [(ty, [payload sz data])] else abs_packet T)"
  by (rule append_abs [OF assms, of ty]) blast

theorem append_refines_witness:
  "\<exists>r h' U. srvd_protocol_packet_field_append (Some 0) 101 1 (Some [7]) demo_full = Some (r, h') \<and>
     packet_at Unlocked h' 0 U \<and> modifies {0} (f_addr ` set demo_shape) {} {} demo_full h' \<and>
     (r \<longleftrightarrow> 101 \<notin> fst ` set (abs_packet demo_shape) \<and> payload_ok 1 (Some [7]) \<and> no_oom demo_full h') \<and>
     abs_packet U = (if r then abs_packet demo_shape @ [(101, [payload 1 (Some [7])])] else abs_packet demo_shape)"
  by (rule append_refines) (simp_all add: readable_def)

text \<open>Inserting a field does the same at the head of the packet.\<close>

theorem insert_refines:
  assumes "heap_ok h" and "packet_at Unlocked h p T" and "readable sz data"
  shows "\<exists>r h' U. srvd_protocol_packet_field_insert (Some p) ty sz data h = Some (r, h') \<and>
     packet_at Unlocked h' p U \<and> modifies {p} (f_addr ` set T) {} {} h h' \<and>
     (r \<longleftrightarrow> ty \<notin> fst ` set (abs_packet T) \<and> payload_ok sz data \<and> no_oom h h') \<and>
     abs_packet U = (if r then (ty, [payload sz data]) # abs_packet T else abs_packet T)"
  by (rule insert_abs [OF assms, of ty]) blast

theorem insert_refines_witness:
  "\<exists>r h' U. srvd_protocol_packet_field_insert (Some 0) 1 2 (Some [0, 0]) demo_full = Some (r, h') \<and>
     packet_at Unlocked h' 0 U \<and> modifies {0} (f_addr ` set demo_shape) {} {} demo_full h' \<and>
     (r \<longleftrightarrow> 1 \<notin> fst ` set (abs_packet demo_shape) \<and> payload_ok 2 (Some [0, 0]) \<and> no_oom demo_full h') \<and>
     abs_packet U = (if r then (1, [payload 2 (Some [0, 0])]) # abs_packet demo_shape else abs_packet demo_shape)"
  by (rule insert_refines) (simp_all add: readable_def)

text \<open>C8. Finalising a packet releases every field, entry and data block it owns, nothing else, and
  leaves the packet empty with its lock destroyed; no object is released twice or used after
  release.\<close>

theorem finalize_releases_exactly:
  assumes "packet_at Unlocked h p T"
  shows "srvd_protocol_packet_finalize (Some p) h = Some (True, h\<lparr>
     blks := blks h |` (- set (own_blks T)), ents := ents h |` (- set (own_ents T)),
     flds := flds h |` (- f_addr ` set T),
     pkts := (pkts h)(p \<mapsto> Some \<lparr>field_count = 0, field_lock = Destroyed, field_head = None, field_tail = None\<rparr>)\<rparr>)"
  unfolding packet_finalize_spec [OF assms] drop_fields_def dead_packet_def by simp

theorem finalize_releases_exactly_witness:
  "srvd_protocol_packet_finalize (Some 0) demo_full = Some (True, demo_full\<lparr>
     blks := blks demo_full |` (- set (own_blks demo_shape)), ents := ents demo_full |` (- set (own_ents demo_shape)),
     flds := flds demo_full |` (- f_addr ` set demo_shape),
     pkts := (pkts demo_full)(0 \<mapsto> Some \<lparr>field_count = 0, field_lock = Destroyed, field_head = None, field_tail = None\<rparr>)\<rparr>)"
  by (rule finalize_releases_exactly) simp

text \<open>Looking up or adding a field by type: when one of that type exists the first such field is
  returned and nothing changes; otherwise a new empty field is linked at the tail and returned, or
  \<open>SRVD_FALSE\<close> is answered when it cannot be allocated.\<close>

theorem get_or_add_refines:
  assumes "heap_ok h" and "packet_at Unlocked h p T"
  shows "\<exists>r out h' U. srvd_protocol_packet_field_get_or_add (Some p) ty (Some None) h = Some (r, out, h') \<and>
     packet_at Unlocked h' p U \<and> modifies {p} (f_addr ` set T) {} {} h h' \<and> (r \<longleftrightarrow> no_oom h h') \<and>
     (case find (\<lambda>t. f_ty t = ty) T of
        Some t \<Rightarrow> r \<and> out = Some (Some (f_addr t)) \<and> U = T
      | None \<Rightarrow> if r then \<exists>a \<ge> brk h. out = Some (Some a) \<and> U = T @ [(a, ty, [])] else out = Some None \<and> U = T)"
proof (rule get_or_add_spec [OF assms, of ty])
  fix r out h' U
  assume "srvd_protocol_packet_field_get_or_add (Some p) ty (Some None) h = Some (r, out, h')"
    and "packet_at Unlocked h' p U" "modifies {p} (f_addr ` set T) {} {} h h'"
    and "adder.get_or_post h ty T (r, out) h' U"
  then show ?thesis unfolding adder.get_or_post_def
    by (intro exI conjI) (auto split: option.splits if_splits)
qed

theorem get_or_add_refines_witness:
  "\<exists>r out h' U. srvd_protocol_packet_field_get_or_add (Some 0) 101 (Some None) demo_full = Some (r, out, h') \<and>
     packet_at Unlocked h' 0 U \<and> modifies {0} (f_addr ` set demo_shape) {} {} demo_full h' \<and> (r \<longleftrightarrow> no_oom demo_full h') \<and>
     (case find (\<lambda>t. f_ty t = 101) demo_shape of
        Some t \<Rightarrow> r \<and> out = Some (Some (f_addr t)) \<and> U = demo_shape
      | None \<Rightarrow> if r then \<exists>a \<ge> brk demo_full. out = Some (Some a) \<and> U = demo_shape @ [(a, 101, [])]
          else out = Some None \<and> U = demo_shape)"
  by (rule get_or_add_refines) simp_all

text \<open>C9. Adding an entry through the pointer to a field of a packet: the entry becomes the last one
  of that field, and the rest of the packet is as before; on a failed allocation the packet does
  not change.\<close>

theorem entry_add_refines:
  assumes "heap_ok h" and "packet_at lk h p (T1 @ (a, ty, es) # T2)" and "payload_ok sz data"
  shows "\<exists>r h' es'. srvd_protocol_packet_field_entry_add (Some a) sz data h = Some (r, h') \<and> (r \<longleftrightarrow> no_oom h h') \<and>
     packet_at lk h' p (T1 @ (a, ty, es') # T2) \<and> modifies {} {a} (e_addr ` set es) {} h h' \<and>
     (if r then \<exists>e. es' = es @ [e] \<and> e_bytes e = payload sz data else es' = es)"
  by (rule entry_add_in_packet [OF assms]) (auto split: if_splits)

theorem entry_add_refines_witness:
  "\<exists>r h' es'. srvd_protocol_packet_field_entry_add (Some 4) 1 (Some [7]) demo_full = Some (r, h') \<and> (r \<longleftrightarrow> no_oom demo_full h') \<and>
     packet_at Unlocked h' 0 ([] @ (4, 701, es') # []) \<and>
     modifies {} {4} (e_addr ` set [(2, Some 3, [104, 105])]) {} demo_full h' \<and>
     (if r then \<exists>e. es' = [(2, Some 3, [104, 105])] @ [e] \<and> e_bytes e = payload 1 (Some [7]) else es' = [(2, Some 3, [104, 105])])"
  by (rule entry_add_refines [where es = "[(2, Some 3, [104, 105])]"]) simp_all

text \<open>C10. Lookup by type returns the first field of that type, lookup by offset the field at that
  offset, and the entry lookup the entry at that offset, exactly when there is one below the 16 bit
  count of the fields or entries, which is their number when there are less than 65536; the out
  parameter is untouched otherwise.\<close>

theorem lookups_index_the_packet:
  assumes "packet_at lk h p T"
  shows "srvd_protocol_packet_field_get_by_type (Some p) ty (Some None) h =
       Some (case find (\<lambda>t. f_ty t = ty) T of None \<Rightarrow> (False, Some None) | Some t \<Rightarrow> (True, Some (Some (f_addr t)))) \<and>
     srvd_protocol_packet_field_get_by_offset (Some p) i (Some None) h =
       Some (if i < of_nat (length T) then (True, Some (Some (f_addr (T ! unat i)))) else (False, Some None)) \<and>
     (\<forall>t \<in> set T. srvd_protocol_packet_field_entry_get (Some (f_addr t)) i (Some None) h =
       Some (if i < of_nat (length (f_ents t)) then (True, Some (Some (e_addr (f_ents t ! unat i)))) else (False, Some None)))"
proof (intro conjI ballI)
  fix t assume "t \<in> set T"
  then have "field_ok h (f_addr t, f_ty t, f_ents t)" using assms by (simp add: packet_at_def)
  then show "srvd_protocol_packet_field_entry_get (Some (f_addr t)) i (Some None) h =
       Some (if i < of_nat (length (f_ents t)) then (True, Some (Some (e_addr (f_ents t ! unat i)))) else (False, Some None))"
    by (rule field_entry_get_spec)
qed (rule get_by_type_spec [OF assms] packet_get_by_offset_spec [OF assms])+

theorem lookups_index_the_packet_witness:
  "srvd_protocol_packet_field_get_by_type (Some 0) 701 (Some None) demo_full = Some (True, Some (Some 4)) \<and>
   srvd_protocol_packet_field_get_by_offset (Some 0) 0 (Some None) demo_full = Some (True, Some (Some 4)) \<and>
   srvd_protocol_packet_field_entry_get (Some 4) 0 (Some None) demo_full = Some (True, Some (Some 2))"
  using lookups_index_the_packet [OF demo_full_at, of 701 0] by simp

text \<open>A number stored in network byte order reads back as itself: after adding a 32 bit value
  as an entry of a field with fewer than 65535 entries, the entry at the old count is found, and its
  value is the one stored.\<close>

theorem uint32_round_trip:
  assumes "heap_ok h" and "packet_at lk h p (T1 @ (a, ty, es) # T2)" and "length es < 65535"
    and "srvd_protocol_packet_field_entry_add_uint32 (Some a) v h = Some (True, h')"
  shows "\<exists>e. srvd_protocol_packet_field_entry_get (Some a) (of_nat (length es)) (Some None) h' = Some (True, Some (Some e)) \<and>
     srvd_protocol_packet_field_entry_get_uint32 (Some e) (Some x) h' = Some (True, Some v)"
proof (rule entry_add_in_packet [OF assms(1,2), of 4 "Some (be32 v)"])
  fix r h1 es'
  assume run: "srvd_protocol_packet_field_entry_add (Some a) 4 (Some (be32 v)) h = Some (r, h1)"
    and at: "packet_at lk h1 p (T1 @ (a, ty, es') # T2)"
    and es': "if r then \<exists>e. es' = es @ [e] \<and> e_bytes e = payload 4 (Some (be32 v)) \<and>
      brk h \<le> e_addr e \<and> (\<forall>b. e_blk e = Some b \<longrightarrow> brk h \<le> b) else es' = es"
  then have "r" "h1 = h'" using assms(4) by (simp_all add: srvd_protocol_packet_field_entry_add_uint32_def)
  with es' obtain e where e: "es' = es @ [e]" "e_bytes e = be32 v" by auto
  have fo: "field_ok h' (a, ty, es')" using at \<open>h1 = h'\<close> by (simp add: packet_at_def)
  have "(of_nat (length es) :: u16) < of_nat (length es')"
    using assms(3) e(1) unat_of_nat_16 [of "Suc (length es)"] by (simp add: word_less_nat_alt del: of_nat_Suc)
  then have "srvd_protocol_packet_field_entry_get (Some a) (of_nat (length es)) (Some None) h' = Some (True, Some (Some (e_addr e)))"
    using field_entry_get_spec [OF fo, of "of_nat (length es)"] assms(3) e(1) by simp
  moreover have "entry_ok h' e" using fo e(1) by (simp add: field_ok_def)
  ultimately show ?thesis using entry_get_uint32_spec [of h' e x] e(2) by auto
qed simp

theorem uint32_round_trip_witness:
  "\<exists>h' e. srvd_protocol_packet_field_entry_add_uint32 (Some 4) 4294967295 demo_full = Some (True, h') \<and>
     srvd_protocol_packet_field_entry_get (Some 4) 1 (Some None) h' = Some (True, Some (Some e)) \<and>
     srvd_protocol_packet_field_entry_get_uint32 (Some e) (Some 0) h' = Some (True, Some 4294967295)"
proof -
  have at: "packet_at Unlocked demo_full 0 ([] @ (4, 701, [(2, Some 3, [104, 105])]) # [])" by simp
  obtain h' where "srvd_protocol_packet_field_entry_add (Some 4) 4 (Some (be32 4294967295)) demo_full = Some (True, h')"
    by (rule entry_add_in_packet [OF demo_heap_ok(2) at, of 4 "Some (be32 4294967295)"]) auto
  then show ?thesis
    using uint32_round_trip [OF demo_heap_ok(2) at, of 4294967295 h' 0]
    by (auto simp: srvd_protocol_packet_field_entry_add_uint32_def)
qed

text \<open>No entry of another width is taken for a number: the getters answer exactly for entries of
  their width and otherwise leave the out parameter alone.\<close>

theorem getters_check_the_width:
  assumes "entry_ok h e"
  shows "srvd_protocol_packet_field_entry_get_uint32 (Some (e_addr e)) (Some x) h =
       Some (if length (e_bytes e) = 4 then (True, Some (of_be32 (e_bytes e))) else (False, Some x)) \<and>
     srvd_protocol_packet_field_entry_get_uint16 (Some (e_addr e)) (Some y) h =
       Some (if length (e_bytes e) = 2 then (True, Some (of_be16 (e_bytes e))) else (False, Some y)) \<and>
     srvd_protocol_packet_field_entry_get_uint8 (Some (e_addr e)) (Some z) h =
       Some (if length (e_bytes e) = 1 then (True, Some (hd (e_bytes e))) else (False, Some z))"
  using entry_get_uint32_spec [OF assms] entry_get_uint16_spec [OF assms] entry_get_uint8_spec [OF assms] by blast

theorem getters_check_the_width_witness:
  "srvd_protocol_packet_field_entry_get_uint32 (Some 2) (Some 9) demo_full = Some (False, Some 9) \<and>
   srvd_protocol_packet_field_entry_get_uint16 (Some 2) (Some 9) demo_full = Some (True, Some (of_be16 [104, 105]))"
proof -
  have "entry_ok demo_full (2, Some 3, [104, 105])" using demo_field by (simp add: field_ok_def)
  from getters_check_the_width [OF this, of 9 9 0] show ?thesis by simp
qed

end
