(* ===== verification/Chain.thy ===== *)
theory Chain
  imports Store
begin

text \<open>
  Singly linked chains in a store of nodes, as the service registry and the configuration keep
  them. \<open>lseg nx m p as q\<close>: following \<open>nx\<close> from \<open>p\<close> visits the nodes at \<open>as\<close>
  and arrives at \<open>q\<close>.
\<close>

fun lseg :: "('n \<Rightarrow> ptr) \<Rightarrow> (addr \<rightharpoonup> 'n option) \<Rightarrow> ptr \<Rightarrow> addr list \<Rightarrow> ptr \<Rightarrow> bool" where
  "lseg nx m p [] q \<longleftrightarrow> p = q"
| "lseg nx m p (a # as) q \<longleftrightarrow> p = Some a \<and> (\<exists>n. m a = Some (Some n) \<and> lseg nx m (nx n) as q)"

lemma lseg_append [simp]:
  "lseg nx m p (as @ bs) q \<longleftrightarrow> (\<exists>r. lseg nx m p as r \<and> lseg nx m r bs q)"
  by (induction as arbitrary: p) auto

lemma lseg_cong: "(\<And>a. a \<in> set as \<Longrightarrow> m' a = m a) \<Longrightarrow> lseg nx m' p as q = lseg nx m p as q"
  by (induction as arbitrary: p) auto

lemma lseg_dom: "lseg nx m p as q \<Longrightarrow> a \<in> set as \<Longrightarrow> \<exists>n. m a = Some (Some n)"
  by (induction as arbitrary: p) auto

lemma lseg_None [simp]: "lseg nx m None as q \<longleftrightarrow> as = [] \<and> q = None"
  by (cases as) auto

text \<open>A node's contents, as a partial function of its address.\<close>

definition cell :: "(addr \<rightharpoonup> 'n option) \<Rightarrow> addr \<rightharpoonup> 'n" where
  "cell m a = Option.bind (m a) id"

lemma cell_eq [simp]: "cell m a = Some n \<longleftrightarrow> m a = Some (Some n)"
  by (auto simp: cell_def Option.bind_eq_Some_conv)

text \<open>Taking the node \<open>a\<close> out of a chain by redirecting its predecessor \<open>b\<close>.\<close>

lemma lseg_unlink:
  assumes "lseg nx m p (as @ b # a # bs) q" and "distinct (as @ b # a # bs)"
    and "m b = Some (Some k)" and "m a = Some (Some n)" and "nx k' = nx n"
  shows "lseg nx ((m(b \<mapsto> Some k'))(a := None)) p (as @ b # bs) q"
proof -
  let ?m = "(m(b \<mapsto> Some k'))(a := None)"
  have 1: "lseg nx ?m p as r = lseg nx m p as r" for r using assms(2) by (intro lseg_cong) auto
  have 2: "lseg nx ?m r bs q = lseg nx m r bs q" for r using assms(2) by (intro lseg_cong) auto
  show ?thesis using assms by (auto simp: 1 2)
qed

lemma lseg_unlink_head:
  assumes "lseg nx m p (a # bs) q" and "distinct (a # bs)" and "m a = Some (Some n)"
  shows "lseg nx (m(a := None)) (nx n) bs q"
proof -
  have "lseg nx (m(a := None)) r bs q = lseg nx m r bs q" for r using assms(2) by (intro lseg_cong) auto
  then show ?thesis using assms by simp
qed

end
