(* ===== verification/Registry.thy ===== *)
theory Registry
  imports Chain
begin

text \<open>
  The service registry: \<open>lib/srvd/libsrvd/server.c\<close> with the structs of
  \<open>include/srvd/server.h\<close>. Nodes live in a store of their own; a handler is whatever the
  application registers, so its type is a parameter.
\<close>

section \<open>State\<close>

record 'h service_node =
  n_type :: u16
  n_handler :: 'h
  n_next :: ptr

record server =
  services :: ptr
  executing :: bool

record 'h node_store =
  nodes :: "addr \<rightharpoonup> 'h service_node option"
  nbrk :: nat
  noom :: "nat \<Rightarrow> bool"

definition malloc_node :: "'h node_store \<Rightarrow> ptr \<times> 'h node_store" where
  "malloc_node s = (let a = nbrk s; s' = s\<lparr>nbrk := Suc a\<rparr> in
     if noom s a then (None, s') else (Some a, s'\<lparr>nodes := (nodes s)(a \<mapsto> None)\<rparr>))"

section \<open>Operations\<close>

definition srvd_server_initialize :: "server option \<Rightarrow> bool \<times> server option" where
  "srvd_server_initialize server =
     (case server of None \<Rightarrow> (False, None)
      | Some sv \<Rightarrow> (True, Some (sv\<lparr>executing := False, services := None\<rparr>)))"

partial_function (option) services_free :: "ptr \<Rightarrow> 'h node_store \<Rightarrow> 'h node_store option" where
  "services_free i s =
     (if i = None then Some s
      else do {
        n \<leftarrow> deref (nodes s) i;
        ns \<leftarrow> release i (nodes s);
        services_free (n_next n) (s\<lparr>nodes := ns\<rparr>) })"

definition srvd_server_finalize ::
    "server option \<Rightarrow> 'h node_store \<Rightarrow> (bool \<times> server option \<times> 'h node_store) option" where
  "srvd_server_finalize server s =
     (case server of None \<Rightarrow> Some (False, None, s)
      | Some sv \<Rightarrow> do {
          s \<leftarrow> services_free (services sv) s;
          Some (True, Some (sv\<lparr>executing := False, services := None\<rparr>), s) })"

partial_function (option) service_find :: "ptr \<Rightarrow> u16 \<Rightarrow> 'h node_store \<Rightarrow> ptr option" where
  "service_find i ty s =
     (if i = None then Some None
      else do { n \<leftarrow> deref (nodes s) i; if n_type n = ty then Some i else service_find (n_next n) ty s })"

definition srvd_server_service_has :: "server option \<Rightarrow> u16 \<Rightarrow> 'h node_store \<Rightarrow> bool option" where
  "srvd_server_service_has server ty s =
     (case server of None \<Rightarrow> Some False
      | Some sv \<Rightarrow> do { i \<leftarrow> service_find (services sv) ty s; Some (i \<noteq> None) })"

text \<open>The out parameter is \<open>None\<close> for NULL; the caller's handler variable may hold NULL.\<close>

definition srvd_server_service_get ::
    "server option \<Rightarrow> u16 \<Rightarrow> 'h option option \<Rightarrow> 'h node_store \<Rightarrow> (bool \<times> 'h option option) option" where
  "srvd_server_service_get server ty out s =
     (case server of None \<Rightarrow> Some (False, out)
      | Some sv \<Rightarrow>
        if out = None then Some (False, out)
        else do {
          i \<leftarrow> service_find (services sv) ty s;
          if i = None then Some (False, out)
          else do { n \<leftarrow> deref (nodes s) i; Some (True, Some (Some (n_handler n))) } })"

definition srvd_server_service_add ::
    "server option \<Rightarrow> u16 \<Rightarrow> 'h \<Rightarrow> 'h node_store \<Rightarrow> (bool \<times> server option \<times> 'h node_store) option" where
  "srvd_server_service_add server ty handler s =
     (case server of None \<Rightarrow> Some (False, None, s)
      | Some sv \<Rightarrow> do {
          has \<leftarrow> srvd_server_service_has server ty s;
          if \<not> has then
            let (node, s) = malloc_node s in
            if node = None then Some (False, Some sv, s)
            else do {
              ns \<leftarrow> assign node \<lparr>n_type = ty, n_handler = handler, n_next = services sv\<rparr> (nodes s);
              Some (True, Some (sv\<lparr>services := node\<rparr>), s\<lparr>nodes := ns\<rparr>) }
          else Some (False, Some sv, s) })"

text \<open>The loop of the removal, with the node before the current one.\<close>

partial_function (option) service_unlink ::
    "ptr \<Rightarrow> ptr \<Rightarrow> u16 \<Rightarrow> server \<Rightarrow> 'h node_store \<Rightarrow> (bool \<times> server \<times> 'h node_store) option" where
  "service_unlink pi i ty sv s =
     (if i = None then Some (False, sv, s)
      else do {
        n \<leftarrow> deref (nodes s) i;
        if n_type n = ty then do {
          (sv, s) \<leftarrow> (if pi = None then Some (sv\<lparr>services := n_next n\<rparr>, s)
            else do {
              m \<leftarrow> deref (nodes s) pi;
              ns \<leftarrow> assign pi (m\<lparr>n_next := n_next n\<rparr>) (nodes s);
              Some (sv, s\<lparr>nodes := ns\<rparr>) });
          ns \<leftarrow> release i (nodes s);
          Some (True, sv, s\<lparr>nodes := ns\<rparr>) }
        else service_unlink i (n_next n) ty sv s })"

definition srvd_server_service_remove ::
    "server option \<Rightarrow> u16 \<Rightarrow> 'h node_store \<Rightarrow> (bool \<times> server option \<times> 'h node_store) option" where
  "srvd_server_service_remove server ty s =
     (case server of None \<Rightarrow> Some (False, None, s)
      | Some sv \<Rightarrow> do {
          (r, sv, s) \<leftarrow> service_unlink None (services sv) ty sv s;
          Some (r, Some sv, s) })"

end
