(* ===== verification/Table.thy ===== *)
theory Table
  imports Prelude
begin

text \<open>
  Two interfaces for the tables of the program. A \<open>lookup_table\<close> is written once per key and
  read many times, as the configuration is; a \<open>registry\<close> also takes keys out again. The laws say
  that the operations act on a finite map, that the first value of a key stays, and that adding
  fails exactly for a key that is present or when there is no room. What holds of every sequence of
  operations is proved here once; the theories of the components interpret the locales.
\<close>

section \<open>Tables with a value per key\<close>

text \<open>Additions one after another, with the answer of each.\<close>

primrec add_all :: "('k \<Rightarrow> 'v \<Rightarrow> 's \<Rightarrow> (bool \<times> 's) option) \<Rightarrow> ('k \<times> 'v) list \<Rightarrow> 's \<Rightarrow> (bool list \<times> 's) option" where
  "add_all add [] s = Some ([], s)"
| "add_all add (kw # kvs) s = do { (r, s) \<leftarrow> add (fst kw) (snd kw) s; (rs, s) \<leftarrow> add_all add kvs s; Some (r # rs, s) }"

locale lookup_table =
  fixes rep :: "'s \<Rightarrow> ('k \<rightharpoonup> 'v) \<Rightarrow> bool"
    and valid :: "'k \<Rightarrow> bool"
    and lookup :: "'k \<Rightarrow> 's \<Rightarrow> 'v option option"
    and add :: "'k \<Rightarrow> 'v \<Rightarrow> 's \<Rightarrow> (bool \<times> 's) option"
    and room :: "'s \<Rightarrow> bool"
    and storable :: "'v \<Rightarrow> bool"
  assumes lookup_law: "rep s m \<Longrightarrow> valid k \<Longrightarrow> lookup k s = Some (m k)"
    and add_law: "rep s m \<Longrightarrow> valid k \<Longrightarrow> storable v \<Longrightarrow>
          \<exists>s'. add k v s = Some (m k = None \<and> room s, s') \<and> rep s' (if m k = None \<and> room s then m(k \<mapsto> v) else m)"
begin

text \<open>A value, once accepted, survives any sequence of further additions, and each of them that has
  its key is refused.\<close>

lemma value_survives_all:
  assumes "rep s m" and "valid k" and "m k = Some v" and "\<forall>(k', w) \<in> set kvs. valid k' \<and> storable w"
  shows "\<exists>rs s' m'. add_all add kvs s = Some (rs, s') \<and> rep s' m' \<and> m' k = Some v \<and> lookup k s' = Some (Some v) \<and>
     list_all2 (\<lambda>(k', w) r. k' = k \<longrightarrow> \<not> r) kvs rs"
  using assms
proof (induction kvs arbitrary: s m)
  case Nil
  then show ?case by (auto simp: lookup_law)
next
  case (Cons kw kvs)
  obtain k' w where kw: "kw = (k', w)" by (cases kw)
  let ?r = "m k' = None \<and> room s"
  from Cons.prems(4) kw obtain s1 where s1: "add k' w s = Some (?r, s1)" "rep s1 (if ?r then m(k' \<mapsto> w) else m)"
    using add_law [OF Cons.prems(1), of k' w] by auto
  have "(if ?r then m(k' \<mapsto> w) else m) k = Some v" using Cons.prems(3) by auto
  from Cons.IH [OF s1(2) Cons.prems(2) this] Cons.prems(4)
  obtain rs s' m' where "add_all add kvs s1 = Some (rs, s')" "rep s' m'" "m' k = Some v" "lookup k s' = Some (Some v)"
      "list_all2 (\<lambda>(k', w) r. k' = k \<longrightarrow> \<not> r) kvs rs" by auto
  with s1(1) kw Cons.prems(3) show ?case by auto
qed

end

section \<open>Tables from which keys are removed\<close>

datatype ('k, 'v) table_op = Put 'k 'v | Drop 'k

text \<open>What the answers of a run mean for the map.\<close>

fun apply_ops :: "('k, 'v) table_op list \<Rightarrow> bool list \<Rightarrow> ('k \<rightharpoonup> 'v) \<Rightarrow> ('k \<rightharpoonup> 'v)" where
  "apply_ops (Put k v # ops) (r # rs) m = apply_ops ops rs (if r then m(k \<mapsto> v) else m)"
| "apply_ops (Drop k # ops) (r # rs) m = apply_ops ops rs (m(k := None))"
| "apply_ops _ _ m = m"

text \<open>The answers of a run that never lacks room, and what it leaves.\<close>

fun answers :: "('k, 'v) table_op list \<Rightarrow> ('k \<rightharpoonup> 'v) \<Rightarrow> bool list" where
  "answers [] m = []"
| "answers (Put k v # ops) m = (m k = None) # answers ops (if m k = None then m(k \<mapsto> v) else m)"
| "answers (Drop k # ops) m = (m k \<noteq> None) # answers ops (m(k := None))"

locale registry = lookup_table rep "\<lambda>_. True" lookup add room "\<lambda>_. True"
  for rep :: "'s \<Rightarrow> ('k \<rightharpoonup> 'v) \<Rightarrow> bool" and lookup add room +
  fixes remove :: "'k \<Rightarrow> 's \<Rightarrow> (bool \<times> 's) option"
  assumes remove_law: "rep s m \<Longrightarrow> \<exists>s'. remove k s = Some (m k \<noteq> None, s') \<and> rep s' (m(k := None))"
begin

fun run :: "('k, 'v) table_op list \<Rightarrow> 's \<Rightarrow> (bool list \<times> 's) option" where
  "run [] s = Some ([], s)"
| "run (Put k v # ops) s = do { (r, s) \<leftarrow> add k v s; (rs, s) \<leftarrow> run ops s; Some (r # rs, s) }"
| "run (Drop k # ops) s = do { (r, s) \<leftarrow> remove k s; (rs, s) \<leftarrow> run ops s; Some (r # rs, s) }"

lemma run_refines:
  "rep s m \<Longrightarrow> \<exists>rs s'. run ops s = Some (rs, s') \<and> length rs = length ops \<and> rep s' (apply_ops ops rs m)"
proof (induction ops arbitrary: s m)
  case (Cons op ops)
  show ?case
  proof (cases op)
    case (Put k v)
    obtain s1 where s1: "add k v s = Some (m k = None \<and> room s, s1)"
        "rep s1 (if m k = None \<and> room s then m(k \<mapsto> v) else m)"
      using add_law [OF Cons.prems] by blast
    from Cons.IH [OF s1(2)] s1(1) Put show ?thesis by auto
  next
    case (Drop k)
    obtain s1 where s1: "remove k s = Some (m k \<noteq> None, s1)" "rep s1 (m(k := None))"
      using remove_law [OF Cons.prems] by blast
    from Cons.IH [OF s1(2)] s1(1) Drop show ?thesis by (auto simp: fun_upd_def)
  qed
qed simp

lemma run_answers:
  "(\<And>s. room s) \<Longrightarrow> rep s m \<Longrightarrow>
     \<exists>s'. run ops s = Some (answers ops m, s') \<and> rep s' (apply_ops ops (answers ops m) m)"
proof (induction ops arbitrary: s m)
  case (Cons op ops)
  show ?case
  proof (cases op)
    case (Put k v)
    obtain s1 where s1: "add k v s = Some (m k = None, s1)" "rep s1 (if m k = None then m(k \<mapsto> v) else m)"
      using add_law [OF Cons.prems(2), of k v] Cons.prems(1) by auto
    from Cons.IH [OF Cons.prems(1) s1(2)] s1(1) Put show ?thesis by (auto simp: fun_upd_def)
  next
    case (Drop k)
    obtain s1 where s1: "remove k s = Some (m k \<noteq> None, s1)" "rep s1 (m(k := None))"
      using remove_law [OF Cons.prems(2)] by blast
    from Cons.IH [OF Cons.prems(1) s1(2)] s1(1) Drop show ?thesis by (auto simp: fun_upd_def)
  qed
qed simp

lemma lookup_after_run:
  assumes "rep s m" and "run ops s = Some (rs, s')"
  shows "lookup k s' = Some (apply_ops ops rs m k)"
  using run_refines [OF assms(1), of ops] assms(2) by (auto simp: lookup_law)

lemma removed_is_gone:
  assumes "rep s m" and "remove k s = Some (r, s')"
  shows "lookup k s' = Some None"
  using remove_law [OF assms(1), of k] assms(2) by (auto simp: lookup_law fun_upd_def)

end

end
