(* ===== verification/Registry_Refine.thy ===== *)
theory Registry_Refine
  imports Registry Table
begin

text \<open>
  The registry is a finite map from types to handlers: the operations on the linked nodes satisfy
  the laws of the interface \<open>registry\<close>.
\<close>

section \<open>Representation\<close>

type_synonym 'h table = "(addr \<times> u16 \<times> 'h) list"

definition node_is :: "'h node_store \<Rightarrow> addr \<times> u16 \<times> 'h \<Rightarrow> bool" where
  "node_is s x \<longleftrightarrow> (\<exists>n. nodes s (fst x) = Some (Some n) \<and> n_type n = fst (snd x) \<and> n_handler n = snd (snd x))"

definition registry_at :: "server \<Rightarrow> 'h node_store \<Rightarrow> 'h table \<Rightarrow> bool" where
  "registry_at sv s L \<longleftrightarrow> lseg n_next (nodes s) (services sv) (map fst L) None \<and> (\<forall>x \<in> set L. node_is s x) \<and>
     distinct (map fst L) \<and> distinct (map (fst \<circ> snd) L) \<and> (\<forall>a \<ge> nbrk s. nodes s a = None) \<and>
     dom (nodes s) = fst ` set L"

abbreviation table_map :: "'h table \<Rightarrow> u16 \<rightharpoonup> 'h" where
  "table_map L \<equiv> map_of (map snd L)"

lemma table_map_None: "table_map L ty = None \<longleftrightarrow> ty \<notin> (fst \<circ> snd) ` set L"
  by (auto simp: map_of_eq_None_iff image_iff)

lemma service_find_spec:
  assumes "lseg n_next (nodes s) p (map fst L) None" and "\<forall>x \<in> set L. node_is s x"
  shows "service_find p ty s = Some (map_option fst (find (\<lambda>x. fst (snd x) = ty) L))"
  using assms
proof (induction L arbitrary: p)
  case Nil
  then show ?case by (subst service_find.simps) simp
next
  case (Cons x L)
  from Cons.prems obtain n where n: "p = Some (fst x)" "nodes s (fst x) = Some (Some n)" "n_type n = fst (snd x)"
    and seg: "lseg n_next (nodes s) (n_next n) (map fst L) None" by (auto simp: node_is_def)
  with Cons.IH [OF seg] Cons.prems(2) show ?case by (subst service_find.simps) (simp add: mem_simps)
qed

lemma find_table: "find (\<lambda>x. fst (snd x) = ty) L = None \<longleftrightarrow> table_map L ty = None"
  by (force simp: find_None_iff table_map_None)

lemma service_has_spec:
  "registry_at sv s L \<Longrightarrow> srvd_server_service_has (Some sv) ty s = Some (table_map L ty \<noteq> None)"
  using service_find_spec [of s "services sv" L ty] find_table [of ty L]
  by (auto simp: registry_at_def srvd_server_service_has_def)

lemma find_table_Some:
  "find (\<lambda>x. fst (snd x) = ty) L = Some x \<Longrightarrow> x \<in> set L \<and> table_map L ty = Some (snd (snd x))"
  by (induction L) (auto split: if_splits)

lemma service_get_spec:
  assumes "registry_at sv s L"
  shows "srvd_server_service_get (Some sv) ty (Some v) s =
     Some (case table_map L ty of None \<Rightarrow> (False, Some v) | Some f \<Rightarrow> (True, Some (Some f)))"
proof -
  have fs: "service_find (services sv) ty s = Some (map_option fst (find (\<lambda>x. fst (snd x) = ty) L))"
    and ns: "\<forall>x \<in> set L. node_is s x"
    using assms by (auto simp: registry_at_def intro: service_find_spec)
  show ?thesis
  proof (cases "find (\<lambda>x. fst (snd x) = ty) L")
    case None
    with fs show ?thesis using find_table [of ty L] by (simp add: srvd_server_service_get_def)
  next
    case (Some x)
    from find_table_Some [OF this] ns obtain n where "nodes s (fst x) = Some (Some n)" "n_handler n = snd (snd x)"
      "table_map L ty = Some (snd (snd x))" by (auto simp: node_is_def)
    with fs Some show ?thesis by (simp add: srvd_server_service_get_def mem_simps)
  qed
qed

lemma service_add_spec:
  assumes "registry_at sv s L"
  shows "\<exists>sv' s' L'. srvd_server_service_add (Some sv) ty f s =
       Some (table_map L ty = None \<and> \<not> noom s (nbrk s), Some sv', s') \<and> registry_at sv' s' L' \<and> noom s' = noom s \<and>
     table_map L' = (if table_map L ty = None \<and> \<not> noom s (nbrk s) then (table_map L)(ty \<mapsto> f) else table_map L)"
proof (cases "table_map L ty = None \<and> \<not> noom s (nbrk s)")
  case True
  let ?a = "nbrk s"
  let ?s = "s\<lparr>nbrk := Suc ?a, nodes := (nodes s)(?a \<mapsto> Some \<lparr>n_type = ty, n_handler = f, n_next = services sv\<rparr>)\<rparr>"
  have seg: "lseg n_next (nodes s) (services sv) (map fst L) None" and new: "nodes s ?a = None"
    using assms by (auto simp: registry_at_def)
  have a: "?a \<notin> set (map fst L)" using lseg_dom [OF seg] new by fastforce
  then have "lseg n_next (nodes ?s) (services sv) (map fst L) None"
    using seg by (subst lseg_cong) (auto simp del: set_map)
  then have "registry_at (sv\<lparr>services := Some ?a\<rparr>) ?s ((?a, ty, f) # L)"
    using assms True a table_map_None [of L ty] by (auto simp: registry_at_def node_is_def)
  with True service_has_spec [OF assms, of ty] show ?thesis
    by (intro exI [of _ "sv\<lparr>services := Some ?a\<rparr>"] exI [of _ ?s] exI [of _ "(?a, ty, f) # L"])
       (simp add: srvd_server_service_add_def malloc_node_def Let_def mem_simps)
next
  case False
  let ?s = "if table_map L ty = None then s\<lparr>nbrk := Suc (nbrk s)\<rparr> else s"
  have "registry_at sv ?s L" using assms by (auto simp: registry_at_def node_is_def)
  with False service_has_spec [OF assms, of ty] show ?thesis
    by (intro exI [of _ sv] exI [of _ ?s] exI [of _ L])
       (auto simp: srvd_server_service_add_def malloc_node_def Let_def)
qed

section \<open>Removal\<close>

abbreviation without :: "u16 \<Rightarrow> 'h table \<Rightarrow> 'h table" where
  "without ty L \<equiv> filter (\<lambda>x. fst (snd x) \<noteq> ty) L"

lemma table_map_without: "table_map (without ty L) = (table_map L)(ty := None)"
  by (induction L) auto

lemma without_id: "ty \<notin> (fst \<circ> snd) ` set L \<Longrightarrow> without ty L = L"
  by (induction L) auto

text \<open>Unlinking the node \<open>x\<close> between \<open>L1\<close> and \<open>L2\<close>, by the pointer the loop kept.\<close>

lemma unlink_here:
  assumes at: "registry_at sv s (L1 @ x # L2)" and seg: "lseg n_next (nodes s) (services sv) (map fst L1) i"
    and pi: "pi = (if L1 = [] then None else Some (fst (last L1)))" and ty: "fst (snd x) = ty"
  shows "\<exists>sv' s'. service_unlink pi i ty sv s = Some (True, sv', s') \<and> registry_at sv' s' (L1 @ L2) \<and> noom s' = noom s"
proof -
  let ?a = "fst x"
  have all: "lseg n_next (nodes s) (services sv) (map fst L1 @ ?a # map fst L2) None"
    and ns: "\<forall>y \<in> set (L1 @ x # L2). node_is s y" and dist: "distinct (map fst L1 @ ?a # map fst L2)"
    using at by (auto simp: registry_at_def)
  then obtain n where n: "nodes s ?a = Some (Some n)" "n_type n = ty" using ty by (auto simp: node_is_def)
  have ia: "i = Some ?a"
  proof -
    have "lseg nx m p as q \<Longrightarrow> lseg nx m p as r \<Longrightarrow> q = r" for nx :: "'b service_node \<Rightarrow> ptr" and m p as q r
      by (induction as arbitrary: p) auto
    with all seg show ?thesis by fastforce
  qed
  show ?thesis
  proof (cases "L1 = []")
    case True
    let ?s = "s\<lparr>nodes := (nodes s)(?a := None)\<rparr>" and ?sv = "sv\<lparr>services := n_next n\<rparr>"
    have run: "service_unlink pi i ty sv s = Some (True, ?sv, ?s)"
      using pi True ia n by (subst service_unlink.simps) (simp add: mem_simps)
    have "lseg n_next (nodes ?s) (services ?sv) (map fst L2) None"
      using lseg_unlink_head [of n_next "nodes s" "services sv" ?a "map fst L2" None n] all dist n(1) True by simp
    moreover have "\<forall>y \<in> set L2. node_is ?s y"
      using ns dist by (auto simp: node_is_def image_iff)
    moreover have "dom (nodes ?s) = fst ` set L2" using at dist True by (auto simp: registry_at_def)
    ultimately have "registry_at ?sv ?s L2" using at True by (auto simp: registry_at_def)
    with run True show ?thesis by auto
  next
    case False
    then obtain K y where L1: "L1 = K @ [y]" by (meson rev_exhaust)
    let ?b = "fst y"
    from ns L1 obtain m where m: "nodes s ?b = Some (Some m)" "n_type m = fst (snd y)" "n_handler m = snd (snd y)"
      by (auto simp: node_is_def)
    have ne: "?b \<noteq> ?a" using dist L1 by auto
    let ?m = "m\<lparr>n_next := n_next n\<rparr>"
    let ?s = "s\<lparr>nodes := ((nodes s)(?b \<mapsto> Some ?m))(?a := None)\<rparr>"
    have run: "service_unlink pi i ty sv s = Some (True, sv, ?s)"
      using pi False L1 ia n m(1) ne by (subst service_unlink.simps) (simp add: mem_simps)
    have "lseg n_next (nodes ?s) (services sv) (map fst K @ ?b # map fst L2) None"
      using lseg_unlink [of n_next "nodes s" "services sv" "map fst K" ?b ?a "map fst L2" None m n ?m] all dist L1 m(1) n(1)
      by simp
    moreover have "\<forall>z \<in> set (L1 @ L2). node_is ?s z"
    proof
      fix z assume z: "z \<in> set (L1 @ L2)"
      have "fst z \<in> set (map fst L1) \<union> set (map fst L2)" using z by auto
      with dist have "fst z \<noteq> ?a" by (auto simp del: set_map)
      moreover have "z = y \<or> fst z \<in> set (map fst K) \<union> set (map fst L2)" using z L1 by auto
      with dist L1 have "fst z = ?b \<Longrightarrow> z = y" by (auto simp del: set_map)
      ultimately show "node_is ?s z" using ns z m(2,3) by (auto simp: node_is_def)
    qed
    moreover have "dom (nodes ?s) = fst ` set (L1 @ L2)"
    proof -
      have "dom (nodes ?s) = fst ` set (L1 @ x # L2) - {?a}" using at L1 by (auto simp: registry_at_def)
      moreover have "?a \<notin> fst ` set (L1 @ L2)" using dist by auto
      ultimately show ?thesis by auto
    qed
    ultimately have "registry_at sv ?s (L1 @ L2)" using at L1 by (auto simp: registry_at_def)
    with run show ?thesis by auto
  qed
qed

lemma service_unlink_spec:
  assumes "registry_at sv s (L1 @ L2)" and "lseg n_next (nodes s) (services sv) (map fst L1) i"
    and "lseg n_next (nodes s) i (map fst L2) None"
    and "pi = (if L1 = [] then None else Some (fst (last L1)))"
  shows "\<exists>sv' s'. service_unlink pi i ty sv s = Some (table_map L2 ty \<noteq> None, sv', s') \<and>
     registry_at sv' s' (L1 @ without ty L2) \<and> noom s' = noom s"
  using assms
proof (induction L2 arbitrary: L1 i pi)
  case Nil
  then show ?case by (intro exI [of _ sv] exI [of _ s]) (subst service_unlink.simps, simp)
next
  case (Cons x L2)
  from Cons.prems(3) obtain n where n: "i = Some (fst x)" "nodes s (fst x) = Some (Some n)"
    and seg: "lseg n_next (nodes s) (n_next n) (map fst L2) None" by auto
  have nt: "n_type n = fst (snd x)" using Cons.prems(1) n(2) by (auto simp: registry_at_def node_is_def)
  show ?case
  proof (cases "fst (snd x) = ty")
    case True
    have "ty \<notin> (fst \<circ> snd) ` set L2" using Cons.prems(1) True by (auto simp: registry_at_def)
    then have "without ty (x # L2) = L2" using True without_id [of ty L2] by simp
    with unlink_here [OF Cons.prems(1,2,4) True] True show ?thesis by (cases x) auto
  next
    case False
    have "\<exists>sv' s'. service_unlink (Some (fst x)) (n_next n) ty sv s = Some (table_map L2 ty \<noteq> None, sv', s') \<and>
        registry_at sv' s' ((L1 @ [x]) @ without ty L2) \<and> noom s' = noom s"
      by (rule Cons.IH) (use Cons.prems n seg in auto)
    with n nt False show ?thesis
      by (subst service_unlink.simps) (auto simp: mem_simps)
  qed
qed

lemma service_remove_spec:
  assumes "registry_at sv s L"
  shows "\<exists>sv' s' L'. srvd_server_service_remove (Some sv) ty s = Some (table_map L ty \<noteq> None, Some sv', s') \<and>
     registry_at sv' s' L' \<and> noom s' = noom s \<and> table_map L' = (table_map L)(ty := None)"
proof -
  have "lseg n_next (nodes s) (services sv) (map fst L) None" using assms by (simp add: registry_at_def)
  then obtain sv' s' where "service_unlink None (services sv) ty sv s = Some (table_map L ty \<noteq> None, sv', s')"
      "registry_at sv' s' (without ty L)" "noom s' = noom s"
    using service_unlink_spec [of sv s "[]" L "services sv" None ty] assms by auto
  with table_map_without [of ty L] show ?thesis
    by (intro exI [of _ sv'] exI [of _ s'] exI [of _ "without ty L"]) (simp add: srvd_server_service_remove_def)
qed

section \<open>Release\<close>

lemma services_free_spec:
  assumes "lseg n_next (nodes s) p (map fst L) None" and "distinct (map fst L)"
  shows "services_free p s = Some (s\<lparr>nodes := nodes s |` (- fst ` set L)\<rparr>)"
  using assms
proof (induction L arbitrary: p s)
  case Nil
  then show ?case by (subst services_free.simps) (simp add: restrict_map_def)
next
  case (Cons x L)
  from Cons.prems(1) obtain n where n: "p = Some (fst x)" "nodes s (fst x) = Some (Some n)"
    and seg: "lseg n_next (nodes s) (n_next n) (map fst L) None" by auto
  let ?s = "s\<lparr>nodes := (nodes s)(fst x := None)\<rparr>"
  have seg': "lseg n_next (nodes ?s) (n_next n) (map fst L) None"
    using seg Cons.prems(2) by (subst lseg_cong) (auto simp del: set_map)
  have "services_free p s = services_free (n_next n) ?s"
    using n by (subst services_free.simps) (simp add: mem_simps)
  also have "\<dots> = Some (?s\<lparr>nodes := nodes ?s |` (- fst ` set L)\<rparr>)"
    by (rule Cons.IH [OF seg']) (use Cons.prems(2) in simp)
  also have "?s\<lparr>nodes := nodes ?s |` (- fst ` set L)\<rparr> = s\<lparr>nodes := nodes s |` (- fst ` set (x # L))\<rparr>"
    by (rule node_store.equality) (auto simp: restrict_map_def fun_eq_iff)
  finally show ?case .
qed

lemma server_finalize_spec:
  assumes "registry_at sv s L"
  shows "srvd_server_finalize (Some sv) s =
     Some (True, Some (sv\<lparr>executing := False, services := None\<rparr>), s\<lparr>nodes := Map.empty\<rparr>)"
proof -
  have "nodes s |` (- fst ` set L) = Map.empty"
    using assms by (auto simp: registry_at_def restrict_map_def fun_eq_iff dom_def)
  then show ?thesis
    using services_free_spec [of s "services sv" L] assms by (simp add: srvd_server_finalize_def registry_at_def)
qed

section \<open>The registry is an implementation of the interface\<close>

definition registry_rep :: "server \<times> 'h node_store \<Rightarrow> (u16 \<rightharpoonup> 'h) \<Rightarrow> bool" where
  "registry_rep x m \<longleftrightarrow> (\<exists>L. registry_at (fst x) (snd x) L \<and> table_map L = m)"

definition registry_lookup :: "u16 \<Rightarrow> server \<times> 'h node_store \<Rightarrow> 'h option option" where
  "registry_lookup ty x = do {
     (_, v) \<leftarrow> srvd_server_service_get (Some (fst x)) ty (Some None) (snd x); v }"

definition registry_add :: "u16 \<Rightarrow> 'h \<Rightarrow> server \<times> 'h node_store \<Rightarrow> (bool \<times> server \<times> 'h node_store) option" where
  "registry_add ty f x = do {
     (r, sv, s) \<leftarrow> srvd_server_service_add (Some (fst x)) ty f (snd x); Some (r, the sv, s) }"

definition registry_remove :: "u16 \<Rightarrow> server \<times> 'h node_store \<Rightarrow> (bool \<times> server \<times> 'h node_store) option" where
  "registry_remove ty x = do {
     (r, sv, s) \<leftarrow> srvd_server_service_remove (Some (fst x)) ty (snd x); Some (r, the sv, s) }"

interpretation svc: registry registry_rep registry_lookup registry_add
    "\<lambda>x. \<not> noom (snd x) (nbrk (snd x))" registry_remove
proof unfold_locales
  fix x :: "server \<times> 'h node_store" and m ty
  assume "registry_rep x m"
  then obtain L where L: "registry_at (fst x) (snd x) L" "table_map L = m" by (auto simp: registry_rep_def)
  show "registry_lookup ty x = Some (m ty)"
    using service_get_spec [OF L(1), of ty None] L(2) by (auto simp: registry_lookup_def split: option.splits)
next
  fix x :: "server \<times> 'h node_store" and m ty f
  assume "registry_rep x m"
  then obtain L where L: "registry_at (fst x) (snd x) L" "table_map L = m" by (auto simp: registry_rep_def)
  from service_add_spec [OF L(1), of ty f] L(2)
  show "\<exists>x'. registry_add ty f x = Some (m ty = None \<and> \<not> noom (snd x) (nbrk (snd x)), x') \<and>
      registry_rep x' (if m ty = None \<and> \<not> noom (snd x) (nbrk (snd x)) then m(ty \<mapsto> f) else m)"
    by (fastforce simp: registry_add_def registry_rep_def)
next
  fix x :: "server \<times> 'h node_store" and m ty
  assume "registry_rep x m"
  then obtain L where L: "registry_at (fst x) (snd x) L" "table_map L = m" by (auto simp: registry_rep_def)
  from service_remove_spec [OF L(1), of ty] L(2)
  show "\<exists>x'. registry_remove ty x = Some (m ty \<noteq> None, x') \<and> registry_rep x' (m(ty := None))"
    by (fastforce simp: registry_remove_def registry_rep_def)
qed

text \<open>When no allocation fails there is room for every registration.\<close>

definition ample_rep :: "server \<times> 'h node_store \<Rightarrow> (u16 \<rightharpoonup> 'h) \<Rightarrow> bool" where
  "ample_rep x m \<longleftrightarrow> registry_rep x m \<and> (\<forall>k. \<not> noom (snd x) k)"

interpretation ample: registry ample_rep registry_lookup registry_add "\<lambda>_. True" registry_remove
proof unfold_locales
  fix x :: "server \<times> 'h node_store" and m ty
  assume "ample_rep x m"
  then show "registry_lookup ty x = Some (m ty)" by (auto simp: ample_rep_def svc.lookup_law)
next
  fix x :: "server \<times> 'h node_store" and m ty f
  assume "ample_rep x m"
  then obtain L where L: "registry_at (fst x) (snd x) L" "table_map L = m" "\<forall>k. \<not> noom (snd x) k"
    by (auto simp: registry_rep_def ample_rep_def)
  from service_add_spec [OF L(1), of ty f] L(2,3)
  show "\<exists>x'. registry_add ty f x = Some (m ty = None \<and> True, x') \<and>
      ample_rep x' (if m ty = None \<and> True then m(ty \<mapsto> f) else m)"
    by (fastforce simp: registry_add_def registry_rep_def ample_rep_def)
next
  fix x :: "server \<times> 'h node_store" and m ty
  assume "ample_rep x m"
  then obtain L where L: "registry_at (fst x) (snd x) L" "table_map L = m" "\<forall>k. \<not> noom (snd x) k"
    by (auto simp: registry_rep_def ample_rep_def)
  from service_remove_spec [OF L(1), of ty] L(2,3)
  show "\<exists>x'. registry_remove ty x = Some (m ty \<noteq> None, x') \<and> ample_rep x' (m(ty := None))"
    by (fastforce simp: registry_remove_def registry_rep_def ample_rep_def)
qed

lemma initialize_rep:
  assumes "nodes s = Map.empty"
  shows "\<exists>sv'. srvd_server_initialize (Some sv) = (True, Some sv') \<and> registry_rep (sv', s) Map.empty"
proof -
  have "registry_at (sv\<lparr>executing := False, services := None\<rparr>) s []" using assms by (simp add: registry_at_def)
  then have "registry_rep (sv\<lparr>executing := False, services := None\<rparr>, s) Map.empty"
    by (auto simp: registry_rep_def intro: exI [of _ "[]"])
  then show ?thesis by (simp add: srvd_server_initialize_def)
qed

end
