(* ===== verification/Registry_Properties.thy ===== *)
theory Registry_Properties
  imports Registry_Refine
begin

text \<open>
  The properties of the service registry, each with its use at a registry that starts empty.
\<close>

definition demo_nodes :: "nat node_store" where
  "demo_nodes = \<lparr>nodes = Map.empty, nbrk = 0, noom = (\<lambda>_. False)\<rparr>"

definition demo_server :: server where
  "demo_server = \<lparr>services = None, executing = False\<rparr>"

lemma demo_registry [simp]: "registry_rep (demo_server, demo_nodes) Map.empty" "ample_rep (demo_server, demo_nodes) Map.empty"
  by (auto simp: ample_rep_def registry_rep_def registry_at_def demo_nodes_def demo_server_def intro: exI [of _ "[]"])

section \<open>The registry is a finite map\<close>

text \<open>C32. When memory does not run out, every sequence of registrations and removals runs to its
  end and answers as the operations on a finite map from types to handlers do: a registration
  succeeds exactly when the type has no handler, a removal exactly when it has one. Afterwards the
  handler found for any type is the one the map holds.\<close>

theorem registry_refines_map:
  assumes "ample_rep x m"
  shows "\<exists>x'. svc.run ops x = Some (answers ops m, x') \<and> ample_rep x' (apply_ops ops (answers ops m) m) \<and>
     registry_lookup ty x' = Some (apply_ops ops (answers ops m) m ty)"
proof -
  obtain x' where x': "svc.run ops x = Some (answers ops m, x')" "ample_rep x' (apply_ops ops (answers ops m) m)"
    using ample.run_answers [OF _ assms, of ops] by auto
  then show ?thesis using ample.lookup_law [OF x'(2)] by auto
qed

theorem registry_refines_map_witness:
  "\<exists>x'. svc.run [Put 701 1, Put 701 2, Drop 702, Put 101 (3 :: nat), Drop 701, Put 701 4] (demo_server, demo_nodes) =
       Some ([True, False, False, True, True, True], x') \<and>
     ample_rep x' ([101 \<mapsto> 3, 701 \<mapsto> 4]) \<and> registry_lookup 701 x' = Some (Some 4)"
proof -
  let ?ops = "[Put 701 1, Put 701 2, Drop 702, Put 101 (3 :: nat), Drop 701, Put 701 4] :: (u16, nat) table_op list"
  have a: "answers ?ops Map.empty = [True, False, False, True, True, True]" by simp
  have m: "apply_ops ?ops [True, False, False, True, True, True] Map.empty = [101 \<mapsto> 3, 701 \<mapsto> 4]"
    by (simp add: fun_eq_iff)
  from registry_refines_map [OF demo_registry(2), of ?ops 701, unfolded a m] show ?thesis by simp
qed

text \<open>C33. In every pattern of allocation failures the same sequence still runs to its end, and the
  registry holds exactly what its answers promised: every handler whose registration was answered
  with \<open>SRVD_TRUE\<close> and that was not removed since.\<close>

theorem registry_keeps_its_promises:
  assumes "registry_rep x m"
  shows "\<exists>rs x'. svc.run ops x = Some (rs, x') \<and> length rs = length ops \<and> registry_rep x' (apply_ops ops rs m) \<and>
     registry_lookup ty x' = Some (apply_ops ops rs m ty)"
proof -
  obtain rs x' where x': "svc.run ops x = Some (rs, x')" "length rs = length ops" "registry_rep x' (apply_ops ops rs m)"
    using svc.run_refines [OF assms] by blast
  then show ?thesis using svc.lookup_law [OF x'(3)] by auto
qed

theorem registry_keeps_its_promises_witness:
  "\<exists>rs x'. svc.run [Put 701 (1 :: nat), Drop 701] (demo_server, demo_nodes) = Some (rs, x') \<and>
     length rs = length [Put 701 (1 :: nat), Drop (701 :: u16)] \<and>
     registry_rep x' (apply_ops [Put 701 1, Drop 701] rs Map.empty) \<and>
     registry_lookup 701 x' = Some (apply_ops [Put (701 :: u16) 1, Drop 701] rs Map.empty 701)"
  by (rule registry_keeps_its_promises) simp

text \<open>One registration, on every branch: it fails exactly when the type already has a handler,
  which is then kept, or when the node cannot be allocated; otherwise the type has the new handler
  and no other type is touched.\<close>

theorem service_add_keeps_first:
  assumes "registry_rep (sv, s) m"
  shows "\<exists>sv' s'. srvd_server_service_add (Some sv) ty f s =
       Some (m ty = None \<and> \<not> noom s (nbrk s), Some sv', s') \<and>
     registry_rep (sv', s') (if m ty = None \<and> \<not> noom s (nbrk s) then m(ty \<mapsto> f) else m) \<and>
     srvd_server_service_has (Some sv') ty s' = Some (m ty \<noteq> None \<or> \<not> noom s (nbrk s))"
proof -
  obtain L where L: "registry_at sv s L" "table_map L = m" using assms by (auto simp: registry_rep_def)
  obtain sv' s' L' where r: "srvd_server_service_add (Some sv) ty f s = Some (m ty = None \<and> \<not> noom s (nbrk s), Some sv', s')"
      "registry_at sv' s' L'" "table_map L' = (if m ty = None \<and> \<not> noom s (nbrk s) then m(ty \<mapsto> f) else m)"
    using service_add_spec [OF L(1), of ty f] L(2) by auto
  have "srvd_server_service_has (Some sv') ty s' = Some (m ty \<noteq> None \<or> \<not> noom s (nbrk s))"
    unfolding service_has_spec [OF r(2)] r(3) by auto
  then show ?thesis using r by (auto simp: registry_rep_def)
qed

theorem service_add_keeps_first_witness:
  "\<exists>sv' s'. srvd_server_service_add (Some demo_server) 701 5 demo_nodes = Some (True, Some sv', s') \<and>
     registry_rep (sv', s') [701 \<mapsto> 5] \<and> srvd_server_service_has (Some sv') 701 s' = Some True"
  using service_add_keeps_first [OF demo_registry(1), of 701 5] by (simp add: demo_nodes_def)

text \<open>C34. No node leaks and none is released twice: from initialisation through any sequence of
  registrations and removals, in every pattern of allocation failures, finalising the server
  releases every node that is still allocated.\<close>

theorem server_finalize_releases_all:
  assumes "registry_rep x m" and "svc.run ops x = Some (rs, (sv, s))"
  shows "srvd_server_finalize (Some sv) s =
     Some (True, Some (sv\<lparr>executing := False, services := None\<rparr>), s\<lparr>nodes := Map.empty\<rparr>)"
proof -
  have "registry_rep (sv, s) (apply_ops ops rs m)" using svc.run_refines [OF assms(1), of ops] assms(2) by auto
  then show ?thesis using server_finalize_spec by (auto simp: registry_rep_def)
qed

theorem server_finalize_releases_all_witness:
  "\<exists>sv s. svc.run [Put 701 (1 :: nat), Put 101 2, Drop 701] (demo_server, demo_nodes) = Some ([True, True, True], (sv, s)) \<and>
     srvd_server_finalize (Some sv) s =
       Some (True, Some (sv\<lparr>executing := False, services := None\<rparr>), s\<lparr>nodes := Map.empty\<rparr>)"
proof -
  let ?ops = "[Put 701 (1 :: nat), Put 101 2, Drop 701] :: (u16, nat) table_op list"
  have "answers ?ops Map.empty = [True, True, True]" by simp
  then obtain sv s where r: "svc.run ?ops (demo_server, demo_nodes) = Some ([True, True, True], (sv, s))"
    using ample.run_answers [OF _ demo_registry(2), of ?ops] by auto
  from server_finalize_releases_all [OF demo_registry(1) r] r show ?thesis by blast
qed

end
