(* ===== verification/CString.thy ===== *)
theory CString
  imports Prelude
begin

text \<open>
  The string functions of the C library that the program calls, on the bytes readable from a
  pointer. They read up to and including a NUL or up to the given length; running off the end of
  the readable bytes first is undefined.
\<close>

fun strncpy_bytes :: "nat \<Rightarrow> byte list \<Rightarrow> byte list option" where
  "strncpy_bytes 0 src = Some []"
| "strncpy_bytes (Suc n) [] = None"
| "strncpy_bytes (Suc n) (c # cs) =
     (if c = 0 then Some (replicate (Suc n) 0) else map_option ((#) c) (strncpy_bytes n cs))"

text \<open>Whether \<open>strncmp(a, b, n) == 0\<close>.\<close>

fun strncmp_eq :: "nat \<Rightarrow> byte list \<Rightarrow> byte list \<Rightarrow> bool option" where
  "strncmp_eq 0 a b = Some True"
| "strncmp_eq (Suc n) (c # cs) (d # ds) =
     (if c \<noteq> d then Some False else if c = 0 then Some True else strncmp_eq n cs ds)"
| "strncmp_eq (Suc n) a b = None"

text \<open>The bytes of a string literal, without its NUL.\<close>

definition bytes :: "string \<Rightarrow> byte list" where
  "bytes s = map of_char s"

text \<open>The string at a pointer, without its NUL.\<close>

definition cstr :: "byte list \<Rightarrow> byte list" where
  "cstr xs = takeWhile (\<lambda>c. c \<noteq> 0) xs"

text \<open>Copy with \<open>strncpy\<close> into a buffer of \<open>n\<close> bytes and force the last one to NUL.
  With \<open>n = 0\<close> the store goes to the byte before the buffer.\<close>

definition copy_terminated :: "nat \<Rightarrow> byte list option \<Rightarrow> byte list option" where
  "copy_terminated n src = (case src of None \<Rightarrow> None
     | Some bs \<Rightarrow> do { ds \<leftarrow> strncpy_bytes n bs; if n = 0 then None else Some (ds[n - 1 := 0]) })"

lemma cstr_simps [simp]: "cstr [] = []" "cstr (c # cs) = (if c = 0 then [] else c # cstr cs)"
  by (simp_all add: cstr_def)

lemma cstr_no_NUL: "0 \<notin> set (cstr xs)"
  by (auto simp: cstr_def dest: set_takeWhileD)

lemma cstr_id: "0 \<notin> set xs \<Longrightarrow> cstr xs = xs"
  by (induction xs) auto

lemma cstr_append_NUL: "0 \<notin> set xs \<Longrightarrow> cstr (xs @ 0 # ys) = xs"
  by (induction xs) auto

lemma length_cstr_le: "length (cstr xs) \<le> length xs"
  by (simp add: cstr_def length_takeWhile_le)

lemma length_cstr_less: "0 \<in> set xs \<Longrightarrow> length (cstr xs) < length xs"
  by (induction xs) auto

lemma strncpy_length: "strncpy_bytes n src = Some ds \<Longrightarrow> length ds = n"
  by (induction n src arbitrary: ds rule: strncpy_bytes.induct) (auto split: if_splits)

lemma strncpy_spec:
  "0 \<in> set src \<or> n \<le> length src \<Longrightarrow>
     strncpy_bytes n src = Some (take n (cstr src) @ replicate (n - length (cstr src)) 0)"
proof (induction n src rule: strncpy_bytes.induct)
  case (3 n c cs)
  then show ?case by (cases "c = 0") auto
qed auto

lemma strncpy_None_iff: "strncpy_bytes n src = None \<longleftrightarrow> 0 \<notin> set src \<and> length src < n"
  by (induction n src rule: strncpy_bytes.induct) auto

text \<open>Comparing up to the length of a terminated block is comparing strings.\<close>

lemma strncmp_cstr:
  assumes "0 \<in> set a" and "0 \<in> set b" and "length (cstr a) < n"
  shows "strncmp_eq n a b = Some (cstr a = cstr b)"
  using assms by (induction n a b rule: strncmp_eq.induct) auto

lemma copy_terminated_spec:
  assumes "0 \<in> set bs \<or> n \<le> length bs" and "0 < n"
  shows "\<exists>ds. copy_terminated n (Some bs) = Some ds \<and> length ds = n \<and> 0 \<in> set ds \<and> cstr ds = take (n - 1) (cstr bs)"
proof -
  let ?s = "cstr bs" and ?ds = "take n (cstr bs) @ replicate (n - length (cstr bs)) 0"
  have l: "length ?ds = n" by simp
  have c: "copy_terminated n (Some bs) = Some (?ds[n - 1 := 0])"
    using strncpy_spec [OF assms(1)] assms(2) by (simp add: copy_terminated_def)
  have e: "?ds[n - 1 := 0] = take (n - 1) ?s @ 0 # replicate (n - 1 - length ?s) 0"
  proof (cases "n \<le> length ?s")
    case True
    then obtain m where m: "n = Suc m" "m < length ?s" using assms(2) by (cases n) auto
    then have "take n ?s = take m ?s @ [?s ! m]" by (simp add: take_Suc_conv_app_nth)
    then show ?thesis using m by (simp add: list_update_append)
  next
    case False
    then obtain k where k: "n = length ?s + Suc k" by (metis add_Suc_right less_imp_Suc_add not_less)
    have "(replicate (Suc k) (0 :: byte))[k := 0] = replicate (Suc k) 0"
      by (intro nth_equalityI) (auto simp: nth_list_update simp del: replicate_Suc)
    then show ?thesis using k by (simp add: list_update_append)
  qed
  have "0 \<notin> set (take (n - 1) ?s)" using cstr_no_NUL set_take_subset by fastforce
  then have "cstr (?ds[n - 1 := 0]) = take (n - 1) ?s" unfolding e by (rule cstr_append_NUL)
  moreover have "0 \<in> set (?ds[n - 1 := 0])" unfolding e by simp
  moreover have "length (?ds[n - 1 := 0]) = n" using l by simp
  ultimately show ?thesis using c by blast
qed

end
