(* ===== verification/Conf.thy ===== *)
theory Conf
  imports Chain CString
begin

text \<open>
  The configuration store: the item list of \<open>lib/srvd/libsrvd/conf.c\<close> and the structs of
  \<open>include/srvd/conf.h\<close>. Nodes and the strings they own live in a store of their own; a
  \<open>const char *\<close> argument is the bytes readable from it, \<open>None\<close> for NULL.
\<close>

record conf_node =
  c_name :: ptr
  c_name_length :: nat
  c_value :: ptr
  c_value_length :: nat
  c_next :: ptr

record conf =
  conf_nodes :: ptr

record conf_store =
  cnodes :: "addr \<rightharpoonup> conf_node option"
  cstrs :: "addr \<rightharpoonup> byte list"
  cbrk :: nat
  coom :: "nat \<Rightarrow> bool"

definition malloc_cnode :: "conf_store \<Rightarrow> ptr \<times> conf_store" where
  "malloc_cnode s = (let a = cbrk s; s' = s\<lparr>cbrk := Suc a\<rparr> in
     if coom s a then (None, s') else (Some a, s'\<lparr>cnodes := (cnodes s)(a \<mapsto> None)\<rparr>))"

definition malloc_cstr :: "nat \<Rightarrow> conf_store \<Rightarrow> ptr \<times> conf_store" where
  "malloc_cstr n s = (let a = cbrk s; s' = s\<lparr>cbrk := Suc a\<rparr> in
     if coom s a then (None, s') else (Some a, s'\<lparr>cstrs := (cstrs s)(a \<mapsto> replicate n 0)\<rparr>))"

definition free_cnode :: "ptr \<Rightarrow> conf_store \<Rightarrow> conf_store option" where
  "free_cnode p s = map_option (\<lambda>m. s\<lparr>cnodes := m\<rparr>) (release p (cnodes s))"

definition free_cstr :: "ptr \<Rightarrow> conf_store \<Rightarrow> conf_store option" where
  "free_cstr p s = map_option (\<lambda>m. s\<lparr>cstrs := m\<rparr>) (release p (cstrs s))"

definition rd_cstr :: "ptr \<Rightarrow> conf_store \<Rightarrow> byte list option" where
  "rd_cstr p s = (case p of None \<Rightarrow> None | Some a \<Rightarrow> cstrs s a)"

definition srvd_conf_initialize :: "conf option \<Rightarrow> bool \<times> conf option" where
  "srvd_conf_initialize conf =
     (case conf of None \<Rightarrow> (False, None) | Some cf \<Rightarrow> (True, Some (cf\<lparr>conf_nodes := None\<rparr>)))"

section \<open>Clearing\<close>

partial_function (option) conf_clear_nodes :: "ptr \<Rightarrow> conf_store \<Rightarrow> conf_store option" where
  "conf_clear_nodes i s =
     (if i = None then Some s
      else do {
        n \<leftarrow> deref (cnodes s) i;
        s \<leftarrow> free_cstr (c_name n) s;
        s \<leftarrow> free_cstr (c_value n) s;
        s \<leftarrow> free_cnode i s;
        conf_clear_nodes (c_next n) s })"

definition srvd_conf_clear :: "conf option \<Rightarrow> conf_store \<Rightarrow> (bool \<times> conf option \<times> conf_store) option" where
  "srvd_conf_clear conf s =
     (case conf of None \<Rightarrow> Some (False, None, s)
      | Some cf \<Rightarrow> do {
          s \<leftarrow> conf_clear_nodes (conf_nodes cf) s;
          Some (True, Some (cf\<lparr>conf_nodes := None\<rparr>), s) })"

definition srvd_conf_finalize :: "conf option \<Rightarrow> conf_store \<Rightarrow> (bool \<times> conf option \<times> conf_store) option" where
  "srvd_conf_finalize conf s =
     (case conf of None \<Rightarrow> Some (False, None, s)
      | Some cf \<Rightarrow> do { (_, cf, s) \<leftarrow> srvd_conf_clear (Some cf) s; Some (True, cf, s) })"

section \<open>Looking items up\<close>

partial_function (option) conf_find :: "ptr \<Rightarrow> byte list \<Rightarrow> conf_store \<Rightarrow> ptr option" where
  "conf_find i name s =
     (if i = None then Some None
      else do {
        n \<leftarrow> deref (cnodes s) i;
        bs \<leftarrow> rd_cstr (c_name n) s;
        eq \<leftarrow> strncmp_eq (c_name_length n) bs name;
        if eq then Some i else conf_find (c_next n) name s })"

text \<open>\<open>value\<close> is the caller's pointer variable, \<open>value_length\<close> its optional length variable.\<close>

definition srvd_conf_item_get ::
    "conf option \<Rightarrow> byte list option \<Rightarrow> ptr \<Rightarrow> nat option \<Rightarrow> conf_store \<Rightarrow> (bool \<times> ptr \<times> nat option) option" where
  "srvd_conf_item_get conf name value value_length s =
     (case conf of None \<Rightarrow> Some (False, value, value_length)
      | Some cf \<Rightarrow> (case name of None \<Rightarrow> Some (False, value, value_length)
        | Some nm \<Rightarrow>
          if value \<noteq> None then Some (False, value, value_length)
          else do {
            i \<leftarrow> conf_find (conf_nodes cf) nm s;
            if i = None then Some (False, value, value_length)
            else do {
              n \<leftarrow> deref (cnodes s) i;
              Some (True, c_value n, if value_length \<noteq> None then Some (c_value_length n) else None) } }))"

definition srvd_conf_item_has :: "conf option \<Rightarrow> byte list option \<Rightarrow> conf_store \<Rightarrow> bool option" where
  "srvd_conf_item_has conf name s =
     (case conf of None \<Rightarrow> Some False
      | Some cf \<Rightarrow> (case name of None \<Rightarrow> Some False
        | Some nm \<Rightarrow> do { i \<leftarrow> conf_find (conf_nodes cf) nm s; Some (i \<noteq> None) }))"

section \<open>Adding an item\<close>

definition srvd_conf_item_add ::
    "conf option \<Rightarrow> byte list option \<Rightarrow> nat \<Rightarrow> byte list option \<Rightarrow> nat \<Rightarrow> conf_store
     \<Rightarrow> (bool \<times> conf option \<times> conf_store) option" where
  "srvd_conf_item_add conf name name_length value value_length s =
     (case conf of None \<Rightarrow> Some (False, None, s)
      | Some cf \<Rightarrow> do {
          has \<leftarrow> srvd_conf_item_has conf name s;
          if has then Some (False, conf, s)
          else let (node, s) = malloc_cnode s in
            if node = None then Some (False, conf, s)
            else let (nm, s) = malloc_cstr name_length s in
              if nm = None then do { s \<leftarrow> free_cnode node s; Some (False, conf, s) }
              else do {
                bs \<leftarrow> copy_terminated name_length name;
                let s = s\<lparr>cstrs := (cstrs s)(the nm \<mapsto> bs)\<rparr>;
                let (vl, s) = malloc_cstr value_length s;
                if vl = None then do {
                  s \<leftarrow> free_cstr nm s;
                  s \<leftarrow> free_cnode node s;
                  Some (False, conf, s) }
                else do {
                  vs \<leftarrow> copy_terminated value_length value;
                  let s = s\<lparr>cstrs := (cstrs s)(the vl \<mapsto> vs)\<rparr>;
                  ns \<leftarrow> assign node \<lparr>c_name = nm, c_name_length = name_length, c_value = vl,
                                     c_value_length = value_length, c_next = conf_nodes cf\<rparr> (cnodes s);
                  Some (True, Some (cf\<lparr>conf_nodes := node\<rparr>), s\<lparr>cnodes := ns\<rparr>) } } })"

end
