(* ===== verification/Conf_Parse.thy ===== *)
theory Conf_Parse
  imports Conf
begin

text \<open>
  The configuration parser: \<open>_srvd_conf_file_read\<close> in \<open>lib/srvd/libsrvd/conf.c\<close>. The
  buffer is a byte list whose length is \<open>buffer_size\<close>; positions are offsets into it, and a
  pointer that may be NULL is an option. Every read is checked against the buffer. The macros of
  the source are definitions of the same name; the line number, which is only logged, is left out.
  \<open>isalnum\<close> is that of the C locale.
\<close>

section \<open>Characters and scanning\<close>

definition ch_tab :: byte where "ch_tab = 9"
definition ch_nl :: byte where "ch_nl = 10"
definition ch_cr :: byte where "ch_cr = 13"
definition ch_space :: byte where "ch_space = 32"
definition ch_quote :: byte where "ch_quote = 34"
definition ch_hash :: byte where "ch_hash = 35"
definition ch_eq :: byte where "ch_eq = 61"
definition ch_backslash :: byte where "ch_backslash = 92"

definition isalnum :: "byte \<Rightarrow> bool" where
  "isalnum c \<longleftrightarrow> (48 \<le> c \<and> c \<le> 57) \<or> (65 \<le> c \<and> c \<le> 90) \<or> (97 \<le> c \<and> c \<le> 122)"

definition char_at :: "byte list \<Rightarrow> nat \<Rightarrow> byte option" where
  "char_at buf p = (if p < length buf then Some (buf ! p) else None)"

definition BP_EOF_CHECK :: "byte list \<Rightarrow> nat \<Rightarrow> bool" where
  "BP_EOF_CHECK buf p \<longleftrightarrow> p \<ge> length buf - 1"

definition BP_EOL_CHECK :: "byte \<Rightarrow> bool" where "BP_EOL_CHECK c \<longleftrightarrow> c = ch_cr \<or> c = ch_nl"

definition BP_NAME_CHECK :: "byte \<Rightarrow> bool" where "BP_NAME_CHECK c \<longleftrightarrow> isalnum c \<or> c = 58"

definition BP_SPACE_CHECK :: "byte \<Rightarrow> bool" where "BP_SPACE_CHECK c \<longleftrightarrow> c = ch_space \<or> c = ch_tab"

text \<open>\<open>while((p)++ && !EOF(p) && P(p));\<close>\<close>

function BP_READ :: "(byte \<Rightarrow> bool) \<Rightarrow> byte list \<Rightarrow> nat \<Rightarrow> nat" where
  "BP_READ P buf p = (if BP_EOF_CHECK buf (Suc p) then Suc p
     else if P (buf ! Suc p) then BP_READ P buf (Suc p) else Suc p)"
  by pat_completeness auto
termination by (relation "measure (\<lambda>(P, buf, p). length buf - p)") (auto simp: BP_EOF_CHECK_def)

declare BP_READ.simps [simp del]

definition BP_NAME_READ :: "byte list \<Rightarrow> nat \<Rightarrow> nat" where "BP_NAME_READ = BP_READ BP_NAME_CHECK"
definition BP_SPACE_READ :: "byte list \<Rightarrow> nat \<Rightarrow> nat" where "BP_SPACE_READ = BP_READ BP_SPACE_CHECK"
definition BP_COMMENT_READ :: "byte list \<Rightarrow> nat \<Rightarrow> nat" where
  "BP_COMMENT_READ = BP_READ (\<lambda>c. \<not> BP_EOL_CHECK c)"
definition BP_LINE_READ :: "byte list \<Rightarrow> nat \<Rightarrow> nat" where
  "BP_LINE_READ = BP_READ (\<lambda>c. \<not> BP_EOL_CHECK c)"

definition BP_EOL_READ :: "byte list \<Rightarrow> nat \<Rightarrow> nat option" where
  "BP_EOL_READ buf p = do {
     c \<leftarrow> char_at buf p;
     if c = ch_cr then do { d \<leftarrow> char_at buf (Suc p); Some (if d = ch_nl then Suc (Suc p) else Suc p) }
     else Some (Suc p) }"

lemma BP_EOL_READ_less: "BP_EOL_READ buf p = Some q \<Longrightarrow> p < q"
  by (auto simp: BP_EOL_READ_def Option.bind_eq_Some_conv split: if_splits)

text \<open>The body of a quoted value, from the opening quote to the closing one or the end.\<close>

function quoted_read :: "byte list \<Rightarrow> nat \<Rightarrow> nat option" where
  "quoted_read buf p =
     (if BP_EOF_CHECK buf (Suc p) then Some (Suc p)
      else case char_at buf (Suc p) of None \<Rightarrow> None
      | Some c \<Rightarrow>
        if c = ch_quote then Some (Suc p)
        else if c = ch_backslash then
          (case char_at buf (Suc (Suc p)) of None \<Rightarrow> None
           | Some d \<Rightarrow> if d = ch_quote then quoted_read buf (Suc (Suc p)) else quoted_read buf (Suc p))
        else if BP_EOL_CHECK c then
          (case BP_EOL_READ buf (Suc p) of None \<Rightarrow> None | Some q \<Rightarrow> quoted_read buf q)
        else quoted_read buf (Suc p))"
  by pat_completeness auto
termination
  by (relation "measure (\<lambda>(buf, p). length buf - p)")
     (auto simp: BP_EOF_CHECK_def dest!: BP_EOL_READ_less)

declare quoted_read.simps [simp del]

text \<open>\<open>while(!EOF(bp) && bp++ && !SPACE(bp) && !EOL(bp));\<close>\<close>

function bare_read :: "byte list \<Rightarrow> nat \<Rightarrow> nat option" where
  "bare_read buf p =
     (if BP_EOF_CHECK buf p then Some p
      else case char_at buf (Suc p) of None \<Rightarrow> None
      | Some c \<Rightarrow> if BP_SPACE_CHECK c \<or> BP_EOL_CHECK c then Some (Suc p) else bare_read buf (Suc p))"
  by pat_completeness auto
termination by (relation "measure (\<lambda>(buf, p). length buf - p)") (auto simp: BP_EOF_CHECK_def)

declare bare_read.simps [simp del]

section \<open>The state machine\<close>

datatype read_state = ST_GLOBAL | ST_NAME | ST_ASSIGN | ST_VALUE | ST_CLOSE

record reader =
  bp :: nat
  rstate :: read_state
  rstatus :: bool
  name_start :: "nat option"
  name_end :: "nat option"
  value_start :: "nat option"
  value_end :: "nat option"
  rconf :: conf
  rstore :: conf_store

text \<open>The length argument \<open>end - start + 1\<close>; two NULL pointers differ by 0.\<close>

definition span :: "nat option \<Rightarrow> nat option \<Rightarrow> nat" where
  "span s e = (case (s, e) of (Some a, Some b) \<Rightarrow> b - a + 1 | _ \<Rightarrow> 1)"

definition close_scan :: "byte list \<Rightarrow> reader \<Rightarrow> reader option" where
  "close_scan buf r = do {
     c \<leftarrow> char_at buf (bp r);
     if BP_EOL_CHECK c then map_option (\<lambda>p. r\<lparr>bp := p\<rparr>) (BP_EOL_READ buf (bp r))
     else if \<not> BP_EOF_CHECK buf (bp r) then Some (r\<lparr>bp := BP_LINE_READ buf (bp r), rstatus := False\<rparr>)
     else Some r }"

definition close_commit :: "byte list \<Rightarrow> reader \<Rightarrow> reader option" where
  "close_commit buf r = do {
     (cf, s) \<leftarrow> (if rstatus r then do {
         (_, cf, s) \<leftarrow> srvd_conf_item_add (Some (rconf r))
           (map_option (\<lambda>p. drop p buf) (name_start r)) (span (name_start r) (name_end r))
           (map_option (\<lambda>p. drop p buf) (value_start r)) (span (value_start r) (value_end r)) (rstore r);
         Some (the cf, s) }
       else Some (rconf r, rstore r));
     Some (r\<lparr>rconf := cf, rstore := s, name_start := None, name_end := None,
             value_start := None, value_end := None, rstate := ST_GLOBAL\<rparr>) }"

definition close_step :: "byte list \<Rightarrow> reader \<Rightarrow> reader option" where
  "close_step buf r = do { r \<leftarrow> close_scan buf r; close_commit buf r }"

definition value_step :: "byte list \<Rightarrow> reader \<Rightarrow> reader option" where
  "value_step buf r = do {
     c \<leftarrow> char_at buf (bp r);
     if BP_SPACE_CHECK c then Some (r\<lparr>bp := BP_SPACE_READ buf (bp r)\<rparr>)
     else if BP_EOL_CHECK c then Some (r\<lparr>rstate := ST_CLOSE\<rparr>)
     else if c = ch_quote then do {
       let start = bp r + 1;
       p \<leftarrow> quoted_read buf (bp r);
       d \<leftarrow> char_at buf p;
       if BP_EOF_CHECK buf p \<and> d \<noteq> ch_quote
       then Some (r\<lparr>bp := p, value_start := Some start, rstate := ST_GLOBAL, rstatus := False\<rparr>)
       else close_step buf (r\<lparr>bp := p + 1, value_start := Some start, value_end := Some p, rstate := ST_CLOSE\<rparr>) }
     else do {
       p \<leftarrow> bare_read buf (bp r);
       close_step buf (r\<lparr>bp := p, value_start := Some (bp r), value_end := Some p, rstate := ST_CLOSE\<rparr>) } }"

definition assign_step :: "byte list \<Rightarrow> reader \<Rightarrow> reader option" where
  "assign_step buf r = do {
     c \<leftarrow> char_at buf (bp r);
     if BP_SPACE_CHECK c then Some (r\<lparr>bp := BP_SPACE_READ buf (bp r)\<rparr>)
     else if c = ch_eq then value_step buf (r\<lparr>bp := BP_SPACE_READ buf (bp r), rstate := ST_VALUE\<rparr>)
     else if c = ch_hash then
       Some (r\<lparr>bp := BP_LINE_READ buf (bp r), rstate := ST_GLOBAL, rstatus := False\<rparr>)
     else if BP_EOL_CHECK c then do {
       p \<leftarrow> BP_EOL_READ buf (bp r);
       Some (r\<lparr>bp := p, rstate := ST_GLOBAL, rstatus := False\<rparr>) }
     else Some (r\<lparr>bp := bp r + 1, rstatus := False\<rparr>) }"

definition name_step :: "byte list \<Rightarrow> reader \<Rightarrow> reader option" where
  "name_step buf r =
     (let p = BP_NAME_READ buf (bp r)
      in assign_step buf (r\<lparr>name_start := Some (bp r), bp := p, name_end := Some p, rstate := ST_ASSIGN\<rparr>))"

definition global_step :: "byte list \<Rightarrow> reader \<Rightarrow> reader option" where
  "global_step buf r = do {
     c \<leftarrow> char_at buf (bp r);
     if BP_EOL_CHECK c \<or> BP_SPACE_CHECK c then map_option (\<lambda>p. r\<lparr>bp := p\<rparr>) (BP_EOL_READ buf (bp r))
     else name_step buf (r\<lparr>rstate := ST_NAME\<rparr>) }"

text \<open>The switch on the state.\<close>

definition read_switch :: "byte list \<Rightarrow> reader \<Rightarrow> reader option" where
  "read_switch buf r = (case rstate r of
       ST_GLOBAL \<Rightarrow> global_step buf r
     | ST_NAME \<Rightarrow> name_step buf r
     | ST_ASSIGN \<Rightarrow> assign_step buf r
     | ST_VALUE \<Rightarrow> value_step buf r
     | ST_CLOSE \<Rightarrow> close_step buf r)"

definition read_iter :: "byte list \<Rightarrow> reader \<Rightarrow> reader option" where
  "read_iter buf r = do {
     c \<leftarrow> char_at buf (bp r);
     read_switch buf (if c = ch_hash then r\<lparr>bp := BP_COMMENT_READ buf (bp r)\<rparr> else r) }"

section \<open>Progress\<close>

lemma BP_READ_less: "p < BP_READ P buf p"
proof (induction P buf p rule: BP_READ.induct)
  case (1 P buf p)
  then show ?case by (subst BP_READ.simps) auto
qed

lemma quoted_read_less: "quoted_read buf p = Some q \<Longrightarrow> p < q"
proof (induction "length buf - p" arbitrary: p rule: less_induct)
  case less
  show ?case
  proof (cases "BP_EOF_CHECK buf (Suc p)")
    case True
    with less.prems show ?thesis by (subst (asm) quoted_read.simps) simp
  next
    case False
    then have further: "quoted_read buf p' = Some q \<Longrightarrow> p < p' \<Longrightarrow> p < q" for p'
      using less.hyps [of p'] by (fastforce simp: BP_EOF_CHECK_def)
    from less.prems False show ?thesis
      by (subst (asm) quoted_read.simps)
         (auto split: if_splits option.splits dest!: BP_EOL_READ_less intro: further [of "Suc p"] further [of "Suc (Suc p)"] further)
  qed
qed

lemma bare_read_le: "bare_read buf p = Some q \<Longrightarrow> p \<le> q"
proof (induction buf p rule: bare_read.induct)
  case (1 buf p)
  from "1.prems" show ?case
    by (subst (asm) bare_read.simps) (auto split: if_splits option.splits dest!: "1.IH")
qed

lemma bare_read_less: "bare_read buf p = Some q \<Longrightarrow> \<not> BP_EOF_CHECK buf p \<Longrightarrow> p < q"
  by (subst (asm) bare_read.simps) (auto split: if_splits option.splits dest!: bare_read_le)

text \<open>Every iteration moves on, or goes from reading a value to closing the line.\<close>

definition progress :: "byte list \<Rightarrow> reader \<Rightarrow> nat" where
  "progress buf r = 2 * (length buf - bp r) + (if rstate r = ST_VALUE then 1 else 0)"

lemma close_scan_bp:
  "close_scan buf r = Some r' \<Longrightarrow> bp r \<le> bp r' \<and> (\<not> BP_EOF_CHECK buf (bp r) \<longrightarrow> bp r < bp r')"
  using BP_EOL_READ_less [of buf "bp r"] BP_READ_less [of "bp r" "\<lambda>c. \<not> BP_EOL_CHECK c" buf]
  by (auto simp: close_scan_def BP_LINE_READ_def less_imp_le split: if_splits elim!: bind_SomeE)

lemma close_commit_bp: "close_commit buf r = Some r' \<Longrightarrow> bp r' = bp r \<and> rstate r' = ST_GLOBAL"
  by (auto simp: close_commit_def elim!: bind_SomeE)

lemma close_step_bp:
  "close_step buf r = Some r' \<Longrightarrow> bp r \<le> bp r' \<and> (\<not> BP_EOF_CHECK buf (bp r) \<longrightarrow> bp r < bp r') \<and> rstate r' = ST_GLOBAL"
  unfolding close_step_def by (elim bind_SomeE) (use close_scan_bp close_commit_bp in fastforce)

lemma value_step_bp:
  assumes run: "value_step buf r = Some r'"
  shows "bp r < bp r' \<or> (bp r' = bp r \<and> (rstate r' = ST_CLOSE \<or> BP_EOF_CHECK buf (bp r)))"
proof -
  from run obtain c where c: "char_at buf (bp r) = Some c" by (auto simp: value_step_def elim: bind_SomeE)
  consider "BP_SPACE_CHECK c" | "\<not> BP_SPACE_CHECK c" "BP_EOL_CHECK c" | "\<not> BP_SPACE_CHECK c" "\<not> BP_EOL_CHECK c" "c = ch_quote"
    | "\<not> BP_SPACE_CHECK c" "\<not> BP_EOL_CHECK c" "c \<noteq> ch_quote" by blast
  then show ?thesis
  proof cases
    case 1
    with run c show ?thesis using BP_READ_less by (auto simp: value_step_def BP_SPACE_READ_def)
  next
    case 2
    with run c show ?thesis by (auto simp: value_step_def)
  next
    case 3
    with run c obtain p where p: "quoted_read buf (bp r) = Some p"
      by (auto simp: value_step_def Let_def elim: bind_SomeE)
    with run c 3 obtain d where d: "char_at buf p = Some d" by (auto simp: value_step_def Let_def elim: bind_SomeE)
    show ?thesis using run c 3 p d quoted_read_less [OF p]
      by (auto simp: value_step_def Let_def split: if_splits dest!: close_step_bp)
  next
    case 4
    with run c obtain p where p: "bare_read buf (bp r) = Some p" by (auto simp: value_step_def elim: bind_SomeE)
    have le: "bp r \<le> p" "\<not> BP_EOF_CHECK buf (bp r) \<Longrightarrow> bp r < p"
      using bare_read_le [OF p] bare_read_less [OF p] by auto
    have "p \<le> bp r'" using run c 4 p by (auto simp: value_step_def dest!: close_step_bp)
    with le show ?thesis by (cases "BP_EOF_CHECK buf (bp r)") auto
  qed
qed

lemma assign_step_bp:
  assumes run: "assign_step buf r = Some r'"
  shows "bp r < bp r'"
proof -
  from run obtain c where c: "char_at buf (bp r) = Some c" by (auto simp: assign_step_def elim: bind_SomeE)
  show ?thesis
  proof (cases "c = ch_eq \<and> \<not> BP_SPACE_CHECK c")
    case True
    have "bp r < BP_SPACE_READ buf (bp r)" using BP_READ_less by (simp add: BP_SPACE_READ_def)
    with True run c show ?thesis by (auto simp: assign_step_def dest!: value_step_bp)
  next
    case False
    have l: "bp r < BP_SPACE_READ buf (bp r)" "bp r < BP_LINE_READ buf (bp r)"
      using BP_READ_less by (simp_all add: BP_SPACE_READ_def BP_LINE_READ_def)
    from False run c l BP_EOL_READ_less [of buf "bp r"] show ?thesis
      by (cases "BP_EOL_READ buf (bp r)") (auto simp: assign_step_def split: if_splits)
  qed
qed

lemma name_step_bp: "name_step buf r = Some r' \<Longrightarrow> bp r < bp r'"
  using BP_READ_less [of "bp r" BP_NAME_CHECK buf]
  by (auto simp: name_step_def Let_def BP_NAME_READ_def dest!: assign_step_bp)

lemma global_step_bp:
  assumes run: "global_step buf r = Some r'"
  shows "bp r < bp r'"
proof -
  from run obtain c where c: "char_at buf (bp r) = Some c" by (auto simp: global_step_def elim: bind_SomeE)
  with run show ?thesis using BP_EOL_READ_less [of buf "bp r"]
    by (cases "BP_EOL_READ buf (bp r)") (auto simp: global_step_def split: if_splits dest!: name_step_bp)
qed

lemma read_switch_bp:
  assumes run: "read_switch buf r = Some r'"
  shows "bp r < bp r' \<or> (bp r' = bp r \<and> (BP_EOF_CHECK buf (bp r) \<or> rstate r = ST_VALUE \<and> rstate r' = ST_CLOSE))"
proof (cases "rstate r")
  case ST_CLOSE
  with run have "close_step buf r = Some r'" by (simp add: read_switch_def)
  from close_step_bp [OF this] show ?thesis by (cases "BP_EOF_CHECK buf (bp r)") auto
qed (use run in \<open>auto simp: read_switch_def dest!: global_step_bp name_step_bp assign_step_bp value_step_bp\<close>)

lemma read_iter_progress:
  assumes run: "read_iter buf r = Some r'" and more: "\<not> BP_EOF_CHECK buf (bp r)"
  shows "progress buf r' < progress buf r"
proof -
  have small: "bp r < length buf" using more by (simp add: BP_EOF_CHECK_def)
  from run obtain c where c: "char_at buf (bp r) = Some c" by (auto simp: read_iter_def elim: bind_SomeE)
  have "bp r < bp r' \<or> (bp r' = bp r \<and> rstate r = ST_VALUE \<and> rstate r' = ST_CLOSE)"
  proof (cases "c = ch_hash")
    case True
    with run c have "read_switch buf (r\<lparr>bp := BP_COMMENT_READ buf (bp r)\<rparr>) = Some r'" by (simp add: read_iter_def)
    from read_switch_bp [OF this] BP_READ_less [of "bp r" "\<lambda>c. \<not> BP_EOL_CHECK c" buf]
    show ?thesis by (auto simp: BP_COMMENT_READ_def)
  next
    case False
    with run c more show ?thesis by (auto simp: read_iter_def dest!: read_switch_bp)
  qed
  then show ?thesis using small by (auto simp: progress_def)
qed

section \<open>Parsing a buffer\<close>

function read_loop :: "byte list \<Rightarrow> reader \<Rightarrow> reader option" where
  "read_loop buf r =
     (if BP_EOF_CHECK buf (bp r) then Some r
      else case read_iter buf r of None \<Rightarrow> None | Some r' \<Rightarrow> read_loop buf r')"
  by pat_completeness auto
termination
  by (relation "measure (\<lambda>(buf, r). progress buf r)") (auto dest: read_iter_progress)

declare read_loop.simps [simp del]

text \<open>The end: a file that stops inside a setting is an error, and an error clears the items.\<close>

definition read_finish :: "reader \<Rightarrow> (bool \<times> conf \<times> conf_store) option" where
  "read_finish r = (let status = (rstatus r \<and> rstate r = ST_GLOBAL) in
     if \<not> status then do {
       (_, cf, s) \<leftarrow> srvd_conf_clear (Some (rconf r)) (rstore r);
       Some (False, the cf, s) }
     else Some (True, rconf r, rstore r))"

definition srvd_conf_file_read :: "byte list \<Rightarrow> conf \<Rightarrow> conf_store \<Rightarrow> (bool \<times> conf \<times> conf_store) option" where
  "srvd_conf_file_read buf cf s = do {
     r \<leftarrow> read_loop buf \<lparr>bp = 0, rstate = ST_GLOBAL, rstatus = True, name_start = None, name_end = None,
                        value_start = None, value_end = None, rconf = cf, rstore = s\<rparr>;
     read_finish r }"

end
