(* ===== verification/Conf_Refine.thy ===== *)
theory Conf_Refine
  imports Conf Table
begin

text \<open>
  The configuration as a list of name and value strings: what adding and looking up do to it, that
  clearing releases every node and string once, and that it satisfies the laws of a
  \<open>lookup_table\<close> for names given as literal strings.
\<close>

section \<open>Representation\<close>

type_synonym citem = "addr \<times> (addr \<times> byte list) \<times> (addr \<times> byte list)"

abbreviation i_addr :: "citem \<Rightarrow> addr" where "i_addr \<equiv> fst"
abbreviation i_name :: "citem \<Rightarrow> byte list" where "i_name \<equiv> \<lambda>x. snd (fst (snd x))"
abbreviation i_value :: "citem \<Rightarrow> byte list" where "i_value \<equiv> \<lambda>x. snd (snd (snd x))"

definition item_strs :: "citem \<Rightarrow> addr list" where
  "item_strs x = [fst (fst (snd x)), fst (snd (snd x))]"

definition item_is :: "conf_store \<Rightarrow> citem \<Rightarrow> bool" where
  "item_is s x \<longleftrightarrow> (\<exists>n. cnodes s (i_addr x) = Some (Some n) \<and>
     c_name n = Some (fst (fst (snd x))) \<and> c_name_length n = length (i_name x) \<and>
     cstrs s (fst (fst (snd x))) = Some (i_name x) \<and> 0 \<in> set (i_name x) \<and>
     c_value n = Some (fst (snd (snd x))) \<and> c_value_length n = length (i_value x) \<and>
     cstrs s (fst (snd (snd x))) = Some (i_value x) \<and> 0 \<in> set (i_value x))"

definition cstore_ok :: "conf_store \<Rightarrow> bool" where
  "cstore_ok s \<longleftrightarrow> (\<forall>a \<ge> cbrk s. cnodes s a = None \<and> cstrs s a = None)"

definition conf_at :: "conf_store \<Rightarrow> conf \<Rightarrow> citem list \<Rightarrow> bool" where
  "conf_at s cf L \<longleftrightarrow> cstore_ok s \<and> lseg c_next (cnodes s) (conf_nodes cf) (map i_addr L) None \<and>
     (\<forall>x \<in> set L. item_is s x) \<and> distinct (map i_addr L) \<and> distinct (concat (map item_strs L))"

definition conf_items :: "citem list \<Rightarrow> (byte list \<times> byte list) list" where
  "conf_items L = map (\<lambda>x. (cstr (i_name x), cstr (i_value x))) L"

abbreviation conf_map :: "citem list \<Rightarrow> byte list \<rightharpoonup> byte list" where
  "conf_map L \<equiv> map_of (conf_items L)"

lemma conf_items_simps [simp]:
  "conf_items [] = []" "conf_items (x # L) = (cstr (i_name x), cstr (i_value x)) # conf_items L"
  by (simp_all add: conf_items_def)

section \<open>Lookup\<close>

lemma conf_find_spec:
  assumes "lseg c_next (cnodes s) p (map i_addr L) None" and "\<forall>x \<in> set L. item_is s x" and "0 \<in> set name"
  shows "conf_find p name s = Some (map_option i_addr (find (\<lambda>x. cstr (i_name x) = cstr name) L))"
  using assms
proof (induction L arbitrary: p)
  case Nil
  then show ?case by (subst conf_find.simps) simp
next
  case (Cons x L)
  from Cons.prems obtain n where n: "p = Some (i_addr x)" "cnodes s (i_addr x) = Some (Some n)"
      "c_name n = Some (fst (fst (snd x)))" "c_name_length n = length (i_name x)"
      "cstrs s (fst (fst (snd x))) = Some (i_name x)" "0 \<in> set (i_name x)"
    and seg: "lseg c_next (cnodes s) (c_next n) (map i_addr L) None" by (auto simp: item_is_def)
  from strncmp_cstr [OF n(6) Cons.prems(3) length_cstr_less [OF n(6)]] n Cons.IH [OF seg] Cons.prems(2,3)
  show ?case by (subst conf_find.simps) (simp add: mem_simps rd_cstr_def)
qed

lemma find_item:
  "find (\<lambda>x. cstr (i_name x) = k) L = None \<longleftrightarrow> conf_map L k = None"
  "find (\<lambda>x. cstr (i_name x) = k) L = Some x \<Longrightarrow> x \<in> set L \<and> conf_map L k = Some (cstr (i_value x))"
  by (induction L) (auto split: if_splits)

lemma conf_at_find:
  "conf_at s cf L \<Longrightarrow> 0 \<in> set name \<Longrightarrow>
     conf_find (conf_nodes cf) name s = Some (map_option i_addr (find (\<lambda>x. cstr (i_name x) = cstr name) L))"
  by (rule conf_find_spec) (auto simp: conf_at_def)

lemma item_has_spec:
  "conf_at s cf L \<Longrightarrow> 0 \<in> set name \<Longrightarrow>
     srvd_conf_item_has (Some cf) (Some name) s = Some (conf_map L (cstr name) \<noteq> None)"
  using find_item(1) [of "cstr name" L] by (auto simp: srvd_conf_item_has_def conf_at_find)

lemma item_get_spec:
  assumes "conf_at s cf L" and "0 \<in> set name"
  shows "srvd_conf_item_get (Some cf) (Some name) None l s =
     Some (case find (\<lambda>x. cstr (i_name x) = cstr name) L of None \<Rightarrow> (False, None, l)
           | Some x \<Rightarrow> (True, Some (fst (snd (snd x))), map_option (\<lambda>_. length (i_value x)) l))"
proof (cases "find (\<lambda>x. cstr (i_name x) = cstr name) L")
  case None
  with conf_at_find [OF assms] show ?thesis by (simp add: srvd_conf_item_get_def)
next
  case (Some x)
  with find_item(2) [OF this] assms(1) obtain n where "cnodes s (i_addr x) = Some (Some n)"
    "c_value n = Some (fst (snd (snd x)))" "c_value_length n = length (i_value x)"
    by (auto simp: conf_at_def item_is_def)
  with Some conf_at_find [OF assms] show ?thesis by (cases l) (simp_all add: srvd_conf_item_get_def mem_simps)
qed

section \<open>Adding\<close>

text \<open>The arguments an item can be made of: lengths that count at least the NUL, strings that end.\<close>

definition string_arg :: "byte list \<Rightarrow> nat \<Rightarrow> bool" where
  "string_arg bs n \<longleftrightarrow> 0 < n \<and> (0 \<in> set bs \<or> n \<le> length bs)"

definition conf_room :: "conf_store \<Rightarrow> bool" where
  "conf_room s \<longleftrightarrow> \<not> coom s (cbrk s) \<and> \<not> coom s (Suc (cbrk s)) \<and> \<not> coom s (Suc (Suc (cbrk s)))"

lemma conf_at_bump:
  "conf_at s cf L \<Longrightarrow> conf_at (s\<lparr>cbrk := cbrk s + k\<rparr>) cf L"
  by (auto simp: conf_at_def cstore_ok_def item_is_def)

lemma conf_at_below:
  assumes "conf_at s cf L" and "x \<in> set L"
  shows "i_addr x < cbrk s" "a \<in> set (item_strs x) \<Longrightarrow> a < cbrk s"
proof -
  have "item_is s x" "cstore_ok s" using assms by (auto simp: conf_at_def)
  then show "i_addr x < cbrk s" "a \<in> set (item_strs x) \<Longrightarrow> a < cbrk s"
    unfolding item_is_def cstore_ok_def item_strs_def
    by (metis option.distinct(1) not_less, auto) (metis option.distinct(1) not_less)+
qed

lemma conf_at_new:
  assumes at: "conf_at s cf L" and "0 \<in> set bs" and "0 \<in> set vs"
  defines "k \<equiv> cbrk s"
  shows "conf_at (s\<lparr>cbrk := Suc (Suc (Suc k)), cstrs := (cstrs s)(Suc k \<mapsto> bs, Suc (Suc k) \<mapsto> vs),
      cnodes := (cnodes s)(k \<mapsto> Some \<lparr>c_name = Some (Suc k), c_name_length = length bs,
        c_value = Some (Suc (Suc k)), c_value_length = length vs, c_next = conf_nodes cf\<rparr>)\<rparr>)
    (cf\<lparr>conf_nodes := Some k\<rparr>) ((k, (Suc k, bs), (Suc (Suc k), vs)) # L)"
    (is "conf_at ?s ?cf (?x # L)")
proof -
  note below = conf_at_below [OF at, folded k_def]
  have k: "k \<notin> set (map i_addr L)" using below(1) by fastforce
  have ks: "Suc k \<notin> set (concat (map item_strs L))" "Suc (Suc k) \<notin> set (concat (map item_strs L))"
    using below(2) by fastforce+
  have "lseg c_next (cnodes ?s) (conf_nodes cf) (map i_addr L) None"
    using at k by (subst lseg_cong [where m = "cnodes s"]) (auto simp: conf_at_def simp del: set_map)
  moreover have "item_is ?s x" if x: "x \<in> set L" for x
  proof -
    have "item_is s x" using at x by (simp add: conf_at_def)
    moreover have "i_addr x \<noteq> k" using below(1) [OF x] by simp
    moreover have "a \<noteq> Suc k" "a \<noteq> Suc (Suc k)" if "a \<in> set (item_strs x)" for a
      using below(2) [OF x that] by simp_all
    ultimately show ?thesis by (auto simp: item_is_def item_strs_def)
  qed
  ultimately show ?thesis using at assms(2,3) k ks
    by (auto simp: conf_at_def item_is_def cstore_ok_def item_strs_def k_def)
qed

text \<open>Strings that were there stay as they are.\<close>

definition keeps :: "conf_store \<Rightarrow> conf_store \<Rightarrow> bool" where
  "keeps s s' \<longleftrightarrow> cbrk s \<le> cbrk s' \<and> (\<forall>a < cbrk s. cstrs s' a = cstrs s a)"

lemma keeps_refl [simp]: "keeps s s"
  by (simp add: keeps_def)

lemma keeps_trans: "keeps s t \<Longrightarrow> keeps t u \<Longrightarrow> keeps s u"
  by (auto simp: keeps_def)

lemma item_add_spec:
  assumes at: "conf_at s cf L" and nm: "0 \<in> set name" "0 < nlen" and vl: "string_arg val vlen"
  obtains cf' s' L' where
    "srvd_conf_item_add (Some cf) (Some name) nlen (Some val) vlen s =
       Some (conf_map L (cstr name) = None \<and> conf_room s, Some cf', s')"
    "conf_at s' cf' L'" "coom s' = coom s" "keeps s s'"
    "set (concat (map item_strs L')) \<subseteq> set (concat (map item_strs L)) \<union> {cbrk s..}"
    "conf_items L' = (if conf_map L (cstr name) = None \<and> conf_room s
       then (take (nlen - 1) (cstr name), take (vlen - 1) (cstr val)) # conf_items L else conf_items L)"
    "L' = L \<or> (\<exists>x. L' = x # L \<and> length (i_value x) = vlen)"
proof -
  obtain bs where bs: "copy_terminated nlen (Some name) = Some bs" "length bs = nlen" "0 \<in> set bs"
      "cstr bs = take (nlen - 1) (cstr name)"
    using copy_terminated_spec [of name nlen] nm by blast
  obtain vs where vs: "copy_terminated vlen (Some val) = Some vs" "length vs = vlen" "0 \<in> set vs"
      "cstr vs = take (vlen - 1) (cstr val)"
    using copy_terminated_spec [of val vlen] vl by (auto simp: string_arg_def)
  let ?k = "cbrk s"
  have free: "cnodes s ?k = None" "cstrs s (Suc ?k) = None" using at by (auto simp: conf_at_def cstore_ok_def)
  have gone: "(cnodes s)(?k := None) = cnodes s" "(cstrs s)(Suc ?k := None) = cstrs s"
    using free by (simp_all add: fun_upd_idem)
  note has = item_has_spec [OF at nm(1)]
  note defs = srvd_conf_item_add_def malloc_cnode_def malloc_cstr_def free_cnode_def free_cstr_def Let_def mem_simps
  consider "conf_map L (cstr name) \<noteq> None" | "conf_map L (cstr name) = None" "coom s ?k"
    | "conf_map L (cstr name) = None" "\<not> coom s ?k" "coom s (Suc ?k)"
    | "conf_map L (cstr name) = None" "\<not> coom s ?k" "\<not> coom s (Suc ?k)" "coom s (Suc (Suc ?k))"
    | "conf_map L (cstr name) = None" "conf_room s" by (auto simp: conf_room_def)
  then show ?thesis
  proof cases
    case 1
    with has show ?thesis by (intro that [OF _ at]) (auto simp: defs)
  next
    case 2
    with has show ?thesis using conf_at_bump [OF at, of 1]
      by (intro that [of cf "s\<lparr>cbrk := Suc ?k\<rparr>" L]) (auto simp: defs conf_room_def keeps_def)
  next
    case 3
    with has show ?thesis using conf_at_bump [OF at, of 2]
      by (intro that [of cf "s\<lparr>cbrk := Suc (Suc ?k)\<rparr>" L]) (auto simp: defs conf_room_def gone keeps_def)
  next
    case 4
    with has show ?thesis using conf_at_bump [OF at, of "Suc (Suc (Suc 0))"] bs(1)
      by (intro that [of cf "s\<lparr>cbrk := Suc (Suc (Suc ?k))\<rparr>" L]) (auto simp: defs conf_room_def gone keeps_def)
  next
    case 5
    let ?n = "\<lparr>c_name = Some (Suc ?k), c_name_length = length bs, c_value = Some (Suc (Suc ?k)),
      c_value_length = length vs, c_next = conf_nodes cf\<rparr>"
    let ?s = "s\<lparr>cbrk := Suc (Suc (Suc ?k)), cstrs := (cstrs s)(Suc ?k \<mapsto> bs, Suc (Suc ?k) \<mapsto> vs),
      cnodes := (cnodes s)(?k \<mapsto> Some ?n)\<rparr>"
    show ?thesis
    proof (rule that)
      show "conf_at ?s (cf\<lparr>conf_nodes := Some ?k\<rparr>) ((?k, (Suc ?k, bs), (Suc (Suc ?k), vs)) # L)"
        by (rule conf_at_new [OF at bs(3) vs(3)])
      show "srvd_conf_item_add (Some cf) (Some name) nlen (Some val) vlen s =
          Some (conf_map L (cstr name) = None \<and> conf_room s, Some (cf\<lparr>conf_nodes := Some ?k\<rparr>), ?s)"
        using 5 has bs(1,2) vs(1,2) by (auto simp: defs conf_room_def keeps_def)
    qed (use 5 bs(4) vs(2,4) in \<open>auto simp: keeps_def item_strs_def\<close>)
  qed
qed

section \<open>Clearing\<close>

definition drop_items :: "citem list \<Rightarrow> conf_store \<Rightarrow> conf_store" where
  "drop_items L s = s\<lparr>cstrs := cstrs s |` (- set (concat (map item_strs L))), cnodes := cnodes s |` (- i_addr ` set L)\<rparr>"

text \<open>The front node with its strings, and the configuration without it.\<close>

lemma drop_first:
  assumes at: "conf_at s cf (x # L)"
  obtains n where "conf_nodes cf = Some (i_addr x)" "cnodes s (i_addr x) = Some (Some n)"
    "do { s \<leftarrow> free_cstr (c_name n) s; s \<leftarrow> free_cstr (c_value n) s; free_cnode (conf_nodes cf) s } = Some (drop_items [x] s)"
    "conf_at (drop_items [x] s) (cf\<lparr>conf_nodes := c_next n\<rparr>) L"
proof -
  from at obtain n where n: "conf_nodes cf = Some (i_addr x)" "cnodes s (i_addr x) = Some (Some n)"
      "c_name n = Some (fst (fst (snd x)))" "c_value n = Some (fst (snd (snd x)))"
      "cstrs s (fst (fst (snd x))) = Some (i_name x)" "cstrs s (fst (snd (snd x))) = Some (i_value x)"
    and seg: "lseg c_next (cnodes s) (c_next n) (map i_addr L) None" by (auto simp: conf_at_def item_is_def)
  let ?s = "drop_items [x] s"
  have dist: "distinct (map i_addr (x # L))" "distinct (concat (map item_strs (x # L)))" using at by (simp_all add: conf_at_def)
  have "lseg c_next (cnodes ?s) (c_next n) (map i_addr L) None"
    using seg dist(1) by (subst lseg_cong [where m = "cnodes s"]) (auto simp: drop_items_def restrict_map_def simp del: set_map)
  moreover have "item_is ?s y" if y: "y \<in> set L" for y
  proof -
    have "item_is s y" using at y by (simp add: conf_at_def)
    moreover have "i_addr y \<in> set (map i_addr L)" using y by simp
    then have "i_addr y \<noteq> i_addr x" using dist(1) by (auto simp del: set_map)
    moreover have "set (item_strs y) \<inter> set (item_strs x) = {}" using dist(2) y by auto
    ultimately show ?thesis by (auto simp: item_is_def drop_items_def restrict_map_def item_strs_def)
  qed
  moreover have "cstore_ok ?s" using at by (auto simp: conf_at_def cstore_ok_def drop_items_def restrict_map_def)
  ultimately have "conf_at ?s (cf\<lparr>conf_nodes := c_next n\<rparr>) L" using dist by (auto simp: conf_at_def)
  moreover have "s\<lparr>cstrs := ((cstrs s)(fst (fst (snd x)) := None))(fst (snd (snd x)) := None),
      cnodes := (cnodes s)(i_addr x := None)\<rparr> = ?s"
    by (rule conf_store.equality) (auto simp: drop_items_def restrict_map_def item_strs_def fun_eq_iff)
  moreover have "fst (fst (snd x)) \<noteq> fst (snd (snd x))" using dist(2) by (simp add: item_strs_def)
  ultimately show ?thesis using n by (intro that [of n]) (simp_all add: mem_simps free_cstr_def free_cnode_def)
qed

lemma conf_clear_nodes_spec:
  assumes "conf_at s cf L"
  shows "conf_clear_nodes (conf_nodes cf) s = Some (drop_items L s)"
  using assms
proof (induction L arbitrary: cf s)
  case Nil
  then show ?case by (subst conf_clear_nodes.simps) (simp add: conf_at_def drop_items_def restrict_map_def)
next
  case (Cons x L)
  obtain n where n: "conf_nodes cf = Some (i_addr x)" "cnodes s (i_addr x) = Some (Some n)"
      "do { s \<leftarrow> free_cstr (c_name n) s; s \<leftarrow> free_cstr (c_value n) s; free_cnode (conf_nodes cf) s } = Some (drop_items [x] s)"
      "conf_at (drop_items [x] s) (cf\<lparr>conf_nodes := c_next n\<rparr>) L"
    by (rule drop_first [OF Cons.prems])
  have "drop_items L (drop_items [x] s) = drop_items (x # L) s"
    by (rule conf_store.equality) (auto simp: drop_items_def restrict_map_def fun_eq_iff)
  with Cons.IH [OF n(4)] n(1-3) show ?case
    by (subst conf_clear_nodes.simps) (auto simp: mem_simps elim!: bind_SomeE)
qed

lemma conf_clear_spec:
  assumes "conf_at s cf L"
  shows "srvd_conf_clear (Some cf) s = Some (True, Some (cf\<lparr>conf_nodes := None\<rparr>), drop_items L s)"
    and "conf_at (drop_items L s) (cf\<lparr>conf_nodes := None\<rparr>) []"
proof -
  show "srvd_conf_clear (Some cf) s = Some (True, Some (cf\<lparr>conf_nodes := None\<rparr>), drop_items L s)"
    using conf_clear_nodes_spec [OF assms] by (simp add: srvd_conf_clear_def)
  show "conf_at (drop_items L s) (cf\<lparr>conf_nodes := None\<rparr>) []"
    using assms by (simp add: conf_at_def cstore_ok_def drop_items_def restrict_map_def)
qed

section \<open>Literal names: a lookup table\<close>

text \<open>The program's own calls pass string literals and their length with the NUL.\<close>

definition conf_rep :: "conf \<times> conf_store \<Rightarrow> (byte list \<rightharpoonup> byte list) \<Rightarrow> bool" where
  "conf_rep x m \<longleftrightarrow> (\<exists>L. conf_at (snd x) (fst x) L \<and> conf_map L = m)"

definition conf_lookup :: "byte list \<Rightarrow> conf \<times> conf_store \<Rightarrow> byte list option option" where
  "conf_lookup k x = do {
     (r, v, _) \<leftarrow> srvd_conf_item_get (Some (fst x)) (Some (k @ [0])) None None (snd x);
     if r then do { bs \<leftarrow> rd_cstr v (snd x); Some (Some (cstr bs)) } else Some None }"

definition conf_put :: "byte list \<Rightarrow> byte list \<Rightarrow> conf \<times> conf_store \<Rightarrow> (bool \<times> conf \<times> conf_store) option" where
  "conf_put k v x = do {
     (r, cf, s) \<leftarrow> srvd_conf_item_add (Some (fst x)) (Some (k @ [0])) (length k + 1) (Some (v @ [0])) (length v + 1) (snd x);
     Some (r, the cf, s) }"

interpretation conf_table: lookup_table conf_rep "\<lambda>k. 0 \<notin> set k" conf_lookup conf_put "\<lambda>x. conf_room (snd x)" "\<lambda>v. 0 \<notin> set v"
proof unfold_locales
  fix x m and k :: "byte list"
  assume "conf_rep x m" and k: "0 \<notin> set k"
  then obtain L where L: "conf_at (snd x) (fst x) L" "conf_map L = m" by (auto simp: conf_rep_def)
  have ck: "cstr (k @ [0]) = k" using k by (simp add: cstr_append_NUL)
  note get = item_get_spec [OF L(1), of "k @ [0]" None, simplified ck, simplified]
  show "conf_lookup k x = Some (m k)"
  proof (cases "find (\<lambda>x. cstr (i_name x) = k) L")
    case None
    with get find_item(1) [of k L] L(2) show ?thesis by (simp add: conf_lookup_def)
  next
    case (Some y)
    with find_item(2) [OF Some] L have "item_is (snd x) y" "m k = Some (cstr (i_value y))"
      by (auto simp: conf_at_def)
    with get Some show ?thesis by (auto simp: conf_lookup_def rd_cstr_def item_is_def)
  qed
next
  fix x m and k v :: "byte list"
  assume "conf_rep x m" and k: "0 \<notin> set k" and v: "0 \<notin> set v"
  then obtain L where L: "conf_at (snd x) (fst x) L" "conf_map L = m" by (auto simp: conf_rep_def)
  have ck: "cstr (k @ [0]) = k" "cstr (v @ [0]) = v" using k v by (simp_all add: cstr_append_NUL)
  obtain cf' s' L' where "srvd_conf_item_add (Some (fst x)) (Some (k @ [0])) (length k + 1) (Some (v @ [0])) (length v + 1) (snd x) =
      Some (m k = None \<and> conf_room (snd x), Some cf', s')" "conf_at s' cf' L'"
    "conf_items L' = (if m k = None \<and> conf_room (snd x) then (k, v) # conf_items L else conf_items L)"
    by (rule item_add_spec [OF L(1), of "k @ [0]" "length k + 1" "v @ [0]" "length v + 1"])
       (auto simp: string_arg_def ck L(2))
  then show "\<exists>x'. conf_put k v x = Some (m k = None \<and> conf_room (snd x), x') \<and>
      conf_rep x' (if m k = None \<and> conf_room (snd x) then m(k \<mapsto> v) else m)"
    using L(2) by (intro exI [of _ "(cf', s')"]) (auto simp: conf_put_def conf_rep_def intro!: exI [of _ L'])
qed

end
