(* ===== verification/Conf_Parse_Refine.thy ===== *)
theory Conf_Parse_Refine
  imports Conf_Parse Conf_Refine
begin

text \<open>
  The parser against a grammar of configuration files: a file made of blank characters, comment
  lines and assignments, bare or quoted, is accepted, and the items are those of the assignments.
\<close>

section \<open>A grammar of configuration files\<close>

datatype cvalue = Bare "byte list" | Quoted "byte list"

datatype cline = Blank byte | Comment "byte list" | Setting "byte list" "byte list" "byte list" cvalue

fun value_text :: "cvalue \<Rightarrow> byte list" where
  "value_text (Bare v) = v"
| "value_text (Quoted v) = ch_quote # v @ [ch_quote]"

fun value_bytes :: "cvalue \<Rightarrow> byte list" where
  "value_bytes (Bare v) = v"
| "value_bytes (Quoted v) = v"

text \<open>A setting is a name, space, \<open>=\<close>, space and a value.\<close>

fun line_text :: "cline \<Rightarrow> byte list" where
  "line_text (Blank c) = [c]"
| "line_text (Comment t) = ch_hash # t @ [ch_nl]"
| "line_text (Setting nm sp1 sp2 v) = nm @ sp1 @ [ch_eq] @ sp2 @ value_text v @ [ch_nl]"

fun line_items :: "cline \<Rightarrow> (byte list \<times> byte list) list" where
  "line_items (Setting nm sp1 sp2 v) = [(nm, value_bytes v)]"
| "line_items _ = []"

fun value_ok :: "cvalue \<Rightarrow> bool" where
  "value_ok (Bare v) \<longleftrightarrow> v \<noteq> [] \<and> hd v \<noteq> ch_quote \<and> (\<forall>c \<in> set v. c \<noteq> 0 \<and> \<not> BP_SPACE_CHECK c \<and> \<not> BP_EOL_CHECK c)"
| "value_ok (Quoted v) \<longleftrightarrow> (\<forall>c \<in> set v. c \<noteq> 0 \<and> c \<noteq> ch_quote \<and> c \<noteq> ch_backslash \<and> \<not> BP_EOL_CHECK c)"

fun line_ok :: "cline \<Rightarrow> bool" where
  "line_ok (Blank c) \<longleftrightarrow> c = ch_nl \<or> BP_SPACE_CHECK c"
| "line_ok (Comment t) \<longleftrightarrow> (\<forall>c \<in> set t. \<not> BP_EOL_CHECK c)"
| "line_ok (Setting nm sp1 sp2 v) \<longleftrightarrow> nm \<noteq> [] \<and> (\<forall>c \<in> set nm. BP_NAME_CHECK c) \<and>
     (\<forall>c \<in> set sp1. BP_SPACE_CHECK c) \<and> (\<forall>c \<in> set sp2. BP_SPACE_CHECK c) \<and> value_ok v"

definition file_text :: "cline list \<Rightarrow> byte list" where
  "file_text ls = concat (map line_text ls)"

definition file_items :: "cline list \<Rightarrow> (byte list \<times> byte list) list" where
  "file_items ls = concat (map line_items ls)"

section \<open>Characters\<close>

lemmas ch_defs = ch_tab_def ch_nl_def ch_cr_def ch_space_def ch_quote_def ch_hash_def ch_eq_def ch_backslash_def

lemma name_char:
  assumes "BP_NAME_CHECK c"
  shows "c \<noteq> ch_hash" "c \<noteq> ch_eq" "\<not> BP_EOL_CHECK c" "\<not> BP_SPACE_CHECK c" "c \<noteq> 0"
  using assms by (auto simp: BP_NAME_CHECK_def isalnum_def BP_EOL_CHECK_def BP_SPACE_CHECK_def ch_defs)

lemma char_facts [simp]:
  "\<not> BP_SPACE_CHECK ch_eq" "\<not> BP_NAME_CHECK ch_eq" "\<not> BP_EOL_CHECK ch_eq" "ch_eq \<noteq> ch_hash" "ch_eq \<noteq> 0"
  "BP_EOL_CHECK ch_nl" "ch_nl \<noteq> ch_cr" "ch_nl \<noteq> ch_hash" "\<not> BP_SPACE_CHECK ch_nl" "\<not> BP_EOL_CHECK ch_quote"
  "\<not> BP_SPACE_CHECK ch_quote" "ch_backslash \<noteq> ch_quote" "ch_nl \<noteq> ch_quote" "\<not> BP_EOL_CHECK ch_hash" "ch_hash \<noteq> 0"
  by (simp_all add: BP_NAME_CHECK_def isalnum_def BP_EOL_CHECK_def BP_SPACE_CHECK_def ch_defs)

lemma space_char:
  assumes "BP_SPACE_CHECK c"
  shows "c \<noteq> ch_eq" "\<not> BP_NAME_CHECK c" "c \<noteq> ch_hash" "\<not> BP_EOL_CHECK c" "c \<noteq> 0" "c \<noteq> ch_cr" "c \<noteq> ch_quote"
  using assms by (auto simp: BP_NAME_CHECK_def isalnum_def BP_EOL_CHECK_def BP_SPACE_CHECK_def ch_defs)

section \<open>Where a text stands in the buffer\<close>

fun seg :: "byte list \<Rightarrow> nat \<Rightarrow> byte list \<Rightarrow> bool" where
  "seg B p [] \<longleftrightarrow> p < length B"
| "seg B p (c # xs) \<longleftrightarrow> char_at B p = Some c \<and> seg B (Suc p) xs"

lemma char_at_less: "char_at B p = Some c \<Longrightarrow> p < length B \<and> B ! p = c"
  by (auto simp: char_at_def split: if_splits)

lemma seg_less: "seg B p xs \<Longrightarrow> p + length xs < length B"
  by (induction xs arbitrary: p) fastforce+

lemma seg_append [simp]: "seg B p (xs @ ys) \<longleftrightarrow> seg B p xs \<and> seg B (p + length xs) ys"
  by (induction xs arbitrary: p) (use seg_less in \<open>fastforce+\<close>)

lemma seg_in_text: "seg (pre @ xs @ post) (length pre) xs \<longleftrightarrow> post \<noteq> []"
proof (induction xs arbitrary: pre)
  case (Cons c xs)
  from Cons.IH [of "pre @ [c]"] show ?case by (simp add: char_at_def nth_append)
qed simp

lemma seg_not_EOF: "seg B p (c # xs) \<Longrightarrow> \<not> BP_EOF_CHECK B p"
  using seg_less [of B p "c # xs"] by (auto simp: BP_EOF_CHECK_def)

text \<open>The string at a text is the text and whatever follows up to the NUL.\<close>

lemma seg_cstr: "seg B p xs \<Longrightarrow> 0 \<notin> set xs \<Longrightarrow> \<exists>ys. cstr (drop p B) = xs @ ys"
proof (induction xs arbitrary: p)
  case (Cons c xs)
  then have c: "p < length B" "B ! p = c" "c \<noteq> 0" by (auto dest: char_at_less)
  then have "drop p B = c # drop (Suc p) B" by (metis Cons_nth_drop_Suc)
  with Cons c show ?case by auto
qed simp

section \<open>Scanning a text\<close>

lemma BP_READ_seg:
  assumes "seg B (Suc p) (xs @ [c])" and "\<forall>x \<in> set xs. P x" and "\<not> P c"
  shows "BP_READ P B p = Suc p + length xs"
  using assms
proof (induction xs arbitrary: p)
  case Nil
  then have "\<not> BP_EOF_CHECK B (Suc p)" "B ! Suc p = c"
    using seg_not_EOF [of B "Suc p" c "[]"] by (auto dest: char_at_less)
  with Nil show ?case by (subst BP_READ.simps) simp
next
  case (Cons x xs)
  then have "\<not> BP_EOF_CHECK B (Suc p)" "B ! Suc p = x"
    using seg_not_EOF [of B "Suc p" x "xs @ [c]"] by (auto dest: char_at_less)
  with Cons.IH [of "Suc p"] Cons.prems show ?case by (subst BP_READ.simps) simp
qed

lemma quoted_read_seg:
  assumes "seg B (Suc p) (xs @ [ch_quote])"
    and "\<forall>x \<in> set xs. x \<noteq> ch_quote \<and> x \<noteq> ch_backslash \<and> \<not> BP_EOL_CHECK x"
  shows "quoted_read B p = Some (Suc p + length xs)"
  using assms
proof (induction xs arbitrary: p)
  case Nil
  then have "\<not> BP_EOF_CHECK B (Suc p)" using seg_not_EOF [of B "Suc p" ch_quote "[]"] by simp
  with Nil show ?case by (subst quoted_read.simps) simp
next
  case (Cons x xs)
  then have "\<not> BP_EOF_CHECK B (Suc p)" using seg_not_EOF [of B "Suc p" x "xs @ [ch_quote]"] by simp
  with Cons.IH [of "Suc p"] Cons.prems show ?case by (subst quoted_read.simps) simp
qed

lemma bare_read_seg:
  assumes "seg B p (xs @ [c])" and "xs \<noteq> []"
    and "\<forall>x \<in> set (tl xs). \<not> BP_SPACE_CHECK x \<and> \<not> BP_EOL_CHECK x" and "BP_SPACE_CHECK c \<or> BP_EOL_CHECK c"
  shows "bare_read B p = Some (p + length xs)"
  using assms
proof (induction xs arbitrary: p)
  case (Cons x xs)
  then have ne: "\<not> BP_EOF_CHECK B p" using seg_not_EOF [of B p x "xs @ [c]"] by simp
  show ?case
  proof (cases xs)
    case Nil
    with ne Cons.prems show ?thesis by (subst bare_read.simps) simp
  next
    case (Cons y ys)
    with ne Cons.prems Cons.IH [of "Suc p"] show ?thesis by (subst bare_read.simps) simp
  qed
qed simp

section \<open>Committing an item\<close>

text \<open>A value that has nothing behind its NUL.\<close>

definition exact :: "citem \<Rightarrow> bool" where
  "exact x \<longleftrightarrow> length (i_value x) = length (cstr (i_value x)) + 1"

definition parsing :: "conf_store \<Rightarrow> reader \<Rightarrow> citem list \<Rightarrow> bool" where
  "parsing s0 r L \<longleftrightarrow> keeps s0 (rstore r) \<and> set (concat (map item_strs L)) \<subseteq> {cbrk s0..} \<and> rstatus r \<and> conf_at (rstore r) (rconf r) L \<and> (\<forall>k. \<not> coom (rstore r) k) \<and>
     (\<forall>i \<in> set (conf_items L). ch_eq \<notin> set (fst i)) \<and> (\<forall>x \<in> set L. exact x)"

text \<open>Between two lines no value is pending.\<close>

definition line_start :: "reader \<Rightarrow> bool" where
  "line_start r \<longleftrightarrow> rstate r = ST_GLOBAL \<and> value_start r = None \<and> value_end r = None"

text \<open>
  The name is looked up by the pointer into the buffer, so what is compared with the names in the
  store is the rest of the file, which holds an \<open>=\<close>: it is never found.
\<close>

lemma close_commit_spec:
  assumes r: "parsing s0 r L" and B: "0 \<in> set (drop n B)" "0 \<in> set (drop v B)"
    and ptrs: "name_start r = Some n" "name_end r = Some (n + length nm)"
      "value_start r = Some v" "value_end r = Some (v + length val)"
    and nm: "seg B n (nm @ rest)" "0 \<notin> set (nm @ rest)" "ch_eq \<notin> set nm" "ch_eq \<in> set rest"
    and val: "seg B v val" "0 \<notin> set val"
  obtains r' L' where "close_commit B r = Some r'" "bp r' = bp r" "line_start r'" "parsing s0 r' L'"
    "conf_items L' = (nm, val) # conf_items L"
proof -
  from seg_cstr [OF nm(1,2)] obtain ys where ys: "cstr (drop n B) = nm @ rest @ ys" by auto
  from seg_cstr [OF val] obtain zs where zs: "cstr (drop v B) = val @ zs" by auto
  have at: "conf_at (rstore r) (rconf r) L" and mem: "\<forall>k. \<not> coom (rstore r) k"
    and names: "\<forall>i \<in> set (conf_items L). ch_eq \<notin> set (fst i)" and st: "rstatus r" 
    and kp: "keeps s0 (rstore r)" "cbrk s0 \<le> cbrk (rstore r)" "set (concat (map item_strs L)) \<subseteq> {cbrk s0..}"
    using r by (auto simp: parsing_def keeps_def)
  have new: "conf_map L (cstr (drop n B)) = None"
    using names nm(4) by (force simp: map_of_eq_None_iff ys)
  have room: "conf_room (rstore r)" using mem by (simp add: conf_room_def)
  have val_arg: "string_arg (drop v B) (length val + 1)" using B(2) by (simp add: string_arg_def)
  obtain cf' s' L' where add: "srvd_conf_item_add (Some (rconf r)) (Some (drop n B)) (length nm + 1) (Some (drop v B)) (length val + 1) (rstore r) =
      Some (True, Some cf', s')" "conf_at s' cf' L'" "coom s' = coom (rstore r)" "keeps (rstore r) s'"
    "set (concat (map item_strs L')) \<subseteq> set (concat (map item_strs L)) \<union> {cbrk (rstore r)..}"
    "conf_items L' = (nm, val) # conf_items L" "L' = L \<or> (\<exists>x. L' = x # L \<and> length (i_value x) = length val + 1)"
    by (rule item_add_spec [OF at B(1) _ val_arg, of "length nm + 1"]) (use new room in \<open>auto simp: ys zs\<close>)
  have ex: "\<forall>x \<in> set L'. exact x" using add(6,7) r by (auto simp: exact_def parsing_def)
  let ?r = "r\<lparr>rconf := cf', rstore := s', name_start := None, name_end := None, value_start := None,
     value_end := None, rstate := ST_GLOBAL\<rparr>"
  have "close_commit B r = Some ?r" using add(1) st ptrs by (simp add: close_commit_def span_def)
  moreover have "set (concat (map item_strs L')) \<subseteq> {cbrk s0..}"
    by (rule order_trans [OF add(5)]) (use kp(2,3) in force)
  then have "parsing s0 ?r L'" using add(2-4,6) ex st mem names nm(3) keeps_trans [OF kp(1) add(4)]
    by (auto simp: parsing_def simp del: set_concat)
  ultimately show ?thesis using add(6) by (intro that) (auto simp: line_start_def)
qed

lemma close_step_spec:
  assumes r: "parsing s0 r L" and B: "0 \<in> set (drop n B)" "0 \<in> set (drop v B)"
    and ptrs: "name_start r = Some n" "name_end r = Some (n + length nm)"
      "value_start r = Some v" "value_end r = Some (v + length val)"
    and nm: "seg B n (nm @ rest)" "0 \<notin> set (nm @ rest)" "ch_eq \<notin> set nm" "ch_eq \<in> set rest"
    and val: "seg B v val" "0 \<notin> set val" and nl: "char_at B (bp r) = Some ch_nl"
  obtains r' L' where "close_step B r = Some r'" "bp r' = Suc (bp r)" "line_start r'" "parsing s0 r' L'"
    "conf_items L' = (nm, val) # conf_items L"
proof -
  have "close_scan B r = Some (r\<lparr>bp := Suc (bp r)\<rparr>)" using nl by (simp add: close_scan_def BP_EOL_READ_def)
  moreover have "parsing s0 (r\<lparr>bp := Suc (bp r)\<rparr>) L" using r by (simp add: parsing_def)
  then obtain r' L' where "close_commit B (r\<lparr>bp := Suc (bp r)\<rparr>) = Some r'" "bp r' = Suc (bp r)" "line_start r'"
      "parsing s0 r' L'" "conf_items L' = (nm, val) # conf_items L"
    by (rule close_commit_spec [OF _ B _ _ _ _ nm val]) (use ptrs in auto)
  ultimately show ?thesis by (intro that) (auto simp: close_step_def)
qed

section \<open>Reading a setting\<close>

lemma value_step_spec:
  assumes r: "parsing s0 r L" and B: "\<And>i. i < length B \<Longrightarrow> 0 \<in> set (drop i B)"
    and ptrs: "name_start r = Some n" "name_end r = Some (n + length nm)"
    and nm: "seg B n (nm @ rest)" "0 \<notin> set (nm @ rest)" "ch_eq \<notin> set nm" "ch_eq \<in> set rest"
    and v: "value_ok v" and vt: "seg B (bp r) (value_text v @ [ch_nl])"
  obtains r' L' where "value_step B r = Some r'" "bp r' = bp r + length (value_text v) + 1" "line_start r'"
    "parsing s0 r' L'" "conf_items L' = (nm, value_bytes v) # conf_items L"
proof (cases v)
  case (Bare w)
  with v obtain c w' where w: "w = c # w'" "c \<noteq> ch_quote" "\<not> BP_SPACE_CHECK c" "\<not> BP_EOL_CHECK c" "0 \<notin> set w"
    and tl: "\<forall>x \<in> set (tl w). \<not> BP_SPACE_CHECK x \<and> \<not> BP_EOL_CHECK x" by (cases w) auto
  have s: "seg B (bp r) (w @ [ch_nl])" using vt Bare by simp
  let ?r = "r\<lparr>bp := bp r + length w, value_start := Some (bp r), value_end := Some (bp r + length w), rstate := ST_CLOSE\<rparr>"
  have "bare_read B (bp r) = Some (bp r + length w)" by (rule bare_read_seg [OF s _ tl]) (use w in auto)
  moreover have "char_at B (bp r) = Some c" using s w by simp
  ultimately have run: "value_step B r = close_step B ?r" using w by (simp add: value_step_def)
  have "n < length B" "bp r < length B" using seg_less [OF nm(1)] seg_less [OF s] by auto
  then have z: "0 \<in> set (drop n B)" "0 \<in> set (drop (bp r) B)" by (auto intro: B)
  have "parsing s0 ?r L" using r by (simp add: parsing_def)
  then obtain r' L' where "close_step B ?r = Some r'" "bp r' = Suc (bp r + length w)" "line_start r'"
    "parsing s0 r' L'" "conf_items L' = (nm, w) # conf_items L"
    by (rule close_step_spec [OF _ z _ _ _ _ nm, where val = w]) (use ptrs s w in auto)
  with run Bare show ?thesis by (intro that) auto
next
  case (Quoted w)
  with v have w: "\<forall>x \<in> set w. x \<noteq> ch_quote \<and> x \<noteq> ch_backslash \<and> \<not> BP_EOL_CHECK x" "0 \<notin> set w" by auto
  have s: "char_at B (bp r) = Some ch_quote" "seg B (Suc (bp r)) (w @ [ch_quote, ch_nl])" using vt Quoted by simp_all
  let ?q = "Suc (bp r) + length w"
  let ?r = "r\<lparr>bp := ?q + 1, value_start := Some (bp r + 1), value_end := Some ?q, rstate := ST_CLOSE\<rparr>"
  have q: "quoted_read B (bp r) = Some ?q" by (rule quoted_read_seg [OF _ w(1)]) (use s(2) in auto)
  have "char_at B ?q = Some ch_quote" using s(2) by simp
  then have run: "value_step B r = close_step B ?r" using s(1) q by (simp add: value_step_def Let_def)
  have "n < length B" "bp r + 1 < length B" using seg_less [OF nm(1)] seg_less [OF s(2)] by auto
  then have z: "0 \<in> set (drop n B)" "0 \<in> set (drop (bp r + 1) B)" by (auto intro: B)
  have "parsing s0 ?r L" using r by (simp add: parsing_def)
  then obtain r' L' where "close_step B ?r = Some r'" "bp r' = Suc (?q + 1)" "line_start r'"
    "parsing s0 r' L'" "conf_items L' = (nm, w) # conf_items L"
    by (rule close_step_spec [OF _ z _ _ _ _ nm, where val = w]) (use ptrs s w in auto)
  with run Quoted show ?thesis by (intro that) auto
qed

section \<open>Reading a line\<close>

lemma read_loop_step:
  assumes "\<not> BP_EOF_CHECK B (bp r)" and "read_iter B r = Some r'"
  shows "read_loop B r = read_loop B r'"
  using assms by (subst read_loop.simps) simp

lemma read_blank:
  assumes "seg B (bp r) [c]" and "rstate r = ST_GLOBAL" and "c = ch_nl \<or> BP_SPACE_CHECK c"
  shows "read_loop B r = read_loop B (r\<lparr>bp := bp r + 1\<rparr>)"
proof (rule read_loop_step)
  show "\<not> BP_EOF_CHECK B (bp r)" using assms(1) by (rule seg_not_EOF)
  have "c \<noteq> ch_hash" "c \<noteq> ch_cr" "BP_EOL_CHECK c \<or> BP_SPACE_CHECK c" using assms(3)
    by (auto simp: ch_defs BP_SPACE_CHECK_def BP_EOL_CHECK_def)
  then show "read_iter B r = Some (r\<lparr>bp := bp r + 1\<rparr>)"
    using assms(1,2) by (simp add: read_iter_def read_switch_def global_step_def BP_EOL_READ_def)
qed

lemma read_comment:
  assumes "seg B (bp r) (ch_hash # t @ [ch_nl])" and "rstate r = ST_GLOBAL" and "\<forall>c \<in> set t. \<not> BP_EOL_CHECK c"
  shows "read_loop B r = read_loop B (r\<lparr>bp := bp r + length t + 2\<rparr>)"
proof (rule read_loop_step)
  show "\<not> BP_EOF_CHECK B (bp r)" using assms(1) by (rule seg_not_EOF)
  have "BP_COMMENT_READ B (bp r) = Suc (bp r) + length t"
    unfolding BP_COMMENT_READ_def using assms(1,3) by (intro BP_READ_seg [where c = ch_nl]) auto
  then show "read_iter B r = Some (r\<lparr>bp := bp r + length t + 2\<rparr>)"
    using assms(1,2) by (simp add: read_iter_def read_switch_def global_step_def BP_EOL_READ_def)
qed

text \<open>From the character after a name to the value.\<close>

lemma assign_to_value:
  assumes s: "seg B (bp r) (sp1 @ [ch_eq] @ sp2 @ [c])" and st: "rstate r = ST_ASSIGN"
    and sp: "\<forall>x \<in> set sp1. BP_SPACE_CHECK x" "\<forall>x \<in> set sp2. BP_SPACE_CHECK x" and c: "\<not> BP_SPACE_CHECK c"
    and run: "value_step B (r\<lparr>bp := bp r + length (sp1 @ [ch_eq] @ sp2), rstate := ST_VALUE\<rparr>) = Some r'"
  shows "\<exists>r1. assign_step B r = Some r1 \<and> read_loop B r1 = read_loop B r'"
proof -
  have at_eq: "assign_step B q = Some r'"
    if q: "q = r\<lparr>bp := bp r + length sp1\<rparr>" for q
  proof -
    have "BP_SPACE_READ B (bp q) = Suc (bp q) + length sp2"
      unfolding BP_SPACE_READ_def by (rule BP_READ_seg [OF _ sp(2) c]) (use s q in auto)
    then show ?thesis using s q run by (simp add: assign_step_def add.assoc)
  qed
  show ?thesis
  proof (cases sp1)
    case Nil
    with at_eq [of r] show ?thesis by simp
  next
    case (Cons x xs)
    have "BP_SPACE_READ B (bp r) = Suc (bp r) + length xs"
      unfolding BP_SPACE_READ_def by (rule BP_READ_seg [where c = ch_eq]) (use s sp(1) Cons in auto)
    then have one: "assign_step B r = Some (r\<lparr>bp := bp r + length sp1\<rparr>)"
      using s sp(1) Cons by (simp add: assign_step_def)
    let ?q = "r\<lparr>bp := bp r + length sp1\<rparr>"
    have "read_loop B ?q = read_loop B r'"
    proof (rule read_loop_step)
      show "\<not> BP_EOF_CHECK B (bp ?q)" by (rule seg_not_EOF [of B _ ch_eq "sp2 @ [c]"]) (use s in simp)
      show "read_iter B ?q = Some r'" using s st at_eq [OF refl] by (simp add: read_iter_def read_switch_def)
    qed
    with one show ?thesis by blast
  qed
qed

text \<open>From the start of a line to its value.\<close>

definition setting_ok :: "byte list \<Rightarrow> byte list \<Rightarrow> byte list \<Rightarrow> bool" where
  "setting_ok nm sp1 sp2 \<longleftrightarrow> nm \<noteq> [] \<and> (\<forall>c \<in> set nm. BP_NAME_CHECK c) \<and>
     (\<forall>c \<in> set sp1. BP_SPACE_CHECK c) \<and> (\<forall>c \<in> set sp2. BP_SPACE_CHECK c)"

lemma read_name:
  assumes st: "rstate r = ST_GLOBAL" and ok: "setting_ok nm sp1 sp2"
    and s: "seg B (bp r) (nm @ sp1 @ [ch_eq] @ sp2 @ [d])" and d: "\<not> BP_SPACE_CHECK d"
    and run: "value_step B (r\<lparr>name_start := Some (bp r), name_end := Some (bp r + length nm),
      bp := bp r + length (nm @ sp1 @ [ch_eq] @ sp2), rstate := ST_VALUE\<rparr>) = Some r'"
  shows "read_loop B r = read_loop B r'"
proof -
  from ok obtain c cs where nm: "nm = c # cs" "\<forall>x \<in> set nm. BP_NAME_CHECK x" by (cases nm) (auto simp: setting_ok_def)
  from ok have sp: "\<forall>x \<in> set sp1. BP_SPACE_CHECK x" "\<forall>x \<in> set sp2. BP_SPACE_CHECK x" by (auto simp: setting_ok_def)
  let ?q = "bp r + length nm"
  let ?r1 = "r\<lparr>name_start := Some (bp r), bp := ?q, name_end := Some ?q, rstate := ST_ASSIGN\<rparr>"
  obtain e es where e: "sp1 @ [ch_eq] = e # es" "\<not> BP_NAME_CHECK e"
    using sp(1) space_char(2) by (cases sp1) auto
  have name: "BP_NAME_READ B (bp r) = ?q"
    unfolding BP_NAME_READ_def using BP_READ_seg [of B "bp r" cs e BP_NAME_CHECK] s nm e
    by (cases sp1) auto
  have "seg B (bp ?r1) (sp1 @ [ch_eq] @ sp2 @ [d])" using s by (simp add: add.assoc)
  moreover have "?r1\<lparr>bp := bp ?r1 + length (sp1 @ [ch_eq] @ sp2), rstate := ST_VALUE\<rparr> =
      r\<lparr>name_start := Some (bp r), name_end := Some ?q, bp := bp r + length (nm @ sp1 @ [ch_eq] @ sp2), rstate := ST_VALUE\<rparr>"
    by (simp add: add.assoc)
  ultimately obtain r1 where r1: "assign_step B ?r1 = Some r1" "read_loop B r1 = read_loop B r'"
    using assign_to_value [of B ?r1 sp1 sp2 d r', OF _ _ sp d] run by (auto simp: add.assoc)
  have c: "char_at B (bp r) = Some c" "c \<noteq> ch_hash" "\<not> BP_EOL_CHECK c" "\<not> BP_SPACE_CHECK c"
    using s nm name_char [of c] by auto
  have "read_iter B r = Some r1"
    using c st r1(1) name by (simp add: read_iter_def read_switch_def global_step_def name_step_def Let_def)
  moreover have "\<not> BP_EOF_CHECK B (bp r)" by (rule seg_not_EOF) (use s nm in auto)
  ultimately show ?thesis using r1(2) read_loop_step by metis
qed

text \<open>The name and what follows it up to the sign, as the lookup sees it.\<close>

lemma setting_name:
  assumes "setting_ok nm sp1 sp2"
  shows "0 \<notin> set (nm @ (sp1 @ [ch_eq]))" "ch_eq \<notin> set nm"
  using assms name_char(5) space_char(5) by (auto simp: setting_ok_def)

lemma value_text_first:
  "value_ok v \<Longrightarrow> \<exists>c xs. value_text v = c # xs \<and> \<not> BP_SPACE_CHECK c"
  by (cases v) (auto simp: neq_Nil_conv)

lemma read_setting:
  assumes r: "parsing s0 r L" "rstate r = ST_GLOBAL" and B: "\<And>i. i < length B \<Longrightarrow> 0 \<in> set (drop i B)"
    and ln: "line_ok (Setting nm sp1 sp2 v)" and s: "seg B (bp r) (line_text (Setting nm sp1 sp2 v))"
  obtains r' L' where "read_loop B r = read_loop B r'" "bp r' = bp r + length (line_text (Setting nm sp1 sp2 v))"
    "line_start r'" "parsing s0 r' L'" "conf_items L' = (nm, value_bytes v) # conf_items L"
proof -
  have ok: "setting_ok nm sp1 sp2" and v: "value_ok v" using ln by (auto simp: setting_ok_def)
  from value_text_first [OF v] obtain d ds where d: "value_text v = d # ds" "\<not> BP_SPACE_CHECK d" by blast
  let ?r = "r\<lparr>name_start := Some (bp r), name_end := Some (bp r + length nm),
      bp := bp r + length (nm @ sp1 @ [ch_eq] @ sp2), rstate := ST_VALUE\<rparr>"
  have seg_nm: "seg B (bp r) (nm @ (sp1 @ [ch_eq]))" using s by simp
  have p: "parsing s0 ?r L" using r(1) by (simp add: parsing_def)
  obtain r' L' where r': "value_step B ?r = Some r'" "bp r' = bp ?r + length (value_text v) + 1" "line_start r'"
      "parsing s0 r' L'" "conf_items L' = (nm, value_bytes v) # conf_items L"
    by (rule value_step_spec [OF p B _ _ seg_nm setting_name [OF ok] _ v]) (use s in \<open>auto simp: add.assoc\<close>)
  have "read_loop B r = read_loop B r'"
    by (rule read_name [OF r(2) ok _ d(2) r'(1)]) (use s d in simp)
  with r' show ?thesis by (intro that) auto
qed

section \<open>Reading a file\<close>

lemma read_lines:
  assumes "parsing s0 r L" and "line_start r" and "\<And>i. i < length B \<Longrightarrow> 0 \<in> set (drop i B)"
    and "\<forall>l \<in> set ls. line_ok l" and "seg B (bp r) (file_text ls)"
  shows "\<exists>r' L'. read_loop B r = read_loop B r' \<and> bp r' = bp r + length (file_text ls) \<and>
     line_start r' \<and> parsing s0 r' L' \<and> conf_items L' = rev (file_items ls) @ conf_items L"
  using assms
proof (induction ls arbitrary: r L)
  case Nil
  then show ?case by (auto simp: file_items_def file_text_def intro!: exI [of _ r] exI [of _ L])
next
  case (Cons l ls)
  let ?rest = "file_text ls"
  have s: "seg B (bp r) (line_text l)" "seg B (bp r + length (line_text l)) ?rest"
    using Cons.prems(5) by (simp_all add: file_text_def)
  have l: "line_ok l" using Cons.prems(4) by simp
  have step: "\<exists>r' L'. read_loop B r = read_loop B r' \<and> bp r' = bp r + length (line_text l) \<and> line_start r' \<and>
      parsing s0 r' L' \<and> conf_items L' = rev (line_items l) @ conf_items L"
  proof (cases l)
    case (Blank c)
    with read_blank [of B r c] s(1) l Cons.prems(1,2) show ?thesis unfolding line_start_def
      by (intro exI [of _ "r\<lparr>bp := bp r + 1\<rparr>"] exI [of _ L]) (simp add: parsing_def)
  next
    case (Comment t)
    with read_comment [of B r t] s(1) l Cons.prems(1,2) show ?thesis unfolding line_start_def
      by (intro exI [of _ "r\<lparr>bp := bp r + length t + 2\<rparr>"] exI [of _ L]) (simp add: parsing_def)
  next
    case (Setting nm sp1 sp2 v)
    show ?thesis
      by (rule read_setting [OF Cons.prems(1) _ Cons.prems(3) l [unfolded Setting] s(1) [unfolded Setting]])
         (use Setting Cons.prems(2) in \<open>auto simp: line_start_def intro!: exI\<close>)
  qed
  then obtain r1 L1 where r1: "read_loop B r = read_loop B r1" "bp r1 = bp r + length (line_text l)"
      "line_start r1" "parsing s0 r1 L1" "conf_items L1 = rev (line_items l) @ conf_items L" by blast
  have "\<exists>r' L'. read_loop B r1 = read_loop B r' \<and> bp r' = bp r1 + length ?rest \<and> line_start r' \<and>
      parsing s0 r' L' \<and> conf_items L' = rev (file_items ls) @ conf_items L1"
    by (rule Cons.IH [OF r1(4,3) Cons.prems(3)]) (use Cons.prems(4) s(2) r1(2) in auto)
  with r1(1,2,5) show ?case by (auto simp: file_items_def file_text_def)
qed

abbreviation initial_reader :: "conf \<Rightarrow> conf_store \<Rightarrow> reader" where
  "initial_reader cf s \<equiv> \<lparr>bp = 0, rstate = ST_GLOBAL, rstatus = True, name_start = None, name_end = None,
     value_start = None, value_end = None, rconf = cf, rstore = s\<rparr>"

text \<open>The reader after the good lines at the front of a file.\<close>

lemma read_front:
  assumes at: "conf_at s cf []" and mem: "\<forall>k. \<not> coom s k" and ls: "\<forall>l \<in> set ls. line_ok l"
    and B: "B = file_text ls @ tail @ [0]"
  obtains r' L' where "read_loop B (initial_reader cf s) = read_loop B r'" "bp r' = length (file_text ls)"
    "line_start r'" "parsing s r' L'" "conf_items L' = rev (file_items ls)"
proof -
  have z: "0 \<in> set (drop i B)" if "i < length B" for i
  proof -
    have "i \<le> length (file_text ls @ tail)" "B = (file_text ls @ tail) @ [0]" using that B by simp_all
    then show ?thesis by (simp only: drop_append) simp
  qed
  have p: "parsing s (initial_reader cf s) []" using at mem by (simp add: parsing_def)
  have "seg B 0 (file_text ls)" using seg_in_text [of "[]" "file_text ls" "tail @ [0]"] B by simp
  from read_lines [OF p _ z ls, simplified, OF _ this] that show ?thesis by (auto simp: line_start_def)
qed

lemma conf_file_read_spec:
  assumes at: "conf_at s cf []" and mem: "\<forall>k. \<not> coom s k" and ls: "\<forall>l \<in> set ls. line_ok l"
  obtains cf' s' L' where "srvd_conf_file_read (file_text ls @ [0]) cf s = Some (True, cf', s')"
    "conf_at s' cf' L'" "conf_items L' = rev (file_items ls)" "\<forall>k. \<not> coom s' k" "keeps s s'"
    "set (concat (map item_strs L')) \<subseteq> {cbrk s..}" "\<forall>x \<in> set L'. exact x"
proof (rule read_front [OF at mem ls, of "file_text ls @ [0]" "[]"])
  fix r' L'
  assume r': "read_loop (file_text ls @ [0]) (initial_reader cf s) = read_loop (file_text ls @ [0]) r'"
    "bp r' = length (file_text ls)" "line_start r'" "parsing s r' L'" "conf_items L' = rev (file_items ls)"
  have "read_loop (file_text ls @ [0]) r' = Some r'"
    using r'(2) by (subst read_loop.simps) (simp add: BP_EOF_CHECK_def)
  with r' show ?thesis
    by (intro that [of "rconf r'" "rstore r'" L']) (auto simp: srvd_conf_file_read_def read_finish_def parsing_def line_start_def)
qed simp

section \<open>Files outside the grammar\<close>

text \<open>A comment that the end of the file cuts off: the reader steps past the buffer.\<close>

lemma BP_READ_to_end:
  assumes "\<forall>x \<in> set xs. P x" and "p + length xs + 2 = length B" and "\<forall>i < length xs. B ! (Suc p + i) = xs ! i"
  shows "BP_READ P B p = Suc p + length xs"
  using assms
proof (induction xs arbitrary: p)
  case Nil
  then have "BP_EOF_CHECK B (Suc p)" by (simp add: BP_EOF_CHECK_def)
  then show ?case by (subst BP_READ.simps) simp
next
  case (Cons x xs)
  have "B ! Suc p = x" using Cons.prems(3) by force
  moreover have "\<not> BP_EOF_CHECK B (Suc p)" using Cons.prems(2) by (simp add: BP_EOF_CHECK_def)
  moreover have "BP_READ P B (Suc p) = Suc (Suc p) + length xs"
    by (rule Cons.IH) (use Cons.prems in force)+
  ultimately show ?case using Cons.prems(1) by (subst BP_READ.simps) simp
qed

lemma read_open_comment:
  assumes B: "B = pre @ ch_hash # t @ [0]" and r: "bp r = length pre" "rstate r = ST_GLOBAL"
    and t: "\<forall>c \<in> set t. \<not> BP_EOL_CHECK c"
  shows "read_loop B r = None"
proof -
  let ?z = "Suc (length pre + length t)"
  have len: "length B = Suc ?z" by (simp add: B)
  have e: "BP_COMMENT_READ B (length pre) = ?z"
    unfolding BP_COMMENT_READ_def using BP_READ_to_end [of t "\<lambda>c. \<not> BP_EOL_CHECK c" "length pre" B] t
    by (simp add: B nth_append)
  have "BP_EOF_CHECK B (Suc ?z)" by (simp add: BP_EOF_CHECK_def len)
  then have n: "BP_NAME_READ B ?z = Suc ?z"
    unfolding BP_NAME_READ_def by (subst BP_READ.simps) simp
  have z: "\<not> BP_EOL_CHECK 0" "\<not> BP_SPACE_CHECK 0"
    by (simp_all add: BP_EOL_CHECK_def BP_SPACE_CHECK_def ch_defs)
  have c: "char_at B (Suc ?z) = None" "char_at B ?z = Some 0" "char_at B (length pre) = Some ch_hash"
    by (simp_all add: char_at_def B nth_append)
  have "read_iter B r = None"
    using c r z e n by (simp add: read_iter_def read_switch_def global_step_def name_step_def assign_step_def Let_def)
  moreover have "\<not> BP_EOF_CHECK B (bp r)" by (simp add: BP_EOF_CHECK_def B r(1))
  ultimately show ?thesis by (subst read_loop.simps) simp
qed

lemma conf_file_read_open_comment:
  assumes at: "conf_at s cf []" and mem: "\<forall>k. \<not> coom s k" and ls: "\<forall>l \<in> set ls. line_ok l"
    and t: "\<forall>c \<in> set t. \<not> BP_EOL_CHECK c"
  shows "srvd_conf_file_read (file_text ls @ (ch_hash # t) @ [0]) cf s = None"
proof (rule read_front [OF at mem ls refl, of "ch_hash # t"])
  fix r' L'
  assume r': "read_loop (file_text ls @ (ch_hash # t) @ [0]) (initial_reader cf s) =
      read_loop (file_text ls @ (ch_hash # t) @ [0]) r'" "bp r' = length (file_text ls)" "line_start r'"
  have "read_loop (file_text ls @ (ch_hash # t) @ [0]) r' = None"
    using r'(2,3) t by (intro read_open_comment) (auto simp: line_start_def)
  with r'(1) show ?thesis by (simp add: srvd_conf_file_read_def read_finish_def)
qed

text \<open>A setting without a value: the name is stored and a copy from NULL follows.\<close>

lemma item_add_NULL_value:
  assumes at: "conf_at s cf L" and mem: "\<forall>k. \<not> coom s k" and nm: "0 \<in> set name" "0 < nlen"
    and new: "conf_map L (cstr name) = None"
  shows "srvd_conf_item_add (Some cf) (Some name) nlen None vlen s = None"
proof -
  obtain bs where "copy_terminated nlen (Some name) = Some bs" using copy_terminated_spec [of name nlen] nm by blast
  with item_has_spec [OF at nm(1)] new mem show ?thesis
    by (simp add: srvd_conf_item_add_def malloc_cnode_def malloc_cstr_def Let_def copy_terminated_def [of _ None])
qed

lemma read_missing_value:
  assumes r: "parsing s0 r L" "line_start r" and z: "0 \<in> set (drop (bp r) B)"
    and ok: "setting_ok nm sp1 sp2" and s: "seg B (bp r) (nm @ sp1 @ [ch_eq] @ sp2 @ [ch_nl])"
  shows "read_loop B r = None"
proof -
  let ?r = "r\<lparr>name_start := Some (bp r), name_end := Some (bp r + length nm),
      bp := bp r + length (nm @ sp1 @ [ch_eq] @ sp2), rstate := ST_VALUE\<rparr>"
  let ?c = "?r\<lparr>rstate := ST_CLOSE\<rparr>"
  have nl: "char_at B (bp ?c) = Some ch_nl" using s by (simp add: add.assoc)
  have "value_step B ?r = Some ?c" using nl by (simp add: value_step_def)
  then have loop: "read_loop B r = read_loop B ?c"
    using r(2) by (intro read_name [OF _ ok s]) (auto simp: line_start_def)
  have "seg B (bp r) (nm @ (sp1 @ [ch_eq]))" using s by simp
  from seg_cstr [OF this setting_name(1) [OF ok]] obtain ys where ys: "cstr (drop (bp r) B) = nm @ (sp1 @ [ch_eq]) @ ys" by auto
  have "conf_map L (cstr (drop (bp r) B)) = None"
    using r(1) by (force simp: parsing_def map_of_eq_None_iff ys)
  then have "srvd_conf_item_add (Some (rconf r)) (Some (drop (bp r) B)) (length nm + 1) None 1 (rstore r) = None"
    using r(1) z by (intro item_add_NULL_value) (auto simp: parsing_def)
  then have "close_commit B (?c\<lparr>bp := Suc (bp ?c)\<rparr>) = None"
    using r by (simp add: close_commit_def span_def line_start_def parsing_def)
  moreover have "close_scan B ?c = Some (?c\<lparr>bp := Suc (bp ?c)\<rparr>)" using nl by (simp add: close_scan_def BP_EOL_READ_def)
  ultimately have "read_iter B ?c = None" using nl by (simp add: read_iter_def read_switch_def close_step_def)
  moreover have "\<not> BP_EOF_CHECK B (bp ?c)" by (rule seg_not_EOF [of B _ ch_nl "[]"]) (use s in \<open>simp add: add.assoc\<close>)
  ultimately show ?thesis unfolding loop by (subst read_loop.simps) simp
qed

lemma conf_file_read_missing_value:
  assumes at: "conf_at s cf []" and mem: "\<forall>k. \<not> coom s k" and ls: "\<forall>l \<in> set ls. line_ok l"
    and ok: "setting_ok nm sp1 sp2"
  shows "srvd_conf_file_read (file_text ls @ (nm @ sp1 @ [ch_eq] @ sp2 @ [ch_nl] @ post) @ [0]) cf s = None"
proof (rule read_front [OF at mem ls refl, of "nm @ sp1 @ [ch_eq] @ sp2 @ [ch_nl] @ post"])
  fix r' L'
  let ?B = "file_text ls @ (nm @ sp1 @ [ch_eq] @ sp2 @ [ch_nl] @ post) @ [0]"
  assume r': "read_loop ?B (initial_reader cf s) = read_loop ?B r'" "bp r' = length (file_text ls)" "line_start r'"
    "parsing s r' L'"
  have "seg ?B (bp r') (nm @ sp1 @ [ch_eq] @ sp2 @ [ch_nl])"
    using seg_in_text [of "file_text ls" "nm @ sp1 @ [ch_eq] @ sp2 @ [ch_nl]" "post @ [0]"] r'(2) by simp
  then have "read_loop ?B r' = None" by (intro read_missing_value [OF r'(4,3) _ ok]) (simp_all add: r'(2))
  with r'(1) show ?thesis by (simp add: srvd_conf_file_read_def read_finish_def)
qed

end
