(* ===== verification/Conf_File.thy ===== *)
theory Conf_File
  imports Conf_Parse_Refine
begin

text \<open>
  Configuration files: the second half of \<open>lib/srvd/libsrvd/conf.c\<close>. The file system is a
  record of functions from paths; the build's configuration path is an argument. The buffer of
  \<open>srvd_conf_file_parse\<close> is a byte list of its own: nothing else points to it, every path frees
  it, and its allocation consumes a number of the store like any other.
\<close>

record fsys =
  fs_fopen :: "byte list \<Rightarrow> bool"
  fs_stat :: "byte list \<Rightarrow> (nat \<times> int) option"
  fs_fread :: "byte list \<Rightarrow> nat \<Rightarrow> byte list"

record conf_file =
  cf_conf :: conf
  updated :: bool
  updated_time :: int
  cf_path :: ptr

definition srvd_conf_file_initialize ::
    "conf_file option \<Rightarrow> byte list option \<Rightarrow> nat \<Rightarrow> conf_store \<Rightarrow> (bool \<times> conf_file option \<times> conf_store) option" where
  "srvd_conf_file_initialize fconf path path_length s =
     (case fconf of None \<Rightarrow> Some (False, None, s)
      | Some f \<Rightarrow>
        if path = None then Some (False, fconf, s)
        else let (p, s) = malloc_cstr path_length s; f = f\<lparr>cf_path := p\<rparr> in
          if p = None then Some (False, Some f, s)
          else do {
            bs \<leftarrow> copy_terminated path_length path;
            let s = s\<lparr>cstrs := (cstrs s)(the p \<mapsto> bs)\<rparr>;
            let (_, cf) = srvd_conf_initialize (Some (cf_conf f));
            Some (True, Some (f\<lparr>updated := False, updated_time := 0, cf_conf := the cf\<rparr>), s) })"

definition srvd_conf_file_finalize ::
    "conf_file option \<Rightarrow> conf_store \<Rightarrow> (bool \<times> conf_file option \<times> conf_store) option" where
  "srvd_conf_file_finalize fconf s =
     (case fconf of None \<Rightarrow> Some (False, None, s)
      | Some f \<Rightarrow> do {
          s \<leftarrow> (if cf_path f \<noteq> None then free_cstr (cf_path f) s else Some s);
          (_, cf, s) \<leftarrow> srvd_conf_finalize (Some (cf_conf f)) s;
          Some (True, Some (f\<lparr>cf_path := None, cf_conf := the cf, updated := False, updated_time := 0\<rparr>), s) })"

definition srvd_conf_file_uptodate :: "conf_file option \<Rightarrow> fsys \<Rightarrow> conf_store \<Rightarrow> bool option" where
  "srvd_conf_file_uptodate fconf fs s =
     (case fconf of None \<Rightarrow> Some False
      | Some f \<Rightarrow>
        if \<not> updated f then Some False
        else do {
          path \<leftarrow> rd_cstr (cf_path f) s;
          case fs_stat fs (cstr path) of None \<Rightarrow> Some False
          | Some (_, mtime) \<Rightarrow> Some (mtime \<noteq> 0 \<and> mtime = updated_time f) })"

text \<open>The path is read by \<open>fopen\<close>, which fails on a missing file and is undefined on NULL.\<close>

definition srvd_conf_file_parse ::
    "conf_file option \<Rightarrow> fsys \<Rightarrow> conf_store \<Rightarrow> (bool \<times> conf_file option \<times> conf_store) option" where
  "srvd_conf_file_parse fconf fs s =
     (case fconf of None \<Rightarrow> Some (False, None, s)
      | Some f \<Rightarrow> do {
          path \<leftarrow> rd_cstr (cf_path f) s;
          if \<not> fs_fopen fs (cstr path) then Some (False, fconf, s)
          else case fs_stat fs (cstr path) of None \<Rightarrow> Some (False, fconf, s)
          | Some (sz, mtime) \<Rightarrow>
            if sz = 0 then Some (False, fconf, s)
            else let s' = s\<lparr>cbrk := Suc (cbrk s)\<rparr> in
              if coom s (cbrk s) then Some (False, fconf, s')
              else let bytes = fs_fread fs (cstr path) sz in
                if length bytes \<noteq> sz then Some (False, fconf, s')
                else do {
                  (_, cf, s) \<leftarrow> srvd_conf_clear (Some (cf_conf f)) s';
                  (ok, cf, s) \<leftarrow> srvd_conf_file_read (bytes @ [0]) (the cf) s;
                  if ok then Some (True, Some (f\<lparr>cf_conf := cf, updated := True, updated_time := mtime\<rparr>), s)
                  else Some (False, Some (f\<lparr>cf_conf := cf\<rparr>), s) } })"

section \<open>The default file\<close>

record conf_default =
  d_fconf :: conf_file
  d_lock :: mutex

text \<open>The out parameter: \<open>None\<close> is NULL, \<open>Some True\<close> a variable that already holds a pointer.\<close>

definition srvd_conf_file_default_get ::
    "byte list \<Rightarrow> bool option \<Rightarrow> conf_default \<Rightarrow> fsys \<Rightarrow> conf_store
     \<Rightarrow> (bool \<times> bool option \<times> conf_default \<times> conf_store) option" where
  "srvd_conf_file_default_get default_path fconfp d fs s =
     (if fconfp = None then Some (False, fconfp, d, s)
      else if fconfp = Some True then Some (False, fconfp, d, s)
      else do {
        l \<leftarrow> lock_mutex (d_lock d);
        let d = d\<lparr>d_lock := l\<rparr>;
        (d, s) \<leftarrow> (if cf_path (d_fconf d) = None then do {
              (_, f, s) \<leftarrow> srvd_conf_file_initialize (Some (d_fconf d)) (Some (default_path @ [0]))
                (length default_path + 1) s;
              Some (d\<lparr>d_fconf := the f\<rparr>, s) }
            else Some (d, s));
        fresh \<leftarrow> srvd_conf_file_uptodate (Some (d_fconf d)) fs s;
        (ok, d, s) \<leftarrow> (if \<not> fresh then do {
              (ok, f, s) \<leftarrow> srvd_conf_file_parse (Some (d_fconf d)) fs s;
              Some (ok, d\<lparr>d_fconf := the f\<rparr>, s) }
            else Some (True, d, s));
        l \<leftarrow> unlock_mutex (d_lock d);
        Some (ok, if ok then Some True else fconfp, d\<lparr>d_lock := l\<rparr>, s) })"

end
