(* ===== verification/Conf_File_Refine.thy ===== *)
theory Conf_File_Refine
  imports Conf_File
begin

text \<open>
  Configuration files against their meaning: parsing a file of the grammar replaces the items by
  those of the file and remembers its time of change; the default file is read once and then again
  only when that time changes.
\<close>

definition file_at :: "conf_store \<Rightarrow> conf_file \<Rightarrow> byte list \<Rightarrow> citem list \<Rightarrow> bool" where
  "file_at s f path L \<longleftrightarrow> conf_at s (cf_conf f) L \<and> (\<forall>x \<in> set L. exact x) \<and>
     (\<exists>p bs. cf_path f = Some p \<and> cstrs s p = Some bs \<and> 0 \<in> set bs \<and> cstr bs = path \<and>
        p \<notin> set (concat (map item_strs L)))"

text \<open>The file system holds a file of the grammar at \<open>path\<close>, last changed at \<open>mt\<close>.\<close>

definition holds_file :: "fsys \<Rightarrow> byte list \<Rightarrow> cline list \<Rightarrow> int \<Rightarrow> bool" where
  "holds_file fs path ls mt \<longleftrightarrow> fs_fopen fs path \<and> fs_stat fs path = Some (length (file_text ls), mt) \<and>
     fs_fread fs path (length (file_text ls)) = file_text ls \<and> file_text ls \<noteq> [] \<and> (\<forall>l \<in> set ls. line_ok l)"

lemma conf_file_initialize_spec:
  assumes "cstore_ok s" and "\<not> coom s (cbrk s)" and "0 \<notin> set path"
  obtains f' s' where "srvd_conf_file_initialize (Some f) (Some (path @ [0])) (length path + 1) s = Some (True, Some f', s')"
    "file_at s' f' path []" "\<not> updated f'" "coom s' = coom s"
proof -
  obtain bs where bs: "copy_terminated (length path + 1) (Some (path @ [0])) = Some bs" "0 \<in> set bs" "cstr bs = path"
    using copy_terminated_spec [of "path @ [0]" "length path + 1"] assms(3) by (auto simp: cstr_append_NUL)
  let ?s = "s\<lparr>cbrk := Suc (cbrk s), cstrs := (cstrs s)(cbrk s \<mapsto> bs)\<rparr>"
  let ?f = "f\<lparr>cf_path := Some (cbrk s), updated := False, updated_time := 0, cf_conf := (cf_conf f)\<lparr>conf_nodes := None\<rparr>\<rparr>"
  have "srvd_conf_file_initialize (Some f) (Some (path @ [0])) (length path + 1) s = Some (True, Some ?f, ?s)"
    using assms(2) bs(1) by (simp add: srvd_conf_file_initialize_def malloc_cstr_def srvd_conf_initialize_def Let_def)
  moreover have "file_at ?s ?f path []"
    using assms(1) bs by (auto simp: file_at_def conf_at_def cstore_ok_def)
  ultimately show ?thesis by (intro that [of ?f ?s]) auto
qed

lemma file_at_bump: "file_at s f path L \<Longrightarrow> file_at (s\<lparr>cbrk := Suc (cbrk s)\<rparr>) f path L"
  using conf_at_bump [of s "cf_conf f" L 1] by (auto simp: file_at_def)

lemma file_at_drop:
  assumes "file_at s f path L"
  shows "file_at (drop_items L s) (f\<lparr>cf_conf := (cf_conf f)\<lparr>conf_nodes := None\<rparr>\<rparr>) path []"
  using assms conf_clear_spec(2) [of s "cf_conf f" L] by (auto simp: file_at_def drop_items_def restrict_map_def)

lemma file_read_spec:
  assumes at: "file_at s f path []" and mem: "\<forall>k. \<not> coom s k" and ls: "\<forall>l \<in> set ls. line_ok l"
  obtains cf' s' L' where "srvd_conf_file_read (file_text ls @ [0]) (cf_conf f) s = Some (True, cf', s')"
    "file_at s' (f\<lparr>cf_conf := cf'\<rparr>) path L'" "conf_items L' = rev (file_items ls)" "\<forall>k. \<not> coom s' k"
proof -
  from at obtain p bs where p: "cf_path f = Some p" "cstrs s p = Some bs" "0 \<in> set bs" "cstr bs = path"
    and cf: "conf_at s (cf_conf f) []" by (auto simp: file_at_def)
  obtain cf' s' L' where r: "srvd_conf_file_read (file_text ls @ [0]) (cf_conf f) s = Some (True, cf', s')" "conf_at s' cf' L'"
      "conf_items L' = rev (file_items ls)" "\<forall>k. \<not> coom s' k" "keeps s s'" "set (concat (map item_strs L')) \<subseteq> {cbrk s..}" "\<forall>x \<in> set L'. exact x"
    by (rule conf_file_read_spec [OF cf mem ls])
  have "cstore_ok s" using cf by (simp add: conf_at_def)
  then have lt: "p < cbrk s" using p(2) by (auto simp: cstore_ok_def) (metis not_less option.distinct(1))
  then have "cstrs s' p = Some bs" using r(5) p(2) by (simp add: keeps_def)
  moreover have "p \<notin> set (concat (map item_strs L'))" using r(6) lt by auto
  ultimately have "file_at s' (f\<lparr>cf_conf := cf'\<rparr>) path L'" using p r(2,7) by (auto simp: file_at_def)
  with r(1,3,4) show ?thesis by (intro that)
qed

lemma conf_file_parse_spec:
  assumes at: "file_at s f path L" and mem: "\<forall>k. \<not> coom s k" and fs: "holds_file fs path ls mt"
  obtains f' s' L' where "srvd_conf_file_parse (Some f) fs s = Some (True, Some f', s')" "file_at s' f' path L'"
    "conf_items L' = rev (file_items ls)" "updated f'" "updated_time f' = mt" "\<forall>k. \<not> coom s' k"
proof -
  from at obtain p bs where p: "cf_path f = Some p" "cstrs s p = Some bs" "cstr bs = path" by (auto simp: file_at_def)
  let ?s1 = "s\<lparr>cbrk := Suc (cbrk s)\<rparr>" and ?f1 = "f\<lparr>cf_conf := (cf_conf f)\<lparr>conf_nodes := None\<rparr>\<rparr>"
  have at1: "file_at ?s1 f path L" by (rule file_at_bump [OF at])
  then have clear: "srvd_conf_clear (Some (cf_conf f)) ?s1 = Some (True, Some (cf_conf ?f1), drop_items L ?s1)"
    using conf_clear_spec(1) [of ?s1 "cf_conf f" L] by (simp add: file_at_def)
  have "\<forall>k. \<not> coom (drop_items L ?s1) k" using mem by (simp add: drop_items_def)
  moreover have "\<forall>l \<in> set ls. line_ok l" using fs by (simp add: holds_file_def)
  ultimately obtain cf' s' L' where r: "srvd_conf_file_read (file_text ls @ [0]) (cf_conf ?f1) (drop_items L ?s1) = Some (True, cf', s')"
      "file_at s' (?f1\<lparr>cf_conf := cf'\<rparr>) path L'" "conf_items L' = rev (file_items ls)" "\<forall>k. \<not> coom s' k"
    by (rule file_read_spec [OF file_at_drop [OF at1]])
  let ?f = "f\<lparr>cf_conf := cf', updated := True, updated_time := mt\<rparr>"
  have "srvd_conf_file_parse (Some f) fs s = Some (True, Some ?f, s')"
    using p fs mem clear r(1) by (simp add: srvd_conf_file_parse_def rd_cstr_def holds_file_def Let_def)
  moreover have "file_at s' ?f path L'" using r(2) by (simp add: file_at_def)
  ultimately show ?thesis using r(3,4) by (intro that) auto
qed

lemma conf_file_uptodate_spec:
  assumes "file_at s f path L"
  shows "srvd_conf_file_uptodate (Some f) fs s =
     Some (updated f \<and> (\<exists>sz. fs_stat fs path = Some (sz, updated_time f)) \<and> updated_time f \<noteq> 0)"
  using assms by (auto simp: srvd_conf_file_uptodate_def file_at_def rd_cstr_def split: option.splits)

section \<open>The default file\<close>

lemma default_get_parses:
  assumes at: "file_at s (d_fconf d) path L" and lk: "d_lock d = Unlocked" and mem: "\<forall>k. \<not> coom s k"
    and fs: "holds_file fs path ls mt" and old: "\<not> updated (d_fconf d) \<or> updated_time (d_fconf d) \<noteq> mt \<or> mt = 0"
  obtains d' s' L' where "srvd_conf_file_default_get dp (Some False) d fs s = Some (True, Some True, d', s')"
    "file_at s' (d_fconf d') path L'" "conf_items L' = rev (file_items ls)" "updated (d_fconf d')"
    "updated_time (d_fconf d') = mt" "d_lock d' = Unlocked" "\<forall>k. \<not> coom s' k"
proof -
  obtain f' s' L' where p: "srvd_conf_file_parse (Some (d_fconf d)) fs s = Some (True, Some f', s')" "file_at s' f' path L'"
    "conf_items L' = rev (file_items ls)" "updated f'" "updated_time f' = mt" "\<forall>k. \<not> coom s' k"
    by (rule conf_file_parse_spec [OF at mem fs])
  have "srvd_conf_file_uptodate (Some (d_fconf d)) fs s = Some False"
    using conf_file_uptodate_spec [OF at, of fs] fs old by (auto simp: holds_file_def)
  moreover obtain q where "cf_path (d_fconf d) = Some q" using at by (auto simp: file_at_def)
  ultimately have "srvd_conf_file_default_get dp (Some False) d fs s = Some (True, Some True, d\<lparr>d_lock := Unlocked, d_fconf := f'\<rparr>, s')"
    using lk p(1) by (cases d) (simp add: srvd_conf_file_default_get_def lock_mutex_def unlock_mutex_def Let_def)
  with p show ?thesis by (intro that) auto
qed

lemma default_get_cached:
  assumes at: "file_at s (d_fconf d) path L" and lk: "d_lock d = Unlocked"
    and up: "updated (d_fconf d)" "fs_stat fs path = Some (sz, updated_time (d_fconf d))" "updated_time (d_fconf d) \<noteq> 0"
  shows "srvd_conf_file_default_get dp (Some False) d fs s = Some (True, Some True, d, s)"
proof -
  have "srvd_conf_file_uptodate (Some (d_fconf d)) fs s = Some True"
    using conf_file_uptodate_spec [OF at, of fs] up by auto
  moreover obtain q where "cf_path (d_fconf d) = Some q" using at by (auto simp: file_at_def)
  ultimately show ?thesis using lk
    by (cases d) (simp add: srvd_conf_file_default_get_def lock_mutex_def unlock_mutex_def Let_def)
qed

end
