(* ===== verification/Conf_Properties.thy ===== *)
theory Conf_Properties
  imports Conf_File_Refine
begin

text \<open>
  The properties of the configuration: its item list, the parser and the cached default file.
  Every one is followed by its use at a concrete store.
\<close>

definition demo_cstore :: conf_store where
  "demo_cstore = \<lparr>cnodes = Map.empty, cstrs = Map.empty, cbrk = 0, coom = (\<lambda>_. False)\<rparr>"

abbreviation demo_conf :: conf where
  "demo_conf \<equiv> \<lparr>conf_nodes = None\<rparr>"

text \<open>The item \<open>a = b\<close>, stored at 0 with its strings at 1 and 2.\<close>

definition demo_cstore1 :: conf_store where
  "demo_cstore1 = \<lparr>cnodes = [0 \<mapsto> Some \<lparr>c_name = Some 1, c_name_length = 2, c_value = Some 2, c_value_length = 2, c_next = None\<rparr>],
     cstrs = [1 \<mapsto> [97, 0], 2 \<mapsto> [98, 0]], cbrk = 3, coom = (\<lambda>_. False)\<rparr>"

abbreviation demo_items :: "citem list" where
  "demo_items \<equiv> [(0, (1, [97, 0]), (2, [98, 0]))]"

text \<open>The lines \<open># x\<close>, \<open>a = "b c"\<close> and \<open>a=d\<close>.\<close>

definition demo_lines :: "cline list" where
  "demo_lines = [Comment [32, 120], Setting [97] [32] [32] (Quoted [98, 32, 99]), Setting [97] [] [] (Bare [100])]"

lemma demo_conf_at [simp]:
  "conf_at demo_cstore demo_conf []" "conf_at demo_cstore1 \<lparr>conf_nodes = Some 0\<rparr> demo_items"
  by (auto simp: conf_at_def cstore_ok_def item_is_def item_strs_def demo_cstore_def demo_cstore1_def)

lemma demo_coom [simp]: "coom demo_cstore k = False" "coom demo_cstore1 k = False"
  by (simp_all add: demo_cstore_def demo_cstore1_def)

lemma demo_lines_ok [simp]: "\<forall>l \<in> set demo_lines. line_ok l"
  by (simp add: demo_lines_def BP_NAME_CHECK_def isalnum_def BP_EOL_CHECK_def BP_SPACE_CHECK_def ch_defs)

lemma demo_file_items: "file_items demo_lines = [([97], [98, 32, 99]), ([97], [100])]"
  by (simp add: demo_lines_def file_items_def)

lemma conf_lookup_items:
  assumes "conf_at s cf L" and "0 \<notin> set k"
  shows "conf_lookup k (cf, s) = Some (conf_map L k)"
  using conf_table.lookup_law [of "(cf, s)" "conf_map L" k] assms by (auto simp: conf_rep_def)

section \<open>Reading a file\<close>

text \<open>C26. Every file written by the grammar (blank characters, comment lines, and names assigned bare or
  quoted values with any spacing around the sign) is accepted when memory does not run out. The
  configuration then holds exactly the assignments of the file, and looking a name up gives the
  value of its last assignment.\<close>

theorem conf_read_parses_grammar:
  assumes "conf_at s cf []" and "\<forall>k. \<not> coom s k" and "\<forall>l \<in> set ls. line_ok l"
  shows "\<exists>cf' s' L. srvd_conf_file_read (file_text ls @ [0]) cf s = Some (True, cf', s') \<and>
     conf_at s' cf' L \<and> conf_items L = rev (file_items ls) \<and>
     (\<forall>k. 0 \<notin> set k \<longrightarrow> conf_lookup k (cf', s') = Some (map_of (rev (file_items ls)) k))"
proof -
  obtain cf' s' L where r: "srvd_conf_file_read (file_text ls @ [0]) cf s = Some (True, cf', s')"
      "conf_at s' cf' L" "conf_items L = rev (file_items ls)"
    by (rule conf_file_read_spec [OF assms])
  then show ?thesis using conf_lookup_items [OF r(2)] by metis
qed

theorem conf_read_parses_grammar_witness:
  "\<exists>cf' s' L. srvd_conf_file_read (file_text demo_lines @ [0]) demo_conf demo_cstore = Some (True, cf', s') \<and>
     conf_at s' cf' L \<and> conf_items L = rev (file_items demo_lines) \<and> conf_lookup [97] (cf', s') = Some (Some [100])"
  using conf_read_parses_grammar [of demo_cstore demo_conf demo_lines] by (fastforce simp: demo_file_items)

text \<open>C27. The parser stops on every file: each turn of its loop that does not leave it moves the
  position forward, or closes a value at the end of its line, so the distance to the end shrinks.\<close>

theorem conf_read_progress:
  assumes "read_iter buf r = Some r'" and "\<not> BP_EOF_CHECK buf (bp r)"
  shows "progress buf r' < progress buf r"
  using assms by (rule read_iter_progress)

theorem conf_read_progress_witness:
  "\<exists>r'. read_iter [10, 97, 61, 98, 10, 0] (initial_reader demo_conf demo_cstore) = Some r' \<and>
     progress [10, 97, 61, 98, 10, 0] r' < progress [10, 97, 61, 98, 10, 0] (initial_reader demo_conf demo_cstore)"
proof -
  let ?r = "initial_reader demo_conf demo_cstore" and ?B = "[10, 97, 61, 98, 10, 0] :: byte list"
  have "map_option bp (read_iter ?B ?r) = Some 1" by code_simp
  then obtain r' where r': "read_iter ?B ?r = Some r'" by auto
  have "\<not> BP_EOF_CHECK ?B (bp ?r)" by code_simp
  from conf_read_progress [OF r' this] r' show ?thesis by blast
qed

text \<open>C28. A file whose last line is a comment without a line end makes the parser read past its
  buffer.\<close>

theorem conf_read_open_comment:
  assumes "conf_at s cf []" and "\<forall>k. \<not> coom s k" and "\<forall>l \<in> set ls. line_ok l" and "\<forall>c \<in> set t. \<not> BP_EOL_CHECK c"
  shows "srvd_conf_file_read (file_text ls @ (ch_hash # t) @ [0]) cf s = None"
  using assms by (rule conf_file_read_open_comment)

theorem conf_read_open_comment_witness:
  "srvd_conf_file_read (file_text demo_lines @ (ch_hash # [120]) @ [0]) demo_conf demo_cstore = None"
  by (rule conf_read_open_comment) (simp_all add: BP_EOL_CHECK_def ch_defs)

text \<open>A name assigned nothing on a line makes the parser copy a value from a NULL pointer.\<close>

theorem conf_read_missing_value:
  assumes "conf_at s cf []" and "\<forall>k. \<not> coom s k" and "\<forall>l \<in> set ls. line_ok l" and "setting_ok nm sp1 sp2"
  shows "srvd_conf_file_read (file_text ls @ (nm @ sp1 @ [ch_eq] @ sp2 @ [ch_nl] @ post) @ [0]) cf s = None"
  using assms by (rule conf_file_read_missing_value)

theorem conf_read_missing_value_witness:
  "srvd_conf_file_read (file_text demo_lines @ ([97] @ [32] @ [ch_eq] @ [32] @ [ch_nl] @ [98]) @ [0]) demo_conf demo_cstore = None"
  by (rule conf_read_missing_value) (simp_all add: setting_ok_def BP_NAME_CHECK_def isalnum_def BP_SPACE_CHECK_def ch_defs)

section \<open>The item list\<close>

text \<open>Adding an item returns in every pattern of allocation failures. It succeeds exactly when no
  item has the name and all three allocations succeed; then the item, cut to the given lengths, is
  in front of the others. Otherwise the items are the same. Strings stored before stay in place.\<close>

theorem item_add_on_every_branch:
  assumes "conf_at s cf L" and "0 \<in> set name" and "0 < nlen" and "string_arg val vlen"
  shows "\<exists>cf' s' L'. srvd_conf_item_add (Some cf) (Some name) nlen (Some val) vlen s =
       Some (conf_map L (cstr name) = None \<and> conf_room s, Some cf', s') \<and> conf_at s' cf' L' \<and> keeps s s' \<and>
     conf_items L' = (if conf_map L (cstr name) = None \<and> conf_room s
       then (take (nlen - 1) (cstr name), take (vlen - 1) (cstr val)) # conf_items L else conf_items L)"
proof -
  obtain cf' s' L' where "srvd_conf_item_add (Some cf) (Some name) nlen (Some val) vlen s =
       Some (conf_map L (cstr name) = None \<and> conf_room s, Some cf', s')" "conf_at s' cf' L'" "keeps s s'"
    "conf_items L' = (if conf_map L (cstr name) = None \<and> conf_room s
       then (take (nlen - 1) (cstr name), take (vlen - 1) (cstr val)) # conf_items L else conf_items L)"
    by (rule item_add_spec [OF assms])
  then show ?thesis by blast
qed

theorem item_add_on_every_branch_witness:
  "\<exists>cf' s' L'. srvd_conf_item_add (Some \<lparr>conf_nodes = Some 0\<rparr>) (Some [99, 100, 0]) 2 (Some [101, 0]) 2 demo_cstore1 =
       Some (True, Some cf', s') \<and> conf_at s' cf' L' \<and> keeps demo_cstore1 s' \<and>
     conf_items L' = [([99], [101]), ([97], [98])]"
  using item_add_on_every_branch [OF demo_conf_at(2), of "[99, 100, 0]" 2 "[101, 0]" 2]
  by (simp add: string_arg_def conf_room_def)

text \<open>C29. Names and values given as literal strings: a value that was accepted stays. After any
  number of further additions, of whatever names and values and with whatever allocations failing,
  looking its name up returns it, and every one of the additions that gave the name again was
  refused.\<close>

theorem accepted_value_stays:
  assumes "conf_rep x m" and "0 \<notin> set k" and "0 \<notin> set v" and "conf_put k v x = Some (True, y)"
    and "\<forall>(k', w) \<in> set kvs. 0 \<notin> set k' \<and> 0 \<notin> set w"
  shows "\<exists>rs z. add_all conf_put kvs y = Some (rs, z) \<and> conf_lookup k z = Some (Some v) \<and> length rs = length kvs \<and>
     (\<forall>i < length kvs. fst (kvs ! i) = k \<longrightarrow> \<not> rs ! i)"
proof -
  from conf_table.add_law [OF assms(1-3)] assms(4) have y: "conf_rep y (m(k \<mapsto> v))" by auto
  from conf_table.value_survives_all [OF y assms(2) _ assms(5)] show ?thesis
    by (fastforce simp: list_all2_conv_all_nth split_beta)
qed

theorem accepted_value_stays_witness:
  "\<exists>y r z. conf_put [97] [98] (demo_conf, demo_cstore) = Some (True, y) \<and>
     add_all conf_put [([99], [100]), ([97], [101]), ([97], [98])] y = Some ([r, False, False], z) \<and>
     conf_lookup [97] z = Some (Some [98])"
proof -
  have rep: "conf_rep (demo_conf, demo_cstore) Map.empty" unfolding conf_rep_def by (auto intro!: exI [of _ "[]"])
  obtain y where y: "conf_put [97] [98] (demo_conf, demo_cstore) = Some (True, y)"
    using conf_table.add_law [OF rep, of "[97]" "[98]"] by (auto simp: conf_room_def)
  let ?kvs = "[([99], [100]), ([97], [101]), ([97], [98])] :: (byte list \<times> byte list) list"
  obtain rs z where z: "add_all conf_put ?kvs y = Some (rs, z)" "conf_lookup [97] z = Some (Some [98])"
      "length rs = length ?kvs" "\<forall>i < length ?kvs. fst (?kvs ! i) = [97] \<longrightarrow> \<not> rs ! i"
    using accepted_value_stays [OF rep _ _ y, of ?kvs] by auto
  from z(4) have "\<not> rs ! 1" "\<not> rs ! 2" by simp_all
  moreover from z(3) obtain a b c where "rs = [a, b, c]" by (auto simp: length_Suc_conv)
  ultimately have "rs = [a, False, False]" by simp
  with y z show ?thesis by blast
qed

text \<open>Clearing a configuration releases its nodes and its strings, each once, touches nothing
  else, and leaves it empty.\<close>

theorem conf_clear_releases_exactly:
  assumes "conf_at s cf L"
  shows "\<exists>s'. srvd_conf_clear (Some cf) s = Some (True, Some (cf\<lparr>conf_nodes := None\<rparr>), s') \<and>
     cnodes s' = cnodes s |` (- i_addr ` set L) \<and> cstrs s' = cstrs s |` (- set (concat (map item_strs L))) \<and>
     conf_at s' (cf\<lparr>conf_nodes := None\<rparr>) []"
  using conf_clear_spec [OF assms] by (simp add: drop_items_def)

theorem conf_clear_releases_exactly_witness:
  "\<exists>s'. srvd_conf_clear (Some \<lparr>conf_nodes = Some 0\<rparr>) demo_cstore1 = Some (True, Some demo_conf, s') \<and>
     cnodes s' = Map.empty \<and> cstrs s' = Map.empty"
  using conf_clear_releases_exactly [OF demo_conf_at(2)]
  by (auto simp: item_strs_def demo_cstore1_def restrict_map_def fun_eq_iff)

section \<open>The file and its cache\<close>

definition demo_fs :: fsys where
  "demo_fs = \<lparr>fs_fopen = (\<lambda>p. p = [47]), fs_stat = (\<lambda>p. if p = [47] then Some (length (file_text demo_lines), 7) else None),
     fs_fread = (\<lambda>p n. take n (file_text demo_lines))\<rparr>"

text \<open>A configuration file that has the path \<open>/\<close>, last read at time 6, and holds the item \<open>a = b\<close>.\<close>

definition demo_cstore2 :: conf_store where
  "demo_cstore2 = demo_cstore1\<lparr>cstrs := (cstrs demo_cstore1)(3 \<mapsto> [47, 0]), cbrk := 4\<rparr>"

definition demo_file :: "int \<Rightarrow> conf_file" where
  "demo_file t = \<lparr>cf_conf = \<lparr>conf_nodes = Some 0\<rparr>, updated = True, updated_time = t, cf_path = Some 3\<rparr>"

lemma demo_holds [simp]: "holds_file demo_fs [47] demo_lines 7"
  by (simp add: holds_file_def demo_fs_def) (simp add: demo_lines_def file_text_def)

lemma demo_file_at [simp]: "file_at demo_cstore2 (demo_file t) [47] demo_items"
  by (auto simp: file_at_def exact_def conf_at_def cstore_ok_def item_is_def item_strs_def demo_cstore2_def demo_cstore1_def demo_file_def)

lemma demo_coom2 [simp]: "coom demo_cstore2 k = False"
  by (simp add: demo_cstore2_def)

text \<open>Reading a configuration file whose contents follow the grammar replaces the items by those
  of the file and remembers the time of its last change, whatever items were there before.\<close>

theorem conf_parse_replaces_items:
  assumes "file_at s f path L" and "\<forall>k. \<not> coom s k" and "holds_file fs path ls mt"
  shows "\<exists>f' s' L'. srvd_conf_file_parse (Some f) fs s = Some (True, Some f', s') \<and> file_at s' f' path L' \<and>
     conf_items L' = rev (file_items ls) \<and> updated f' \<and> updated_time f' = mt"
proof -
  obtain f' s' L' where "srvd_conf_file_parse (Some f) fs s = Some (True, Some f', s')" "file_at s' f' path L'"
    "conf_items L' = rev (file_items ls)" "updated f'" "updated_time f' = mt"
    by (rule conf_file_parse_spec [OF assms])
  then show ?thesis by blast
qed

theorem conf_parse_replaces_items_witness:
  "\<exists>f' s' L'. srvd_conf_file_parse (Some (demo_file 6)) demo_fs demo_cstore2 = Some (True, Some f', s') \<and>
     file_at s' f' [47] L' \<and> conf_items L' = rev (file_items demo_lines) \<and> updated f' \<and> updated_time f' = 7"
  by (rule conf_parse_replaces_items [OF demo_file_at]) simp_all

text \<open>When the file cannot be opened, has no status, is empty or is read short, or its buffer
  cannot be allocated, reading it fails and the configuration keeps every item it has.\<close>

theorem conf_parse_failure_keeps_items:
  assumes "file_at s f path L"
    and "\<not> fs_fopen fs path \<or> fs_stat fs path = None \<or> (\<exists>sz mt. fs_stat fs path = Some (sz, mt) \<and>
      (sz = 0 \<or> coom s (cbrk s) \<or> length (fs_fread fs path sz) \<noteq> sz))"
  shows "\<exists>s'. srvd_conf_file_parse (Some f) fs s = Some (False, Some f, s') \<and> file_at s' f path L"
proof -
  from assms(1) obtain p bs where p: "cf_path f = Some p" "cstrs s p = Some bs" "cstr bs = path" by (auto simp: file_at_def)
  have later: "file_at (s\<lparr>cbrk := Suc (cbrk s)\<rparr>) f path L"
    using assms(1) conf_at_bump [of s "cf_conf f" L 1] by (auto simp: file_at_def)
  have path: "rd_cstr (cf_path f) s = Some bs" using p by (simp add: rd_cstr_def)
  show ?thesis using assms p(3) path later by (auto simp: srvd_conf_file_parse_def Let_def split: option.splits)
qed

theorem conf_parse_failure_keeps_items_witness:
  "\<exists>s'. srvd_conf_file_parse (Some (demo_file 6)) (demo_fs\<lparr>fs_fread := \<lambda>_ _. []\<rparr>) demo_cstore2 =
       Some (False, Some (demo_file 6), s') \<and> file_at s' (demo_file 6) [47] demo_items"
  by (rule conf_parse_failure_keeps_items [OF demo_file_at]) (simp add: demo_fs_def demo_lines_def file_text_def)



end
