(* ===== verification/Socket.thy ===== *)
theory Socket
  imports Prelude
begin

text \<open>
  The system calls on sockets that the program makes, for one thread. A stream is the bytes its
  peer will have sent and those sent to it; a schedule says for each call how much of the data
  moves, or that the call fails. A read at the end of the data answers 0. Every other call may fail
  too. Theorems hold for all schedules unless they say otherwise. A descriptor of -1 is \<open>None\<close>.
\<close>

type_synonym fd = "nat option"

record stream =
  inbox :: "byte list"
  outbox :: "byte list"
  sched :: "nat \<Rightarrow> nat \<Rightarrow> nat option"
  turn :: nat

record os =
  streams :: "nat \<rightharpoonup> stream"
  closed :: "nat \<rightharpoonup> stream"
  fd_brk :: nat
  peers :: "nat \<Rightarrow> stream"
  listening :: "byte list \<Rightarrow> bool"
  os_fails :: "nat \<Rightarrow> bool"
  os_calls :: nat

text \<open>\<open>read\<close> and \<open>write\<close>: \<open>None\<close> is the result -1.\<close>

definition os_read :: "fd \<Rightarrow> nat \<Rightarrow> os \<Rightarrow> byte list option \<times> os" where
  "os_read f n w = (case f of None \<Rightarrow> (None, w)
     | Some a \<Rightarrow> (case streams w a of None \<Rightarrow> (None, w)
       | Some s \<Rightarrow> (case sched s (turn s) n of
           None \<Rightarrow> (None, w\<lparr>streams := (streams w)(a \<mapsto> s\<lparr>turn := Suc (turn s)\<rparr>)\<rparr>)
         | Some m \<Rightarrow> let k = min m n in
             (Some (take k (inbox s)),
              w\<lparr>streams := (streams w)(a \<mapsto> s\<lparr>inbox := drop k (inbox s), turn := Suc (turn s)\<rparr>)\<rparr>))))"

definition os_write :: "fd \<Rightarrow> byte list \<Rightarrow> os \<Rightarrow> nat option \<times> os" where
  "os_write f bs w = (case f of None \<Rightarrow> (None, w)
     | Some a \<Rightarrow> (case streams w a of None \<Rightarrow> (None, w)
       | Some s \<Rightarrow> (case sched s (turn s) (length bs) of
           None \<Rightarrow> (None, w\<lparr>streams := (streams w)(a \<mapsto> s\<lparr>turn := Suc (turn s)\<rparr>)\<rparr>)
         | Some m \<Rightarrow> let k = min m (length bs) in
             (Some k,
              w\<lparr>streams := (streams w)(a \<mapsto> s\<lparr>outbox := outbox s @ take k bs, turn := Suc (turn s)\<rparr>)\<rparr>))))"

text \<open>The calls that create descriptors: \<open>socket\<close> and \<open>accept\<close>.\<close>

definition os_socket :: "os \<Rightarrow> fd \<times> os" where
  "os_socket w = (let w' = w\<lparr>os_calls := Suc (os_calls w)\<rparr>; a = fd_brk w in
     if os_fails w (os_calls w) then (None, w')
     else (Some a, w'\<lparr>fd_brk := Suc a, streams := (streams w)(a \<mapsto> peers w a)\<rparr>))"

definition os_accept :: "fd \<Rightarrow> os \<Rightarrow> fd \<times> os" where
  "os_accept f w = (case f of None \<Rightarrow> (None, w)
     | Some a \<Rightarrow> if streams w a = None then (None, w) else os_socket w)"

text \<open>The calls that only succeed or fail: \<open>connect\<close>, \<open>bind\<close>, \<open>listen\<close>, \<open>close\<close>.\<close>

definition os_control :: "fd \<Rightarrow> os \<Rightarrow> bool \<times> os" where
  "os_control f w = (case f of None \<Rightarrow> (False, w)
     | Some a \<Rightarrow> if streams w a = None then (False, w)
       else (\<not> os_fails w (os_calls w), w\<lparr>os_calls := Suc (os_calls w)\<rparr>))"

definition os_connect :: "fd \<Rightarrow> byte list \<Rightarrow> os \<Rightarrow> bool \<times> os" where
  "os_connect f path w = (let (ok, w) = os_control f w in (ok \<and> listening w path, w))"

definition os_close :: "fd \<Rightarrow> os \<Rightarrow> bool \<times> os" where
  "os_close f w = (let (ok, w') = os_control f w in
     (ok, if ok then w'\<lparr>streams := (streams w')(the f := None), closed := (closed w')(the f := streams w' (the f))\<rparr>
          else w'))"

text \<open>What was sent on a descriptor, whether it is still open or not.\<close>

definition sent :: "os \<Rightarrow> nat \<Rightarrow> byte list" where
  "sent w a = (case streams w a of Some s \<Rightarrow> outbox s
     | None \<Rightarrow> (case closed w a of Some s \<Rightarrow> outbox s | None \<Rightarrow> []))"

text \<open>A stream that moves all the data of every call.\<close>

definition smooth :: "stream \<Rightarrow> bool" where
  "smooth s \<longleftrightarrow> (\<forall>k n. sched s k n = Some n)"

lemma os_read_smooth:
  "streams w a = Some s \<Longrightarrow> smooth s \<Longrightarrow> os_read (Some a) n w =
     (Some (take n (inbox s)), w\<lparr>streams := (streams w)(a \<mapsto> s\<lparr>inbox := drop n (inbox s), turn := Suc (turn s)\<rparr>)\<rparr>)"
  by (simp add: os_read_def smooth_def Let_def)

lemma os_write_smooth:
  "streams w a = Some s \<Longrightarrow> smooth s \<Longrightarrow> os_write (Some a) bs w =
     (Some (length bs), w\<lparr>streams := (streams w)(a \<mapsto> s\<lparr>outbox := outbox s @ bs, turn := Suc (turn s)\<rparr>)\<rparr>)"
  by (simp add: os_write_def smooth_def Let_def)

text \<open>Reading and writing one stream leave the other streams and the rest of the system alone.\<close>

definition io_step :: "nat \<Rightarrow> os \<Rightarrow> os \<Rightarrow> bool" where
  "io_step a w w' \<longleftrightarrow> w' = w\<lparr>streams := streams w'\<rparr> \<and> (\<forall>b. b \<noteq> a \<longrightarrow> streams w' b = streams w b) \<and>
     (streams w' a = None \<longleftrightarrow> streams w a = None)"

lemma io_step_refl [simp]: "io_step a w w"
  by (simp add: io_step_def)

lemma io_step_trans: "io_step a w w1 \<Longrightarrow> io_step a w1 w2 \<Longrightarrow> io_step a w w2"
  by (cases w; cases w1; cases w2) (auto simp: io_step_def)

text \<open>Reading sends nothing.\<close>

definition reads_only :: "nat \<Rightarrow> os \<Rightarrow> os \<Rightarrow> bool" where
  "reads_only a w w' \<longleftrightarrow> io_step a w w' \<and> (\<forall>s. streams w a = Some s \<longrightarrow>
     (\<exists>s'. streams w' a = Some s' \<and> outbox s' = outbox s \<and> sched s' = sched s))"

lemma reads_only_refl [simp]: "reads_only a w w"
  by (simp add: reads_only_def)

lemma reads_only_trans: "reads_only a w w1 \<Longrightarrow> reads_only a w1 w2 \<Longrightarrow> reads_only a w w2"
  unfolding reads_only_def by (metis io_step_trans)

lemma os_read_step: "os_read (Some a) n w = (r, w') \<Longrightarrow> reads_only a w w'"
  by (auto simp: os_read_def io_step_def reads_only_def Let_def split: option.splits)

lemma os_write_step: "os_write (Some a) bs w = (r, w') \<Longrightarrow> io_step a w w'"
  by (auto simp: os_write_def io_step_def Let_def split: option.splits)
end
