(* ===== verification/Service.thy ===== *)
theory Service
  imports Packet
begin

text \<open>
  Requests and responses: \<open>lib/srvd/libsrvd/service.c\<close> up to the query, with the structs and
  codes of \<open>include/srvd/service.h\<close>. A request is its packet; a response is its packet and a
  status. The packets are members of these structs, so they are addressed like local packets.
\<close>

definition SRVD_PROTOCOL_STATUS :: u16 where "SRVD_PROTOCOL_STATUS = 65535"

definition SRVD_SERVICE_RESPONSE_SUCCESS :: u16 where "SRVD_SERVICE_RESPONSE_SUCCESS = 0"
definition SRVD_SERVICE_RESPONSE_FAIL :: u16 where "SRVD_SERVICE_RESPONSE_FAIL = 1"
definition SRVD_SERVICE_RESPONSE_NOTFOUND :: u16 where "SRVD_SERVICE_RESPONSE_NOTFOUND = 2"
definition SRVD_SERVICE_RESPONSE_UNAVAIL :: u16 where "SRVD_SERVICE_RESPONSE_UNAVAIL = 3"
definition SRVD_SERVICE_RESPONSE_UNKNOWN :: u16 where "SRVD_SERVICE_RESPONSE_UNKNOWN = 65535"

lemmas service_codes = SRVD_PROTOCOL_STATUS_def SRVD_SERVICE_RESPONSE_SUCCESS_def SRVD_SERVICE_RESPONSE_FAIL_def
  SRVD_SERVICE_RESPONSE_NOTFOUND_def SRVD_SERVICE_RESPONSE_UNAVAIL_def SRVD_SERVICE_RESPONSE_UNKNOWN_def

record request =
  q_packet :: ptr

record response =
  r_packet :: ptr
  r_status :: u16

text \<open>On the heap; the members of a new object are set by its initialiser before anything reads them.\<close>

definition srvd_service_request_allocate :: "heap \<Rightarrow> request option \<times> heap" where
  "srvd_service_request_allocate h = (let (p, h) = malloc_packet h in
     (if p = None then None else Some \<lparr>q_packet = p\<rparr>, h))"

definition srvd_service_request_free :: "request option \<Rightarrow> heap \<Rightarrow> heap option" where
  "srvd_service_request_free request h = (case request of None \<Rightarrow> Some h | Some q \<Rightarrow> free_packet (q_packet q) h)"

definition srvd_service_response_allocate :: "heap \<Rightarrow> response option \<times> heap" where
  "srvd_service_response_allocate h = (let (p, h) = malloc_packet h in
     (if p = None then None else Some \<lparr>r_packet = p, r_status = 0\<rparr>, h))"

definition srvd_service_response_free :: "response option \<Rightarrow> heap \<Rightarrow> heap option" where
  "srvd_service_response_free response h = (case response of None \<Rightarrow> Some h | Some r \<Rightarrow> free_packet (r_packet r) h)"

definition srvd_service_request_initialize :: "request option \<Rightarrow> heap \<Rightarrow> (bool \<times> heap) option" where
  "srvd_service_request_initialize request h =
     (case request of None \<Rightarrow> Some (False, h)
      | Some q \<Rightarrow> do {
          (ok, h) \<leftarrow> srvd_protocol_packet_initialize (q_packet q) h;
          if \<not> ok then Some (False, h) else Some (True, h) })"

definition srvd_service_request_finalize :: "request option \<Rightarrow> heap \<Rightarrow> (bool \<times> heap) option" where
  "srvd_service_request_finalize request h =
     (case request of None \<Rightarrow> Some (False, h)
      | Some q \<Rightarrow> do {
          (ok, h) \<leftarrow> srvd_protocol_packet_finalize (q_packet q) h;
          if \<not> ok then Some (False, h) else Some (True, h) })"

definition srvd_service_response_initialize ::
    "response option \<Rightarrow> heap \<Rightarrow> (bool \<times> response option \<times> heap) option" where
  "srvd_service_response_initialize response h =
     (case response of None \<Rightarrow> Some (False, None, h)
      | Some r \<Rightarrow> let r = r\<lparr>r_status := SRVD_SERVICE_RESPONSE_UNKNOWN\<rparr> in do {
          (ok, h) \<leftarrow> srvd_protocol_packet_initialize (r_packet r) h;
          if \<not> ok then Some (False, Some r, h) else Some (True, Some r, h) })"

definition srvd_service_response_finalize ::
    "response option \<Rightarrow> heap \<Rightarrow> (bool \<times> response option \<times> heap) option" where
  "srvd_service_response_finalize response h =
     (case response of None \<Rightarrow> Some (False, None, h)
      | Some r \<Rightarrow> let r = r\<lparr>r_status := SRVD_SERVICE_RESPONSE_UNKNOWN\<rparr> in do {
          (ok, h) \<leftarrow> srvd_protocol_packet_finalize (r_packet r) h;
          if \<not> ok then Some (False, Some r, h) else Some (True, Some r, h) })"

text \<open>Variables of these types on the stack of a function: their packet lives until it returns.\<close>

definition local_request :: "heap \<Rightarrow> request \<times> heap" where
  "local_request h = (let (p, h) = local_packet h in (\<lparr>q_packet = p\<rparr>, h))"

definition local_response :: "heap \<Rightarrow> response \<times> heap" where
  "local_response h = (let (p, h) = local_packet h in (\<lparr>r_packet = p, r_status = 0\<rparr>, h))"

definition end_local :: "ptr \<Rightarrow> heap \<Rightarrow> heap option" where
  "end_local p h = free_packet p h"

end
