(* ===== verification/Unsock_Server.thy ===== *)
theory Unsock_Server
  imports Socket Service Serial Registry CString
begin

text \<open>
  The server on a UNIX domain socket: \<open>lib/srvd/libsrvd/server/unsock.c\<close>. A handler is a
  function of the application: it gets the request, the response and the memory, and answers with
  the response and memory it leaves, or \<open>None\<close> if it misbehaves.
\<close>

type_synonym handler = "request \<Rightarrow> response \<Rightarrow> heap \<Rightarrow> (response \<times> heap) option"

text \<open>The length of \<open>sun_path\<close>, on Linux.\<close>

definition SUN_PATH_LENGTH :: nat where "SUN_PATH_LENGTH = 108"

record server_conf =
  cf_socket_path :: "byte list option"
  queue_size :: nat

record server_unsock =
  monitor :: server
  s_conf :: server_conf
  endpoint :: "byte list"
  s_socket :: fd

definition srvd_server_unsock_initialize ::
    "server_unsock option \<Rightarrow> server_conf option \<Rightarrow> os \<Rightarrow> (bool \<times> server_unsock option \<times> os) option" where
  "srvd_server_unsock_initialize server conf w =
     (case server of None \<Rightarrow> Some (False, None, w)
      | Some sv \<Rightarrow> (case conf of None \<Rightarrow> Some (False, server, w)
        | Some c \<Rightarrow> (case cf_socket_path c of None \<Rightarrow> Some (False, server, w)
          | Some path \<Rightarrow>
            let (ok, m) = srvd_server_initialize (Some (monitor sv)) in
            if \<not> ok then Some (False, Some (sv\<lparr>monitor := the m\<rparr>), w)
            else do {
              sun_path \<leftarrow> copy_terminated SUN_PATH_LENGTH (Some path);
              let (s, w) = os_socket w;
              let sv = sv\<lparr>monitor := the m, s_conf := c, endpoint := sun_path, s_socket := s\<rparr>;
              Some (s \<noteq> None, Some sv, w) })))"

text \<open>The test is the one the code has: it refuses a server that is not executing.\<close>

definition srvd_server_unsock_finalize ::
    "server_unsock option \<Rightarrow> 'h node_store \<Rightarrow> (bool \<times> server_unsock option \<times> 'h node_store) option" where
  "srvd_server_unsock_finalize server ns =
     (case server of None \<Rightarrow> Some (False, None, ns)
      | Some sv \<Rightarrow>
        if \<not> executing (monitor sv) then Some (False, Some sv, ns)
        else do {
          (ok, m, ns) \<leftarrow> srvd_server_finalize (Some (monitor sv)) ns;
          Some (ok, Some (sv\<lparr>monitor := the m\<rparr>), ns) })"

section \<open>One packet in, one packet out\<close>

text \<open>A serial record on the stack, before it is initialised.\<close>

definition local_serial :: serial where
  "local_serial = \<lparr>s_size = 0, s_body_size = 0, s_field_count = 0, s_data = None\<rparr>"

text \<open>The end of both functions: the serial record is finalised and the body, if any, freed.\<close>

definition read_cleanup :: "bool \<Rightarrow> serial option \<Rightarrow> ptr \<Rightarrow> heap \<Rightarrow> os \<Rightarrow> (bool \<times> heap \<times> os) option" where
  "read_cleanup status serial body h w = do {
     (_, _, h) \<leftarrow> srvd_protocol_serial_packet_finalize serial h;
     h \<leftarrow> (if body \<noteq> None then free_block body h else Some h);
     Some (status, h, w) }"

text \<open>From the header on: the body is read into a buffer of the size the header announces.\<close>

definition read_body :: "fd \<Rightarrow> ptr \<Rightarrow> serial \<Rightarrow> heap \<Rightarrow> os \<Rightarrow> (bool \<times> heap \<times> os) option" where
  "read_body from packet s h w =
     (let (body, h) = malloc_block (s_body_size s) h in
      if body = None then read_cleanup False (Some s) None h w
      else
        let (result, w) = os_read from (s_body_size s) w in
        case result of None \<Rightarrow> read_cleanup False (Some s) body h w
        | Some bs \<Rightarrow> do {
            h \<leftarrow> wr_block body 0 bs h;
            if length bs \<noteq> s_body_size s then read_cleanup False (Some s) body h w
            else do {
              bytes \<leftarrow> rd_block body 0 (s_body_size s) h;
              (ok, h) \<leftarrow> srvd_protocol_serial_packet_unserialize_body (Some s) packet bytes h;
              read_cleanup ok (Some s) body h w } })"

definition srvd_server_unsock_read :: "fd \<Rightarrow> ptr \<Rightarrow> heap \<Rightarrow> os \<Rightarrow> (bool \<times> heap \<times> os) option" where
  "srvd_server_unsock_read from packet h w =
     (let (_, serial) = srvd_protocol_serial_packet_initialize (Some local_serial);
          (result, w) = os_read from SRVD_PROTOCOL_SERIAL_PACKET_HEADER_SIZE w in
      case result of None \<Rightarrow> read_cleanup False serial None h w
      | Some header \<Rightarrow>
        if length header \<noteq> SRVD_PROTOCOL_SERIAL_PACKET_HEADER_SIZE then read_cleanup False serial None h w
        else do {
          (ok, serial) \<leftarrow> srvd_protocol_serial_packet_unserialize_header serial packet (Some header);
          if \<not> ok then read_cleanup False serial None h w
          else read_body from packet (the serial) h w })"

definition srvd_server_unsock_write :: "fd \<Rightarrow> ptr \<Rightarrow> heap \<Rightarrow> os \<Rightarrow> (bool \<times> heap \<times> os) option" where
  "srvd_server_unsock_write to packet h w =
     (let (_, serial) = srvd_protocol_serial_packet_initialize (Some local_serial) in do {
        (ok, serial, h) \<leftarrow> srvd_protocol_serial_packet_serialize serial packet h;
        let s = the serial;
        if \<not> ok then read_cleanup False serial None h w
        else do {
          bytes \<leftarrow> rd_block (s_data s) 0 (s_size s) h;
          let (result, w) = os_write to bytes w;
          read_cleanup (result = Some (s_size s)) serial None h w } })"

section \<open>The loop\<close>

text \<open>Finding the handler, running it and adding the status.\<close>

definition respond :: "server_unsock \<Rightarrow> handler node_store \<Rightarrow> u16 \<Rightarrow> request \<Rightarrow> response \<Rightarrow> heap \<Rightarrow> (response \<times> heap) option" where
  "respond sv ns ty q r h = do {
     (found, handler) \<leftarrow> srvd_server_service_get (Some (monitor sv)) ty (Some None) ns;
     (case (found, handler) of (True, Some (Some run)) \<Rightarrow> do {
         (r, h) \<leftarrow> run q r h;
         (_, h) \<leftarrow> srvd_protocol_packet_field_insert_uint16 (r_packet r) SRVD_PROTOCOL_STATUS (r_status r) h;
         Some (r, h) }
     | _ \<Rightarrow> do {
         (_, h) \<leftarrow> srvd_protocol_packet_field_insert_uint16 (r_packet r) SRVD_PROTOCOL_STATUS
           SRVD_SERVICE_RESPONSE_UNAVAIL h;
         Some (r, h) }) }"

text \<open>What happens to one accepted client, between initialising and finalising the packets.\<close>

definition answer_client ::
    "server_unsock \<Rightarrow> handler node_store \<Rightarrow> fd \<Rightarrow> request \<Rightarrow> response \<Rightarrow> heap \<Rightarrow> os \<Rightarrow> (response \<times> heap \<times> os) option" where
  "answer_client sv ns client q r h w = do {
     (ok, h, w) \<leftarrow> srvd_server_unsock_read client (q_packet q) h w;
     if \<not> ok then Some (r, h, w)
     else do {
       (ok, field) \<leftarrow> srvd_protocol_packet_field_get_first (q_packet q) (Some None) h;
       if \<not> ok then Some (r, h, w)
       else do {
         f \<leftarrow> rd_field (the field) h;
         (r, h) \<leftarrow> respond sv ns (f_type f) q r h;
         (_, h, w) \<leftarrow> srvd_server_unsock_write client (r_packet r) h w;
         Some (r, h, w) } } }"

text \<open>One turn of the loop: accept, answer, finalise, close.\<close>

definition execute_turn :: "server_unsock \<Rightarrow> handler node_store \<Rightarrow> heap \<times> os \<Rightarrow> (heap \<times> os) option" where
  "execute_turn sv ns hw =
     (let (h, w) = hw; (client, w) = os_accept (s_socket sv) w in
      if client = None then Some (h, w)
      else let (q, h) = local_request h; (r, h) = local_response h in do {
        (_, h) \<leftarrow> srvd_service_request_initialize (Some q) h;
        (_, r, h) \<leftarrow> srvd_service_response_initialize (Some r) h;
        (r, h, w) \<leftarrow> answer_client sv ns client q (the r) h w;
        (_, h) \<leftarrow> srvd_service_request_finalize (Some q) h;
        (_, r, h) \<leftarrow> srvd_service_response_finalize (Some r) h;
        let (_, w) = os_close client w;
        h \<leftarrow> end_local (q_packet q) h;
        h \<leftarrow> end_local (r_packet (the r)) h;
        Some (h, w) })"

text \<open>
  The loop is never left, so what the program does is its state after each number of turns. Before
  the loop the function may return, and leaves the server marked as executing.
\<close>

fun execute_turns :: "nat \<Rightarrow> server_unsock \<Rightarrow> handler node_store \<Rightarrow> heap \<times> os \<Rightarrow> (heap \<times> os) option" where
  "execute_turns 0 sv ns hw = Some hw"
| "execute_turns (Suc n) sv ns hw = do { hw \<leftarrow> execute_turn sv ns hw; execute_turns n sv ns hw }"

datatype execution = Returned bool "server_unsock option" os | Serving server_unsock heap os

definition srvd_server_unsock_execute ::
    "nat \<Rightarrow> server_unsock option \<Rightarrow> handler node_store \<Rightarrow> heap \<Rightarrow> os \<Rightarrow> execution option" where
  "srvd_server_unsock_execute n server ns h w =
     (case server of None \<Rightarrow> Some (Returned False None w)
      | Some sv \<Rightarrow>
        let sv = sv\<lparr>monitor := (monitor sv)\<lparr>executing := True\<rparr>\<rparr>;
            (bound, w) = os_control (s_socket sv) w in
        if \<not> bound then Some (Returned False (Some sv) w)
        else let (listens, w) = os_control (s_socket sv) w in
          if \<not> listens then Some (Returned False (Some sv) w)
          else map_option (\<lambda>(h, w). Serving sv h w) (execute_turns n sv ns (h, w)))"

end
