(* ===== verification/Unserialize_Frame.thy ===== *)
theory Unserialize_Frame
  imports Unserialize_Refine Typed_Refine
begin

text \<open>
  What unserialising leaves alone: objects that are not part of the packet it writes to keep their
  contents, whatever the bytes are and whichever allocations fail. Together with the laws of
  \<open>follows\<close> this lets other packets be kept beside the one that is received.
\<close>

definition within :: "heap \<Rightarrow> addr \<Rightarrow> ftree list \<Rightarrow> heap \<Rightarrow> bool" where
  "within h p T h' \<longleftrightarrow> modifies {p} (f_addr ` set T) (set (own_ents T)) (set (own_blks T)) h h'"

text \<open>A packet that only gained new objects.\<close>

definition grown :: "heap \<Rightarrow> ftree list \<Rightarrow> ftree list \<Rightarrow> bool" where
  "grown h T U \<longleftrightarrow> f_addr ` set U \<subseteq> f_addr ` set T \<union> {brk h..} \<and> set (own_ents U) \<subseteq> set (own_ents T) \<union> {brk h..} \<and>
     set (own_blks U) \<subseteq> set (own_blks T) \<union> {brk h..}"

lemma within_refl: "heap_ok h \<Longrightarrow> within h p T h"
  by (simp add: within_def modifies_refl)

lemma within_trans:
  assumes "within h p T h1" and "grown h T U" and "within h1 p U h2"
  shows "within h p T h2"
proof -
  let ?N = "{brk h..}"
  have "modifies ({p} \<union> ?N) (f_addr ` set T \<union> ?N) (set (own_ents T) \<union> ?N) (set (own_blks T) \<union> ?N) h h1"
    using assms(1) unfolding within_def by (rule modifies_mono) auto
  moreover have "modifies ({p} \<union> ?N) (f_addr ` set T \<union> ?N) (set (own_ents T) \<union> ?N) (set (own_blks T) \<union> ?N) h1 h2"
    using assms(3) unfolding within_def by (rule modifies_mono) (use assms(2) in \<open>auto simp: grown_def\<close>)
  ultimately have "modifies ({p} \<union> ?N) (f_addr ` set T \<union> ?N) (set (own_ents T) \<union> ?N) (set (own_blks T) \<union> ?N) h h2"
    by (rule modifies_trans)
  then show ?thesis unfolding within_def by (rule modifies_weaken_new) auto
qed

lemma within_smaller:
  "modifies P F E B h h' \<Longrightarrow> P \<subseteq> {p} \<Longrightarrow> F \<subseteq> f_addr ` set T \<Longrightarrow> E \<subseteq> set (own_ents T) \<Longrightarrow> B \<subseteq> set (own_blks T) \<Longrightarrow>
     within h p T h'"
  unfolding within_def by (rule modifies_mono)

text \<open>The store determines the packet it holds.\<close>

lemma dlseg_unique:
  "dlseg nx pv m bk q xs None z \<Longrightarrow> dlseg nx pv m bk' q ys None z' \<Longrightarrow> xs = ys"
proof (induction xs arbitrary: bk bk' q ys)
  case Nil
  then show ?case by (cases ys) auto
next
  case (Cons x xs)
  then show ?case by (cases ys) fastforce+
qed

lemma entry_ok_unique: "entry_ok h e \<Longrightarrow> entry_ok h e' \<Longrightarrow> e_addr e = e_addr e' \<Longrightarrow> e = e'"
  by (cases e; cases e') (auto simp: entry_ok_def split: option.splits)

lemma map_fst_unique:
  "map fst xs = map fst ys \<Longrightarrow> (\<And>x y. x \<in> set xs \<Longrightarrow> y \<in> set ys \<Longrightarrow> fst x = fst y \<Longrightarrow> x = y) \<Longrightarrow> xs = ys"
proof (induction xs arbitrary: ys)
  case (Cons x xs)
  then show ?case by (cases ys) auto
qed simp

lemma field_ok_unique:
  assumes "field_ok h t" and "field_ok h u" and "f_addr t = f_addr u"
  shows "t = u"
proof -
  from assms obtain f where f: "flds h (f_addr t) = Some (Some f)" "f_type f = f_ty t" "f_type f = f_ty u"
    "dlseg e_next e_previous (ents h) None (entry_head f) (map e_addr (f_ents t)) None (entry_tail f)"
    "dlseg e_next e_previous (ents h) None (entry_head f) (map e_addr (f_ents u)) None (entry_tail f)"
    unfolding field_ok_def by auto
  have "f_ents t = f_ents u"
  proof (rule map_fst_unique [OF dlseg_unique [OF f(4,5)]])
    fix x y assume "x \<in> set (f_ents t)" "y \<in> set (f_ents u)" "e_addr x = e_addr y"
    with assms(1,2) show "x = y" unfolding field_ok_def by (blast intro: entry_ok_unique)
  qed
  with f assms(3) show ?thesis by (cases t; cases u) auto
qed

lemma packet_at_unique:
  assumes "packet_at lk h p T" and "packet_at lk' h p U"
  shows "T = U"
proof -
  from assms(1) obtain k where k: "pkts h p = Some (Some k)"
    "dlseg f_next f_previous (flds h) None (field_head k) (map f_addr T) None (field_tail k)" unfolding packet_at_def by blast
  from assms(2) obtain k' where k': "pkts h p = Some (Some k')"
    "dlseg f_next f_previous (flds h) None (field_head k') (map f_addr U) None (field_tail k')" unfolding packet_at_def by blast
  from k(1) k'(1) have "k' = k" by simp
  show ?thesis
  proof (rule map_fst_unique [OF dlseg_unique [OF k(2) k'(2) [unfolded \<open>k' = k\<close>]]])
    fix x y assume "x \<in> set T" "y \<in> set U" "f_addr x = f_addr y"
    with assms show "x = y" unfolding packet_at_def by (blast intro: field_ok_unique)
  qed
qed

lemma packet_at_finalizes: "packet_at Unlocked h p T \<Longrightarrow> srvd_protocol_packet_finalize (Some p) h \<noteq> None"
  by (simp add: packet_finalize_spec)

lemma grown_refl: "grown h T T"
  by (simp add: grown_def)

lemma grown_trans: "grown h T U \<Longrightarrow> brk h \<le> brk h1 \<Longrightarrow> grown h1 U V \<Longrightarrow> grown h T V"
proof -
  assume a: "grown h T U" and b: "brk h \<le> brk h1" and c: "grown h1 U V"
  have step: "X \<subseteq> Z \<union> {brk h..}" if "X \<subseteq> Y \<union> {brk h1..}" "Y \<subseteq> Z \<union> {brk h..}" for X Y Z :: "nat set"
  proof
    fix x assume "x \<in> X"
    with that(1) consider "x \<in> Y" | "brk h1 \<le> x" by auto
    then show "x \<in> Z \<union> {brk h..}" using that(2) b by cases auto
  qed
  from a c show ?thesis unfolding grown_def by (elim conjE, intro conjI) (rule step, assumption, assumption)+
qed

lemma within_brk: "within h p T h' \<Longrightarrow> brk h \<le> brk h'"
  by (simp add: within_def modifies_def)

lemma release_field_within:
  assumes ok: "heap_ok h" and at: "packet_at lk h p T" and t: "t \<in> set T" and run: "release_field (f_addr t) h = Some h'"
  shows "within h p T h'"
proof -
  have "field_ok h t" using at t by (simp add: packet_at_def)
  from field_release_spec [OF this] run have h': "h' = drop_field t h" by simp
  have "modifies {} {f_addr t} (e_addr ` set (f_ents t)) (set (entry_blks (f_ents t))) h h'"
    using ok unfolding h' by (auto simp: modifies_def heap_ok_def drop_field_def drop_ents_def restrict_map_def)
  moreover have "e_addr ` set (f_ents t) \<subseteq> set (own_ents T)" "set (entry_blks (f_ents t)) \<subseteq> set (own_blks T)"
    using t by (auto simp: own_ents_def own_blks_def)
  ultimately show ?thesis by (intro within_smaller) (use t in auto)
qed

section \<open>Entries\<close>

definition fresh_entry :: "heap \<Rightarrow> etree \<Rightarrow> bool" where
  "fresh_entry h e \<longleftrightarrow> brk h \<le> e_addr e \<and> (\<forall>b. e_blk e = Some b \<longrightarrow> brk h \<le> b)"

lemma grown_fresh: "\<forall>e \<in> set es'. fresh_entry h e \<Longrightarrow> grown h (T1 @ (a, ty, es) # T2) (T1 @ (a, ty, es @ es') # T2)"
  by (induction es') (auto simp: grown_def fresh_entry_def entry_blks_def split: option.splits)

lemma unserialize_entries_within:
  assumes "heap_ok h" and "packet_at Unlocked h p (T1 @ (a, ty, es) # T2)" and "sz \<le> length body"
    and "unserialize_entries n sz body (Some a) off h = Some (r, h')"
  shows "within h p (T1 @ (a, ty, es) # T2) h' \<and> (case r of None \<Rightarrow> srvd_protocol_packet_finalize (Some p) h' = None
     | Some _ \<Rightarrow> \<exists>es'. (\<forall>e \<in> set es'. fresh_entry h e) \<and> heap_ok h' \<and> packet_at Unlocked h' p (T1 @ (a, ty, es @ es') # T2))"
  using assms
proof (induction n arbitrary: h es off)
  case 0
  then have "within h p (T1 @ (a, ty, es) # T2) h'" "r = Some off" "h' = h" by (auto simp: within_refl)
  with 0 show ?case by (auto intro!: exI [of _ "[]"])
next
  case (Suc n)
  note ok = Suc.prems(1) and at = Suc.prems(2) and run = Suc.prems(4)
  have rejected: "within h1 p (T1 @ (a, ty, es1) # T2) h' \<and> r = None \<and> srvd_protocol_packet_finalize (Some p) h' = None"
    if "heap_ok h1" "packet_at Unlocked h1 p (T1 @ (a, ty, es1) # T2)" "map_option (Pair None) (release_field a h1) = Some (r, h')"
    for h1 es1
    using release_field_within [OF that(1,2), of "(a, ty, es1)"] packet_finalize_dangling [OF that(2), of "(a, ty, es1)"] that(3)
    by auto
  from run obtain z where z: "get16 body off = Some z" by (auto elim: bind_SomeE)
  show ?case
  proof (cases "off + 2 + unat z > sz")
    case True
    with run z have "map_option (Pair None) (release_field a h) = Some (r, h')"
      by (simp add: serial_consts unserialize_entries_reject)
    from rejected [OF ok at this] show ?thesis by simp
  next
    case fits: False
    let ?data = "Some (drop (off + 2) body)"
    show ?thesis
    proof (cases "z = 0")
      case True
      with run z fits have "map_option (Pair None) (release_field a h) = Some (r, h')"
        by (simp add: serial_consts unserialize_entries_reject field_entry_bad_payload)
      from rejected [OF ok at this] show ?thesis by simp
    next
      case False
      have pay: "payload_ok z ?data" using fits False Suc.prems(3) by auto
      obtain q h1 es1 where add: "srvd_protocol_packet_field_entry_add (Some a) z ?data h = Some (q, h1)"
        and m: "modifies {} {a} (e_addr ` set es) {} h h1" and at1: "packet_at Unlocked h1 p (T1 @ (a, ty, es1) # T2)"
        and es1: "if q then (\<exists>e. es1 = es @ [e] \<and> fresh_entry h e) else es1 = es"
        by (rule entry_add_in_packet [OF ok at pay]) (auto simp: fresh_entry_def split: if_splits)
      have run': "(if q then unserialize_entries n sz body (Some a) (off + 2 + unat z) h1
           else map_option (Pair None) (release_field a h1)) = Some (r, h')"
        using run z fits add by (cases q) (simp_all add: serial_consts add.assoc flip: unserialize_entries_reject)
      have first: "within h p (T1 @ (a, ty, es) # T2) h1" using m by (rule within_smaller) auto
      have grown: "grown h (T1 @ (a, ty, es) # T2) (T1 @ (a, ty, es1) # T2)"
        using es1 grown_fresh [of _ h T1 a ty es T2] grown_fresh [of "[]" h T1 a ty es T2] by (cases q) auto
      show ?thesis
      proof (cases q)
        case True
        with es1 obtain e where e: "es1 = es @ [e]" "fresh_entry h e" by auto
        have IH: "within h1 p (T1 @ (a, ty, es1) # T2) h' \<and> (case r of None \<Rightarrow> srvd_protocol_packet_finalize (Some p) h' = None
            | Some _ \<Rightarrow> \<exists>es'. (\<forall>e \<in> set es'. fresh_entry h1 e) \<and> heap_ok h' \<and>
                packet_at Unlocked h' p (T1 @ (a, ty, es1 @ es') # T2))"
          using Suc.IH [OF modifies_heap_ok [OF m] at1 Suc.prems(3)] run' True by simp
        have later: "fresh_entry h x" if "fresh_entry h1 x" for x
          using that m by (auto simp: fresh_entry_def modifies_def)
        from IH first grown have "within h p (T1 @ (a, ty, es) # T2) h'" by (blast intro: within_trans)
        moreover have "\<exists>es'. (\<forall>e \<in> set es'. fresh_entry h e) \<and> heap_ok h' \<and>
            packet_at Unlocked h' p (T1 @ (a, ty, es @ es') # T2)" if "r = Some q'" for q'
        proof -
          from IH that obtain es' where "\<forall>e \<in> set es'. fresh_entry h1 e" "heap_ok h'"
            "packet_at Unlocked h' p (T1 @ (a, ty, es1 @ es') # T2)" by auto
          with e later show ?thesis by (intro exI [of _ "e # es'"]) auto
        qed
        ultimately show ?thesis using IH by (cases r) auto
      next
        case False
        with run' rejected [OF modifies_heap_ok [OF m] at1] first grown show ?thesis by (auto intro: within_trans)
      qed
    qed
  qed
qed

section \<open>Fields\<close>

lemma unserialize_fields_within:
  assumes "heap_ok h" and "packet_at Unlocked h p T" and "sz \<le> length body"
    and "unserialize_fields n sz body (Some p) off h = Some (r, h')"
  shows "within h p T h' \<and> (\<forall>U. packet_at Unlocked h' p U \<longrightarrow> grown h T U)"
  using assms
proof (induction n arbitrary: h T off)
  case 0
  then show ?case by (auto simp: within_refl grown_refl dest: packet_at_unique)
next
  case (Suc n)
  note ok = Suc.prems(1) and at = Suc.prems(2) and run = Suc.prems(4)
  show ?case
  proof (cases "h' = h")
    case True
    then show ?thesis using ok at by (auto simp: within_refl grown_refl dest: packet_at_unique)
  next
    case False
    with run obtain ty c where g: "off < sz" "get16 body off = Some ty" "get16 body (off + 2) = Some c"
        "\<not> off + 4 + unat c * 2 > sz"
      by (auto simp: serial_consts split: if_splits elim!: bind_SomeE)
    show ?thesis
    proof (rule get_or_add_target [OF ok at, of ty])
      fix h1
      assume "srvd_protocol_packet_field_get_or_add (Some p) ty (Some None) h = Some (False, Some None, h1)"
        and m: "modifies {p} (f_addr ` set T) {} {} h h1" and at1: "packet_at Unlocked h1 p T"
      with g run have "h' = h1" by (simp add: serial_consts)
      with m at1 show ?thesis by (auto simp: grown_refl dest: packet_at_unique intro: within_smaller)
    next
      fix a h1 T1 es T2
      assume go: "srvd_protocol_packet_field_get_or_add (Some p) ty (Some None) h = Some (True, Some (Some a), h1)"
        and at1: "packet_at Unlocked h1 p (T1 @ (a, ty, es) # T2)" and m: "modifies {p} (f_addr ` set T) {} {} h h1"
        and new: "T1 @ (a, ty, es) # T2 = T \<or> (T1 @ (a, ty, es) # T2 = T @ [(a, ty, [])] \<and> brk h \<le> a)"
      let ?U = "T1 @ (a, ty, es) # T2" and ?res = "unserialize_entries (unat c) sz body (Some a) (off + 4) h1"
      have first: "within h p T h1" using m by (rule within_smaller) auto
      have grown: "grown h T ?U" using new
      proof
        assume "?U = T @ [(a, ty, [])] \<and> brk h \<le> a"
        then have U: "?U = T @ [(a, ty, [])]" and a: "brk h \<le> a" by auto
        show ?thesis unfolding U grown_def using a by auto
      qed (auto simp: grown_def)
      from g run go obtain o2 h2 where res: "?res = Some (o2, h2)"
        and rest: "(case o2 of None \<Rightarrow> Some (False, h2) | Some p' \<Rightarrow> unserialize_fields n sz body (Some p) p' h2) = Some (r, h')"
        by (auto simp: serial_consts elim!: bind_SomeE)
      note ew = unserialize_entries_within [OF modifies_heap_ok [OF m] at1 Suc.prems(3) res]
      then have second: "within h1 p ?U h2" by blast
      have both: "within h p T h2" by (rule within_trans [OF first grown second])
      show ?thesis
      proof (cases o2)
        case None
        with rest have "h' = h2" by simp
        moreover from ew None have "srvd_protocol_packet_finalize (Some p) h2 = None" by simp
        ultimately show ?thesis using both packet_at_finalizes by blast
      next
        case (Some q)
        with ew obtain es' where at2: "heap_ok h2" "packet_at Unlocked h2 p (T1 @ (a, ty, es @ es') # T2)"
          and fresh: "\<forall>e \<in> set es'. fresh_entry h1 e" by auto
        let ?V = "T1 @ (a, ty, es @ es') # T2"
        have last: "within h2 p ?V h' \<and> (\<forall>U. packet_at Unlocked h' p U \<longrightarrow> grown h2 ?V U)"
          using Suc.IH [OF at2 Suc.prems(3)] rest Some by simp
        have "within h1 p ?U h'" using last by (intro within_trans [OF second grown_fresh [OF fresh]]) simp
        then have "within h p T h'" by (rule within_trans [OF first grown])
        moreover have "grown h T ?V" by (rule grown_trans [OF grown within_brk [OF first] grown_fresh [OF fresh]])
        then have "grown h T W" if "grown h2 ?V W" for W by (rule grown_trans [OF _ within_brk [OF both] that])
        ultimately show ?thesis using last by blast
      qed
    qed
  qed
qed

section \<open>The whole body\<close>

lemma unserialize_body_within:
  assumes "heap_ok h" and "packet_at Unlocked h p T" and "s_body_size s \<le> length body"
    and "srvd_protocol_serial_packet_unserialize_body (Some s) (Some p) body h = Some (r, h')"
  shows "within h p T h' \<and> (\<forall>U. packet_at Unlocked h' p U \<longrightarrow> grown h T U)"
  using unserialize_fields_within [OF assms(1-3)] assms(1,2,4)
  by (auto simp: srvd_protocol_serial_packet_unserialize_body_def within_refl grown_refl dest: packet_at_unique split: if_splits)

lemma within_empty: "within h p [] h' \<longleftrightarrow> modifies {p} {} {} {} h h'"
  by (simp add: within_def)

end
