(* ===== verification/Finalize_Mono.thy ===== *)
theory Finalize_Mono
  imports Unserialize_Frame
begin

text \<open>
  Finalising a packet cannot be rescued by freeing a data block first: if it goes wrong, it still
  goes wrong in the store with one block fewer.
\<close>

definition without_blk :: "addr \<Rightarrow> heap \<Rightarrow> heap" where
  "without_blk b h = h\<lparr>blks := (blks h)(b := None)\<rparr>"

lemma without_blk_simps [simp]:
  "ents (without_blk b h) = ents h" "flds (without_blk b h) = flds h" "pkts (without_blk b h) = pkts h"
  "brk (without_blk b h) = brk h" "oom (without_blk b h) = oom h" "blks (without_blk b h) = (blks h)(b := None)"
  by (simp_all add: without_blk_def)

text \<open>Updates of the other maps and releases of blocks commute with it.\<close>

lemma without_blk_upd:
  "put_entry q n (without_blk b h) = map_option (without_blk b) (put_entry q n h)"
  "put_field q f (without_blk b h) = map_option (without_blk b) (put_field q f h)"
  "put_packet q k (without_blk b h) = map_option (without_blk b) (put_packet q k h)"
  "free_entry q (without_blk b h) = map_option (without_blk b) (free_entry q h)"
  "free_field q (without_blk b h) = map_option (without_blk b) (free_field q h)"
  "rd_entry q (without_blk b h) = rd_entry q h" "rd_field q (without_blk b h) = rd_field q h"
  "rd_packet q (without_blk b h) = rd_packet q h"
  by (cases h; simp add: access_defs without_blk_def option.map_comp comp_def)+

lemma without_blk_free:
  "free_block q (without_blk b h) = Some h2 \<Longrightarrow> \<exists>h1. free_block q h = Some h1 \<and> h2 = without_blk b h1"
  by (cases q) (auto simp: free_block_def release_def without_blk_def fun_upd_twist split: if_splits)

lemma without_blk_modify:
  "upd_field q g (without_blk b h) = map_option (without_blk b) (upd_field q g h)"
  "upd_packet q g' (without_blk b h) = map_option (without_blk b) (upd_packet q g' h)"
  "with_entry_lock l q (without_blk b h) = map_option (without_blk b) (with_entry_lock l q h)"
  "with_field_lock l q (without_blk b h) = map_option (without_blk b) (with_field_lock l q h)"
  unfolding upd_field_def upd_packet_def with_entry_lock_def with_field_lock_def without_blk_upd
  by (auto split: Option.bind_splits)

lemma field_finalize_entries_mono:
  assumes "field_finalize_entries i h2 = Some r2" and "h2 = without_blk b h1"
  shows "\<exists>r1. field_finalize_entries i h1 = Some r1 \<and> r2 = without_blk b r1"
  using assms
proof (induction arbitrary: h1 rule: field_finalize_entries.raw_induct [rotated, consumes 1])
  case (1 run i h2 r2)
  show ?case
  proof (cases "i = None")
    case True
    with 1 show ?thesis by (subst field_finalize_entries.simps) auto
  next
    case False
    with 1(2) obtain n ha hb where n: "rd_entry i h2 = Some n"
        "(if e_data n \<noteq> None then free_block (e_data n) h2 else Some h2) = Some ha" "free_entry i ha = Some hb"
        "run (e_next n) hb = Some r2"
      by (auto elim!: bind_SomeE)
    obtain ha1 where ha1: "(if e_data n \<noteq> None then free_block (e_data n) h1 else Some h1) = Some ha1" "ha = without_blk b ha1"
      using n(2) "1.prems" without_blk_free [of "e_data n" b h1 ha] by (cases "e_data n") auto
    obtain hb1 where hb1: "free_entry i ha1 = Some hb1" "hb = without_blk b hb1"
      using n(3) ha1(2) by (auto simp: without_blk_upd)
    obtain r1 where "field_finalize_entries (e_next n) hb1 = Some r1" "r2 = without_blk b r1"
      using "1.IH" [OF n(4) hb1(2)] by blast
    then show ?thesis using False n(1) "1.prems" ha1 hb1
      by (subst field_finalize_entries.simps) (auto simp: without_blk_upd)
  qed
qed

lemma field_finalize_mono:
  assumes "srvd_protocol_packet_field_finalize q (without_blk b h1) = Some (r, h2)"
  shows "\<exists>h. srvd_protocol_packet_field_finalize q h1 = Some (r, h) \<and> h2 = without_blk b h"
proof (cases q)
  case (Some a)
  with assms obtain f ha where f: "rd_field q h1 = Some f" "field_finalize_entries (entry_head f) (without_blk b h1) = Some ha"
    by (auto simp: srvd_protocol_packet_field_finalize_def without_blk_upd elim!: bind_SomeE)
  from field_finalize_entries_mono [OF f(2) refl] obtain hb where
    hb: "field_finalize_entries (entry_head f) h1 = Some hb" "ha = without_blk b hb" by blast
  from assms Some f hb show ?thesis
    by (auto simp: srvd_protocol_packet_field_finalize_def without_blk_upd without_blk_modify Option.bind_map_option comp_def
        elim!: bind_SomeE)
qed (use assms in \<open>auto simp: srvd_protocol_packet_field_finalize_def\<close>)

lemma packet_finalize_fields_mono:
  assumes "packet_finalize_fields i h2 = Some r2" and "h2 = without_blk b h1"
  shows "\<exists>r1. packet_finalize_fields i h1 = Some r1 \<and> r2 = without_blk b r1"
  using assms
proof (induction arbitrary: h1 rule: packet_finalize_fields.raw_induct [rotated, consumes 1])
  case (1 run i h2 r2)
  show ?case
  proof (cases "i = None")
    case True
    with 1 show ?thesis by (subst packet_finalize_fields.simps) auto
  next
    case False
    with 1(2) obtain f r ha hb where f: "rd_field i h2 = Some f" "srvd_protocol_packet_field_finalize i h2 = Some (r, ha)"
        "srvd_protocol_packet_field_free i ha = Some hb" "run (f_next f) hb = Some r2"
      by (auto elim!: bind_SomeE)
    obtain ha1 where ha1: "srvd_protocol_packet_field_finalize i h1 = Some (r, ha1)" "ha = without_blk b ha1"
      using f(2) "1.prems" field_finalize_mono by blast
    obtain hb1 where hb1: "srvd_protocol_packet_field_free i ha1 = Some hb1" "hb = without_blk b hb1"
      using f(3) ha1(2) False by (auto simp: srvd_protocol_packet_field_free_def without_blk_upd)
    obtain r1 where "packet_finalize_fields (f_next f) hb1 = Some r1" "r2 = without_blk b r1"
      using "1.IH" [OF f(4) hb1(2)] by blast
    then show ?thesis using False f(1) "1.prems" ha1 hb1
      by (subst packet_finalize_fields.simps) (auto simp: without_blk_upd)
  qed
qed

lemma packet_finalize_mono:
  assumes "srvd_protocol_packet_finalize q h1 = None"
  shows "srvd_protocol_packet_finalize q (without_blk b h1) = None"
proof (rule ccontr)
  assume "srvd_protocol_packet_finalize q (without_blk b h1) \<noteq> None"
  then obtain r h2 where run: "srvd_protocol_packet_finalize q (without_blk b h1) = Some (r, h2)" by auto
  show False
  proof (cases "q = None")
    case False
    with run obtain k ha where k: "rd_packet q h1 = Some k" "packet_finalize_fields (field_head k) (without_blk b h1) = Some ha"
      by (auto simp: srvd_protocol_packet_finalize_def without_blk_upd elim!: bind_SomeE)
    from packet_finalize_fields_mono [OF k(2) refl] obtain hb where
      hb: "packet_finalize_fields (field_head k) h1 = Some hb" "ha = without_blk b hb" by blast
    from run False k hb assms show False
      by (auto simp: srvd_protocol_packet_finalize_def without_blk_upd without_blk_modify Option.bind_map_option comp_def
          elim!: bind_SomeE)
  qed (use assms in \<open>simp add: srvd_protocol_packet_finalize_def\<close>)
qed

end
