(* ===== verification/Packet_Held.thy ===== *)
theory Packet_Held
  imports Unserialize_Frame
begin

text \<open>
  Several packets in one store: a packet held within a set of addresses. Steps that stay outside
  the set keep the packet, finalising it stays within the set, and what an operation adds to it is
  new.
\<close>

definition held :: "addr set \<Rightarrow> heap \<Rightarrow> addr \<Rightarrow> spacket \<Rightarrow> bool" where
  "held A h p sp \<longleftrightarrow> (\<exists>T. packet_at Unlocked h p T \<and> abs_packet T = sp \<and>
     f_addr ` set T \<subseteq> A \<and> set (own_ents T) \<subseteq> A \<and> set (own_blks T) \<subseteq> A)"

lemma held_rep: "held A h p sp \<Longrightarrow> packet_rep h p sp"
  by (auto simp: held_def packet_rep_def)

lemma held_mono: "held A h p sp \<Longrightarrow> A \<subseteq> B \<Longrightarrow> held B h p sp"
  unfolding held_def by (elim exE, rule exI) (intro conjI; elim conjE; (assumption | rule order_trans, assumption, assumption))

lemma held_empty: "packet_at Unlocked h p [] \<Longrightarrow> held A h p []"
  by (auto simp: held_def intro!: exI [of _ "[]"])

lemma held_frame:
  assumes "modifies P F E B h h'" and "heap_ok h" and "held A h p sp" and "p \<notin> P" and "(F \<union> E \<union> B) \<inter> A = {}"
  shows "held A h' p sp"
proof -
  from assms(3) obtain T where T: "packet_at Unlocked h p T" "abs_packet T = sp" "f_addr ` set T \<subseteq> A"
    "set (own_ents T) \<subseteq> A" "set (own_blks T) \<subseteq> A" by (auto simp: held_def)
  have "packet_at Unlocked h' p T"
    by (rule packet_at_modifies [OF assms(1,2) T(1) assms(4)]) (use T assms(5) in blast)+
  with T show ?thesis by (auto simp: held_def)
qed

lemma held_grown:
  assumes "packet_at Unlocked h' p U" and "grown h T U" and "heap_ok h'"
    and "f_addr ` set T \<subseteq> A" and "set (own_ents T) \<subseteq> A" and "set (own_blks T) \<subseteq> A"
  shows "held (A \<union> {brk h..<brk h'}) h' p (abs_packet U)"
proof -
  note below = packet_at_below [OF assms(3,1)]
  have "X \<subseteq> A \<union> {brk h..<brk h'}" if "X \<subseteq> Y \<union> {brk h..}" "Y \<subseteq> A" "\<And>a. a \<in> X \<Longrightarrow> a < brk h'" for X Y
    using that by auto
  then show ?thesis using assms(1,2,4-6) below(2-4) unfolding grown_def held_def by (intro exI [of _ U]) blast
qed

lemma held_finalize:
  assumes "heap_ok h" and "held A h p sp"
  obtains h' where "srvd_protocol_packet_finalize (Some p) h = Some (True, h')"
    "modifies {p} A A A h h'" "brk h' = brk h" "pkts h' p \<noteq> None"
proof -
  from assms(2) obtain T where T: "packet_at Unlocked h p T" "f_addr ` set T \<subseteq> A" "set (own_ents T) \<subseteq> A" "set (own_blks T) \<subseteq> A"
    by (auto simp: held_def)
  let ?h = "drop_fields T h\<lparr>pkts := (pkts h)(p \<mapsto> Some dead_packet)\<rparr>"
  have p: "p < brk h" using packet_at_below [OF assms(1) T(1)] by simp
  have "modifies {p} (f_addr ` set T) (set (own_ents T)) (set (own_blks T)) h ?h"
    using assms(1) p by (auto simp: modifies_def heap_ok_def drop_fields_def restrict_map_def)
  then have "modifies {p} A A A h ?h" by (rule modifies_mono) (use T in auto)
  then show ?thesis by (intro that [OF packet_finalize_spec [OF T(1)]]) (auto simp: drop_fields_def)
qed

section \<open>Operations on a held packet\<close>

lemma create_grown:
  "adder.create_post h ty sz data T r h' U \<Longrightarrow> grown h T U"
  "injector.create_post h ty sz data T r h' U \<Longrightarrow> grown h T U"
  by (auto simp: adder.create_post_def injector.create_post_def grown_def split: if_splits option.splits)

lemma held_append:
  assumes "heap_ok h" and "held A h p sp" and "readable sz data"
  obtains r h' where "srvd_protocol_packet_field_append (Some p) ty sz data h = Some (r, h')"
    "held (A \<union> {brk h..<brk h'}) h' p (if r then sp @ [(ty, [payload sz data])] else sp)"
    "modifies {p} A {} {} h h'" "r \<longleftrightarrow> ty \<notin> fst ` set sp \<and> payload_ok sz data \<and> no_oom h h'"
proof -
  from assms(2) obtain T where T: "packet_at Unlocked h p T" "abs_packet T = sp" "f_addr ` set T \<subseteq> A"
    "set (own_ents T) \<subseteq> A" "set (own_blks T) \<subseteq> A" by (auto simp: held_def)
  show ?thesis
  proof (rule append_spec [OF assms(1) T(1) readable_cases [OF assms(3)], of ty])
    fix r h' U
    assume run: "srvd_protocol_packet_field_append (Some p) ty sz data h = Some (r, h')" "packet_at Unlocked h' p U"
      "modifies {p} (f_addr ` set T) {} {} h h'" and post: "adder.create_post h ty sz data T r h' U"
    have "abs_packet U = (if r then sp @ [(ty, [payload sz data])] else sp)"
      and r: "r \<longleftrightarrow> ty \<notin> fst ` set sp \<and> payload_ok sz data \<and> no_oom h h'"
      using post T(2) set_fst_abs [of T] by (auto simp: adder.create_post_def)
    with held_grown [OF run(2) create_grown(1) [OF post] modifies_heap_ok [OF run(3)] T(3-5)]
    show ?thesis by (intro that [OF run(1) _ modifies_mono [OF run(3)] r]) (use T(3) in simp_all)
  qed
qed

lemma held_insert:
  assumes "heap_ok h" and "held A h p sp" and "readable sz data"
  obtains r h' where "srvd_protocol_packet_field_insert (Some p) ty sz data h = Some (r, h')"
    "held (A \<union> {brk h..<brk h'}) h' p (if r then (ty, [payload sz data]) # sp else sp)"
    "modifies {p} A {} {} h h'" "r \<longleftrightarrow> ty \<notin> fst ` set sp \<and> payload_ok sz data \<and> no_oom h h'"
proof -
  from assms(2) obtain T where T: "packet_at Unlocked h p T" "abs_packet T = sp" "f_addr ` set T \<subseteq> A"
    "set (own_ents T) \<subseteq> A" "set (own_blks T) \<subseteq> A" by (auto simp: held_def)
  show ?thesis
  proof (rule insert_spec [OF assms(1) T(1) readable_cases [OF assms(3)], of ty])
    fix r h' U
    assume run: "srvd_protocol_packet_field_insert (Some p) ty sz data h = Some (r, h')" "packet_at Unlocked h' p U"
      "modifies {p} (f_addr ` set T) {} {} h h'" and post: "injector.create_post h ty sz data T r h' U"
    have "abs_packet U = (if r then (ty, [payload sz data]) # sp else sp)"
      and r: "r \<longleftrightarrow> ty \<notin> fst ` set sp \<and> payload_ok sz data \<and> no_oom h h'"
      using post T(2) set_fst_abs [of T] by (auto simp: injector.create_post_def)
    with held_grown [OF run(2) create_grown(2) [OF post] modifies_heap_ok [OF run(3)] T(3-5)]
    show ?thesis by (intro that [OF run(1) _ modifies_mono [OF run(3)] r]) (use T(3) in simp_all)
  qed
qed

lemma modifies_new:
  assumes "modifies P {} {} {} h h1" and "modifies P A {} {} h1 h2" and "A \<subseteq> {brk h..}"
  shows "modifies P {} {} {} h h2"
proof (rule modifies_weaken_new [where P' = "{}" and F' = A and E' = "{}" and B' = "{}"])
  show "modifies (P \<union> {}) ({} \<union> A) ({} \<union> {}) ({} \<union> {}) h h2"
    using modifies_trans [OF modifies_mono [OF assms(1)] assms(2)] by simp
qed (use assms(3) in auto)

end
