(* ===== verification/Unsock_Refine.thy ===== *)
theory Unsock_Refine
  imports Unsock_Server Finalize_Mono Packet_Held
begin

text \<open>
  Packets on a socket: what reading one makes of the bytes that arrive, and that writing one sends
  its wire form. The read function follows the parser of the wire format on the bytes delivered,
  for every schedule of the stream.
\<close>

section \<open>What the bytes of a stream mean\<close>

definition header_count :: "byte list \<Rightarrow> u16" where "header_count bs = of_be16 (take 2 (drop 2 bs))"
definition header_size :: "byte list \<Rightarrow> nat" where "header_size bs = unat (of_be32 (take 4 (drop 4 bs)))"

definition receive :: "byte list \<Rightarrow> spacket parse" where
  "receive bs =
     (if length bs < 8 \<or> of_be16 (take 2 bs) \<noteq> SRVD_PROTOCOL_SERIAL_PACKET_VERSION \<or> length bs < 8 + header_size bs
      then Refused []
      else parse_body (header_count bs) (header_size bs) (take (header_size bs) (drop 8 bs)) [])"

lemma take_drop_take: "k + n \<le> m \<Longrightarrow> take n (drop k (take m bs)) = take n (drop k bs)"
  by (simp add: drop_take min_def)

lemma header_take: "8 \<le> m \<Longrightarrow> header_size (take m bs) = header_size bs" "8 \<le> m \<Longrightarrow> header_count (take m bs) = header_count bs"
  by (simp_all add: header_size_def header_count_def take_drop_take)

lemma receive_take: "8 + header_size bs \<le> m \<Longrightarrow> receive (take m bs) = receive bs"
  using header_take [of m bs] by (auto simp: receive_def take_drop_take min_def)

text \<open>The wire form of a packet means the packet.\<close>

lemma wire_packet_parts:
  "take 8 (wire_packet sp @ rest) = wire_header sp" "drop 8 (wire_packet sp @ rest) = wire_body sp @ rest"
  by (simp_all add: wire_packet_def wire_header_def)

lemma receive_wire_body:
  assumes "length (wire_body sp) < 4294967296"
  shows "receive (wire_packet sp @ rest) =
     parse_body (of_nat (length sp)) (length (wire_body sp)) (wire_body sp) []"
proof -
  let ?bs = "wire_packet sp @ rest"
  have body: "unat (of_nat (length (wire_body sp)) :: u32) = length (wire_body sp)"
    using assms by (simp add: unat_of_nat)
  have hdr: "wire_header sp = be16 SRVD_PROTOCOL_SERIAL_PACKET_VERSION @ be16 (of_nat (length sp)) @ be32 (of_nat (length (wire_body sp)))"
    by (simp add: wire_header_def)
  have b8: "?bs = be16 SRVD_PROTOCOL_SERIAL_PACKET_VERSION @ be16 (of_nat (length sp)) @ be32 (of_nat (length (wire_body sp))) @ wire_body sp @ rest"
    by (simp add: wire_packet_def hdr)
  have v: "of_be16 (take 2 ?bs) = SRVD_PROTOCOL_SERIAL_PACKET_VERSION" unfolding b8 by simp
  have c: "header_count ?bs = of_nat (length sp)" unfolding header_count_def b8 by simp
  have z: "header_size ?bs = length (wire_body sp)" unfolding header_size_def b8 using body by simp
  show ?thesis using v c z wire_packet_parts(2) [of sp rest] b8 by (auto simp: receive_def)
qed

text \<open>Packets that arrive as they were sent.\<close>

definition travels :: "spacket \<Rightarrow> bool" where
  "travels sp \<longleftrightarrow> counts_fit sp \<and> entries_fit sp \<and> (\<forall>f \<in> set sp. [] \<notin> set (snd f)) \<and> distinct (map fst sp) \<and>
     length (wire_body sp) < 4294967296"

lemma receive_wire: "travels sp \<Longrightarrow> receive (wire_packet sp @ rest) = Parsed sp"
  using receive_wire_body [of sp rest] parse_wire_body [of sp "[]"] sp_merge_distinct [of "[]" sp]
  by (auto simp: travels_def)

lemma receive_wire_empty_entry:
  assumes "counts_fit sp" and "entries_fit sp" and "\<exists>f \<in> set sp. [] \<in> set (snd f)" and "length (wire_body sp) < 4294967296"
  shows "receive (wire_packet sp @ rest) = Broken"
  using receive_wire_body [OF assms(4), of rest] parse_wire_body [OF assms(1,2), of "[]"] assms(3) by simp

section \<open>Reading a packet\<close>

text \<open>
  How the result of the read function relates to the meaning of the bytes: the packet that was
  empty holds the fields, or is whole, or cannot be finalised any more. Other packets in memory and
  other streams are untouched, and nothing was sent.
\<close>

definition receives :: "heap \<Rightarrow> addr \<Rightarrow> nat \<Rightarrow> os \<Rightarrow> spacket parse \<Rightarrow> (bool \<times> heap \<times> os) option \<Rightarrow> bool" where
  "receives h p a w out res \<longleftrightarrow> (case out of
       Parsed sp \<Rightarrow> \<exists>h' w'. res = Some (True, h', w') \<and> held {brk h..<brk h'} h' p sp \<and>
         modifies {p} {} {} {} h h' \<and> reads_only a w w'
     | Refused sp \<Rightarrow> \<exists>h' w'. res = Some (False, h', w') \<and> held {brk h..<brk h'} h' p sp \<and>
         modifies {p} {} {} {} h h' \<and> reads_only a w w'
     | Broken \<Rightarrow> \<exists>h' w'. res = Some (False, h', w') \<and> srvd_protocol_packet_finalize (Some p) h' = None
     | Overrun \<Rightarrow> res = None)"

lemma read_cleanup_none:
  "read_cleanup st (Some s) None h w = do { h \<leftarrow> (if s_data s \<noteq> None then free_block (s_data s) h else Some h); Some (st, h, w) }"
  by (auto simp: read_cleanup_def srvd_protocol_serial_packet_finalize_def split: Option.bind_splits)

lemma read_cleanup_body:
  "blks h b = Some xs \<Longrightarrow> s_data s = None \<Longrightarrow> read_cleanup st (Some s) (Some b) h w = Some (st, without_blk b h, w)"
  by (simp add: read_cleanup_def srvd_protocol_serial_packet_finalize_def mem_simps without_blk_def)

text \<open>The body, into a fresh buffer.\<close>

lemma new_block_frame:
  assumes "heap_ok h"
  shows "heap_ok (set_blk (brk h) xs (h\<lparr>brk := Suc (brk h)\<rparr>))"
    "modifies {} {} {} {} h (set_blk (brk h) xs (h\<lparr>brk := Suc (brk h)\<rparr>))"
  using assms by (auto simp: modifies_def heap_ok_def)

lemma without_blk_frame:
  assumes "modifies P F E B h h'" and "brk h \<le> b" and "b < brk h'"
  shows "modifies P F E B h (without_blk b h')"
  using assms by (auto simp: modifies_def heap_ok_def)

lemma packet_rep_without_blk:
  assumes "packet_at lk h p T" and "b \<notin> set (own_blks T)"
  shows "packet_at lk (without_blk b h) p T"
proof -
  have "entry_ok (without_blk b h) e" if "t \<in> set T" "e \<in> set (f_ents t)" for t e
  proof -
    have "entry_ok h e" using assms(1) that by (auto simp: packet_at_def field_ok_def)
    moreover have "e_blk e \<noteq> Some b" using assms(2) that by (force simp: own_blks_def entry_blks_def)
    ultimately show ?thesis by (auto simp: entry_ok_def split: option.splits)
  qed
  then show ?thesis using assms(1) by (auto simp: packet_at_def field_ok_def)
qed

lemma packet_at_empty_frame:
  assumes "modifies {} {} {} {} h h'" and "heap_ok h" and "packet_at lk h p T"
  shows "packet_at lk h' p T"
  using packet_at_modifies [OF assms] by simp

text \<open>Reading the body into a fresh buffer, parsing it and freeing the buffer.\<close>

lemma read_body_unserialize:
  assumes ok: "heap_ok h" and at: "packet_at Unlocked h p []" and mem: "\<forall>k. \<not> oom h k" and d: "s_data sr = None"
    and n: "length bs = s_body_size sr"
  defines "h2 \<equiv> set_blk (brk h) bs (h\<lparr>brk := Suc (brk h)\<rparr>)"
  shows "receives h p a w (parse_body (s_field_count sr) (s_body_size sr) bs [])
     (do { (r, h3) \<leftarrow> srvd_protocol_serial_packet_unserialize_body (Some sr) (Some p) bs h2;
           read_cleanup r (Some sr) (Some (brk h)) h3 w })"
    (is "receives _ _ _ _ ?out ?res")
proof -
  let ?b = "brk h"
  have ok2: "heap_ok h2" and m2: "modifies {} {} {} {} h h2" unfolding h2_def by (rule new_block_frame [OF ok])+
  have at2: "packet_at Unlocked h2 p []" by (rule packet_at_empty_frame [OF m2 ok at])
  have n2: "s_body_size sr \<le> length bs" using n by simp
  let ?run = "srvd_protocol_serial_packet_unserialize_body (Some sr) (Some p) bs h2"
  have f: "follows h2 p ?out ?run" using unserialize_body_follows [OF ok2 at2 n2] by simp
  have no: "no_oom h2 h'" for h' using mem by (intro no_oom_never) (simp add: h2_def)
  have after: "blks h3 ?b = Some bs \<and> modifies {p} {} {} {} h (without_blk ?b h3) \<and>
      (\<forall>T. packet_at Unlocked h3 p T \<longrightarrow> held {brk h..<brk h3} (without_blk ?b h3) p (abs_packet T))"
    if run: "?run = Some (r, h3)" for r h3
  proof -
    have wi: "modifies {p} {} {} {} h2 h3" and gr: "packet_at Unlocked h3 p T \<Longrightarrow> grown h2 [] T" for T
      using unserialize_body_within [OF ok2 at2 n2 run] by (auto simp: within_empty)
    have lt: "?b < brk h2" by (simp add: h2_def)
    have "blks h3 ?b = Some bs" using modifiesD(4) [OF wi lt] by (simp add: h2_def)
    moreover have "modifies {p} {} {} {} h h3"
      by (rule modifies_trans [OF modifies_mono [OF m2] wi]) simp_all
    then have "modifies {p} {} {} {} h (without_blk ?b h3)"
      by (rule without_blk_frame) (use lt wi in \<open>auto simp: modifies_def\<close>)
    moreover have "held {brk h..<brk h3} (without_blk ?b h3) p (abs_packet T)" if T: "packet_at Unlocked h3 p T" for T
    proof -
      have "packet_at Unlocked (without_blk ?b h3) p T"
        by (rule packet_rep_without_blk [OF T]) (use gr [OF T] lt in \<open>force simp: grown_def\<close>)
      from held_grown [OF this gr [OF T] modifies_heap_ok [OF calculation(2)], of "{}"] show ?thesis
        by (rule held_mono) (auto simp: h2_def)
    qed
    ultimately show ?thesis by blast
  qed
  show ?thesis
  proof (cases ?run)
    case None
    with f no show ?thesis by (cases ?out) (auto simp: follows_def out_of_memory_def receives_def)
  next
    case (Some x)
    obtain r h3 where x: "x = (r, h3)" by (cases x)
    note post = after [OF Some [unfolded x]]
    have res: "?res = Some (r, without_blk ?b h3, w)"
      using Some x post by (simp add: read_cleanup_body [OF _ d])
    show ?thesis unfolding res using f no Some x post
      by (cases ?out) (auto simp: follows_def out_of_memory_def receives_def packet_rep_def packet_finalize_mono)
  qed
qed

lemma read_body_spec:
  assumes ok: "heap_ok h" and at: "packet_at Unlocked h p []" and mem: "\<forall>k. \<not> oom h k" and d: "s_data sr = None"
    and rd: "os_read (Some a) (s_body_size sr) w = (got, w1)"
    and le: "\<And>bs. got = Some bs \<Longrightarrow> length bs \<le> s_body_size sr"
  shows "receives h p a w1 (case got of Some bs \<Rightarrow>
       if length bs = s_body_size sr then parse_body (s_field_count sr) (s_body_size sr) bs [] else Refused []
     | None \<Rightarrow> Refused []) (read_body (Some a) (Some p) sr h w)"
proof -
  let ?b = "brk h" and ?n = "s_body_size sr"
  let ?h1 = "set_blk ?b (replicate ?n 0) (h\<lparr>brk := Suc ?b\<rparr>)"
  have alloc: "malloc_block ?n h = (Some ?b, ?h1)" using mem by (simp add: malloc_block_def Let_def set_blk_def)
  have whole: "receives h p a w1 (Refused []) (read_cleanup False (Some sr) (Some ?b) (set_blk ?b xs ?h1) w1)" for xs
  proof -
    let ?h = "set_blk ?b xs (h\<lparr>brk := Suc ?b\<rparr>)"
    note nb = new_block_frame [OF ok, of xs]
    have "modifies {} {} {} {} h (without_blk ?b ?h)" by (rule without_blk_frame [OF nb(2)]) auto
    moreover have "packet_at Unlocked (without_blk ?b ?h) p []"
      by (rule packet_at_empty_frame [OF calculation ok at])
    moreover have "modifies {p} {} {} {} h (without_blk ?b ?h)"
      by (rule modifies_mono [OF calculation(1)]) auto
    moreover have "read_cleanup False (Some sr) (Some ?b) ?h w1 = Some (False, without_blk ?b ?h, w1)"
      by (rule read_cleanup_body [OF _ d]) simp
    ultimately show ?thesis by (auto simp: receives_def held_empty)
  qed
  show ?thesis
  proof (cases got)
    case None
    have "set_blk ?b (replicate ?n 0) ?h1 = ?h1" by simp
    with whole [of "replicate ?n 0"] None rd alloc show ?thesis by (simp add: read_body_def)
  next
    case (Some bs)
    let ?xs = "bs @ replicate (?n - length bs) 0"
    have wr: "wr_block (Some ?b) 0 bs ?h1 = Some (set_blk ?b ?xs ?h1)"
      using le [OF Some] by (simp add: wr_block_def wr_buf_def set_blk_def)
    show ?thesis
    proof (cases "length bs = ?n")
      case False
      with Some rd alloc wr whole [of ?xs] show ?thesis by (simp add: read_body_def)
    next
      case True
      then have xs: "?xs = bs" by simp
      have "rd_block (Some ?b) 0 ?n (set_blk ?b bs ?h1) = Some bs" using True by (simp add: rd_block_def rd_buf_def)
      with True Some rd alloc wr xs read_body_unserialize [OF ok at mem d True, of a w1]
      show ?thesis by (simp add: read_body_def)
    qed
  qed
qed

lemma receives_io: "reads_only a w w1 \<Longrightarrow> receives h p a w1 out res \<Longrightarrow> receives h p a w out res"
  unfolding receives_def by (cases out) (auto intro: reads_only_trans)

lemma os_read_got:
  "os_read (Some a) n w = (Some bs, w1) \<Longrightarrow> streams w a = Some s \<Longrightarrow>
     \<exists>k \<le> n. bs = take k (inbox s) \<and> streams w1 a = Some (s\<lparr>inbox := drop k (inbox s), turn := Suc (turn s)\<rparr>)"
  by (auto simp: os_read_def Let_def split: option.splits intro: exI [of _ "min x n" for x] min.cobounded2)

lemma os_read_smoothly:
  "os_read (Some a) n w = (got, w1) \<Longrightarrow> streams w a = Some s \<Longrightarrow> smooth s \<Longrightarrow>
     got = Some (take n (inbox s)) \<and> streams w1 a = Some (s\<lparr>inbox := drop n (inbox s), turn := Suc (turn s)\<rparr>)"
  by (auto simp: os_read_smooth)

text \<open>
  The read function follows the meaning of the bytes it was given: a first part of the stream, and
  all that the packet needs when no call is cut short.
\<close>

lemma unsock_read_spec:
  assumes ok: "heap_ok h" and at: "packet_at Unlocked h p []" and mem: "\<forall>k. \<not> oom h k"
    and st: "streams w a = Some s"
  obtains m where "receives h p a w (receive (take m (inbox s))) (srvd_server_unsock_read (Some a) (Some p) h w)"
    "smooth s \<Longrightarrow> receive (take m (inbox s)) = receive (inbox s)"
proof -
  let ?run = "srvd_server_unsock_read (Some a) (Some p) h w"
  obtain got w1 where rd: "os_read (Some a) 8 w = (got, w1)" by (cases "os_read (Some a) 8 w")
  note io = os_read_step [OF rd]
  have refuse: "receives h p a w (Refused []) (Some (False, h, w'))" if "reads_only a w w'" for w'
    using ok at that by (auto intro: held_empty simp: receives_def packet_rep_def modifies_refl intro!: exI [of _ "[]"])
  let ?s0 = "local_serial\<lparr>s_size := 0, s_body_size := 0, s_data := None\<rparr>"
  have init: "srvd_protocol_serial_packet_initialize (Some local_serial) = (True, Some ?s0)"
    by (simp add: srvd_protocol_serial_packet_initialize_def)
  show ?thesis
  proof (cases "\<exists>hd. got = Some hd \<and> length hd = 8 \<and> of_be16 (take 2 hd) = SRVD_PROTOCOL_SERIAL_PACKET_VERSION")
    case False
    have run: "?run = Some (False, h, w1)"
    proof (cases got)
      case None
      with rd init show ?thesis by (simp add: srvd_server_unsock_read_def serial_consts read_cleanup_none)
    next
      case (Some hd)
      with False rd init show ?thesis
        by (auto simp: srvd_server_unsock_read_def serial_consts read_cleanup_none unserialize_header_spec)
    qed
    have short: "smooth s \<Longrightarrow> receive (inbox s) = Refused []"
      using os_read_smoothly [OF rd st] False by (auto simp: receive_def take_drop_take)
    show ?thesis
      by (rule that [of 0]) (use run refuse [OF io] short in \<open>simp_all add: receive_def\<close>)
  next
    case True
    then obtain hd where hd: "got = Some hd" "length hd = 8" "of_be16 (take 2 hd) = SRVD_PROTOCOL_SERIAL_PACKET_VERSION" by blast
    from os_read_got [OF rd [unfolded hd(1)] st] obtain k where k: "k \<le> 8" "hd = take k (inbox s)"
      "streams w1 a = Some (s\<lparr>inbox := drop k (inbox s), turn := Suc (turn s)\<rparr>)" by blast
    then have k8: "k = 8" "8 \<le> length (inbox s)" using hd(2) by auto
    let ?in = "inbox s" and ?n = "header_size (inbox s)" and ?c = "header_count (inbox s)"
    let ?sr = "?s0\<lparr>s_field_count := ?c, s_body_size := ?n, s_size := 8 + ?n\<rparr>"
    have run: "?run = read_body (Some a) (Some p) ?sr h w1"
      using hd rd init k k8 by (simp add: srvd_server_unsock_read_def serial_consts unserialize_header_spec
          header_count_def header_size_def drop_take local_serial_def)
    obtain got2 w2 where rd2: "os_read (Some a) ?n w1 = (got2, w2)" by (cases "os_read (Some a) ?n w1")
    have le: "length bs \<le> ?n" if "got2 = Some bs" for bs
      using os_read_got [OF rd2 [unfolded that] k(3)] by auto
    have d: "s_data ?sr = None" by simp
    have sz: "os_read (Some a) (s_body_size ?sr) w1 = (got2, w2)" "\<And>bs. got2 = Some bs \<Longrightarrow> length bs \<le> s_body_size ?sr"
      using rd2 le by simp_all
    have rb: "receives h p a w2 (case got2 of Some bs \<Rightarrow>
         if length bs = ?n then parse_body ?c ?n bs [] else Refused [] | None \<Rightarrow> Refused []) ?run"
      using read_body_spec [OF ok at mem d sz] unfolding run by (cases got2) (simp_all split: if_splits)
    note io2 = reads_only_trans [OF io os_read_step [OF rd2]]
    have v: "of_be16 (take 2 ?in) = SRVD_PROTOCOL_SERIAL_PACKET_VERSION" using hd(3) k k8 by simp
    show ?thesis
    proof (cases "\<exists>bs. got2 = Some bs \<and> length bs = ?n")
      case True
      then obtain bs where bs: "got2 = Some bs" "length bs = ?n" by blast
      from os_read_got [OF rd2 [unfolded bs(1)] k(3)] obtain j where j: "j \<le> ?n" "bs = take j (drop 8 ?in)"
        using k8 by auto
      then have "j = ?n" "8 + ?n \<le> length ?in" using bs(2) k8(2) by auto
      then have "bs = take ?n (drop 8 ?in)" "8 + ?n \<le> length ?in" using j(2) by simp_all
      then have "receive ?in = parse_body ?c ?n bs []" using v k8(2) by (simp add: receive_def)
      then show ?thesis
        by (intro that [of "length ?in"]) (use receives_io [OF io2 rb] bs in simp_all)
    next
      case False
      then have "receives h p a w (Refused []) ?run"
        using receives_io [OF io2 rb] by (auto split: option.splits if_splits)
      moreover have "receive ?in = Refused []" if "smooth s"
      proof -
        have "smooth (s\<lparr>inbox := drop k ?in, turn := Suc (turn s)\<rparr>)" using that by (simp add: smooth_def)
        from os_read_smoothly [OF rd2 k(3) this] False k8 show ?thesis by (auto simp: receive_def)
      qed
      ultimately show ?thesis by (intro that [of 0]) (simp_all add: receive_def)
    qed
  qed
qed

section \<open>Writing a packet\<close>

text \<open>
  Writing leaves memory as it was but for the number of allocations made. It succeeds only if the
  whole wire form went out.
\<close>

lemma unsock_write_spec:
  assumes ok: "heap_ok h" and at: "packet_at lk h p T" and fit: "counts_fit (abs_packet T)"
    and st: "streams w a = Some s"
  obtains r k w' where "srvd_server_unsock_write (Some a) (Some p) h w = Some (r, h\<lparr>brk := Suc (brk h)\<rparr>, w')"
    "io_step a w w'" "map_option outbox (streams w' a) = Some (outbox s @ take k (wire_packet (abs_packet T)))"
    "r \<Longrightarrow> length (wire_packet (abs_packet T)) \<le> k"
    "smooth s \<Longrightarrow> \<not> oom h (brk h) \<Longrightarrow> r"
    "map_option (\<lambda>s. (inbox s, sched s)) (streams w' a) = Some (inbox s, sched s)"
proof -
  let ?run = "srvd_server_unsock_write (Some a) (Some p) h w" and ?W = "wire_packet (abs_packet T)"
  let ?s0 = "local_serial\<lparr>s_size := 0, s_body_size := 0, s_data := None\<rparr>"
  have init: "srvd_protocol_serial_packet_initialize (Some local_serial) = (True, Some ?s0)"
    by (simp add: srvd_protocol_serial_packet_initialize_def)
  show ?thesis
  proof (cases "oom h (brk h)")
    case True
    from serialize_oom [OF ok at fit True, of ?s0] obtain s' where
      s': "srvd_protocol_serial_packet_serialize (Some ?s0) (Some p) h = Some (False, Some s', h\<lparr>brk := Suc (brk h)\<rparr>)" "s_data s' = None"
      by blast
    show ?thesis
      by (rule that [of False w 0]) (use s' init st True in \<open>simp_all add: srvd_server_unsock_write_def read_cleanup_none\<close>)
  next
    case False
    let ?b = "brk h" and ?h = "set_blk (brk h) ?W (h\<lparr>brk := Suc (brk h)\<rparr>)"
    let ?s1 = "\<lparr>s_size = length ?W, s_body_size = length (wire_body (abs_packet T)), s_field_count = of_nat (length T), s_data = Some ?b\<rparr>"
    note ser = serialize_spec [OF ok at fit False, of ?s0]
    obtain got w' where wr: "os_write (Some a) ?W w = (got, w')" by (cases "os_write (Some a) ?W w")
    have new: "blks h ?b = None" using ok by (simp add: heap_ok_def)
    have "free_block (Some ?b) ?h = Some (h\<lparr>brk := Suc (brk h)\<rparr>)"
      using new by (cases h) (simp add: free_block_def set_blk_def mem_simps fun_upd_idem)
    then have run: "?run = Some (got = Some (length ?W), h\<lparr>brk := Suc (brk h)\<rparr>, w')"
      using init ser wr by (simp add: srvd_server_unsock_write_def read_cleanup_none rd_block_def rd_buf_def)
    have out: "\<exists>k. map_option outbox (streams w' a) = Some (outbox s @ take k ?W) \<and> (got = Some (length ?W) \<longrightarrow> length ?W \<le> k)"
    proof (cases "sched s (turn s) (length ?W)")
      case None
      then show ?thesis using wr st by (intro exI [of _ 0]) (auto simp: os_write_def)
    next
      case (Some m)
      then show ?thesis using wr st by (intro exI [of _ "min m (length ?W)"]) (auto simp: os_write_def Let_def)
    qed
    then obtain k where k: "map_option outbox (streams w' a) = Some (outbox s @ take k ?W)" "got = Some (length ?W) \<Longrightarrow> length ?W \<le> k"
      by blast
    have keep: "map_option (\<lambda>s. (inbox s, sched s)) (streams w' a) = Some (inbox s, sched s)"
      using wr st by (auto simp: os_write_def Let_def split: option.splits)
    show ?thesis
      by (rule that [OF run os_write_step [OF wr] k(1)])
         (use k(2) wr os_write_smooth [OF st, of ?W] keep in auto)
  qed
qed

end
