(* ===== verification/Server_Refine.thy ===== *)
theory Server_Refine
  imports Unsock_Refine Registry_Refine
begin

text \<open>
  The server against its meaning. A service maps the fields of a request to a status and the fields
  of the response; a handler implements a service if it leaves that response and touches nothing
  but the packet of the response. The reply to a request is the response of the service registered
  for the type of the first field, with the status in front.
\<close>

section \<open>Services\<close>

type_synonym service = "spacket \<Rightarrow> u16 \<times> spacket"

text \<open>What every packet is that was received: few fields, and no empty entry.\<close>

definition received :: "spacket \<Rightarrow> bool" where
  "received sp \<longleftrightarrow> length sp < 65536 \<and> (\<forall>f \<in> set sp. [] \<notin> set (snd f))"

lemma parse_entries_nonempty:
  "parse_entries n sz body p = Parsed (ds, q) \<Longrightarrow> sz \<le> length body \<Longrightarrow> [] \<notin> set ds"
proof (induction n arbitrary: p ds)
  case (Suc n)
  then obtain z ds' where z: "get16 body p = Some z" "p + 2 + unat z \<le> sz" "z \<noteq> 0"
    "parse_entries n sz body (p + 2 + unat z) = Parsed (ds', q)" "ds = take (unat z) (drop (p + 2) body) # ds'"
    by (auto split: option.splits parse.splits if_splits)
  have "unat z \<noteq> 0" using z(3) by (simp add: unat_eq_zero)
  with z Suc.prems(2) Suc.IH [OF z(4)] show ?case by auto
qed simp

lemma sp_extend_nonempty:
  "[] \<notin> set ds \<Longrightarrow> \<forall>f \<in> set sp. [] \<notin> set (snd f) \<Longrightarrow> \<forall>f \<in> set (sp_extend ty ds sp). [] \<notin> set (snd f)"
  by (induction sp) (fastforce split: if_splits)+

lemma length_sp_extend: "length (sp_extend ty ds sp) \<le> Suc (length sp)"
  by (induction sp) auto

lemma parse_fields_received:
  "parse_fields n sz body p sp = Parsed sp' \<Longrightarrow> sz \<le> length body \<Longrightarrow> \<forall>f \<in> set sp. [] \<notin> set (snd f) \<Longrightarrow>
     (\<forall>f \<in> set sp'. [] \<notin> set (snd f)) \<and> length sp' \<le> length sp + n"
proof (induction n arbitrary: p sp)
  case (Suc n)
  then obtain ty c ds q where c: "parse_entries (unat (c :: u16)) sz body (p + 4) = Parsed (ds, q)"
    "parse_fields n sz body q (sp_extend ty ds sp) = Parsed sp'"
    by (auto split: option.splits parse.splits if_splits)
  from Suc.IH [OF c(2) Suc.prems(2) sp_extend_nonempty [OF parse_entries_nonempty [OF c(1) Suc.prems(2)] Suc.prems(3)]]
    length_sp_extend [of ty ds sp] show ?case by linarith
qed simp

lemma unat_word16: "unat (c :: u16) < 65536"
proof -
  have "unat c < 2 ^ LENGTH(16)" by (rule unsigned_less)
  then show ?thesis by simp
qed

lemma receive_received:
  assumes "receive bs = Parsed sp"
  shows "received sp"
proof -
  have "parse_fields (unat (header_count bs)) (header_size bs) (take (header_size bs) (drop 8 bs)) 0 [] = Parsed sp"
    "header_size bs \<le> length (take (header_size bs) (drop 8 bs))"
    using assms by (auto simp: receive_def parse_body_def split: if_splits)
  from parse_fields_received [OF this] show ?thesis
    by (auto simp: received_def intro: le_less_trans [OF _ unat_word16])
qed

definition implements :: "handler \<Rightarrow> service \<Rightarrow> bool" where
  "implements run app \<longleftrightarrow> (\<forall>q r a b h sp. heap_ok h \<and> (\<forall>k. \<not> oom h k) \<and> q_packet q = Some a \<and> r_packet r = Some b \<and>
     a \<noteq> b \<and> received sp \<and> packet_rep h a sp \<and> packet_rep h b [] \<longrightarrow>
     (\<exists>r' h'. run q r h = Some (r', h') \<and> r_packet r' = Some b \<and> r_status r' = fst (app sp) \<and>
        held {brk h..<brk h'} h' b (snd (app sp)) \<and> modifies {b} {} {} {} h h'))"

text \<open>Responses that still fit the counters of the wire format with the status added.\<close>

definition answers_fit :: "service \<Rightarrow> bool" where
  "answers_fit app \<longleftrightarrow> (\<forall>sp. length (snd (app sp)) < 65535 \<and> (\<forall>f \<in> set (snd (app sp)). length (snd f) < 65536))"

definition served :: "(u16 \<rightharpoonup> handler) \<Rightarrow> (u16 \<Rightarrow> service) \<Rightarrow> bool" where
  "served tbl app \<longleftrightarrow> (\<forall>ty run. tbl ty = Some run \<longrightarrow> implements run (app ty) \<and> answers_fit (app ty))"

definition status_field :: "u16 \<Rightarrow> sfield" where
  "status_field st = (SRVD_PROTOCOL_STATUS, [be16 st])"

definition with_status :: "u16 \<Rightarrow> spacket \<Rightarrow> spacket" where
  "with_status st sp = (if SRVD_PROTOCOL_STATUS \<in> fst ` set sp then sp else status_field st # sp)"

definition reply :: "(u16 \<rightharpoonup> handler) \<Rightarrow> (u16 \<Rightarrow> service) \<Rightarrow> spacket \<Rightarrow> spacket" where
  "reply tbl app sp = (let ty = fst (hd sp) in case tbl ty of
       None \<Rightarrow> with_status SRVD_SERVICE_RESPONSE_UNAVAIL []
     | Some _ \<Rightarrow> with_status (fst (app ty sp)) (snd (app ty sp)))"

lemma reply_fits: "served tbl app \<Longrightarrow> counts_fit (reply tbl app sp)"
  by (fastforce simp: reply_def with_status_def status_field_def counts_fit_def served_def answers_fit_def Let_def
      split: option.splits)

section \<open>Adding the status\<close>

lemma insert_status:
  assumes "heap_ok h" and "held A h b sp" and "\<forall>k. \<not> oom h k"
  obtains r h' where "srvd_protocol_packet_field_insert_uint16 (Some b) SRVD_PROTOCOL_STATUS st h = Some (r, h')"
    "held (A \<union> {brk h..<brk h'}) h' b (with_status st sp)" "modifies {b} A {} {} h h'"
proof -
  have rd: "readable 2 (Some (be16 st))" by (simp add: readable_def)
  show ?thesis
  proof (rule held_insert [OF assms(1,2) rd, of SRVD_PROTOCOL_STATUS])
    fix r h'
    assume run: "srvd_protocol_packet_field_insert (Some b) SRVD_PROTOCOL_STATUS 2 (Some (be16 st)) h = Some (r, h')"
      and held: "held (A \<union> {brk h..<brk h'}) h' b (if r then (SRVD_PROTOCOL_STATUS, [payload 2 (Some (be16 st))]) # sp else sp)"
      and m: "modifies {b} A {} {} h h'"
      and r: "r \<longleftrightarrow> SRVD_PROTOCOL_STATUS \<notin> fst ` set sp \<and> payload_ok 2 (Some (be16 st)) \<and> no_oom h h'"
    have "(if r then (SRVD_PROTOCOL_STATUS, [payload 2 (Some (be16 st))]) # sp else sp) = with_status st sp"
      using r no_oom_never assms(3) by (auto simp: with_status_def status_field_def)
    with run held m that show ?thesis by (simp add: srvd_protocol_packet_field_insert_uint16_def)
  qed
qed

section \<open>Answering one client\<close>

text \<open>Both packets are whole and have no object in common.\<close>

definition settled :: "heap \<Rightarrow> addr \<Rightarrow> addr \<Rightarrow> heap \<Rightarrow> bool" where
  "settled h a b h' \<longleftrightarrow> modifies {a, b} {} {} {} h h' \<and>
     (\<exists>A B spa spb. held A h' a spa \<and> held B h' b spb \<and> A \<inter> B = {} \<and> A \<union> B \<subseteq> {brk h..<brk h'})"

lemma held_first:
  assumes "held A h p (f # sp)"
  obtains x fd where "srvd_protocol_packet_field_get_first (Some p) (Some None) h = Some (True, Some (Some x))"
    "rd_field (Some x) h = Some fd" "f_type fd = fst f"
proof -
  from assms obtain T where T: "packet_at Unlocked h p T" "abs_packet T = f # sp" by (auto simp: held_def)
  then obtain t T' where t: "T = t # T'" "abs_field t = f" by (cases T) auto
  then have "field_ok h t" using T(1) by (simp add: packet_at_def)
  then obtain fd where "flds h (f_addr t) = Some (Some fd)" "f_type fd = f_ty t" by (auto simp: field_ok_def)
  with get_first_spec [OF T(1)] t show ?thesis
    by (intro that [of "f_addr t" fd]) (auto simp: abs_field_def mem_simps)
qed

lemma held_none:
  assumes "held A h p []"
  shows "srvd_protocol_packet_field_get_first (Some p) (Some None) h = Some (False, Some None)"
proof -
  from assms obtain T where T: "packet_at Unlocked h p T" "T = []" by (auto simp: held_def abs_packet_def)
  with get_first_spec [OF T(1)] show ?thesis by simp
qed

lemma service_get_rep:
  assumes "registry_rep (sv, ns) tbl"
  shows "srvd_server_service_get (Some sv) ty (Some None) ns =
     Some (case tbl ty of None \<Rightarrow> (False, Some None) | Some f \<Rightarrow> (True, Some (Some f)))"
  using assms service_get_spec [of sv ns _ ty None] by (auto simp: registry_rep_def)

lemma respond_spec:
  assumes ok: "heap_ok h" and mem: "\<forall>k. \<not> oom h k" and ab: "q_packet q = Some a" "r_packet r = Some b" "a \<noteq> b"
    and q: "packet_rep h a sp" "received sp" and r: "held {} h b []" and reg: "registry_rep (monitor sv, ns) tbl" and sv: "served tbl app"
  obtains r' h' where "respond sv ns (fst (hd sp)) q r h = Some (r', h')" "r_packet r' = Some b"
    "held {brk h..<brk h'} h' b (reply tbl app sp)" "modifies {b} {} {} {} h h'"
proof (cases "tbl (fst (hd sp))")
  case None
  show ?thesis
  proof (rule insert_status [OF ok r mem, of SRVD_SERVICE_RESPONSE_UNAVAIL])
    fix x h'
    assume "srvd_protocol_packet_field_insert_uint16 (Some b) SRVD_PROTOCOL_STATUS SRVD_SERVICE_RESPONSE_UNAVAIL h = Some (x, h')"
      "held ({} \<union> {brk h..<brk h'}) h' b (with_status SRVD_SERVICE_RESPONSE_UNAVAIL [])" "modifies {b} {} {} {} h h'"
    then show ?thesis using None ab(2)
      by (intro that [of r h']) (simp_all add: respond_def service_get_rep [OF reg] reply_def)
  qed
next
  case (Some run)
  let ?app = "app (fst (hd sp))"
  have "implements run ?app" using sv Some by (simp add: served_def)
  then obtain r1 h1 where r1: "run q r h = Some (r1, h1)" "r_packet r1 = Some b" "r_status r1 = fst (?app sp)"
      "held {brk h..<brk h1} h1 b (snd (?app sp))" "modifies {b} {} {} {} h h1"
    using ok mem ab q held_rep [OF r] unfolding implements_def by blast
  have mem1: "\<forall>k. \<not> oom h1 k" and br: "brk h \<le> brk h1" using mem r1(5) by (auto simp: modifies_def)
  show ?thesis
  proof (rule insert_status [OF modifies_heap_ok [OF r1(5)] r1(4) mem1, of "fst (?app sp)"])
    fix x h'
    assume i: "srvd_protocol_packet_field_insert_uint16 (Some b) SRVD_PROTOCOL_STATUS (fst (?app sp)) h1 = Some (x, h')"
      "held ({brk h..<brk h1} \<union> {brk h1..<brk h'}) h' b (with_status (fst (?app sp)) (snd (?app sp)))"
      "modifies {b} {brk h..<brk h1} {} {} h1 h'"
    have "respond sv ns (fst (hd sp)) q r h = Some (r1, h')"
      using Some r1(1-3) i(1) by (simp add: respond_def service_get_rep [OF reg])
    moreover have "held {brk h..<brk h'} h' b (reply tbl app sp)"
      using held_mono [OF i(2), of "{brk h..<brk h'}"] br i(3) Some by (auto simp: reply_def modifies_def Let_def)
    moreover have "modifies {b} {} {} {} h h'" by (rule modifies_new [OF r1(5) i(3)]) auto
    ultimately show ?thesis using r1(2) that by blast
  qed
qed

text \<open>What answering a client that sends bytes of a given meaning leads to.\<close>

definition answers_as :: "heap \<Rightarrow> addr \<Rightarrow> addr \<Rightarrow> nat \<Rightarrow> os \<Rightarrow> (spacket \<Rightarrow> spacket) \<Rightarrow> spacket parse
    \<Rightarrow> (response \<times> heap \<times> os) option \<Rightarrow> bool" where
  "answers_as h a b c w rep out res \<longleftrightarrow> (case out of
       Overrun \<Rightarrow> res = None
     | Broken \<Rightarrow> \<exists>r' h' w'. res = Some (r', h', w') \<and> srvd_protocol_packet_finalize (Some a) h' = None
     | Refused sp \<Rightarrow> \<exists>r' h' w'. res = Some (r', h', w') \<and> r_packet r' = Some b \<and> settled h a b h' \<and> io_step c w w' \<and>
         sent w' c = sent w c
     | Parsed sp \<Rightarrow> \<exists>r' h' w' k. res = Some (r', h', w') \<and> r_packet r' = Some b \<and> settled h a b h' \<and> io_step c w w' \<and>
         sent w' c = sent w c @ (if sp = [] then [] else take k (wire_packet (rep sp))) \<and>
         (smooth (the (streams w c)) \<longrightarrow> length (wire_packet (rep sp)) \<le> k))"

lemma reads_only_sent: "reads_only c w w' \<Longrightarrow> streams w c = Some s \<Longrightarrow> io_step c w w' \<and> sent w' c = sent w c"
  by (auto simp: reads_only_def sent_def)

lemma settled_read:
  assumes "held {brk h..<brk h1} h1 a sp" and "modifies {a} {} {} {} h h1" and "held {} h b []" and "heap_ok h" and "a \<noteq> b"
  shows "settled h a b h1"
proof -
  have "held {} h1 b []" using held_frame [OF assms(2,4,3)] assms(5) by simp
  moreover have "modifies {a, b} {} {} {} h h1" by (rule modifies_mono [OF assms(2)]) auto
  ultimately show ?thesis using assms(1) unfolding settled_def by blast
qed

lemma answer_client_spec:
  assumes ok: "heap_ok h" and mem: "\<forall>k. \<not> oom h k" and ab: "q_packet q = Some a" "r_packet r = Some b" "a \<noteq> b"
    and qa: "packet_at Unlocked h a []" and rb: "packet_at Unlocked h b []"
    and reg: "registry_rep (monitor sv, ns) tbl" and sv: "served tbl app" and st: "streams w c = Some s"
  obtains m where "answers_as h a b c w (reply tbl app) (receive (take m (inbox s))) (answer_client sv ns (Some c) q r h w)"
    "smooth s \<Longrightarrow> receive (take m (inbox s)) = receive (inbox s)"
proof (rule unsock_read_spec [OF ok qa mem st])
  fix m
  let ?out = "receive (take m (inbox s))" and ?run = "answer_client sv ns (Some c) q r h w"
  assume got: "receives h a c w ?out (srvd_server_unsock_read (Some c) (Some a) h w)"
    and full: "smooth s \<Longrightarrow> ?out = receive (inbox s)"
  have hb: "held {} h b []" by (rule held_empty [OF rb])
  have "answers_as h a b c w (reply tbl app) ?out ?run"
  proof (cases ?out)
    case Overrun
    with got ab show ?thesis by (simp add: answers_as_def receives_def answer_client_def)
  next
    case Broken
    with got ab show ?thesis by (auto simp: answers_as_def receives_def answer_client_def)
  next
    case (Refused sp)
    with got obtain h1 w1 where r1: "srvd_server_unsock_read (Some c) (Some a) h w = Some (False, h1, w1)"
      "held {brk h..<brk h1} h1 a sp" "modifies {a} {} {} {} h h1" "reads_only c w w1" by (auto simp: receives_def)
    from r1(1) ab have "?run = Some (r, h1, w1)" by (simp add: answer_client_def)
    with settled_read [OF r1(2,3) hb ok ab(3)] reads_only_sent [OF r1(4) st] ab(2) Refused
    show ?thesis by (simp add: answers_as_def)
  next
    case (Parsed sp)
    with got obtain h1 w1 where r1: "srvd_server_unsock_read (Some c) (Some a) h w = Some (True, h1, w1)"
      "held {brk h..<brk h1} h1 a sp" "modifies {a} {} {} {} h h1" "reads_only c w w1" by (auto simp: receives_def)
    note io1 = reads_only_sent [OF r1(4) st]
    from r1(4) st obtain s1 where s1: "streams w1 c = Some s1" "outbox s1 = outbox s" "sched s1 = sched s"
      by (auto simp: reads_only_def)
    show ?thesis
    proof (cases sp)
      case Nil
      with r1(1,2) ab held_none have "?run = Some (r, h1, w1)" by (auto simp: answer_client_def)
      moreover have "settled h a b h1" by (rule settled_read [OF r1(2,3) hb ok ab(3)])
      ultimately show ?thesis using io1 ab(2) Parsed Nil
        by (auto simp: answers_as_def intro!: exI [of _ "length (wire_packet (reply tbl app []))"])
    next
      case (Cons f sp')
      have rcv: "received sp" by (rule receive_received [OF Parsed])
      have mem1: "\<forall>k. \<not> oom h1 k" and br1: "brk h \<le> brk h1" using mem r1(3) by (auto simp: modifies_def)
      have ok1: "heap_ok h1" by (rule modifies_heap_ok [OF r1(3)])
      have hb1: "held {} h1 b []" using held_frame [OF r1(3) ok hb] ab(3) by simp
      from held_first [OF r1(2) [unfolded Cons]] obtain x fd where x:
        "srvd_protocol_packet_field_get_first (Some a) (Some None) h1 = Some (True, Some (Some x))"
        "rd_field (Some x) h1 = Some fd" "f_type fd = fst f" by blast
      obtain r2 h2 where r2: "respond sv ns (fst (hd sp)) q r h1 = Some (r2, h2)" "r_packet r2 = Some b"
        "held {brk h1..<brk h2} h2 b (reply tbl app sp)" "modifies {b} {} {} {} h1 h2"
        by (rule respond_spec [OF ok1 mem1 ab held_rep [OF r1(2)] rcv hb1 reg sv])
      have ok2: "heap_ok h2" by (rule modifies_heap_ok [OF r2(4)])
      have ha2: "held {brk h..<brk h1} h2 a sp" using held_frame [OF r2(4) ok1 r1(2)] ab(3) by simp
      obtain T where T: "packet_at Unlocked h2 b T" "abs_packet T = reply tbl app sp" using r2(3) by (auto simp: held_def)
      have fit: "counts_fit (abs_packet T)" using T(2) reply_fits [OF sv] by simp
      obtain z k w2 where wr: "srvd_server_unsock_write (Some c) (Some b) h2 w1 = Some (z, h2\<lparr>brk := Suc (brk h2)\<rparr>, w2)"
        "io_step c w1 w2" "map_option outbox (streams w2 c) = Some (outbox s1 @ take k (wire_packet (abs_packet T)))"
        "z \<Longrightarrow> length (wire_packet (abs_packet T)) \<le> k" "smooth s1 \<Longrightarrow> \<not> oom h2 (brk h2) \<Longrightarrow> z"
        by (rule unsock_write_spec [OF ok2 T(1) fit s1(1)]) blast
      let ?h = "h2\<lparr>brk := Suc (brk h2)\<rparr>"
      have m3: "modifies {} {} {} {} h2 ?h" using ok2 by (auto simp: modifies_def heap_ok_def)
      have run: "?run = Some (r2, ?h, w2)"
        using r1(1) ab x r2(1,2) wr(1) Cons by (simp add: answer_client_def)
      have "settled h a b ?h"
      proof -
        have br2: "brk h1 \<le> brk h2" using r2(4) by (simp add: modifies_def)
        have "held {brk h..<brk h1} ?h a sp" using held_frame [OF m3 ok2 ha2] by simp
        moreover have "held {brk h1..<brk h2} ?h b (reply tbl app sp)" using held_frame [OF m3 ok2 r2(3)] by simp
        moreover have "modifies {a, b} {} {} {} h ?h"
          by (rule modifies_trans [OF modifies_mono [OF r1(3)] modifies_trans [OF modifies_mono [OF r2(4)] modifies_mono [OF m3]]]) auto
        ultimately show ?thesis using br1 br2 unfolding settled_def
          by (intro conjI exI [of _ "{brk h..<brk h1}"] exI [of _ "{brk h1..<brk h2}"] exI [of _ sp] exI [of _ "reply tbl app sp"]) auto
      qed
      moreover have "io_step c w w2" using io_step_trans io1 wr(2) by blast
      moreover have "sent w2 c = sent w c @ take k (wire_packet (reply tbl app sp))"
        using wr(3) T(2) s1(2) st by (auto simp: sent_def split: option.splits)
      moreover have "length (wire_packet (reply tbl app sp)) \<le> k" if "smooth s"
        using that wr(4,5) s1(3) mem1 r2(4) T(2) by (auto simp: smooth_def modifies_def)
      ultimately show ?thesis using run r2(2) Parsed Cons st by (auto simp: answers_as_def)
    qed
  qed
  then show ?thesis using full by (rule that)
qed

end
