(* ===== verification/Server_Turn.thy ===== *)
theory Server_Turn
  imports Server_Refine
begin

text \<open>
  One turn of the server's loop, and many: what a client gets back, and that the server keeps
  running with its memory as it was.
\<close>

section \<open>The packets of a turn\<close>

text \<open>Two packets on the stack, initialised.\<close>

definition open_packets :: "heap \<Rightarrow> (request \<times> response \<times> heap) option" where
  "open_packets h = (let (q, h) = local_request h; (r, h) = local_response h in do {
     (_, h) \<leftarrow> srvd_service_request_initialize (Some q) h;
     (_, r, h) \<leftarrow> srvd_service_response_initialize (Some r) h;
     Some (q, the r, h) })"

lemma open_packets_spec:
  assumes ok: "heap_ok h"
  obtains r h' where "open_packets h = Some (\<lparr>q_packet = Some (brk h)\<rparr>, r, h')" "r_packet r = Some (Suc (brk h))"
    "packet_at Unlocked h' (brk h) []" "packet_at Unlocked h' (Suc (brk h)) []" "modifies {} {} {} {} h h'"
    "brk h' = Suc (Suc (brk h))"
proof -
  let ?a = "brk h" and ?b = "Suc (brk h)"
  let ?h2 = "h\<lparr>brk := Suc ?b, pkts := (pkts h)(?a \<mapsto> None, ?b \<mapsto> None)\<rparr>"
  have ok2: "heap_ok ?h2" and m2: "modifies {} {} {} {} h ?h2" using ok by (auto simp: heap_ok_def modifies_def)
  obtain h3 where h3: "srvd_protocol_packet_initialize (Some ?a) ?h2 = Some (True, h3)" "packet_at Unlocked h3 ?a []"
    "modifies {?a} {} {} {} ?h2 h3" "brk h3 = brk ?h2"
    by (rule packet_initialize_spec [OF ok2, of ?a None]) simp
  have "pkts h3 ?b = Some None" using modifiesD(1) [OF h3(3), of ?b] by simp
  then obtain h4 where h4: "srvd_protocol_packet_initialize (Some ?b) h3 = Some (True, h4)" "packet_at Unlocked h4 ?b []"
    "modifies {?b} {} {} {} h3 h4" "brk h4 = brk h3"
    by (rule packet_initialize_spec [OF modifies_heap_ok [OF h3(3)]])
  have m: "modifies {} {} {} {} h h4"
  proof (rule modifies_weaken_new [where P' = "{?a, ?b}" and F' = "{}" and E' = "{}" and B' = "{}"])
    show "modifies ({} \<union> {?a, ?b}) ({} \<union> {}) ({} \<union> {}) ({} \<union> {}) h h4"
      by (rule modifies_trans [OF modifies_mono [OF m2] modifies_trans [OF modifies_mono [OF h3(3)] modifies_mono [OF h4(3)]]]) auto
  qed auto
  have at: "packet_at Unlocked h4 ?a []"
    by (rule packet_at_modifies [OF h4(3) modifies_heap_ok [OF h3(3)] h3(2)]) auto
  have run: "open_packets h = Some (\<lparr>q_packet = Some ?a\<rparr>, \<lparr>r_packet = Some ?b, r_status = SRVD_SERVICE_RESPONSE_UNKNOWN\<rparr>, h4)"
    using h3(1) h4(1) by (simp add: open_packets_def local_request_def local_response_def local_packet_def
      srvd_service_request_initialize_def srvd_service_response_initialize_def Let_def)
  show ?thesis by (rule that [OF run _ at h4(2) m]) (use h3(4) h4(4) in simp_all)
qed

text \<open>Finalising both and leaving their scope.\<close>

definition close_packets :: "request \<Rightarrow> response \<Rightarrow> heap \<Rightarrow> heap option" where
  "close_packets q r h = do {
     (_, h) \<leftarrow> srvd_service_request_finalize (Some q) h;
     (_, r, h) \<leftarrow> srvd_service_response_finalize (Some r) h;
     h \<leftarrow> end_local (q_packet q) h;
     end_local (r_packet (the r)) h }"

lemma close_packets_spec:
  assumes set: "settled h0 a b h" and ok: "heap_ok h" and ab: "a \<noteq> b" "q_packet q = Some a" "r_packet r = Some b"
  obtains h' where "close_packets q r h = Some h'" "modifies {a, b} {brk h0..} {brk h0..} {brk h0..} h h'" "brk h' = brk h"
proof -
  from set obtain A B spa spb where held: "held A h a spa" "held B h b spb" "A \<inter> B = {}" "A \<union> B \<subseteq> {brk h0..<brk h}"
    by (auto simp: settled_def)
  obtain h1 where h1: "srvd_protocol_packet_finalize (Some a) h = Some (True, h1)" "modifies {a} A A A h h1"
    "brk h1 = brk h" "pkts h1 a \<noteq> None" by (rule held_finalize [OF ok held(1)])
  have ok1: "heap_ok h1" by (rule modifies_heap_ok [OF h1(2)])
  have "held B h1 b spb" using held_frame [OF h1(2) ok held(2)] ab(1) held(3) by auto
  then obtain h2 where h2: "srvd_protocol_packet_finalize (Some b) h1 = Some (True, h2)" "modifies {b} B B B h1 h2"
    "brk h2 = brk h1" "pkts h2 b \<noteq> None" by (rule held_finalize [OF ok1])
  have ok2: "heap_ok h2" by (rule modifies_heap_ok [OF h2(2)])
  have a1: "a < brk h1" using h1(4) ok1 heap_ok_below by blast
  have a2: "pkts h2 a \<noteq> None" using modifiesD(1) [OF h2(2) a1] h1(4) ab(1) by simp
  have b2: "b < brk h2" using h2(4) ok2 heap_ok_below by blast
  let ?h = "h2\<lparr>pkts := ((pkts h2)(a := None))(b := None)\<rparr>"
  have m3: "modifies {a, b} {} {} {} h2 ?h" using ok2 by (auto simp: modifies_def heap_ok_def)
  have "free_packet (Some a) h2 = Some (h2\<lparr>pkts := (pkts h2)(a := None)\<rparr>)"
    using a2 by (auto simp: free_packet_def release_def)
  moreover have "free_packet (Some b) (h2\<lparr>pkts := (pkts h2)(a := None)\<rparr>) = Some ?h"
    using h2(4) ab(1) by (auto simp: free_packet_def release_def)
  ultimately have run: "close_packets q r h = Some ?h"
    using h1(1) h2(1) ab by (simp add: close_packets_def srvd_service_request_finalize_def srvd_service_response_finalize_def
      end_local_def Let_def)
  have up: "A \<subseteq> {brk h0..}" "B \<subseteq> {brk h0..}" using held(4) by auto
  have "modifies {a, b} {brk h0..} {brk h0..} {brk h0..} h ?h"
    by (rule modifies_trans [OF modifies_mono [OF h1(2)] modifies_trans [OF modifies_mono [OF h2(2)] modifies_mono [OF m3]]])
       (use up in auto)
  then show ?thesis by (rule that [OF run]) (use h1(3) h2(3) in simp)
qed

text \<open>The turn in these terms: closing the connection is independent of memory.\<close>

lemma execute_turn_alt:
  "execute_turn sv ns (h, w) = (let (client, w) = os_accept (s_socket sv) w in
     if client = None then Some (h, w)
     else do {
       (q, r, h) \<leftarrow> open_packets h;
       (r, h, w) \<leftarrow> answer_client sv ns client q r h w;
       h \<leftarrow> close_packets q r h;
       Some (h, snd (os_close client w)) })"
  by (auto simp: execute_turn_def open_packets_def close_packets_def Let_def split: prod.splits Option.bind_splits)

section \<open>One turn\<close>

definition ready :: "server_unsock \<Rightarrow> os \<Rightarrow> bool" where
  "ready sv w \<longleftrightarrow> (\<exists>l. s_socket sv = Some l \<and> l < fd_brk w \<and> streams w l \<noteq> None)"

text \<open>What a turn does to the descriptors: the connection gets the next number, all others stay.\<close>

definition next_world :: "os \<Rightarrow> os \<Rightarrow> bool" where
  "next_world w w' \<longleftrightarrow> fd_brk w' = Suc (fd_brk w) \<and> peers w' = peers w \<and> os_fails w' = os_fails w \<and>
     (\<forall>a < fd_brk w. streams w' a = streams w a \<and> closed w' a = closed w a)"

definition turn_as :: "heap \<Rightarrow> os \<Rightarrow> (spacket \<Rightarrow> spacket) \<Rightarrow> spacket parse \<Rightarrow> (heap \<times> os) option \<Rightarrow> bool" where
  "turn_as h w rep out res \<longleftrightarrow> (let c = fd_brk w; s = peers w c in case out of
       Overrun \<Rightarrow> res = None
     | Broken \<Rightarrow> res = None
     | Refused sp \<Rightarrow> \<exists>h' w'. res = Some (h', w') \<and> modifies {} {} {} {} h h' \<and> next_world w w' \<and> sent w' c = outbox s
     | Parsed sp \<Rightarrow> \<exists>h' w' k. res = Some (h', w') \<and> modifies {} {} {} {} h h' \<and> next_world w w' \<and>
         sent w' c = outbox s @ (if sp = [] then [] else take k (wire_packet (rep sp))) \<and>
         (smooth s \<longrightarrow> length (wire_packet (rep sp)) \<le> k))"

lemma ready_next: "ready sv w \<Longrightarrow> next_world w w' \<Longrightarrow> ready sv w'"
  by (auto simp: ready_def next_world_def)

lemma accept_ready:
  assumes "ready sv w" and "\<not> os_fails w (os_calls w)"
  obtains w1 where "os_accept (s_socket sv) w = (Some (fd_brk w), w1)" "streams w1 (fd_brk w) = Some (peers w (fd_brk w))"
    "next_world w w1"
proof -
  from assms obtain l where l: "s_socket sv = Some l" "l < fd_brk w" "streams w l \<noteq> None" by (auto simp: ready_def)
  let ?w = "w\<lparr>os_calls := Suc (os_calls w), fd_brk := Suc (fd_brk w), streams := (streams w)(fd_brk w \<mapsto> peers w (fd_brk w))\<rparr>"
  show ?thesis
    by (rule that [of ?w]) (use l assms(2) in \<open>auto simp: os_accept_def os_socket_def next_world_def Let_def\<close>)
qed

lemma io_next_world: "next_world w w1 \<Longrightarrow> io_step (fd_brk w) w1 w2 \<Longrightarrow> next_world w w2"
  by (cases w1; cases w2) (auto simp: next_world_def io_step_def)

lemma close_next_world:
  assumes "next_world w w2"
  shows "next_world w (snd (os_close (Some (fd_brk w)) w2))"
  using assms by (cases w2) (auto simp: next_world_def os_close_def os_control_def Let_def)

lemma sent_close: "streams w c \<noteq> None \<Longrightarrow> sent (snd (os_close (Some c) w)) c = sent w c"
  by (auto simp: sent_def os_close_def os_control_def Let_def split: option.splits)

text \<open>After answering, the connection is closed, and memory is as it was before the turn.\<close>

lemma turn_end:
  assumes ok: "heap_ok h" and m1: "modifies {} {} {} {} h h1" and b1: "brk h1 = Suc (Suc (brk h))"
    and set: "settled h1 (brk h) (Suc (brk h)) h2" and r: "r_packet r = Some (Suc (brk h))"
  obtains h' where "close_packets \<lparr>q_packet = Some (brk h)\<rparr> r h2 = Some h'" "modifies {} {} {} {} h h'"
proof -
  let ?a = "brk h" and ?b = "Suc (brk h)"
  have m2: "modifies {?a, ?b} {} {} {} h1 h2" using set by (simp add: settled_def)
  obtain h' where h': "close_packets \<lparr>q_packet = Some ?a\<rparr> r h2 = Some h'"
    "modifies {?a, ?b} {brk h1..} {brk h1..} {brk h1..} h2 h'"
    by (rule close_packets_spec [OF set modifies_heap_ok [OF m2]]) (use r in auto)
  have "modifies {} {} {} {} h h'"
  proof (rule modifies_weaken_new [where P' = "{?a, ?b}" and F' = "{brk h1..}" and E' = "{brk h1..}" and B' = "{brk h1..}"])
    show "modifies ({} \<union> {?a, ?b}) ({} \<union> {brk h1..}) ({} \<union> {brk h1..}) ({} \<union> {brk h1..}) h h'"
      by (rule modifies_trans [OF modifies_mono [OF m1] modifies_trans [OF modifies_mono [OF m2] modifies_mono [OF h'(2)]]]) auto
  qed (use b1 in auto)
  with h'(1) show ?thesis by (rule that)
qed

lemma execute_turn_spec:
  assumes ok: "heap_ok h" and mem: "\<forall>k. \<not> oom h k" and rdy: "ready sv w" and acc: "\<not> os_fails w (os_calls w)"
    and reg: "registry_rep (monitor sv, ns) tbl" and sv: "served tbl app"
  obtains m where "turn_as h w (reply tbl app) (receive (take m (inbox (peers w (fd_brk w))))) (execute_turn sv ns (h, w))"
    "smooth (peers w (fd_brk w)) \<Longrightarrow> receive (take m (inbox (peers w (fd_brk w)))) = receive (inbox (peers w (fd_brk w)))"
proof -
  let ?a = "brk h" and ?b = "Suc (brk h)" and ?c = "fd_brk w" and ?s = "peers w (fd_brk w)" and ?q = "\<lparr>q_packet = Some (brk h)\<rparr>"
  obtain w1 where w1: "os_accept (s_socket sv) w = (Some ?c, w1)" "streams w1 ?c = Some ?s" "next_world w w1"
    by (rule accept_ready [OF rdy acc])
  obtain r h1 where h1: "open_packets h = Some (?q, r, h1)" "r_packet r = Some ?b" "packet_at Unlocked h1 ?a []"
    "packet_at Unlocked h1 ?b []" "modifies {} {} {} {} h h1" "brk h1 = Suc (Suc (brk h))"
    by (rule open_packets_spec [OF ok])
  have mem1: "\<forall>k. \<not> oom h1 k" using mem h1(5) by (simp add: modifies_def)
  have qa: "q_packet ?q = Some ?a" "?a \<noteq> ?b" by simp_all
  have run: "execute_turn sv ns (h, w) = do {
      (r, h, w) \<leftarrow> answer_client sv ns (Some ?c) ?q r h1 w1;
      h \<leftarrow> close_packets ?q r h;
      Some (h, snd (os_close (Some ?c) w)) }"
    using w1(1) h1(1) by (simp add: execute_turn_alt)
  show ?thesis
  proof (rule answer_client_spec [OF modifies_heap_ok [OF h1(5)] mem1 qa(1) h1(2) qa(2) h1(3,4) reg sv w1(2)])
    fix m
    let ?out = "receive (take m (inbox ?s))" and ?ans = "answer_client sv ns (Some ?c) ?q r h1 w1"
    assume ans: "answers_as h1 ?a ?b ?c w1 (reply tbl app) ?out ?ans"
      and full: "smooth ?s \<Longrightarrow> ?out = receive (inbox ?s)"
    have s1: "sent w1 ?c = outbox ?s" using w1(2) by (simp add: sent_def)
    have fin: "\<exists>h' w'. execute_turn sv ns (h, w) = Some (h', w') \<and> modifies {} {} {} {} h h' \<and> next_world w w' \<and> sent w' ?c = sent w2 ?c"
      if a: "?ans = Some (r2, h2, w2)" "r_packet r2 = Some ?b" "settled h1 ?a ?b h2" "io_step ?c w1 w2" for r2 h2 w2
    proof -
      have w2: "next_world w w2" "streams w2 ?c \<noteq> None" using io_next_world [OF w1(3) a(4)] a(4) w1(2) by (auto simp: io_step_def)
      obtain h' where "close_packets ?q r2 h2 = Some h'" "modifies {} {} {} {} h h'"
        by (rule turn_end [OF ok h1(5,6) a(3,2)])
      then show ?thesis using run a(1) close_next_world [OF w2(1)] sent_close [OF w2(2)] by auto
    qed
    have "turn_as h w (reply tbl app) ?out (execute_turn sv ns (h, w))"
    proof (cases ?out)
      case Overrun
      with ans run show ?thesis by (simp add: answers_as_def turn_as_def Let_def)
    next
      case Broken
      with ans run show ?thesis
        by (auto simp: answers_as_def turn_as_def Let_def close_packets_def srvd_service_request_finalize_def)
    next
      case (Refused sp)
      with ans obtain r2 h2 w2 where a: "?ans = Some (r2, h2, w2)" "r_packet r2 = Some ?b" "settled h1 ?a ?b h2"
        "io_step ?c w1 w2" "sent w2 ?c = sent w1 ?c" by (auto simp: answers_as_def)
      from fin [OF a(1-4)] a(5) s1 Refused show ?thesis by (simp add: turn_as_def Let_def)
    next
      case (Parsed sp)
      with ans w1(2) obtain r2 h2 w2 k where a: "?ans = Some (r2, h2, w2)" "r_packet r2 = Some ?b" "settled h1 ?a ?b h2"
        "io_step ?c w1 w2" "sent w2 ?c = sent w1 ?c @ (if sp = [] then [] else take k (wire_packet (reply tbl app sp)))"
        "smooth ?s \<longrightarrow> length (wire_packet (reply tbl app sp)) \<le> k" by (auto simp: answers_as_def)
      from fin [OF a(1-4)] obtain h' w' where e: "execute_turn sv ns (h, w) = Some (h', w')" "modifies {} {} {} {} h h'"
        "next_world w w'" "sent w' ?c = sent w2 ?c" by blast
      show ?thesis unfolding turn_as_def Let_def Parsed parse.case
        by (intro exI [of _ h'] exI [of _ w'] exI [of _ k]) (use e a(5,6) s1 in simp)
    qed
    then show ?thesis using full by (rule that)
  qed
qed

end
