(* ===== verification/Server_Loop.thy ===== *)
theory Server_Loop
  imports Server_Turn
begin

text \<open>
  The loop of the server: as long as no client sends a request that breaks the parser, it goes on
  for ever, forgets every client in memory, and every client it accepts gets its answer.
\<close>

section \<open>What a client gets\<close>

lemma receive_prefix: "receive (take m bs) = receive bs \<or> receive (take m bs) = Refused []"
proof (cases "8 + header_size bs \<le> m")
  case True
  then show ?thesis by (simp add: receive_take)
next
  case False
  then have "receive (take m bs) = Refused []" if "8 \<le> m" using that header_take(1) [of m bs] by (auto simp: receive_def)
  moreover have "receive (take m bs) = Refused []" if "m < 8" using that by (auto simp: receive_def)
  ultimately show ?thesis by linarith
qed

definition harmless :: "stream \<Rightarrow> bool" where
  "harmless s \<longleftrightarrow> receive (inbox s) \<notin> {Broken, Overrun}"

text \<open>The bytes sent: a first part of the reply, and all of it when no call is cut short.\<close>

definition answered :: "(spacket \<Rightarrow> spacket) \<Rightarrow> stream \<Rightarrow> byte list \<Rightarrow> bool" where
  "answered rep s out \<longleftrightarrow> (case receive (inbox s) of
       Parsed (f # sp) \<Rightarrow> \<exists>k. out = outbox s @ take k (wire_packet (rep (f # sp))) \<and>
         (smooth s \<longrightarrow> length (wire_packet (rep (f # sp))) \<le> k)
     | _ \<Rightarrow> out = outbox s)"

lemma answered_nothing: "receive (inbox s) \<noteq> Parsed sp \<or> \<not> smooth s \<or> sp = [] \<Longrightarrow>
     (\<And>sq. receive (inbox s) = Parsed sq \<Longrightarrow> smooth s \<Longrightarrow> sq = []) \<Longrightarrow> answered rep s (outbox s)"
  by (auto simp: answered_def intro: exI [of _ 0] split: parse.split list.split)

lemma turn_answers:
  assumes turn: "turn_as h w rep (receive (take m (inbox (peers w (fd_brk w))))) res"
    and full: "smooth (peers w (fd_brk w)) \<Longrightarrow> receive (take m (inbox (peers w (fd_brk w)))) = receive (inbox (peers w (fd_brk w)))"
    and calm: "harmless (peers w (fd_brk w))"
  obtains h' w' where "res = Some (h', w')" "modifies {} {} {} {} h h'" "next_world w w'"
    "answered rep (peers w (fd_brk w)) (sent w' (fd_brk w))"
proof -
  let ?s = "peers w (fd_brk w)" and ?out = "receive (take m (inbox (peers w (fd_brk w))))"
  have dec: "?out = receive (inbox ?s) \<or> ?out = Refused [] \<and> (smooth ?s \<longrightarrow> receive (inbox ?s) = Refused [])"
    using receive_prefix [of m "inbox ?s"] full by auto
  show ?thesis
  proof (cases ?out)
    case (Refused sp)
    with turn obtain h' w' where r: "res = Some (h', w')" "modifies {} {} {} {} h h'" "next_world w w'" "sent w' (fd_brk w) = outbox ?s"
      by (auto simp: turn_as_def Let_def)
    have "answered rep ?s (outbox ?s)"
      by (rule answered_nothing [of _ "[]"]) (use dec Refused in auto)
    with r that show ?thesis by simp
  next
    case (Parsed sp)
    with turn obtain h' w' k where r: "res = Some (h', w')" "modifies {} {} {} {} h h'" "next_world w w'"
      "sent w' (fd_brk w) = outbox ?s @ (if sp = [] then [] else take k (wire_packet (rep sp)))"
      "smooth ?s \<longrightarrow> length (wire_packet (rep sp)) \<le> k" by (auto simp: turn_as_def Let_def)
    have "receive (inbox ?s) = Parsed sp" using dec Parsed by auto
    then have "answered rep ?s (sent w' (fd_brk w))" using r(4,5) by (cases sp) (auto simp: answered_def)
    with r that show ?thesis by blast
  qed (use calm dec in \<open>auto simp: harmless_def\<close>)
qed

section \<open>Any number of turns\<close>

definition later_world :: "os \<Rightarrow> os \<Rightarrow> bool" where
  "later_world w w' \<longleftrightarrow> fd_brk w \<le> fd_brk w' \<and> peers w' = peers w \<and> os_fails w' = os_fails w \<and>
     (\<forall>a < fd_brk w. streams w' a = streams w a \<and> closed w' a = closed w a)"

lemma later_world_refl: "later_world w w"
  by (simp add: later_world_def)

lemma later_world_trans: "later_world w w1 \<Longrightarrow> later_world w1 w2 \<Longrightarrow> later_world w w2"
  by (auto simp: later_world_def)

lemma later_world_sent: "later_world w w' \<Longrightarrow> a < fd_brk w \<Longrightarrow> sent w' a = sent w a"
  by (auto simp: later_world_def sent_def split: option.splits)

lemma ready_later: "ready sv w \<Longrightarrow> later_world w w' \<Longrightarrow> ready sv w'"
  by (auto simp: ready_def later_world_def)

text \<open>One turn, whether or not the call of \<open>accept\<close> fails.\<close>

lemma execute_turn_live:
  assumes ok: "heap_ok h" and mem: "\<forall>k. \<not> oom h k" and rdy: "ready sv w"
    and reg: "registry_rep (monitor sv, ns) tbl" and sv: "served tbl app" and calm: "\<forall>c. harmless (peers w c)"
  obtains h' w' where "execute_turn sv ns (h, w) = Some (h', w')" "modifies {} {} {} {} h h'" "later_world w w'"
    "fd_brk w' = fd_brk w + (if os_fails w (os_calls w) then 0 else 1)"
    "\<forall>c \<in> {fd_brk w..<fd_brk w'}. answered (reply tbl app) (peers w c) (sent w' c)"
proof (cases "os_fails w (os_calls w)")
  case True
  from rdy True have "execute_turn sv ns (h, w) = Some (h, w\<lparr>os_calls := Suc (os_calls w)\<rparr>)"
    by (auto simp: execute_turn_alt ready_def os_accept_def os_socket_def)
  then show ?thesis by (rule that) (use True ok in \<open>auto simp: later_world_def intro: modifies_refl\<close>)
next
  case False
  obtain m where m: "turn_as h w (reply tbl app) (receive (take m (inbox (peers w (fd_brk w))))) (execute_turn sv ns (h, w))"
    "smooth (peers w (fd_brk w)) \<Longrightarrow> receive (take m (inbox (peers w (fd_brk w)))) = receive (inbox (peers w (fd_brk w)))"
    by (rule execute_turn_spec [OF ok mem rdy False reg sv]) (blast intro: that)
  obtain h' w' where r: "execute_turn sv ns (h, w) = Some (h', w')" "modifies {} {} {} {} h h'" "next_world w w'"
    "answered (reply tbl app) (peers w (fd_brk w)) (sent w' (fd_brk w))"
    by (rule turn_answers [OF m]) (use calm in auto)
  show ?thesis by (rule that [OF r(1,2)]) (use r(3,4) False in \<open>auto simp: next_world_def later_world_def\<close>)
qed

lemma execute_turns_live:
  assumes "heap_ok h" and "\<forall>k. \<not> oom h k" and "ready sv w"
    and reg: "registry_rep (monitor sv, ns) tbl" and sv: "served tbl app" and "\<forall>c. harmless (peers w c)"
  shows "\<exists>h' w'. execute_turns n sv ns (h, w) = Some (h', w') \<and> modifies {} {} {} {} h h' \<and> later_world w w' \<and>
     (\<forall>c \<in> {fd_brk w..<fd_brk w'}. answered (reply tbl app) (peers w c) (sent w' c)) \<and>
     ((\<forall>k. \<not> os_fails w k) \<longrightarrow> fd_brk w' = fd_brk w + n)"
  using assms(1-3,6)
proof (induction n arbitrary: h w)
  case 0
  then show ?case by (simp add: later_world_refl modifies_refl)
next
  case (Suc n)
  obtain h1 w1 where t: "execute_turn sv ns (h, w) = Some (h1, w1)" "modifies {} {} {} {} h h1" "later_world w w1"
    "fd_brk w1 = fd_brk w + (if os_fails w (os_calls w) then 0 else 1)"
    "\<forall>c \<in> {fd_brk w..<fd_brk w1}. answered (reply tbl app) (peers w c) (sent w1 c)"
    by (rule execute_turn_live [OF Suc.prems(1-3) reg sv Suc.prems(4)])
  have p: "peers w1 = peers w" "os_fails w1 = os_fails w" "fd_brk w \<le> fd_brk w1" using t(3) by (simp_all add: later_world_def)
  have "\<forall>k. \<not> oom h1 k" using Suc.prems(2) t(2) by (simp add: modifies_def)
  from Suc.IH [OF modifies_heap_ok [OF t(2)] this ready_later [OF Suc.prems(3) t(3)]] Suc.prems(4) p(1)
  obtain h' w' where r: "execute_turns n sv ns (h1, w1) = Some (h', w')" "modifies {} {} {} {} h1 h'" "later_world w1 w'"
    "\<forall>c \<in> {fd_brk w1..<fd_brk w'}. answered (reply tbl app) (peers w c) (sent w' c)"
    "(\<forall>k. \<not> os_fails w k) \<longrightarrow> fd_brk w' = fd_brk w1 + n" using p by auto
  have "answered (reply tbl app) (peers w c) (sent w' c)" if "c \<in> {fd_brk w..<fd_brk w'}" for c
    using t(5) r(4) that later_world_sent [OF r(3)] by (cases "c < fd_brk w1") auto
  moreover have "modifies {} {} {} {} h h'" by (rule modifies_trans [OF t(2) r(2)])
  ultimately show ?case using t(1,4) r(1,5) later_world_trans [OF t(3) r(3)] by auto
qed

end
