(* ===== verification/Heap_Count.thy ===== *)
theory Heap_Count
  imports Packet_Held
begin

text \<open>
  How many objects of each kind the store holds. An operation on a packet that reports no failed
  allocation changes these numbers exactly as it changes the packet, so what is not part of a packet
  afterwards was released: the packet code has no leak while memory does not run out. (When it does,
  \<open>packet.c:67-75\<close> keeps the entry whose data block could not be allocated.)
\<close>

section \<open>Counting\<close>

datatype object_kind = A_field | An_entry | A_block | A_packet

fun objects_of :: "heap \<Rightarrow> object_kind \<Rightarrow> addr set" where
  "objects_of h A_field = dom (flds h)"
| "objects_of h An_entry = dom (ents h)"
| "objects_of h A_block = dom (blks h)"
| "objects_of h A_packet = dom (pkts h)"

definition live :: "heap \<Rightarrow> object_kind \<Rightarrow> nat" where
  "live h k = card (objects_of h k)"

text \<open>The objects a packet owns: a field and an entry each, and a block for every entry that has bytes.\<close>

fun amount :: "spacket \<Rightarrow> object_kind \<Rightarrow> nat" where
  "amount sp A_field = length sp"
| "amount sp An_entry = sum_list (map (\<lambda>f. length (snd f)) sp)"
| "amount sp A_block = sum_list (map (\<lambda>f. length (filter (\<lambda>d. d \<noteq> []) (snd f))) sp)"
| "amount sp A_packet = 0"

lemma amount_Nil [simp]: "amount [] k = 0"
  by (cases k) simp_all

lemma objects_of_finite: "heap_ok h \<Longrightarrow> finite (objects_of h k)"
  by (cases k) (auto intro!: finite_subset [of _ "{..<brk h}"] dest: heap_ok_below)

lemma objects_of_new: "heap_ok h \<Longrightarrow> brk h \<le> a \<Longrightarrow> a \<notin> objects_of h k"
  by (cases k) (auto dest: heap_okD)

text \<open>The kinds of which \<open>h'\<close> has one new object, and the same objects of the others.\<close>

definition one_more :: "object_kind set \<Rightarrow> heap \<Rightarrow> heap \<Rightarrow> bool" where
  "one_more K h h' \<longleftrightarrow> (\<forall>k. k \<in> K \<longrightarrow> (\<exists>a \<ge> brk h. objects_of h' k = insert a (objects_of h k))) \<and>
     (\<forall>k. k \<notin> K \<longrightarrow> objects_of h' k = objects_of h k)"

lemma live_one_more:
  assumes "heap_ok h" and "one_more K h h'"
  shows "live h' k = live h k + (if k \<in> K then 1 else 0)"
proof (cases "k \<in> K")
  case True
  with assms(2) obtain a where "brk h \<le> a" "objects_of h' k = insert a (objects_of h k)" by (auto simp: one_more_def)
  with objects_of_finite [OF assms(1)] objects_of_new [OF assms(1)] True show ?thesis by (simp add: live_def)
next
  case False
  with assms(2) have "objects_of h' k = objects_of h k" by (simp add: one_more_def)
  with False show ?thesis by (simp add: live_def)
qed

text \<open>The store gained what the packet gained.\<close>

definition balance :: "heap \<Rightarrow> spacket \<Rightarrow> heap \<Rightarrow> spacket \<Rightarrow> bool" where
  "balance h sp h' sp' \<longleftrightarrow> (\<forall>k. live h' k + amount sp k = live h k + amount sp' k)"

lemma balance_trans: "balance h sp h1 sp1 \<Longrightarrow> balance h1 sp1 h2 sp2 \<Longrightarrow> balance h sp h2 sp2"
  unfolding balance_def
proof (intro allI)
  fix k
  assume "\<forall>k. live h1 k + amount sp k = live h k + amount sp1 k" "\<forall>k. live h2 k + amount sp1 k = live h1 k + amount sp2 k"
  then have "live h1 k + amount sp k = live h k + amount sp1 k" "live h2 k + amount sp1 k = live h1 k + amount sp2 k" by blast+
  then show "live h2 k + amount sp k = live h k + amount sp2 k" by linarith
qed

lemma balance_one_more:
  assumes "heap_ok h" and "one_more K h h'" and "\<And>k. amount sp' k = amount sp k + (if k \<in> K then 1 else 0)"
  shows "balance h sp h' sp'"
  using live_one_more [OF assms(1,2)] assms(3) by (simp add: balance_def)

lemma balance_same: "heap_ok h \<Longrightarrow> one_more {} h h' \<Longrightarrow> balance h sp h' sp"
  by (rule balance_one_more) auto

text \<open>Nothing new, and nothing old changed: the store is as it was, but for the count of allocations.\<close>

lemma store_restored:
  assumes ok: "heap_ok h" and m: "modifies {} {} {} {} h h'" and n: "\<And>k. live h' k = live h k"
  shows "h' = h\<lparr>brk := brk h'\<rparr>"
proof -
  have ok': "heap_ok h'" using m by (simp add: modifies_def)
  have old: "flds h' a = flds h a \<and> ents h' a = ents h a \<and> blks h' a = blks h a \<and> pkts h' a = pkts h a" if "a < brk h" for a
    using m that by (simp add: modifies_def)
  have same: "objects_of h' k = objects_of h k" for k
  proof (rule sym, rule card_subset_eq [OF objects_of_finite [OF ok']])
    show "objects_of h k \<subseteq> objects_of h' k"
    proof
      fix a assume a: "a \<in> objects_of h k"
      then have "a < brk h" using objects_of_new [OF ok] not_less by blast
      from old [OF this] a show "a \<in> objects_of h' k" by (cases k) (auto simp: domIff)
    qed
    show "card (objects_of h k) = card (objects_of h' k)" using n by (simp add: live_def)
  qed
  have "flds h' a = flds h a \<and> ents h' a = ents h a \<and> blks h' a = blks h a \<and> pkts h' a = pkts h a" for a
  proof (cases "a < brk h")
    case False
    then have "a \<notin> objects_of h' k" for k using objects_of_new [OF ok] same by simp
    from this [of A_field] this [of An_entry] this [of A_block] this [of A_packet] heap_okD [OF ok, of a] False
    show ?thesis by (simp add: domIff)
  qed (rule old)
  then have "flds h' = flds h" "ents h' = ents h" "blks h' = blks h" "pkts h' = pkts h" by auto
  moreover have "oom h' = oom h" using m by (simp add: modifies_def)
  ultimately show ?thesis by (cases h; cases h') simp
qed

section \<open>Steps that allocate nothing\<close>

abbreviation same_objects :: "heap \<Rightarrow> heap \<Rightarrow> bool" where
  "same_objects h h' \<equiv> objects_of h' = objects_of h \<and> brk h' = brk h \<and> oom h' = oom h"

lemma assign_dom: "assign p n m = Some m' \<Longrightarrow> dom m' = dom m"
  by (auto simp: assign_def split: option.splits if_splits)

lemma objects_of_upd:
  "dom F = dom (flds h) \<Longrightarrow> objects_of (h\<lparr>flds := F\<rparr>) = objects_of h"
  "dom E = dom (ents h) \<Longrightarrow> objects_of (h\<lparr>ents := E\<rparr>) = objects_of h"
  "dom B = dom (blks h) \<Longrightarrow> objects_of (h\<lparr>blks := B\<rparr>) = objects_of h"
  "dom P = dom (pkts h) \<Longrightarrow> objects_of (h\<lparr>pkts := P\<rparr>) = objects_of h"
proof -
  show "objects_of (h\<lparr>flds := F\<rparr>) = objects_of h" if "dom F = dom (flds h)"
  proof
    show "objects_of (h\<lparr>flds := F\<rparr>) k = objects_of h k" for k using that by (cases k) simp_all
  qed
  show "objects_of (h\<lparr>ents := E\<rparr>) = objects_of h" if "dom E = dom (ents h)"
  proof
    show "objects_of (h\<lparr>ents := E\<rparr>) k = objects_of h k" for k using that by (cases k) simp_all
  qed
  show "objects_of (h\<lparr>blks := B\<rparr>) = objects_of h" if "dom B = dom (blks h)"
  proof
    show "objects_of (h\<lparr>blks := B\<rparr>) k = objects_of h k" for k using that by (cases k) simp_all
  qed
  show "objects_of (h\<lparr>pkts := P\<rparr>) = objects_of h" if "dom P = dom (pkts h)"
  proof
    show "objects_of (h\<lparr>pkts := P\<rparr>) k = objects_of h k" for k using that by (cases k) simp_all
  qed
qed

lemma puts_same:
  "put_entry p n h = Some h' \<Longrightarrow> same_objects h h'"
  "put_field p f h = Some h' \<Longrightarrow> same_objects h h'"
  "put_packet p c h = Some h' \<Longrightarrow> same_objects h h'"
  by (auto simp: put_entry_def put_field_def put_packet_def objects_of_upd dest!: assign_dom)

lemma dom_overwrite: "m a = Some b \<Longrightarrow> dom (m(a \<mapsto> c)) = dom m"
  by auto

lemma wr_block_same: "wr_block p off ys h = Some h' \<Longrightarrow> same_objects h h'"
  by (auto simp: wr_block_def objects_of_upd dom_overwrite simp del: dom_fun_upd elim!: bind_SomeE split: option.splits)

lemma upds_same:
  "upd_entry p g1 h = Some h' \<Longrightarrow> same_objects h h'"
  "upd_field p g2 h = Some h' \<Longrightarrow> same_objects h h'"
  "upd_packet p g3 h = Some h' \<Longrightarrow> same_objects h h'"
  "with_entry_lock l p h = Some h' \<Longrightarrow> same_objects h h'"
  "with_field_lock l p h = Some h' \<Longrightarrow> same_objects h h'"
  unfolding upd_entry_def upd_field_def upd_packet_def with_entry_lock_def with_field_lock_def
  by (auto elim!: bind_SomeE dest!: puts_same)

lemma links_same:
  "entry_link_tail f e h = Some h' \<Longrightarrow> same_objects h h'"
  "srvd_protocol_packet_field_add_locked p f h = Some h' \<Longrightarrow> same_objects h h'"
  "srvd_protocol_packet_field_inject_locked p f h = Some h' \<Longrightarrow> same_objects h h'"
  unfolding entry_link_tail_def srvd_protocol_packet_field_add_locked_def srvd_protocol_packet_field_inject_locked_def
  by (auto elim!: bind_SomeE dest!: upds_same split: if_splits)

lemma initialize_same:
  "srvd_protocol_packet_field_initialize (Some f) ty h = Some (r, h') \<Longrightarrow> r \<and> same_objects h h'"
  by (auto simp: srvd_protocol_packet_field_initialize_def elim!: bind_SomeE dest!: puts_same)

section \<open>Steps that allocate\<close>

text \<open>A new entry: an entry object, and a block if it has bytes.\<close>

definition entry_kinds :: "u16 \<Rightarrow> object_kind set" where
  "entry_kinds sz = (if sz = 0 then {An_entry} else {An_entry, A_block})"

lemma entry_create_count:
  assumes mem: "\<forall>k. \<not> oom h k" and pay: "payload_ok sz data" and run: "entry_create sz data h = Some (e, h')"
  shows "e \<noteq> None \<and> one_more (entry_kinds sz) h h' \<and> brk h \<le> brk h' \<and> oom h' = oom h"
proof (cases "sz = 0")
  case True
  have "one_more {An_entry} h (h\<lparr>brk := Suc (brk h), ents := (ents h)(brk h \<mapsto> n)\<rparr>)" for n
    unfolding one_more_def
  proof (intro conjI allI impI)
    show "\<exists>a \<ge> brk h. objects_of (h\<lparr>brk := Suc (brk h), ents := (ents h)(brk h \<mapsto> n)\<rparr>) k = insert a (objects_of h k)"
      if "k \<in> {An_entry}" for k using that by (intro exI [of _ "brk h"]) simp
    show "objects_of (h\<lparr>brk := Suc (brk h), ents := (ents h)(brk h \<mapsto> n)\<rparr>) k = objects_of h k" if "k \<notin> {An_entry}" for k
      using that by (cases k) simp_all
  qed
  with True assms show ?thesis
    by (cases data) (auto simp: entry_create_def malloc_entry_def put_entry_def assign_def entry_kinds_def Let_def)
next
  case False
  let ?a = "brk h"
  let ?h = "\<lambda>n bs. h\<lparr>brk := Suc (Suc ?a), blks := (blks h)(Suc ?a \<mapsto> bs), ents := (ents h)(?a \<mapsto> n)\<rparr>"
  have "one_more {An_entry, A_block} h (?h n bs)" for n bs
    unfolding one_more_def
  proof (intro conjI allI impI)
    show "\<exists>a \<ge> brk h. objects_of (?h n bs) k = insert a (objects_of h k)" if "k \<in> {An_entry, A_block}" for k
      using that by (intro exI [of _ "if k = A_block then Suc ?a else ?a"]) auto
    show "objects_of (?h n bs) k = objects_of h k" if "k \<notin> {An_entry, A_block}" for k
      using that by (cases k) simp_all
  qed
  moreover have "\<exists>n bs. h' = ?h n bs \<and> e = Some ?a"
  proof -
    obtain ds where ds: "data = Some ds" using pay False by (cases data) auto
    have pos: "0 < sz" using False by (simp add: word_gt_0)
    show ?thesis using run ds False pos mem
      by (auto simp: entry_create_def malloc_entry_def malloc_block_def put_entry_def assign_def
          wr_block_def Let_def elim!: bind_SomeE split: option.splits) (rule exI, rule exI, rule refl)
  qed
  ultimately show ?thesis using False by (auto simp: entry_kinds_def)
qed

lemma entry_add_count:
  assumes "\<forall>k. \<not> oom h k" and "payload_ok sz data"
    and "srvd_protocol_packet_field_entry_add (Some a) sz data h = Some (r, h')"
  shows "r \<and> one_more (entry_kinds sz) h h' \<and> brk h \<le> brk h' \<and> oom h' = oom h"
proof -
  from assms(3) obtain e h1 where e: "entry_create sz data h = Some (e, h1)"
    and rest: "(if e = None then Some (False, h1) else do {
          h \<leftarrow> with_entry_lock lock_mutex (Some a) h1;
          h \<leftarrow> entry_link_tail (Some a) e h;
          h \<leftarrow> with_entry_lock unlock_mutex (Some a) h;
          Some (True, h) }) = Some (r, h')"
    by (auto simp: srvd_protocol_packet_field_entry_add_def elim!: bind_SomeE)
  from entry_create_count [OF assms(1,2) e] rest show ?thesis
    by (auto elim!: bind_SomeE dest!: upds_same links_same simp: one_more_def)
qed

text \<open>A new field.\<close>

lemma allocate_field_count:
  assumes "\<forall>k. \<not> oom h k" and "srvd_protocol_packet_field_allocate h = (a, h')"
  shows "a \<noteq> None \<and> one_more {A_field} h h' \<and> brk h' = Suc (brk h) \<and> oom h' = oom h"
proof -
  from assms have h': "h' = h\<lparr>brk := Suc (brk h), flds := (flds h)(brk h \<mapsto> None)\<rparr>" "a = Some (brk h)"
    by (simp_all add: srvd_protocol_packet_field_allocate_def malloc_field_def Let_def)
  have "one_more {A_field} h h'"
    unfolding one_more_def
  proof (intro conjI allI impI)
    show "\<exists>a \<ge> brk h. objects_of h' k = insert a (objects_of h k)" if "k \<in> {A_field}" for k
      using that h' by (intro exI [of _ "brk h"]) simp
    show "objects_of h' k = objects_of h k" if "k \<notin> {A_field}" for k using that h' by (cases k) simp_all
  qed
  with h' show ?thesis by simp
qed

lemma one_more_compose:
  assumes "one_more K h h1" and "one_more L h1 h2" and "brk h \<le> brk h1" and "K \<inter> L = {}"
  shows "one_more (K \<union> L) h h2"
  unfolding one_more_def
proof (intro conjI allI impI)
  show "\<exists>a \<ge> brk h. objects_of h2 k = insert a (objects_of h k)" if "k \<in> K \<union> L" for k
  proof (cases "k \<in> K")
    case True
    then have "objects_of h2 k = objects_of h1 k" using assms(2,4) by (auto simp: one_more_def)
    with True assms(1) show ?thesis by (auto simp: one_more_def)
  next
    case False
    then have same: "objects_of h1 k = objects_of h k" using assms(1) by (simp add: one_more_def)
    from False that assms(2) obtain a where "brk h1 \<le> a" "objects_of h2 k = insert a (objects_of h1 k)"
      by (auto simp only: one_more_def)
    with same assms(3) show ?thesis by (metis order_trans)
  qed
  show "objects_of h2 k = objects_of h k" if "k \<notin> K \<union> L" for k using that assms(1,2) by (simp add: one_more_def)
qed

lemma get_or_body_count:
  assumes "\<forall>k. \<not> oom h k" and "adder.get_or_body p ty h = Some (x, h')"
  shows "brk h' = brk h \<and> objects_of h' = objects_of h \<or> brk h' = Suc (brk h) \<and> one_more {A_field} h h'"
proof -
  from assms(2) obtain found field where step: "(if found then Some ((True, field), h)
     else let (f, h) = srvd_protocol_packet_field_allocate h in
       if f = None then Some ((False, Some None), h)
       else do {
         (ok, h) \<leftarrow> srvd_protocol_packet_field_initialize f ty h;
         if \<not> ok then do { h \<leftarrow> srvd_protocol_packet_field_free f h; Some ((False, Some None), h) }
         else do { h \<leftarrow> srvd_protocol_packet_field_add_locked (Some p) f h; Some ((True, Some f), h) } }) = Some (x, h')"
    unfolding adder.get_or_body_def by (elim bind_SomeE) auto
  show ?thesis
  proof (cases found)
    case False
    obtain a h2 where h2: "srvd_protocol_packet_field_allocate h = (a, h2)" by (cases "srvd_protocol_packet_field_allocate h")
    from allocate_field_count [OF assms(1) h2] obtain y where y: "a = Some y" "one_more {A_field} h h2" "brk h2 = Suc (brk h)" by auto
    from step False h2 y(1) have "brk h' = brk h2 \<and> objects_of h' = objects_of h2"
      by (auto elim!: bind_SomeE dest!: initialize_same links_same)
    with y(2,3) show ?thesis by (simp add: one_more_def)
  qed (use step in auto)
qed

lemma get_or_add_count:
  assumes "\<forall>k. \<not> oom h k" and "srvd_protocol_packet_field_get_or_add (Some p) ty (Some None) h = Some (r, out, h')"
  shows "brk h' = brk h \<and> objects_of h' = objects_of h \<or> brk h' = Suc (brk h) \<and> one_more {A_field} h h'"
proof -
  from assms(2) obtain h1 x h2 where h1: "with_field_lock lock_mutex (Some p) h = Some h1"
    "adder.get_or_body p ty h1 = Some (x, h2)" "with_field_lock unlock_mutex (Some p) h2 = Some h'"
    by (auto simp: get_or_add_alt locked_def flat_def elim!: bind_SomeE)
  note s = upds_same(5) [OF h1(1)] upds_same(5) [OF h1(3)]
  have "\<forall>k. \<not> oom h1 k" using assms(1) s by simp
  from get_or_body_count [OF this h1(2)] s show ?thesis by (simp add: one_more_def)
qed

lemma field_create_count:
  assumes mem: "\<forall>k. \<not> oom h k" and pay: "payload_ok sz data"
    and link: "\<And>f h h'. link (Some p) f h = Some h' \<Longrightarrow> same_objects h h'"
    and run: "field_create link (Some p) ty sz data h = Some (r, h')"
  shows "one_more (if r then insert A_field (entry_kinds sz) else {}) h h'"
proof -
  from run obtain found out where step: "(if found then Some (False, h)
     else let (field, h) = srvd_protocol_packet_field_allocate h in
       if field = None then Some (False, h)
       else do {
         (ok, h) \<leftarrow> srvd_protocol_packet_field_initialize field ty h;
         if \<not> ok then do { h \<leftarrow> srvd_protocol_packet_field_free field h; Some (False, h) }
         else do {
           (ok, h) \<leftarrow> srvd_protocol_packet_field_entry_add field sz data h;
           if \<not> ok then do {
             (_, h) \<leftarrow> srvd_protocol_packet_field_finalize field h;
             h \<leftarrow> srvd_protocol_packet_field_free field h;
             Some (False, h) }
           else do {
             h \<leftarrow> link (Some p) field h;
             Some (True, h) } } }) = Some (r, h')" "srvd_protocol_packet_field_get_by_type (Some p) ty (Some None) h = Some (found, out)"
    unfolding field_create_def by (elim bind_SomeE) auto
  show ?thesis
  proof (cases found)
    case True
    with step(1) show ?thesis by (auto simp: one_more_def)
  next
    case False
    obtain a h1 where h1: "srvd_protocol_packet_field_allocate h = (a, h1)" by (cases "srvd_protocol_packet_field_allocate h")
    from allocate_field_count [OF mem h1] obtain x where x: "a = Some x" "one_more {A_field} h h1" "brk h1 = Suc (brk h)" "oom h1 = oom h" by auto
    from step(1) False h1 x(1) obtain ok h2 where h2: "srvd_protocol_packet_field_initialize (Some x) ty h1 = Some (ok, h2)" 
      by (auto elim!: bind_SomeE)
    note ini = initialize_same [OF h2]
    from step(1) False h1 x(1) h2 ini obtain ok3 h3 where
      h3: "srvd_protocol_packet_field_entry_add (Some x) sz data h2 = Some (ok3, h3)" by (auto elim!: bind_SomeE)
    have "\<forall>k. \<not> oom h2 k" using mem x(4) ini by simp
    note add = entry_add_count [OF this pay h3]
    from step(1) False h1 x(1) h2 ini h3 add have fin: "r \<and> objects_of h' = objects_of h3"
      by (auto elim!: bind_SomeE dest!: link)
    have "one_more ({A_field} \<union> entry_kinds sz) h h3"
      by (rule one_more_compose [OF x(2), of _ h3]) (use add ini x(3) in \<open>auto simp: one_more_def entry_kinds_def\<close>)
    with fin show ?thesis by (simp add: one_more_def)
  qed
qed

lemma insert_count:
  assumes "\<forall>k. \<not> oom h k" and "payload_ok sz data"
    and "srvd_protocol_packet_field_insert (Some p) ty sz data h = Some (r, h')"
  shows "one_more (if r then insert A_field (entry_kinds sz) else {}) h h'"
proof -
  from assms(3) obtain h1 h2 where h1: "with_field_lock lock_mutex (Some p) h = Some h1"
    "field_create srvd_protocol_packet_field_inject_locked (Some p) ty sz data h1 = Some (r, h2)"
    "with_field_lock unlock_mutex (Some p) h2 = Some h'"
    by (auto simp: srvd_protocol_packet_field_insert_def elim!: bind_SomeE)
  note s = upds_same(5) [OF h1(1)] upds_same(5) [OF h1(3)]
  have "\<forall>k. \<not> oom h1 k" using assms(1) s by simp
  from field_create_count [OF this assms(2) _ h1(2)] links_same(3) s show ?thesis by (auto simp: one_more_def)
qed

lemma append_count:
  assumes "\<forall>k. \<not> oom h k" and "payload_ok sz data"
    and "srvd_protocol_packet_field_append (Some p) ty sz data h = Some (r, h')"
  shows "one_more (if r then insert A_field (entry_kinds sz) else {}) h h'"
proof -
  from assms(3) obtain h1 h2 where h1: "with_field_lock lock_mutex (Some p) h = Some h1"
    "field_create srvd_protocol_packet_field_add_locked (Some p) ty sz data h1 = Some (r, h2)"
    "with_field_lock unlock_mutex (Some p) h2 = Some h'"
    by (auto simp: srvd_protocol_packet_field_append_def elim!: bind_SomeE)
  note s = upds_same(5) [OF h1(1)] upds_same(5) [OF h1(3)]
  have "\<forall>k. \<not> oom h1 k" using assms(1) s by simp
  from field_create_count [OF this assms(2) _ h1(2)] links_same(2) s show ?thesis by (auto simp: one_more_def)
qed

section \<open>Packets pay for what they use\<close>

lemma amount_append [simp]: "amount (sp @ sq) k = amount sp k + amount sq k"
  by (cases k) simp_all

lemma amount_Cons: "amount (f # sp) k = amount [f] k + amount sp k"
  by (cases k) simp_all

lemma amount_new_field:
  assumes "payload_ok sz data"
  shows "amount [(ty, [payload sz data])] k = (if k \<in> insert A_field (entry_kinds sz) then 1 else 0)"
  using payload_empty_iff [OF assms] by (cases k) (auto simp: entry_kinds_def)

lemma amount_new_entry:
  assumes "payload_ok sz data"
  shows "amount [(ty, ds @ [payload sz data])] k = amount [(ty, ds)] k + (if k \<in> entry_kinds sz then 1 else 0)"
  using payload_empty_iff [OF assms] by (cases k) (auto simp: entry_kinds_def)

lemma insert_balance:
  assumes "heap_ok h" and "\<forall>k. \<not> oom h k" and "payload_ok sz data"
    and "srvd_protocol_packet_field_insert (Some p) ty sz data h = Some (r, h')"
  shows "balance h sp h' (if r then (ty, [payload sz data]) # sp else sp)"
  by (rule balance_one_more [OF assms(1) insert_count [OF assms(2-4)]])
     (use amount_new_field [OF assms(3), of ty] amount_Cons [of "(ty, [payload sz data])" sp] in simp)

lemma append_balance:
  assumes "heap_ok h" and "\<forall>k. \<not> oom h k" and "payload_ok sz data"
    and "srvd_protocol_packet_field_append (Some p) ty sz data h = Some (r, h')"
  shows "balance h sp h' (if r then sp @ [(ty, [payload sz data])] else sp)"
  by (rule balance_one_more [OF assms(1) append_count [OF assms(2-4)]])
     (use amount_new_field [OF assms(3), of ty] in simp)

lemma entry_add_balance:
  assumes "heap_ok h" and "\<forall>k. \<not> oom h k" and "payload_ok sz data"
    and "srvd_protocol_packet_field_entry_add (Some a) sz data h = Some (r, h')"
  shows "r \<and> balance h (sp @ (ty, ds) # sq) h' (sp @ (ty, ds @ [payload sz data]) # sq)"
proof -
  note count = entry_add_count [OF assms(2-4)]
  have "balance h (sp @ (ty, ds) # sq) h' (sp @ (ty, ds @ [payload sz data]) # sq)"
    by (rule balance_one_more [OF assms(1)], use count in blast)
       (use amount_new_entry [OF assms(3), of ty ds] amount_Cons [of _ sq] in simp)
  with count show ?thesis by blast
qed

lemma get_or_add_balance:
  assumes ok: "heap_ok h" and mem: "\<forall>k. \<not> oom h k" and at: "packet_at Unlocked h p T"
    and run: "srvd_protocol_packet_field_get_or_add (Some p) ty (Some None) h = Some (r, out, h')"
    and at': "packet_at Unlocked h' p U"
  shows "balance h (abs_packet T) h' (abs_packet U)"
proof (rule get_or_add_spec [OF ok at, of ty])
  fix r1 out1 h1 V
  assume "srvd_protocol_packet_field_get_or_add (Some p) ty (Some None) h = Some (r1, out1, h1)"
    and atV: "packet_at Unlocked h1 p V" and m: "modifies {p} (f_addr ` set T) {} {} h h1"
    and post: "adder.get_or_post h ty T (r1, out1) h1 V"
  then have h1: "h1 = h'" "r1 = r" "out1 = out" "V = U" using run at' packet_at_unique by auto
  note count = get_or_add_count [OF mem run]
  show ?thesis
  proof (cases "find (\<lambda>t. f_ty t = ty) T")
    case (Some t)
    with post h1 have "U = T" "brk h' = brk h" by (simp_all add: adder.get_or_post_def)
    with count have "one_more {} h h'" by (simp add: one_more_def)
    with \<open>U = T\<close> show ?thesis by (simp add: balance_same [OF ok])
  next
    case None
    with post h1 no_oom_never mem obtain a where a: "brk h \<le> a" "U = T @ [(a, ty, [])]"
      by (auto simp: adder.get_or_post_def)
    have "a < brk h'" using packet_at_below(2) [OF _ at'] m h1(1) a(2) by (auto simp: modifies_def)
    with count a(1) have new: "one_more {A_field} h h'" by auto
    have "amount (abs_packet U) k = amount (abs_packet T) k + (if k \<in> {A_field} then 1 else 0)" for k
      unfolding a(2) by (cases k) (simp_all add: abs_packet_def abs_field_def)
    from balance_one_more [OF ok new this] show ?thesis .
  qed
qed

section \<open>Unserialising\<close>

lemma unserialize_entries_balance:
  assumes "heap_ok h" and "\<forall>k. \<not> oom h k" and "packet_at Unlocked h p (T1 @ (a, ty, es) # T2)" and "sz \<le> length body"
    and "unserialize_entries n sz body (Some a) off h = Some (Some q, h')" and "packet_at Unlocked h' p U"
  shows "balance h (abs_packet (T1 @ (a, ty, es) # T2)) h' (abs_packet U)"
  using assms
proof (induction n arbitrary: h es off)
  case 0
  then have "U = T1 @ (a, ty, es) # T2" "h' = h" using packet_at_unique by auto
  then show ?case by (simp add: balance_def)
next
  case (Suc n)
  note ok = Suc.prems(1) and mem = Suc.prems(2) and at = Suc.prems(3) and run = Suc.prems(5)
  from run obtain z where z: "get16 body off = Some z" by (auto elim: bind_SomeE)
  from run z have fits: "\<not> off + 2 + unat z > sz"
    by (auto simp: serial_consts unserialize_entries_reject split: if_splits)
  let ?data = "Some (drop (off + 2) body)"
  have nz: "z \<noteq> 0"
    using run z fits by (auto simp: serial_consts unserialize_entries_reject field_entry_bad_payload)
  have pay: "payload_ok z ?data" using fits nz Suc.prems(4) by auto
  obtain r h1 es1 where add: "srvd_protocol_packet_field_entry_add (Some a) z ?data h = Some (r, h1)"
    and m: "modifies {} {a} (e_addr ` set es) {} h h1" and at1: "packet_at Unlocked h1 p (T1 @ (a, ty, es1) # T2)"
    and es1: "if r then (\<exists>e. es1 = es @ [e] \<and> e_bytes e = payload z ?data) else es1 = es"
    by (rule entry_add_in_packet [OF ok at pay]) (auto split: if_splits)
  have abs: "abs_packet (T1 @ (a, ty, xs) # T2) = abs_packet T1 @ (ty, map e_bytes xs) # abs_packet T2" for xs
    by (simp add: abs_packet_def abs_field_def)
  note pays = entry_add_balance [OF ok mem pay add, of "abs_packet T1" ty "map e_bytes es" "abs_packet T2"]
  have first: "balance h (abs_packet (T1 @ (a, ty, es) # T2)) h1 (abs_packet (T1 @ (a, ty, es1) # T2))"
    using pays es1 unfolding abs by auto
  have "\<forall>k. \<not> oom h1 k" using mem m by (simp add: modifies_def)
  from Suc.IH [OF modifies_heap_ok [OF m] this at1 Suc.prems(4) _ Suc.prems(6), of "off + 2 + unat z"]
  have "balance h1 (abs_packet (T1 @ (a, ty, es1) # T2)) h' (abs_packet U)"
    using run z fits add pays by (simp add: serial_consts add.assoc)
  with first show ?case by (rule balance_trans)
qed

lemma unserialize_fields_balance:
  assumes "heap_ok h" and "\<forall>k. \<not> oom h k" and "packet_at Unlocked h p T" and "sz \<le> length body"
    and "unserialize_fields n sz body (Some p) off h = Some (r, h')" and "packet_at Unlocked h' p U"
  shows "balance h (abs_packet T) h' (abs_packet U)"
  using assms
proof (induction n arbitrary: h T off)
  case 0
  then have "U = T" "h' = h" using packet_at_unique by auto
  then show ?case by (simp add: balance_def)
next
  case (Suc n)
  note ok = Suc.prems(1) and mem = Suc.prems(2) and at = Suc.prems(3) and run = Suc.prems(5) and at' = Suc.prems(6)
  show ?case
  proof (cases "h' = h")
    case True
    then have "U = T" using at at' packet_at_unique by auto
    with True show ?thesis by (simp add: balance_def)
  next
    case False
    with run obtain ty c where g: "off < sz" "get16 body off = Some ty" "get16 body (off + 2) = Some c"
        "\<not> off + 4 + unat c * 2 > sz"
      by (auto simp: serial_consts split: if_splits elim!: bind_SomeE)
    show ?thesis
    proof (rule get_or_add_target [OF ok at, of ty])
      fix h1
      assume "\<not> no_oom h h1"
      with no_oom_never mem show ?thesis by auto
    next
      fix a h1 T1 es T2
      assume go: "srvd_protocol_packet_field_get_or_add (Some p) ty (Some None) h = Some (True, Some (Some a), h1)"
        and at1: "packet_at Unlocked h1 p (T1 @ (a, ty, es) # T2)" and m: "modifies {p} (f_addr ` set T) {} {} h h1"
      let ?U = "T1 @ (a, ty, es) # T2" and ?res = "unserialize_entries (unat c) sz body (Some a) (off + 4) h1"
      have first: "balance h (abs_packet T) h1 (abs_packet ?U)" by (rule get_or_add_balance [OF ok mem at go at1])
      from g run go obtain o2 h2 where res: "?res = Some (o2, h2)"
        and rest: "(case o2 of None \<Rightarrow> Some (False, h2) | Some p' \<Rightarrow> unserialize_fields n sz body (Some p) p' h2) = Some (r, h')"
        by (auto simp: serial_consts elim!: bind_SomeE)
      have ok1: "heap_ok h1" and mem1: "\<forall>k. \<not> oom h1 k" using m mem by (auto simp: modifies_def)
      note ew = unserialize_entries_within [OF ok1 at1 Suc.prems(4) res]
      show ?thesis
      proof (cases o2)
        case None
        with rest ew have "srvd_protocol_packet_finalize (Some p) h' = None" by simp
        with at' packet_at_finalizes show ?thesis by blast
      next
        case (Some q)
        with ew obtain es' where at2: "heap_ok h2" "packet_at Unlocked h2 p (T1 @ (a, ty, es @ es') # T2)" by auto
        have "\<forall>k. \<not> oom h2 k" using ew mem1 by (simp add: within_def modifies_def)
        from Suc.IH [OF at2(1) this at2(2) Suc.prems(4) _ at'] rest Some
        have "balance h2 (abs_packet (T1 @ (a, ty, es @ es') # T2)) h' (abs_packet U)" by simp
        from balance_trans [OF balance_trans [OF first unserialize_entries_balance [OF ok1 mem1 at1 Suc.prems(4) res [unfolded Some] at2(2)]] this]
        show ?thesis .
      qed
    qed
  qed
qed

lemma unserialize_body_balance:
  assumes "heap_ok h" and "\<forall>k. \<not> oom h k" and "packet_at Unlocked h p T" and "s_body_size s \<le> length body"
    and "srvd_protocol_serial_packet_unserialize_body (Some s) (Some p) body h = Some (r, h')" and "packet_at Unlocked h' p U"
  shows "balance h (abs_packet T) h' (abs_packet U)"
proof (cases "s_body_size s < unat (s_field_count s) * SRVD_PROTOCOL_SERIAL_PACKET_FIELD_HEADER_SIZE")
  case True
  with assms(3,5,6) have "h' = h" "U = T" using packet_at_unique by (auto simp: srvd_protocol_serial_packet_unserialize_body_def)
  then show ?thesis by (simp add: balance_def)
next
  case False
  with assms(5) have "unserialize_fields (unat (s_field_count s)) (s_body_size s) body (Some p) 0 h = Some (r, h')"
    by (simp add: srvd_protocol_serial_packet_unserialize_body_def)
  from unserialize_fields_balance [OF assms(1-4) this assms(6)] show ?thesis .
qed

section \<open>Finalising\<close>

lemma card_dom_cut: "finite (dom m) \<Longrightarrow> A \<subseteq> dom m \<Longrightarrow> card (dom m \<inter> - A) + card A = card (dom m)"
  by (metis Diff_eq card_Diff_subset card_mono finite_subset le_add_diff_inverse2)

lemma packet_owns:
  assumes "packet_at lk h p T"
  shows "f_addr ` set T \<subseteq> objects_of h A_field" "set (own_ents T) \<subseteq> objects_of h An_entry" "set (own_blks T) \<subseteq> objects_of h A_block"
    "card (f_addr ` set T) = amount (abs_packet T) A_field" "card (set (own_ents T)) = amount (abs_packet T) An_entry"
    "card (set (own_blks T)) = amount (abs_packet T) A_block"
proof -
  have fo: "\<forall>t \<in> set T. field_ok h t" and dist: "distinct (map f_addr T)" "distinct (own_ents T)" "distinct (own_blks T)"
    using assms by (auto simp: packet_at_def)
  have eo: "entry_ok h e" if "t \<in> set T" "e \<in> set (f_ents t)" for t e using fo that by (auto simp: field_ok_def)
  show "f_addr ` set T \<subseteq> objects_of h A_field" using fo by (auto simp: field_ok_def)
  show "set (own_ents T) \<subseteq> objects_of h An_entry" using eo by (fastforce simp: own_ents_def entry_ok_def)
  show "set (own_blks T) \<subseteq> objects_of h A_block"
    using eo by (fastforce simp: own_blks_def entry_blks_def entry_ok_def split: option.splits)
  show "card (f_addr ` set T) = amount (abs_packet T) A_field"
    using distinct_card [OF dist(1)] by (simp add: abs_packet_def)
  have "length (own_ents S) = amount (abs_packet S) An_entry" for S
    by (induction S) (simp_all add: abs_packet_def abs_field_def)
  with distinct_card [OF dist(2)] show "card (set (own_ents T)) = amount (abs_packet T) An_entry" by simp
  have blk: "length (entry_blks es) = length (filter (\<lambda>d. d \<noteq> []) (map e_bytes es))" if "\<forall>e \<in> set es. entry_ok h e" for es
    using that by (induction es) (auto simp: entry_ok_def split: option.splits)
  have "length (entry_blks (f_ents t)) = length (filter (\<lambda>d. d \<noteq> []) (map e_bytes (f_ents t)))" if "t \<in> set T" for t
    by (rule blk) (use eo that in blast)
  then have "length (own_blks S) = amount (abs_packet S) A_block" if "set S \<subseteq> set T" for S
    using that by (induction S) (simp_all add: abs_packet_def abs_field_def)
  with distinct_card [OF dist(3)] show "card (set (own_blks T)) = amount (abs_packet T) A_block" by simp
qed

lemma finalize_balance:
  assumes ok: "heap_ok h" and at: "packet_at Unlocked h p T" and run: "srvd_protocol_packet_finalize (Some p) h = Some (r, h')"
  shows "balance h (abs_packet T) h' []"
proof -
  have h': "h' = drop_fields T h\<lparr>pkts := (pkts h)(p \<mapsto> Some dead_packet)\<rparr>" using run packet_finalize_spec [OF at] by simp
  have p: "pkts h p \<noteq> None" using at by (auto simp: packet_at_def)
  note own = packet_owns [OF at] and fin = objects_of_finite [OF ok]
  have "live h' k + amount (abs_packet T) k = live h k" for k
  proof (cases k)
    case A_field
    with h' card_dom_cut [of "flds h" "f_addr ` set T"] own(1,4) fin [of A_field] show ?thesis by (simp add: live_def drop_fields_def)
  next
    case An_entry
    with h' card_dom_cut [of "ents h" "set (own_ents T)"] own(2,5) fin [of An_entry] show ?thesis by (simp add: live_def drop_fields_def)
  next
    case A_block
    with h' card_dom_cut [of "blks h" "set (own_blks T)"] own(3,6) fin [of A_block] show ?thesis by (simp add: live_def drop_fields_def)
  next
    case A_packet
    with p h' show ?thesis by (auto simp: live_def insert_absorb domIff drop_fields_def)
  qed
  then show ?thesis by (simp add: balance_def)
qed

end
