(* ===== verification/Server_Memory.thy ===== *)
theory Server_Memory
  imports Server_Loop Heap_Count
begin

text \<open>
  The server keeps nothing: when the handlers leave no other objects than those of the response, a
  turn leaves the store exactly as it found it, but for the number of allocations made. The objects
  are counted: reading makes those of the request, answering those of the reply, and finalising the
  two packets releases both.
\<close>

section \<open>Reading\<close>

lemma without_blk_count:
  assumes "heap_ok h" and "blks h b \<noteq> None"
  shows "live (without_blk b h) k + (if k = A_block then 1 else 0) = live h k"
proof (cases k)
  case A_block
  have "b \<in> dom (blks h)" using assms(2) by auto
  with objects_of_finite [OF assms(1), of A_block] have "Suc (card (dom (blks h) - {b})) = card (dom (blks h))"
    by (intro card_Suc_Diff1) simp_all
  with A_block show ?thesis by (simp add: live_def without_blk_def del: card_Diff_insert card_Diff_singleton_if)
qed (simp_all add: live_def without_blk_def)

lemma new_buffer_count:
  assumes "heap_ok h"
  shows "live (set_blk (brk h) xs (h\<lparr>brk := Suc (brk h)\<rparr>)) k = live h k + (if k = A_block then 1 else 0)"
proof (cases k)
  case A_block
  with objects_of_new [OF assms, of "brk h" A_block] objects_of_finite [OF assms, of A_block] show ?thesis
    by (simp add: live_def)
qed (simp_all add: live_def)

text \<open>A buffer that is made and freed leaves the balance of what happened in between.\<close>

lemma buffer_balance:
  assumes "heap_ok h" and "balance (set_blk (brk h) xs (h\<lparr>brk := Suc (brk h)\<rparr>)) sp h3 sq" and "heap_ok h3" and "blks h3 (brk h) \<noteq> None"
  shows "balance h sp (without_blk (brk h) h3) sq"
  unfolding balance_def
proof
  fix k
  from assms(2) have "live h3 k + amount sp k = live (set_blk (brk h) xs (h\<lparr>brk := Suc (brk h)\<rparr>)) k + amount sq k"
    by (simp add: balance_def)
  with new_buffer_count [OF assms(1), of xs k] without_blk_count [OF assms(3,4), of k]
  show "live (without_blk (brk h) h3) k + amount sp k = live h k + amount sq k" by linarith
qed

lemma packet_at_with_blk:
  assumes "packet_at lk (without_blk b h) p T"
  shows "packet_at lk h p T"
proof -
  have "entry_ok h e" if "entry_ok (without_blk b h) e" for e
    using that by (auto simp: entry_ok_def without_blk_def split: option.splits if_splits)
  with assms show ?thesis by (auto simp: packet_at_def field_ok_def without_blk_def)
qed

lemma balance_refl: "balance h sp h sp"
  by (simp add: balance_def)

lemma read_body_balance:
  assumes ok: "heap_ok h" and mem: "\<forall>k. \<not> oom h k" and at: "packet_at Unlocked h p []" and d: "s_data sr = None"
    and run: "read_body (Some a) (Some p) sr h w = Some (r, h', w')" and at': "packet_at Unlocked h' p U"
  shows "balance h [] h' (abs_packet U)"
proof -
  let ?b = "brk h" and ?n = "s_body_size sr"
  let ?buf = "\<lambda>xs. set_blk ?b xs (h\<lparr>brk := Suc ?b\<rparr>)"
  have alloc: "malloc_block ?n h = (Some ?b, ?buf (replicate ?n 0))" using mem by (simp add: malloc_block_def Let_def set_blk_def)
  obtain got w1 where rd: "os_read (Some a) ?n w = (got, w1)" by (cases "os_read (Some a) ?n w")
  have unread: ?thesis if h': "h' = without_blk ?b (?buf xs)" for xs
  proof -
    note nb = new_block_frame [OF ok, of xs]
    have "packet_at Unlocked (?buf xs) p U" using at' unfolding h' by (rule packet_at_with_blk)
    then have "U = []" using packet_at_empty_frame [OF nb(2) ok at] packet_at_unique by blast
    with buffer_balance [OF ok balance_refl nb(1)] h' show ?thesis by simp
  qed
  show ?thesis
  proof (cases got)
    case None
    with run alloc rd have "h' = without_blk ?b (?buf (replicate ?n 0))"
      using read_cleanup_body [OF _ d, of "?buf (replicate ?n 0)" ?b] by (simp add: read_body_def)
    then show ?thesis by (rule unread)
  next
    case (Some bs)
    from run alloc rd Some obtain h2 where "wr_block (Some ?b) 0 bs (?buf (replicate ?n 0)) = Some h2"
      by (auto simp: read_body_def elim!: bind_SomeE)
    then obtain xs where wr: "wr_block (Some ?b) 0 bs (?buf (replicate ?n 0)) = Some (?buf xs)"
      by (auto simp: wr_block_def set_blk_def elim!: bind_SomeE)
    show ?thesis
    proof (cases "length bs = ?n")
      case False
      with run alloc rd Some wr have "h' = without_blk ?b (?buf xs)"
        using read_cleanup_body [OF _ d, of "?buf xs" ?b] by (simp add: read_body_def)
      then show ?thesis by (rule unread)
    next
      case True
      with run alloc rd Some wr obtain bytes ok3 h3 where
        bytes: "rd_block (Some ?b) 0 ?n (?buf xs) = Some bytes"
        and un: "srvd_protocol_serial_packet_unserialize_body (Some sr) (Some p) bytes (?buf xs) = Some (ok3, h3)"
        and cl: "read_cleanup ok3 (Some sr) (Some ?b) h3 w1 = Some (r, h', w')"
        by (auto simp: read_body_def elim!: bind_SomeE)
      have len: "?n \<le> length bytes" using bytes by (auto simp: rd_block_def rd_buf_def split: if_splits)
      note nb = new_block_frame [OF ok, of xs]
      have at2: "packet_at Unlocked (?buf xs) p []" by (rule packet_at_empty_frame [OF nb(2) ok at])
      from unserialize_body_within [OF nb(1) at2 len un] have m: "modifies {p} {} {} {} (?buf xs) h3" by (simp add: within_empty)
      have ok3: "heap_ok h3" by (rule modifies_heap_ok [OF m])
      have b3: "blks h3 ?b = Some xs" using modifiesD(4) [OF m, of ?b] by simp
      have h': "h' = without_blk ?b h3" using cl read_cleanup_body [OF b3 d] by simp
      have at3: "packet_at Unlocked h3 p U" using at' unfolding h' by (rule packet_at_with_blk)
      have "\<forall>k. \<not> oom (?buf xs) k" using mem by simp
      from unserialize_body_balance [OF nb(1) this at2 len un at3]
      have "balance (?buf xs) [] h3 (abs_packet U)" by simp
      from buffer_balance [OF ok this ok3] b3 h' show ?thesis by simp
    qed
  qed
qed

lemma unsock_read_balance:
  assumes ok: "heap_ok h" and mem: "\<forall>k. \<not> oom h k" and at: "packet_at Unlocked h p []"
    and run: "srvd_server_unsock_read (Some a) (Some p) h w = Some (r, h', w')" and at': "packet_at Unlocked h' p U"
  shows "balance h [] h' (abs_packet U)"
proof -
  obtain got w1 where rd: "os_read (Some a) 8 w = (got, w1)" by (cases "os_read (Some a) 8 w")
  let ?s0 = "local_serial\<lparr>s_size := 0, s_body_size := 0, s_data := None\<rparr>"
  have init: "srvd_protocol_serial_packet_initialize (Some local_serial) = (True, Some ?s0)"
    by (simp add: srvd_protocol_serial_packet_initialize_def)
  have unread: ?thesis if "h' = h"
  proof -
    have "U = []" by (rule packet_at_unique [OF at' [unfolded that] at])
    with that show ?thesis by (simp add: balance_refl)
  qed
  show ?thesis
  proof (cases "\<exists>hd. got = Some hd \<and> length hd = 8 \<and> of_be16 (take 2 hd) = SRVD_PROTOCOL_SERIAL_PACKET_VERSION")
    case False
    have "h' = h"
    proof (cases got)
      case None
      with run rd init show ?thesis by (simp add: srvd_server_unsock_read_def serial_consts read_cleanup_none)
    next
      case (Some hd)
      with False rd init run show ?thesis
        by (auto simp: srvd_server_unsock_read_def serial_consts read_cleanup_none unserialize_header_spec split: if_splits)
    qed
    then show ?thesis by (rule unread)
  next
    case True
    then obtain hd where hd: "got = Some hd" "length hd = 8" "of_be16 (take 2 hd) = SRVD_PROTOCOL_SERIAL_PACKET_VERSION" by blast
    from run rd init hd obtain sr where "read_body (Some a) (Some p) sr h w1 = Some (r, h', w')" "s_data sr = None"
      by (auto simp: srvd_server_unsock_read_def serial_consts unserialize_header_spec)
    with read_body_balance [OF ok mem at _ _ at'] show ?thesis by blast
  qed
qed

section \<open>Answering\<close>

text \<open>A handler that leaves no objects but those of its response, and a table of such handlers.\<close>

definition frugal :: "handler \<Rightarrow> service \<Rightarrow> bool" where
  "frugal run app \<longleftrightarrow> (\<forall>q r a b h sp r' h'. heap_ok h \<and> (\<forall>k. \<not> oom h k) \<and> q_packet q = Some a \<and> r_packet r = Some b \<and>
     a \<noteq> b \<and> received sp \<and> packet_rep h a sp \<and> packet_rep h b [] \<and> run q r h = Some (r', h') \<longrightarrow>
     balance h [] h' (snd (app sp)))"

definition all_frugal :: "(u16 \<rightharpoonup> handler) \<Rightarrow> (u16 \<Rightarrow> service) \<Rightarrow> bool" where
  "all_frugal tbl app \<longleftrightarrow> (\<forall>ty run. tbl ty = Some run \<longrightarrow> frugal run (app ty))"

lemma insert_status_balance:
  assumes "heap_ok h" and "held A h b sp" and "\<forall>k. \<not> oom h k"
    and "srvd_protocol_packet_field_insert_uint16 (Some b) SRVD_PROTOCOL_STATUS st h = Some (r, h')"
  shows "balance h sp h' (with_status st sp)"
proof -
  have rd: "readable 2 (Some (be16 st))" and pay: "payload_ok 2 (Some (be16 st))" by (simp_all add: readable_def)
  have run: "srvd_protocol_packet_field_insert (Some b) SRVD_PROTOCOL_STATUS 2 (Some (be16 st)) h = Some (r, h')"
    using assms(4) by (simp add: srvd_protocol_packet_field_insert_uint16_def)
  have "r \<longleftrightarrow> SRVD_PROTOCOL_STATUS \<notin> fst ` set sp"
    by (rule held_insert [OF assms(1,2) rd, of SRVD_PROTOCOL_STATUS]) (use run pay no_oom_never assms(3) in auto)
  then have "(if r then (SRVD_PROTOCOL_STATUS, [payload 2 (Some (be16 st))]) # sp else sp) = with_status st sp"
    by (auto simp: with_status_def status_field_def)
  with insert_balance [OF assms(1,3) pay run, of sp] show ?thesis by simp
qed

lemma respond_balance:
  assumes ok: "heap_ok h" and mem: "\<forall>k. \<not> oom h k" and ab: "q_packet q = Some a" "r_packet r = Some b" "a \<noteq> b"
    and q: "packet_rep h a sp" "received sp" and r: "held {} h b []" and reg: "registry_rep (monitor sv, ns) tbl"
    and sv: "served tbl app" and fr: "all_frugal tbl app"
    and run: "respond sv ns (fst (hd sp)) q r h = Some (r', h')"
  shows "balance h [] h' (reply tbl app sp)"
proof (cases "tbl (fst (hd sp))")
  case None
  with run ab(2) obtain x where "srvd_protocol_packet_field_insert_uint16 (Some b) SRVD_PROTOCOL_STATUS SRVD_SERVICE_RESPONSE_UNAVAIL h = Some (x, h')"
    by (auto simp: respond_def service_get_rep [OF reg] elim!: bind_SomeE)
  from insert_status_balance [OF ok r mem this] None show ?thesis by (simp add: reply_def)
next
  case (Some f)
  let ?app = "app (fst (hd sp))"
  from run Some obtain r1 h1 x where r1: "f q r h = Some (r1, h1)"
    "srvd_protocol_packet_field_insert_uint16 (r_packet r1) SRVD_PROTOCOL_STATUS (r_status r1) h1 = Some (x, h')"
    by (auto simp: respond_def service_get_rep [OF reg] elim!: bind_SomeE)
  have "implements f ?app" using sv Some by (simp add: served_def)
  then have im: "r_packet r1 = Some b" "r_status r1 = fst (?app sp)" "held {brk h..<brk h1} h1 b (snd (?app sp))" "modifies {b} {} {} {} h h1"
    using ok mem ab q held_rep [OF r] r1(1) unfolding implements_def by force+
  have "frugal f ?app" using fr Some by (simp add: all_frugal_def)
  then have first: "balance h [] h1 (snd (?app sp))"
    using ok mem ab q held_rep [OF r] r1(1) unfolding frugal_def by blast
  have "\<forall>k. \<not> oom h1 k" using mem im(4) by (simp add: modifies_def)
  from balance_trans [OF first insert_status_balance [OF modifies_heap_ok [OF im(4)] im(3) this, of "fst (?app sp)"]] r1(2) im(1,2) Some
  show ?thesis by (simp add: reply_def Let_def)
qed

text \<open>Both packets of a turn, after answering.\<close>

lemma packet_rep_unique: "packet_rep h p sp \<Longrightarrow> packet_rep h p sq \<Longrightarrow> sp = sq"
  by (auto simp: packet_rep_def dest: packet_at_unique)

lemma answer_client_balance:
  assumes ok: "heap_ok h" and mem: "\<forall>k. \<not> oom h k" and ab: "q_packet q = Some a" "r_packet r = Some b" "a \<noteq> b"
    and qa: "packet_at Unlocked h a []" and rb: "packet_at Unlocked h b []"
    and reg: "registry_rep (monitor sv, ns) tbl" and sv: "served tbl app" and fr: "all_frugal tbl app" and st: "streams w c = Some s"
    and run: "answer_client sv ns (Some c) q r h w = Some (r', h', w')" and rep: "packet_rep h' a spa" "packet_rep h' b spb"
  shows "balance h [] h' (spa @ spb)"
proof -
  have hb: "held {} h b []" by (rule held_empty [OF rb])
  from run ab(1) obtain k h1 w1 where rd: "srvd_server_unsock_read (Some c) (Some a) h w = Some (k, h1, w1)"
    by (auto simp: answer_client_def elim!: bind_SomeE)
  obtain m where got: "receives h a c w (receive (take m (inbox s))) (srvd_server_unsock_read (Some c) (Some a) h w)"
    by (rule unsock_read_spec [OF ok qa mem st])
  have first: "balance h [] h1 sp" if "packet_rep h1 a sp" for sp
    using unsock_read_balance [OF ok mem qa rd] that by (auto simp: packet_rep_def)
  have quiet: ?thesis if h': "h' = h1" and m1: "modifies {a} {} {} {} h h1"
  proof -
    have "packet_rep h1 b []" using held_rep [OF held_frame [OF m1 ok hb]] ab(3) by simp
    then have "spb = []" using rep(2) unfolding h' by (rule packet_rep_unique [symmetric])
    with first rep(1) h' show ?thesis by simp
  qed
  show ?thesis
  proof (cases "receive (take m (inbox s))")
    case (Parsed sp)
    with got rd have r1: "k" "held {brk h..<brk h1} h1 a sp" "modifies {a} {} {} {} h h1" by (auto simp: receives_def)
    show ?thesis
    proof (cases sp)
      case Nil
      with r1 rd run ab held_none have "h' = h1" by (auto simp: answer_client_def)
      then show ?thesis using r1(3) by (rule quiet)
    next
      case (Cons f sp')
      have rcv: "received sp" by (rule receive_received [OF Parsed])
      have mem1: "\<forall>k. \<not> oom h1 k" using mem r1(3) by (simp add: modifies_def)
      have ok1: "heap_ok h1" by (rule modifies_heap_ok [OF r1(3)])
      have hb1: "held {} h1 b []" using held_frame [OF r1(3) ok hb] ab(3) by simp
      from held_first [OF r1(2) [unfolded Cons]] obtain x fd where x:
        "srvd_protocol_packet_field_get_first (Some a) (Some None) h1 = Some (True, Some (Some x))"
        "rd_field (Some x) h1 = Some fd" "f_type fd = fst f" by blast
      obtain r2 h2 where r2: "respond sv ns (fst (hd sp)) q r h1 = Some (r2, h2)" "r_packet r2 = Some b"
        "held {brk h1..<brk h2} h2 b (reply tbl app sp)" "modifies {b} {} {} {} h1 h2"
        by (rule respond_spec [OF ok1 mem1 ab held_rep [OF r1(2)] rcv hb1 reg sv])
      note second = respond_balance [OF ok1 mem1 ab held_rep [OF r1(2)] rcv hb1 reg sv fr r2(1)]
      have ok2: "heap_ok h2" by (rule modifies_heap_ok [OF r2(4)])
      obtain T where T: "packet_at Unlocked h2 b T" "abs_packet T = reply tbl app sp" using r2(3) by (auto simp: held_def)
      from r1(1) rd run x r2(1,2) ab(1) Cons have wr: "\<exists>z. srvd_server_unsock_write (Some c) (Some b) h2 w1 = Some (z, h', w')"
        by (auto simp: answer_client_def elim!: bind_SomeE)
      have "streams w1 c \<noteq> None" using got rd Parsed st by (auto simp: receives_def reads_only_def)
      then obtain s1 where s1: "streams w1 c = Some s1" by blast
      have h': "h' = h2\<lparr>brk := Suc (brk h2)\<rparr>"
        by (rule unsock_write_spec [OF ok2 T(1) _ s1]) (use wr T(2) reply_fits [OF sv] in auto)
      have m3: "modifies {} {} {} {} h2 h'" using ok2 unfolding h' by (auto simp: modifies_def heap_ok_def)
      have "spb = reply tbl app sp"
        by (rule packet_rep_unique [OF rep(2)]) (use held_rep [OF held_frame [OF m3 ok2 r2(3)]] in simp)
      moreover have "held {brk h..<brk h1} h2 a sp" using held_frame [OF r2(4) ok1 r1(2)] ab(3) by simp
      then have "spa = sp"
        by (intro packet_rep_unique [OF rep(1)]) (use held_rep [OF held_frame [OF m3 ok2]] in auto)
      moreover have "live h' k = live h2 k" for k by (cases k) (simp_all add: h' live_def)
      ultimately show ?thesis using first [OF held_rep [OF r1(2)]] second by (simp add: balance_def)
    qed
  next
    case (Refused sp)
    with got rd have r1: "\<not> k" "modifies {a} {} {} {} h h1" by (auto simp: receives_def)
    with rd run ab(1) have "h' = h1" by (auto simp: answer_client_def)
    then show ?thesis using r1(2) by (rule quiet)
  next
    case Broken
    with got rd run ab(1) have "srvd_protocol_packet_finalize (Some a) h' = None"
      by (auto simp: receives_def answer_client_def)
    moreover obtain T where "packet_at Unlocked h' a T" using rep(1) by (auto simp: packet_rep_def)
    ultimately show ?thesis using packet_at_finalizes by blast
  next
    case Overrun
    with got rd show ?thesis by (simp add: receives_def)
  qed
qed

section \<open>A turn\<close>

abbreviation two_packets :: "object_kind \<Rightarrow> nat" where
  "two_packets k \<equiv> (if k = A_packet then 2 else 0)"

lemma open_packets_count:
  assumes "heap_ok h" and "open_packets h = Some (q, r, h')"
  shows "live h' k = live h k + two_packets k"
proof -
  let ?h = "h\<lparr>brk := Suc (Suc (brk h)), pkts := (pkts h)(brk h \<mapsto> None, Suc (brk h) \<mapsto> None)\<rparr>"
  have "objects_of h' = objects_of ?h"
    using assms(2) by (auto simp: open_packets_def local_request_def local_response_def local_packet_def
      srvd_service_request_initialize_def srvd_service_response_initialize_def srvd_protocol_packet_initialize_def Let_def
      elim!: bind_SomeE dest!: puts_same split: if_splits)
  then have "live h' k = live ?h k" by (simp add: live_def)
  moreover have "live ?h k = live h k + two_packets k"
  proof (cases k)
    case A_packet
    with objects_of_finite [OF assms(1), of A_packet] objects_of_new [OF assms(1), of _ A_packet] show ?thesis
      by (simp add: live_def)
  qed (simp_all add: live_def)
  ultimately show ?thesis by simp
qed

lemma end_local_count:
  assumes "heap_ok h" and "end_local (Some a) h = Some h'"
  shows "live h' k + (if k = A_packet then 1 else 0) = live h k \<and> heap_ok h'"
proof -
  from assms(2) have h': "h' = h\<lparr>pkts := (pkts h)(a := None)\<rparr>" "a \<in> dom (pkts h)"
    by (auto simp: end_local_def free_packet_def release_def split: if_splits)
  have "live h' k + (if k = A_packet then 1 else 0) = live h k"
  proof (cases k)
    case A_packet
    from h'(2) objects_of_finite [OF assms(1), of A_packet] have "Suc (card (dom (pkts h) - {a})) = card (dom (pkts h))"
      by (intro card_Suc_Diff1) simp_all
    with A_packet h'(1) show ?thesis by (simp add: live_def del: card_Diff_insert card_Diff_singleton_if)
  qed (simp_all add: live_def h'(1))
  moreover have "heap_ok h'" using assms(1) h'(1) by (simp add: heap_ok_def)
  ultimately show ?thesis by blast
qed

lemma close_packets_count:
  assumes set: "settled h0 a b h" and ok: "heap_ok h" and ab: "a \<noteq> b" "q_packet q = Some a" "r_packet r = Some b"
    and run: "close_packets q r h = Some h'" and rep: "packet_rep h a spa" "packet_rep h b spb"
  shows "live h' k + amount (spa @ spb) k + two_packets k = live h k"
proof -
  from set obtain A B spa' spb' where held: "held A h a spa'" "held B h b spb'" "A \<inter> B = {}"
    by (auto simp: settled_def)
  then have sp: "spa' = spa" "spb' = spb" using rep packet_rep_unique held_rep by blast+
  obtain h1 where h1: "srvd_protocol_packet_finalize (Some a) h = Some (True, h1)" "modifies {a} A A A h h1"
    by (rule held_finalize [OF ok held(1)])
  have ok1: "heap_ok h1" by (rule modifies_heap_ok [OF h1(2)])
  have b1: "held B h1 b spb" using held_frame [OF h1(2) ok held(2)] ab(1) held(3) sp by auto
  then obtain h2 where h2: "srvd_protocol_packet_finalize (Some b) h1 = Some (True, h2)" "modifies {b} B B B h1 h2"
    by (rule held_finalize [OF ok1])
  have ok2: "heap_ok h2" by (rule modifies_heap_ok [OF h2(2)])
  from run h1(1) h2(1) ab obtain h3 where h3: "end_local (Some a) h2 = Some h3" "end_local (Some b) h3 = Some h'"
    by (auto simp: close_packets_def srvd_service_request_finalize_def srvd_service_response_finalize_def Let_def elim!: bind_SomeE)
  have f1: "balance h spa h1 []" and f2: "balance h1 spb h2 []"
    using finalize_balance [OF ok _ h1(1)] rep(1) finalize_balance [OF ok1 _ h2(1)] held_rep [OF b1]
    by (auto simp: packet_rep_def)
  note e1 = end_local_count [OF ok2 h3(1)]
  note e2 = end_local_count [OF conjunct2 [OF e1] h3(2)]
  from f1 f2 have "live h1 k + amount spa k = live h k" "live h2 k + amount spb k = live h1 k" by (simp_all add: balance_def)
  with e1 [of k] e2 [of k] show ?thesis by (simp split: if_splits)
qed

text \<open>Every turn that comes to its end leaves as many objects of each kind as there were.\<close>

lemma execute_turn_count:
  assumes ok: "heap_ok h" and mem: "\<forall>k. \<not> oom h k" and rdy: "ready sv w" and reg: "registry_rep (monitor sv, ns) tbl"
    and sv: "served tbl app" and fr: "all_frugal tbl app" and run: "execute_turn sv ns (h, w) = Some (h', w')"
  shows "live h' k = live h k"
proof (cases "os_fails w (os_calls w)")
  case True
  with rdy run show ?thesis by (auto simp: execute_turn_alt ready_def os_accept_def os_socket_def)
next
  case False
  let ?a = "brk h" and ?b = "Suc (brk h)" and ?c = "fd_brk w" and ?q = "\<lparr>q_packet = Some (brk h)\<rparr>"
  obtain w1 where w1: "os_accept (s_socket sv) w = (Some ?c, w1)" "streams w1 ?c = Some (peers w ?c)"
    by (rule accept_ready [OF rdy False]) blast
  obtain r h1 where h1: "open_packets h = Some (?q, r, h1)" "r_packet r = Some ?b" "packet_at Unlocked h1 ?a []"
    "packet_at Unlocked h1 ?b []" "modifies {} {} {} {} h h1"
    by (rule open_packets_spec [OF ok])
  have ok1: "heap_ok h1" and mem1: "\<forall>k. \<not> oom h1 k" using mem h1(5) by (auto simp: modifies_def)
  have qa: "q_packet ?q = Some ?a" "?a \<noteq> ?b" by simp_all
  from run w1(1) h1(1) obtain r2 h2 w2 where ans: "answer_client sv ns (Some ?c) ?q r h1 w1 = Some (r2, h2, w2)"
    and cl: "close_packets ?q r2 h2 = Some h'"
    by (auto simp: execute_turn_alt elim!: bind_SomeE)
  obtain m where as: "answers_as h1 ?a ?b ?c w1 (reply tbl app) (receive (take m (inbox (peers w ?c)))) (Some (r2, h2, w2))"
    using answer_client_spec [OF ok1 mem1 qa(1) h1(2) qa(2) h1(3,4) reg sv w1(2)] ans by metis
  have set: "settled h1 ?a ?b h2" "r_packet r2 = Some ?b"
    using as cl by (auto simp: answers_as_def close_packets_def srvd_service_request_finalize_def split: parse.splits)
  then have ok2: "heap_ok h2" by (auto simp: settled_def modifies_def)
  from set obtain spa spb where rep: "packet_rep h2 ?a spa" "packet_rep h2 ?b spb" by (auto simp: settled_def dest: held_rep)
  from answer_client_balance [OF ok1 mem1 qa(1) h1(2) qa(2) h1(3,4) reg sv fr w1(2) ans rep]
  have "live h2 k = live h1 k + amount (spa @ spb) k" by (simp add: balance_def)
  with close_packets_count [OF set(1) ok2 qa(2,1) set(2) cl rep, of k] open_packets_count [OF ok h1(1), of k]
  show ?thesis by simp
qed

text \<open>So the store is as it was, after one turn and after any number of them.\<close>

lemma execute_turn_restores:
  assumes "heap_ok h" and "\<forall>k. \<not> oom h k" and "ready sv w" and "registry_rep (monitor sv, ns) tbl"
    and "served tbl app" and "all_frugal tbl app" and "execute_turn sv ns (h, w) = Some (h', w')" and "modifies {} {} {} {} h h'"
  shows "h' = h\<lparr>brk := brk h'\<rparr>"
  by (rule store_restored [OF assms(1,8) execute_turn_count [OF assms(1-7)]])

lemma execute_turns_count:
  assumes "heap_ok h" and "\<forall>k. \<not> oom h k" and "ready sv w" and reg: "registry_rep (monitor sv, ns) tbl"
    and sv: "served tbl app" and fr: "all_frugal tbl app" and "\<forall>c. harmless (peers w c)"
    and "execute_turns n sv ns (h, w) = Some (h', w')"
  shows "live h' k = live h k"
  using assms(1-3,7,8)
proof (induction n arbitrary: h w)
  case (Suc n)
  obtain h1 w1 where t: "execute_turn sv ns (h, w) = Some (h1, w1)" "modifies {} {} {} {} h h1" "later_world w w1"
    by (rule execute_turn_live [OF Suc.prems(1-3) reg sv Suc.prems(4)])
  have "\<forall>k. \<not> oom h1 k" "\<forall>c. harmless (peers w1 c)" using Suc.prems(2,4) t(2,3) by (simp_all add: modifies_def later_world_def)
  moreover have "execute_turns n sv ns (h1, w1) = Some (h', w')" using Suc.prems(5) t(1) by simp
  ultimately have "live h' k = live h1 k"
    by (intro Suc.IH [OF modifies_heap_ok [OF t(2)] _ ready_later [OF Suc.prems(3) t(3)]])
  with execute_turn_count [OF Suc.prems(1-3) reg sv fr t(1)] show ?case by simp
qed simp

lemma execute_turns_restore:
  assumes "heap_ok h" and "\<forall>k. \<not> oom h k" and "ready sv w" and "registry_rep (monitor sv, ns) tbl"
    and "served tbl app" and "all_frugal tbl app" and "\<forall>c. harmless (peers w c)"
    and "execute_turns n sv ns (h, w) = Some (h', w')" and "modifies {} {} {} {} h h'"
  shows "h' = h\<lparr>brk := brk h'\<rparr>"
  by (rule store_restored [OF assms(1,9) execute_turns_count [OF assms(1-8)]])

end
