(* ===== verification/Client.thy ===== *)
theory Client
  imports Unsock_Server Conf_File
begin

text \<open>
  The client side: the UNIX domain socket adapter of \<open>lib/srvd/libsrvd/client/unsock.c\<close>, the choice
  of an adapter in \<open>lib/srvd/libsrvd/client.c\<close> and the dispatch of \<open>include/srvd/client.h\<close>. Client
  objects live in a store of their own. The function pointers of an object are names of the
  functions they may point to; a member that was never assigned is \<open>None\<close>, and using it is
  undefined.
\<close>

datatype client_fn = Fn_unsock_free | Fn_unsock_finalize | Fn_unsock_connect | Fn_unsock_disconnect
  | Fn_unsock_write | Fn_unsock_read

record client_unsock =
  cl_free :: client_fn
  cl_finalize :: client_fn
  cl_connect :: client_fn
  cl_disconnect :: client_fn
  cl_write :: client_fn
  cl_read :: client_fn
  connected :: "bool option"
  cl_endpoint :: "byte list option"
  cl_socket :: "fd option"

record client_store =
  clients :: "addr \<rightharpoonup> client_unsock"
  cl_brk :: nat
  cl_oom :: "nat \<Rightarrow> bool"

abbreviation rd_client :: "ptr \<Rightarrow> client_store \<Rightarrow> client_unsock option" where
  "rd_client p m \<equiv> Option.bind p (clients m)"

abbreviation wr_client :: "ptr \<Rightarrow> client_unsock \<Rightarrow> client_store \<Rightarrow> client_store" where
  "wr_client p c m \<equiv> m\<lparr>clients := (clients m)(the p \<mapsto> c)\<rparr>"

text \<open>The \<open>free\<close> of the C library on an object of the store.\<close>

definition free_client :: "ptr \<Rightarrow> client_store \<Rightarrow> client_store option" where
  "free_client p m = map_option (\<lambda>c. m\<lparr>clients := c\<rparr>) (release p (clients m))"

section \<open>The socket adapter\<close>

definition srvd_client_unsock_allocate :: "client_store \<Rightarrow> ptr \<times> client_store" where
  "srvd_client_unsock_allocate m =
     (let a = cl_brk m; m' = m\<lparr>cl_brk := Suc a\<rparr> in
      if cl_oom m a then (None, m')
      else (Some a, wr_client (Some a) \<lparr>cl_free = Fn_unsock_free, cl_finalize = Fn_unsock_finalize,
        cl_connect = Fn_unsock_connect, cl_disconnect = Fn_unsock_disconnect, cl_write = Fn_unsock_write,
        cl_read = Fn_unsock_read, connected = None, cl_endpoint = None, cl_socket = None\<rparr> m'))"

definition srvd_client_unsock_free :: "ptr \<Rightarrow> client_store \<Rightarrow> client_store option" where
  "srvd_client_unsock_free client m = (if client = None then Some m else free_client client m)"

definition srvd_client_unsock_initialize ::
    "ptr \<Rightarrow> byte list option \<Rightarrow> client_store \<Rightarrow> os \<Rightarrow> (bool \<times> client_store \<times> os) option" where
  "srvd_client_unsock_initialize client path m w =
     (if client = None then Some (False, m, w)
      else case path of None \<Rightarrow> Some (False, m, w)
      | Some bs \<Rightarrow> do {
          c \<leftarrow> rd_client client m;
          sun_path \<leftarrow> strncpy_bytes SUN_PATH_LENGTH bs;
          let (s, w) = os_socket w;
          let m = wr_client client (c\<lparr>connected := Some False, cl_endpoint := Some sun_path, cl_socket := Some s\<rparr>) m;
          Some (s \<noteq> None, m, w) })"

definition srvd_client_unsock_disconnect :: "ptr \<Rightarrow> client_store \<Rightarrow> os \<Rightarrow> (bool \<times> os) option" where
  "srvd_client_unsock_disconnect client m w =
     (if client = None then Some (False, w)
      else do {
        c \<leftarrow> rd_client client m;
        up \<leftarrow> connected c;
        if \<not> up then Some (False, w)
        else do { s \<leftarrow> cl_socket c; Some (os_close s w) } })"

definition srvd_client_unsock_finalize :: "ptr \<Rightarrow> client_store \<Rightarrow> os \<Rightarrow> (bool \<times> os) option" where
  "srvd_client_unsock_finalize client m w =
     (if client = None then Some (False, w)
      else do {
        c \<leftarrow> rd_client client m;
        up \<leftarrow> connected c;
        if up then do {
          (ok, w) \<leftarrow> srvd_client_unsock_disconnect client m w;
          if \<not> ok then Some (False, w) else Some (True, w) }
        else Some (True, w) })"

text \<open>The kernel takes the path of the endpoint up to its first NUL or to its end.\<close>

definition srvd_client_unsock_connect :: "ptr \<Rightarrow> client_store \<Rightarrow> os \<Rightarrow> (bool \<times> client_store \<times> os) option" where
  "srvd_client_unsock_connect client m w =
     (if client = None then Some (False, m, w)
      else do {
        c \<leftarrow> rd_client client m;
        up \<leftarrow> connected c;
        if up then Some (False, m, w)
        else do {
          s \<leftarrow> cl_socket c;
          sun_path \<leftarrow> cl_endpoint c;
          let (ok, w) = os_connect s (cstr sun_path) w;
          if \<not> ok then Some (False, m, w)
          else Some (True, wr_client client (c\<lparr>connected := Some True\<rparr>) m, w) } })"

definition srvd_client_unsock_write ::
    "ptr \<Rightarrow> ptr \<Rightarrow> client_store \<Rightarrow> heap \<Rightarrow> os \<Rightarrow> (bool \<times> heap \<times> os) option" where
  "srvd_client_unsock_write client packet m h w =
     (if client = None then Some (False, h, w)
      else do {
        c \<leftarrow> rd_client client m;
        up \<leftarrow> connected c;
        if \<not> up then Some (False, h, w)
        else if packet = None then Some (False, h, w)
        else let (_, serial) = srvd_protocol_serial_packet_initialize (Some local_serial) in do {
          (ok, serial, h) \<leftarrow> srvd_protocol_serial_packet_serialize serial packet h;
          if \<not> ok then read_cleanup False serial None h w
          else do {
            s \<leftarrow> cl_socket c;
            bytes \<leftarrow> rd_block (s_data (the serial)) 0 (s_size (the serial)) h;
            let (result, w) = os_write s bytes w;
            read_cleanup (result = Some (s_size (the serial))) serial None h w } } })"

definition srvd_client_unsock_read ::
    "ptr \<Rightarrow> ptr \<Rightarrow> client_store \<Rightarrow> heap \<Rightarrow> os \<Rightarrow> (bool \<times> heap \<times> os) option" where
  "srvd_client_unsock_read client packet m h w =
     (if client = None then Some (False, h, w)
      else do {
        c \<leftarrow> rd_client client m;
        up \<leftarrow> connected c;
        if \<not> up then Some (False, h, w)
        else if packet = None then Some (False, h, w)
        else let (_, serial) = srvd_protocol_serial_packet_initialize (Some local_serial) in do {
          s \<leftarrow> cl_socket c;
          let (result, w) = os_read s SRVD_PROTOCOL_SERIAL_PACKET_HEADER_SIZE w;
          case result of None \<Rightarrow> read_cleanup False serial None h w
          | Some header \<Rightarrow>
            if length header \<noteq> SRVD_PROTOCOL_SERIAL_PACKET_HEADER_SIZE then read_cleanup False serial None h w
            else do {
              (ok, serial) \<leftarrow> srvd_protocol_serial_packet_unserialize_header serial packet (Some header);
              if \<not> ok then read_cleanup False serial None h w
              else read_body s packet (the serial) h w } } })"

section \<open>Dispatch\<close>

definition srvd_client_free :: "ptr \<Rightarrow> client_store \<Rightarrow> client_store option" where
  "srvd_client_free client m = do {
     c \<leftarrow> rd_client client m;
     if cl_free c = Fn_unsock_free then srvd_client_unsock_free client m else None }"

definition srvd_client_finalize :: "ptr \<Rightarrow> client_store \<Rightarrow> os \<Rightarrow> (bool \<times> os) option" where
  "srvd_client_finalize client m w = do {
     c \<leftarrow> rd_client client m;
     if cl_finalize c = Fn_unsock_finalize then srvd_client_unsock_finalize client m w else None }"

definition srvd_client_connect :: "ptr \<Rightarrow> client_store \<Rightarrow> os \<Rightarrow> (bool \<times> client_store \<times> os) option" where
  "srvd_client_connect client m w = do {
     c \<leftarrow> rd_client client m;
     if cl_connect c = Fn_unsock_connect then srvd_client_unsock_connect client m w else None }"

definition srvd_client_disconnect :: "ptr \<Rightarrow> client_store \<Rightarrow> os \<Rightarrow> (bool \<times> os) option" where
  "srvd_client_disconnect client m w = do {
     c \<leftarrow> rd_client client m;
     if cl_disconnect c = Fn_unsock_disconnect then srvd_client_unsock_disconnect client m w else None }"

definition srvd_client_write :: "ptr \<Rightarrow> ptr \<Rightarrow> client_store \<Rightarrow> heap \<Rightarrow> os \<Rightarrow> (bool \<times> heap \<times> os) option" where
  "srvd_client_write client packet m h w = do {
     c \<leftarrow> rd_client client m;
     if cl_write c = Fn_unsock_write then srvd_client_unsock_write client packet m h w else None }"

definition srvd_client_read :: "ptr \<Rightarrow> ptr \<Rightarrow> client_store \<Rightarrow> heap \<Rightarrow> os \<Rightarrow> (bool \<times> heap \<times> os) option" where
  "srvd_client_read client packet m h w = do {
     c \<leftarrow> rd_client client m;
     if cl_read c = Fn_unsock_read then srvd_client_unsock_read client packet m h w else None }"

section \<open>Choosing the adapter\<close>

text \<open>The literals, with their NUL.\<close>

definition lit_client_adapter :: "byte list" where
  "lit_client_adapter = [99, 108, 105, 101, 110, 116, 58, 97, 100, 97, 112, 116, 101, 114, 0]"

definition lit_client_path :: "byte list" where
  "lit_client_path = [99, 108, 105, 101, 110, 116, 58, 112, 97, 116, 104, 0]"

definition lit_unsock :: "byte list" where "lit_unsock = [117, 110, 115, 111, 99, 107, 0]"
definition lit_tcp :: "byte list" where "lit_tcp = [116, 99, 112, 0]"

lemmas client_literals = lit_client_adapter_def lit_client_path_def lit_unsock_def lit_tcp_def

text \<open>\<open>client\<close> is the caller's variable, \<open>None\<close> if the pointer to it is NULL.\<close>

definition srvd_client_get_by_conf ::
    "ptr option \<Rightarrow> conf option \<Rightarrow> conf_store \<Rightarrow> client_store \<Rightarrow> os
     \<Rightarrow> (bool \<times> ptr option \<times> client_store \<times> os) option" where
  "srvd_client_get_by_conf client conf s m w =
     (if client = None then Some (False, client, m, w)
      else if client \<noteq> Some None then Some (False, client, m, w)
      else if conf = None then Some (False, client, m, w)
      else do {
        (ok, adapter, adapter_length) \<leftarrow> srvd_conf_item_get conf (Some lit_client_adapter) None (Some 0) s;
        if \<not> ok then Some (False, client, m, w)
        else do {
          name \<leftarrow> rd_cstr adapter s;
          unsock \<leftarrow> strncmp_eq (the adapter_length) name lit_unsock;
          if unsock then do {
            (ok, path, path_length) \<leftarrow> srvd_conf_item_get conf (Some lit_client_path) None (Some 0) s;
            if \<not> ok then Some (False, client, m, w)
            else let (r, m) = srvd_client_unsock_allocate m in
              if r = None then Some (False, client, m, w)
              else do {
                bs \<leftarrow> rd_cstr path s;
                (ok, m, w) \<leftarrow> srvd_client_unsock_initialize r (Some bs) m w;
                if \<not> ok then do { m \<leftarrow> free_client r m; Some (False, client, m, w) }
                else Some (True, Some r, m, w) } }
          else do {
            tcp \<leftarrow> strncmp_eq (the adapter_length) name lit_tcp;
            if tcp then Some (False, client, m, w)
            else Some (False, client, m, w) } } })"

end
