(* ===== verification/Query.thy ===== *)
theory Query
  imports Client
begin

text \<open>
  Asking the server: \<open>srvd_service_request_query\<close> of \<open>lib/srvd/libsrvd/service.c\<close>. Its state is the
  packets in memory, the system, the client objects, the default configuration and its store.
\<close>

record world =
  w_heap :: heap
  w_os :: os
  w_clients :: client_store
  w_conf :: conf_default
  w_store :: conf_store

text \<open>
  The part up to the label \<open>_srvd_service_request_query_error\<close>: the status, the client object if
  there is one, and the state.
\<close>

definition query_exchange ::
    "byte list \<Rightarrow> fsys \<Rightarrow> ptr \<Rightarrow> ptr \<Rightarrow> world \<Rightarrow> (bool \<times> ptr \<times> world) option" where
  "query_exchange default_path fs reqp resp x = do {
     (ok, fconf, d, s) \<leftarrow> srvd_conf_file_default_get default_path (Some False) (w_conf x) fs (w_store x);
     let x = x\<lparr>w_conf := d, w_store := s\<rparr>;
     if \<not> ok then Some (False, None, x)
     else do {
       (ok, client, m, w) \<leftarrow> srvd_client_get_by_conf (Some None) (Some (cf_conf (d_fconf d))) s (w_clients x) (w_os x);
       let x = x\<lparr>w_clients := m, w_os := w\<rparr>;
       let cl = the client;
       if \<not> ok then Some (False, cl, x)
       else do {
         (ok, m, w) \<leftarrow> srvd_client_connect cl (w_clients x) (w_os x);
         let x = x\<lparr>w_clients := m, w_os := w\<rparr>;
         if \<not> ok then Some (False, cl, x)
         else do {
           (ok, h, w) \<leftarrow> srvd_client_write cl reqp (w_clients x) (w_heap x) (w_os x);
           let x = x\<lparr>w_heap := h, w_os := w\<rparr>;
           if \<not> ok then Some (False, cl, x)
           else do {
             (ok, h, w) \<leftarrow> srvd_client_read cl resp (w_clients x) (w_heap x) (w_os x);
             let x = x\<lparr>w_heap := h, w_os := w\<rparr>;
             if \<not> ok then Some (False, cl, x)
             else do {
               (_, w) \<leftarrow> srvd_client_disconnect cl (w_clients x) (w_os x);
               Some (True, cl, x\<lparr>w_os := w\<rparr>) } } } } } }"

text \<open>From the label on: the status of the response is read from its first field.\<close>

definition query_status :: "response \<Rightarrow> heap \<Rightarrow> response option" where
  "query_status r h = do {
     (ok, status_field) \<leftarrow> srvd_protocol_packet_field_get_first (r_packet r) (Some None) h;
     (ok, status_entry) \<leftarrow> (if ok then srvd_protocol_packet_field_entry_get_first (the status_field) (Some None) h
       else Some (False, Some None));
     if \<not> ok then Some (r\<lparr>r_status := SRVD_SERVICE_RESPONSE_FAIL\<rparr>)
     else do {
       (_, st) \<leftarrow> srvd_protocol_packet_field_entry_get_uint16 (the status_entry) (Some (r_status r)) h;
       Some (r\<lparr>r_status := the st\<rparr>) } }"

definition srvd_service_request_query ::
    "byte list \<Rightarrow> fsys \<Rightarrow> request option \<Rightarrow> response option \<Rightarrow> world \<Rightarrow> (bool \<times> response option \<times> world) option" where
  "srvd_service_request_query default_path fs request response x =
     (case request of None \<Rightarrow> Some (False, response, x)
      | Some q \<Rightarrow> (case response of None \<Rightarrow> Some (False, None, x)
        | Some r \<Rightarrow> do {
            (status, client, x) \<leftarrow> query_exchange default_path fs (q_packet q) (r_packet r) x;
            r \<leftarrow> query_status r (w_heap x);
            m \<leftarrow> (if client \<noteq> None then srvd_client_free client (w_clients x) else Some (w_clients x));
            Some (status, Some r, x\<lparr>w_clients := m\<rparr>) }))"

end
