(* ===== verification/Client_Refine.thy ===== *)
theory Client_Refine
  imports Query Conf_File_Refine Unsock_Refine
begin

text \<open>
  The client side: which adapter a configuration selects, that the adapter reads and writes packets
  as the server does, and what a query makes of the bytes the server answers with.
\<close>

section \<open>The adapter reads and writes as the server does\<close>

definition up_at :: "client_store \<Rightarrow> addr \<Rightarrow> nat \<Rightarrow> bool" where
  "up_at m a c \<longleftrightarrow> (\<exists>x. clients m a = Some x \<and> connected x = Some True \<and> cl_socket x = Some (Some c))"

lemma client_unsock_read_server:
  "up_at m a c \<Longrightarrow> srvd_client_unsock_read (Some a) (Some p) m h w = srvd_server_unsock_read (Some c) (Some p) h w"
  by (auto simp: up_at_def srvd_client_unsock_read_def srvd_server_unsock_read_def Let_def)

lemma client_unsock_write_server:
  assumes "up_at m a c"
  shows "srvd_client_unsock_write (Some a) (Some p) m h w = srvd_server_unsock_write (Some c) (Some p) h w"
proof -
  obtain z ser where "srvd_protocol_serial_packet_initialize (Some local_serial) = (z, ser)" by fastforce
  with assms show ?thesis
    by (cases "srvd_protocol_serial_packet_serialize ser (Some p) h")
       (auto simp: up_at_def srvd_client_unsock_write_def srvd_server_unsock_write_def Let_def)
qed

section \<open>Choosing the adapter\<close>

text \<open>The path of the socket, if the configuration names the socket adapter and a path.\<close>

definition unsock_path :: "(byte list \<rightharpoonup> byte list) \<Rightarrow> byte list option" where
  "unsock_path cm = (if cm (cstr lit_client_adapter) = Some (cstr lit_unsock) then cm (cstr lit_client_path) else None)"

definition sun_bytes :: "byte list \<Rightarrow> byte list" where
  "sun_bytes path = take SUN_PATH_LENGTH path @ replicate (SUN_PATH_LENGTH - length path) 0"

definition new_client :: "fd \<Rightarrow> byte list \<Rightarrow> client_unsock" where
  "new_client s path = \<lparr>cl_free = Fn_unsock_free, cl_finalize = Fn_unsock_finalize,
     cl_connect = Fn_unsock_connect, cl_disconnect = Fn_unsock_disconnect, cl_write = Fn_unsock_write,
     cl_read = Fn_unsock_read, connected = Some False, cl_endpoint = Some (sun_bytes path), cl_socket = Some s\<rparr>"

definition clients_ok :: "client_store \<Rightarrow> bool" where
  "clients_ok m \<longleftrightarrow> (\<forall>a \<ge> cl_brk m. clients m a = None)"

lemma client_literals_terminated [simp]:
  "0 \<in> set lit_client_adapter" "0 \<in> set lit_client_path" "0 \<in> set lit_unsock" "0 \<in> set lit_tcp"
  by (simp_all add: client_literals)

lemma item_value_is:
  assumes "conf_at s cf L" and "find (\<lambda>x. cstr (i_name x) = k) L = Some x"
  shows "cstrs s (fst (snd (snd x))) = Some (i_value x)" "0 \<in> set (i_value x)" "conf_map L k = Some (cstr (i_value x))"
  using assms find_item(2) [OF assms(2)] by (auto simp: conf_at_def item_is_def)

lemma cstr_sun_bytes: "0 \<notin> set path \<Longrightarrow> cstr (sun_bytes path) = take SUN_PATH_LENGTH path"
proof (cases "SUN_PATH_LENGTH \<le> length path")
  case True
  moreover assume "0 \<notin> set path"
  then have "0 \<notin> set (take SUN_PATH_LENGTH path)" using set_take_subset by fastforce
  ultimately show ?thesis by (simp add: sun_bytes_def cstr_id)
next
  case False
  moreover assume "0 \<notin> set path"
  ultimately obtain k where "SUN_PATH_LENGTH - length path = Suc k" by (metis not_le Suc_diff_Suc)
  then show ?thesis using \<open>0 \<notin> set path\<close> False by (simp add: sun_bytes_def cstr_append_NUL)
qed

lemma unsock_initialize_spec:
  assumes "clients m a = Some c" and "0 \<in> set bs"
  shows "srvd_client_unsock_initialize (Some a) (Some bs) m w =
     (let (s, w') = os_socket w in Some (s \<noteq> None,
        m\<lparr>clients := (clients m)(a \<mapsto> c\<lparr>connected := Some False, cl_endpoint := Some (sun_bytes (cstr bs)), cl_socket := Some s\<rparr>)\<rparr>, w'))"
  using assms strncpy_spec [of bs SUN_PATH_LENGTH] by (simp add: srvd_client_unsock_initialize_def sun_bytes_def)

lemma get_by_conf_spec:
  assumes at: "conf_at s cf L" and ok: "clients_ok m"
  defines "a \<equiv> cl_brk m"
  shows "srvd_client_get_by_conf (Some None) (Some cf) s m w = Some
     (case unsock_path (conf_map L) of None \<Rightarrow> (False, Some None, m, w)
      | Some path \<Rightarrow>
        if cl_oom m a then (False, Some None, m\<lparr>cl_brk := Suc a\<rparr>, w)
        else let (c, w') = os_socket w in
          if c = None then (False, Some None, m\<lparr>cl_brk := Suc a\<rparr>, w')
          else (True, Some (Some a), m\<lparr>cl_brk := Suc a, clients := (clients m)(a \<mapsto> new_client c path)\<rparr>, w'))"
proof (cases "find (\<lambda>x. cstr (i_name x) = cstr lit_client_adapter) L")
  case None
  then have "conf_map L (cstr lit_client_adapter) = None" using find_item(1) by blast
  then show ?thesis using None item_get_spec [OF at, of lit_client_adapter "Some 0"]
    by (simp add: srvd_client_get_by_conf_def unsock_path_def)
next
  case (Some x)
  note v = item_value_is [OF at Some]
  have g1: "srvd_conf_item_get (Some cf) (Some lit_client_adapter) None (Some 0) s =
      Some (True, Some (fst (snd (snd x))), Some (length (i_value x)))"
    using item_get_spec [OF at, of lit_client_adapter "Some 0"] Some by simp
  have rd: "rd_cstr (Some (fst (snd (snd x)))) s = Some (i_value x)" using v(1) by (simp add: rd_cstr_def)
  have cmp: "strncmp_eq (length (i_value x)) (i_value x) lit = Some (cstr (i_value x) = cstr lit)" if "0 \<in> set lit" for lit
    using strncmp_cstr [OF v(2) that length_cstr_less [OF v(2)]] .
  show ?thesis
  proof (cases "cstr (i_value x) = cstr lit_unsock")
    case False
    then have "unsock_path (conf_map L) = None" using v(3) by (simp add: unsock_path_def)
    then show ?thesis using False g1 rd cmp by (simp add: srvd_client_get_by_conf_def)
  next
    case True
    then have up: "unsock_path (conf_map L) = conf_map L (cstr lit_client_path)" using v(3) by (simp add: unsock_path_def)
    show ?thesis
    proof (cases "find (\<lambda>x. cstr (i_name x) = cstr lit_client_path) L")
      case None
      then have "conf_map L (cstr lit_client_path) = None" using find_item(1) by blast
      then show ?thesis using None True up g1 rd cmp item_get_spec [OF at, of lit_client_path "Some 0"]
        by (simp add: srvd_client_get_by_conf_def)
    next
      case (Some y)
      note v2 = item_value_is [OF at Some]
      have g2: "srvd_conf_item_get (Some cf) (Some lit_client_path) None (Some 0) s =
          Some (True, Some (fst (snd (snd y))), Some (length (i_value y)))"
        using item_get_spec [OF at, of lit_client_path "Some 0"] Some by simp
      have rd2: "rd_cstr (Some (fst (snd (snd y)))) s = Some (i_value y)" using v2(1) by (simp add: rd_cstr_def)
      have new: "clients m a = None" using ok by (simp add: clients_ok_def a_def)
      show ?thesis
      proof (cases "cl_oom m a")
        case oom: True
        then show ?thesis using True up v2(3) g1 g2 rd cmp
          by (simp add: srvd_client_get_by_conf_def srvd_client_unsock_allocate_def a_def Let_def)
      next
        case mem: False
        obtain m1 c1 where m1: "srvd_client_unsock_allocate m = (Some a, m1)" "clients m1 a = Some c1"
          "m1 = m\<lparr>cl_brk := Suc a, clients := (clients m)(a \<mapsto> c1)\<rparr>"
          "c1\<lparr>connected := Some False, cl_endpoint := Some (sun_bytes p), cl_socket := Some z\<rparr> = new_client z p" for p z
          using mem by (simp add: srvd_client_unsock_allocate_def a_def Let_def new_client_def)
        obtain c w' where sk: "os_socket w = (c, w')" by fastforce
        note i = unsock_initialize_spec [OF m1(2) v2(2), of w, unfolded sk m1(4), simplified]
        show ?thesis
        proof (cases c)
          case None
          have "free_client (Some a) (m1\<lparr>clients := (clients m1)(a \<mapsto> new_client None (cstr (i_value y)))\<rparr>) =
              Some (m\<lparr>cl_brk := Suc a\<rparr>)"
            using new m1(3) by (cases m) (simp add: free_client_def release_def fun_upd_idem)
          then show ?thesis using None True mem up v2(3) g1 g2 rd rd2 cmp m1(1) i sk
            by (simp add: srvd_client_get_by_conf_def Let_def)
        next
          case (Some c')
          then show ?thesis using True mem up v2(3) g1 g2 rd rd2 cmp m1(1,3) i sk
            by (simp add: srvd_client_get_by_conf_def Let_def)
        qed
      qed
    qed
  qed
qed

end
