(* ===== verification/Query_Refine.thy ===== *)
theory Query_Refine
  imports Client_Refine
begin

text \<open>
  What a query does, given the configuration: the request goes out in its wire form, and the packet
  and the status of the response are those of the bytes the server sends back.
\<close>

section \<open>The status of a response\<close>

definition status_of :: "u16 \<Rightarrow> spacket \<Rightarrow> u16" where
  "status_of st sp = (case sp of (_, e # _) # _ \<Rightarrow> (if length e = 2 then of_be16 e else st)
     | _ \<Rightarrow> SRVD_SERVICE_RESPONSE_FAIL)"

lemma query_status_spec:
  assumes "packet_rep h p sp" and "r_packet r = Some p"
  shows "query_status r h = Some (r\<lparr>r_status := status_of (r_status r) sp\<rparr>)"
proof -
  from assms(1) obtain T where T: "packet_at Unlocked h p T" "abs_packet T = sp" by (auto simp: packet_rep_def)
  note first = get_first_spec [OF T(1)]
  show ?thesis
  proof (cases T)
    case Nil
    then show ?thesis using first T(2) assms(2) by (simp add: query_status_def status_of_def abs_packet_def)
  next
    case (Cons t T')
    then have fo: "field_ok h (f_addr t, f_ty t, f_ents t)" using T(1) by (simp add: packet_at_def)
    note efirst = entry_get_first_spec [OF fo]
    have sp: "sp = (f_ty t, map e_bytes (f_ents t)) # abs_packet T'" using T(2) Cons by (simp add: abs_packet_def abs_field_def)
    show ?thesis
    proof (cases "f_ents t")
      case Nil
      then show ?thesis using first efirst Cons assms(2) sp by (simp add: query_status_def status_of_def)
    next
      case (Cons e es)
      then have "entry_ok h e" using fo by (simp add: field_ok_def)
      from entry_get_uint16_spec [OF this, of "r_status r"] show ?thesis
        using first efirst \<open>T = t # T'\<close> Cons assms(2) sp by (simp add: query_status_def status_of_def)
    qed
  qed
qed

section \<open>A query that reaches its server\<close>

text \<open>The configuration after asking for the default file, and the path of the socket it names.\<close>

definition conf_ready :: "byte list \<Rightarrow> fsys \<Rightarrow> world \<Rightarrow> conf_default \<Rightarrow> conf_store \<Rightarrow> (byte list \<rightharpoonup> byte list) \<Rightarrow> bool" where
  "conf_ready dp fs x d s cm \<longleftrightarrow>
     srvd_conf_file_default_get dp (Some False) (w_conf x) fs (w_store x) = Some (True, Some True, d, s) \<and>
     (\<exists>L. conf_at s (cf_conf (d_fconf d)) L \<and> conf_map L = cm)"

lemma conf_map_no_NUL: "conf_map L k = Some v \<Longrightarrow> 0 \<notin> set v"
  by (auto simp: conf_items_def cstr_no_NUL dest!: map_of_SomeD)

lemma unsock_path_no_NUL: "unsock_path (conf_map L) = Some path \<Longrightarrow> 0 \<notin> set path"
  by (auto simp: unsock_path_def conf_map_no_NUL split: if_splits)

lemma os_socket_ok:
  "\<not> os_fails w (os_calls w) \<Longrightarrow> os_socket w = (Some (fd_brk w),
     w\<lparr>os_calls := Suc (os_calls w), fd_brk := Suc (fd_brk w), streams := (streams w)(fd_brk w \<mapsto> peers w (fd_brk w))\<rparr>)"
  by (simp add: os_socket_def Let_def)

text \<open>The object and the system after creating the client and connecting it.\<close>

definition opened :: "os \<Rightarrow> os" where
  "opened w = w\<lparr>os_calls := os_calls w + 2, fd_brk := Suc (fd_brk w), streams := (streams w)(fd_brk w \<mapsto> peers w (fd_brk w))\<rparr>"

lemma connect_spec:
  assumes o: "clients m a = Some (new_client (Some c) path)" and st: "streams w c \<noteq> None" and p: "0 \<notin> set path"
  shows "srvd_client_connect (Some a) m w =
     (let up = \<not> os_fails w (os_calls w) \<and> listening w (take SUN_PATH_LENGTH path) in
      Some (up, if up then m\<lparr>clients := (clients m)(a \<mapsto> (new_client (Some c) path)\<lparr>connected := Some True\<rparr>)\<rparr> else m,
        w\<lparr>os_calls := Suc (os_calls w)\<rparr>))"
  using assms cstr_sun_bytes [OF p]
  by (auto simp: srvd_client_connect_def srvd_client_unsock_connect_def os_connect_def os_control_def new_client_def Let_def)

lemma client_free_spec:
  "clients m a = Some c \<Longrightarrow> cl_free c = Fn_unsock_free \<Longrightarrow>
     srvd_client_free (Some a) m = Some (m\<lparr>clients := (clients m)(a := None)\<rparr>)"
  by (simp add: srvd_client_free_def srvd_client_unsock_free_def free_client_def release_def)

text \<open>The exchange up to the connection, for a configuration that names a socket.\<close>

lemma query_exchange_connect:
  assumes conf: "conf_ready dp fs x d s cm" and path: "unsock_path cm = Some path"
    and cok: "clients_ok (w_clients x)" and mem: "\<not> cl_oom (w_clients x) (cl_brk (w_clients x))"
    and os: "\<not> os_fails (w_os x) (os_calls (w_os x))"
  defines "a \<equiv> cl_brk (w_clients x)" and "w \<equiv> w_os x"
  defines "up \<equiv> \<not> os_fails w (Suc (os_calls w)) \<and> listening w (take SUN_PATH_LENGTH path)"
  defines "o1 \<equiv> (new_client (Some (fd_brk w)) path)\<lparr>connected := Some up\<rparr>"
  defines "m1 \<equiv> (w_clients x)\<lparr>cl_brk := Suc a, clients := (clients (w_clients x))(a \<mapsto> o1)\<rparr>"
  shows "query_exchange dp fs reqp resp x = (let x = x\<lparr>w_conf := d, w_store := s, w_clients := m1, w_os := opened w\<rparr> in
     if \<not> up then Some (False, Some a, x)
     else do {
       (ok, h, w) \<leftarrow> srvd_client_write (Some a) reqp m1 (w_heap x) (opened w);
       let x = x\<lparr>w_heap := h, w_os := w\<rparr>;
       if \<not> ok then Some (False, Some a, x)
       else do {
         (ok, h, w) \<leftarrow> srvd_client_read (Some a) resp m1 h w;
         let x = x\<lparr>w_heap := h, w_os := w\<rparr>;
         if \<not> ok then Some (False, Some a, x)
         else do {
           (_, w) \<leftarrow> srvd_client_disconnect (Some a) m1 w;
           Some (True, Some a, x\<lparr>w_os := w\<rparr>) } } })"
proof -
  from conf obtain L where get: "srvd_conf_file_default_get dp (Some False) (w_conf x) fs (w_store x) = Some (True, Some True, d, s)"
    and L: "conf_at s (cf_conf (d_fconf d)) L" "conf_map L = cm" by (auto simp: conf_ready_def)
  let ?w = "w\<lparr>os_calls := Suc (os_calls w), fd_brk := Suc (fd_brk w), streams := (streams w)(fd_brk w \<mapsto> peers w (fd_brk w))\<rparr>"
  let ?m = "(w_clients x)\<lparr>cl_brk := Suc a, clients := (clients (w_clients x))(a \<mapsto> new_client (Some (fd_brk w)) path)\<rparr>"
  have mk: "srvd_client_get_by_conf (Some None) (Some (cf_conf (d_fconf d))) s (w_clients x) w = Some (True, Some (Some a), ?m, ?w)"
    using get_by_conf_spec [OF L(1) cok, of w] L(2) path mem os_socket_ok [of w] os by (simp add: a_def w_def)
  have "0 \<notin> set path" using unsock_path_no_NUL path L(2) by blast
  then have con: "srvd_client_connect (Some a) ?m ?w = Some (up, m1, opened w)"
    using connect_spec [of ?m a "fd_brk w" path ?w]
    by (simp add: up_def m1_def opened_def Let_def o1_def new_client_def)
  show ?thesis using get mk con by (simp add: query_exchange_def w_def Let_def cong: if_cong cong del: option_bind_weak_cong if_weak_cong)
qed

text \<open>Disconnecting closes the connection; the object stays connected.\<close>

lemma disconnect_spec:
  assumes "clients m a = Some c" and "connected c = Some True" and "cl_socket c = Some (Some k)" and "cl_disconnect c = Fn_unsock_disconnect"
  shows "srvd_client_disconnect (Some a) m w = Some (os_close (Some k) w)"
  using assms by (simp add: srvd_client_disconnect_def srvd_client_unsock_disconnect_def)

text \<open>
  What stays for the next query: the configuration that was handed out is kept, one object and one
  descriptor were used up, and the system is as before.
\<close>

definition next_system :: "os \<Rightarrow> os \<Rightarrow> bool" where
  "next_system w w' \<longleftrightarrow> fd_brk w' = Suc (fd_brk w) \<and> peers w' = peers w \<and> listening w' = listening w \<and>
     os_fails w' = os_fails w \<and> (\<forall>c < fd_brk w. streams w' c = streams w c \<and> closed w' c = closed w c)"

definition continues :: "byte list \<Rightarrow> fsys \<Rightarrow> world \<Rightarrow> world \<Rightarrow> bool" where
  "continues dp fs x x' \<longleftrightarrow>
     srvd_conf_file_default_get dp (Some False) (w_conf x) fs (w_store x) = Some (True, Some True, w_conf x', w_store x') \<and>
     clients (w_clients x') = clients (w_clients x) \<and> cl_brk (w_clients x') = Suc (cl_brk (w_clients x)) \<and>
     cl_oom (w_clients x') = cl_oom (w_clients x) \<and> next_system (w_os x) (w_os x')"

lemma continues_heap [simp]:
  "continues dp fs x (x'\<lparr>w_heap := h\<rparr>) = continues dp fs x x'" "continues dp fs (x\<lparr>w_heap := h\<rparr>) x' = continues dp fs x x'"
  by (simp_all add: continues_def)

lemma next_system_close:
  "next_system w w' \<Longrightarrow> next_system w (snd (os_close (Some (fd_brk w)) w'))"
  by (auto simp: next_system_def os_close_def os_control_def Let_def)

lemma next_system_opened: "io_step (fd_brk w) (opened w) w' \<Longrightarrow> next_system w w'"
  by (cases w') (auto simp: next_system_def io_step_def opened_def)

text \<open>
  What a query answered by bytes of a given meaning leads to. The connection is closed after a whole
  answer and left open after a refused one.
\<close>

definition queried :: "byte list \<Rightarrow> fsys \<Rightarrow> addr \<Rightarrow> response \<Rightarrow> byte list \<Rightarrow> spacket parse \<Rightarrow> world \<Rightarrow> (bool \<times> response option \<times> world) option \<Rightarrow> bool" where
  "queried dp fs p r req out x res \<longleftrightarrow> (let c = fd_brk (w_os x); h = w_heap x in
     case out of Overrun \<Rightarrow> True | Broken \<Rightarrow> True
     | Refused sp \<Rightarrow> \<exists>x'. res = Some (False, Some (r\<lparr>r_status := status_of (r_status r) sp\<rparr>), x') \<and>
         held {brk h..<brk (w_heap x')} (w_heap x') p sp \<and> modifies {p} {} {} {} h (w_heap x') \<and>
         continues dp fs x x' \<and>
         sent (w_os x') c = outbox (peers (w_os x) c) @ req \<and> streams (w_os x') c \<noteq> None
     | Parsed sp \<Rightarrow> \<exists>x'. res = Some (True, Some (r\<lparr>r_status := status_of (r_status r) sp\<rparr>), x') \<and>
         held {brk h..<brk (w_heap x')} (w_heap x') p sp \<and> modifies {p} {} {} {} h (w_heap x') \<and>
         continues dp fs x x' \<and>
         sent (w_os x') c = outbox (peers (w_os x) c) @ req \<and> streams (w_os x') c = None)"

lemma held_later_brk:
  assumes "held {brk h2..<brk h3} h3 p sp" and "brk h \<le> brk h2"
  shows "held {brk h..<brk h3} h3 p sp"
  by (rule held_mono [OF assms(1)]) (use assms(2) in auto)

lemma query_spec:
  assumes ok: "heap_ok (w_heap x)" and mem: "\<forall>k. \<not> oom (w_heap x) k"
    and req: "q_packet q = Some qp" "packet_at lk (w_heap x) qp T" "counts_fit (abs_packet T)"
    and resp: "r_packet r = Some rp" "packet_at Unlocked (w_heap x) rp []"
    and conf: "conf_ready dp fs x d s cm" "unsock_path cm = Some path"
    and cl: "clients_ok (w_clients x)" "\<not> cl_oom (w_clients x) (cl_brk (w_clients x))"
    and os: "\<forall>k. \<not> os_fails (w_os x) k" "listening (w_os x) (take SUN_PATH_LENGTH path)" "smooth (peers (w_os x) (fd_brk (w_os x)))"
  shows "queried dp fs rp r (wire_packet (abs_packet T)) (receive (inbox (peers (w_os x) (fd_brk (w_os x))))) x
     (srvd_service_request_query dp fs (Some q) (Some r) x)"
proof -
  let ?h = "w_heap x" and ?w = "w_os x" and ?m = "w_clients x" and ?a = "cl_brk (w_clients x)" and ?c = "fd_brk (w_os x)"
  let ?s = "peers ?w ?c" and ?w1 = "opened ?w" and ?W = "wire_packet (abs_packet T)"
  let ?o = "(new_client (Some ?c) path)\<lparr>connected := Some True\<rparr>"
  let ?m1 = "?m\<lparr>cl_brk := Suc ?a, clients := (clients ?m)(?a \<mapsto> ?o)\<rparr>"
  have up: "up_at ?m1 ?a ?c" by (simp add: up_at_def new_client_def)
  have at1: "clients ?m1 ?a = Some ?o" by simp
  have st1: "streams ?w1 ?c = Some ?s" by (simp add: opened_def)
  obtain z k w2 where wr: "srvd_server_unsock_write (Some ?c) (Some qp) ?h ?w1 = Some (z, ?h\<lparr>brk := Suc (brk ?h)\<rparr>, w2)"
    "io_step ?c ?w1 w2" "map_option outbox (streams w2 ?c) = Some (outbox ?s @ take k ?W)" "z \<Longrightarrow> length ?W \<le> k" "z"
    "map_option (\<lambda>s. (inbox s, sched s)) (streams w2 ?c) = Some (inbox ?s, sched ?s)"
    by (rule unsock_write_spec [OF ok req(2,3) st1]) (use os(3) mem in blast)
  then obtain s2 where s2: "streams w2 ?c = Some s2" "outbox s2 = outbox ?s @ ?W" "inbox s2 = inbox ?s" "sched s2 = sched ?s" by auto
  have sm2: "smooth s2" using os(3) s2(4) by (simp add: smooth_def)
  let ?h2 = "?h\<lparr>brk := Suc (brk ?h)\<rparr>"
  have ok2: "heap_ok ?h2" and m2: "modifies {} {} {} {} ?h ?h2" using ok by (auto simp: modifies_def heap_ok_def)
  have rp2: "packet_at Unlocked ?h2 rp []" by (rule packet_at_empty_frame [OF m2 ok resp(2)])
  have mem2: "\<forall>k. \<not> oom ?h2 k" using mem by simp
  obtain n where rd: "receives ?h2 rp ?c w2 (receive (take n (inbox s2))) (srvd_server_unsock_read (Some ?c) (Some rp) ?h2 w2)"
    "receive (take n (inbox s2)) = receive (inbox ?s)"
    by (rule unsock_read_spec [OF ok2 rp2 mem2 s2(1)], rule that, assumption) (use sm2 s2(3) in simp)
  have wr': "srvd_client_write (Some ?a) (Some qp) ?m1 ?h ?w1 = Some (True, ?h2, w2)"
    using wr(1,5) client_unsock_write_server [OF up] by (simp add: srvd_client_write_def new_client_def)
  have rd': "srvd_client_read (Some ?a) (Some rp) ?m1 ?h2 w2 = srvd_server_unsock_read (Some ?c) (Some rp) ?h2 w2"
    using client_unsock_read_server [OF up] by (simp add: srvd_client_read_def new_client_def)
  have dis: "srvd_client_disconnect (Some ?a) ?m1 w = Some (os_close (Some ?c) w)" for w
    by (rule disconnect_spec [OF at1]) (simp_all add: new_client_def)
  have free: "srvd_client_free (Some ?a) ?m1 = Some (?m1\<lparr>clients := (clients ?m1)(?a := None)\<rparr>)"
    by (rule client_free_spec [OF at1]) (simp add: new_client_def)
  have gone: "(clients ?m1)(?a := None) = clients ?m" using cl(1) by (simp add: clients_ok_def fun_upd_idem)
  note ex = query_exchange_connect [OF conf cl(1,2), of "Some qp" "Some rp"]
  let ?x1 = "x\<lparr>w_conf := d, w_store := s, w_clients := ?m1\<rparr>"
  have exch: "query_exchange dp fs (Some qp) (Some rp) x = do {
      (ok, h, w) \<leftarrow> srvd_server_unsock_read (Some ?c) (Some rp) ?h2 w2;
      Some (ok, Some ?a, ?x1\<lparr>w_heap := h, w_os := if ok then snd (os_close (Some ?c) w) else w\<rparr>) }"
    using ex os(1,2) wr' rd' dis by (cases "srvd_server_unsock_read (Some ?c) (Some rp) ?h2 w2") (auto simp: Let_def split: prod.splits)
  have fin: "\<exists>x'. srvd_service_request_query dp fs (Some q) (Some r) x =
        Some (ok, Some (r\<lparr>r_status := status_of (r_status r) sp\<rparr>), x') \<and>
      w_heap x' = h3 \<and> w_os x' = (if ok then snd (os_close (Some ?c) w3) else w3) \<and> w_conf x' = d \<and> w_store x' = s \<and>
      clients (w_clients x') = clients ?m \<and> cl_brk (w_clients x') = Suc ?a \<and> cl_oom (w_clients x') = cl_oom ?m"
    if run: "srvd_server_unsock_read (Some ?c) (Some rp) ?h2 w2 = Some (ok, h3, w3)" and at: "held A h3 rp sp" for ok h3 w3 A sp
  proof -
    note st = query_status_spec [OF held_rep [OF at] resp(1)]
    show ?thesis using exch run st free gone req(1) resp(1) by (simp add: srvd_service_request_query_def)
  qed
  have out: "sent w3 ?c = outbox ?s @ ?W" "streams w3 ?c \<noteq> None" "next_system ?w w3"
    if io: "reads_only ?c w2 w3" for w3
  proof -
    from io s2(1,2) show "sent w3 ?c = outbox ?s @ ?W" "streams w3 ?c \<noteq> None" by (auto simp: reads_only_def sent_def)
    have "io_step ?c ?w1 w3" using io wr(2) io_step_trans by (auto simp: reads_only_def)
    then show "next_system ?w w3" by (rule next_system_opened)
  qed
  have close: "sent (snd (os_close (Some ?c) w3)) ?c = outbox ?s @ ?W \<and> streams (snd (os_close (Some ?c) w3)) ?c = None \<and>
      next_system ?w (snd (os_close (Some ?c) w3))"
    if "reads_only ?c w2 w3" for w3
    using out(1,2) [OF that] next_system_close [OF out(3) [OF that]] os(1)
      out(3) [OF that, unfolded next_system_def] by (auto simp: os_close_def os_control_def sent_def Let_def split: option.splits)
  have mod: "modifies {rp} {} {} {} ?h h3" if "modifies {rp} {} {} {} ?h2 h3" for h3
    by (rule modifies_trans [OF modifies_mono [OF m2] that]) simp_all
  have get: "srvd_conf_file_default_get dp (Some False) (w_conf x) fs (w_store x) = Some (True, Some True, d, s)"
    using conf(1) by (simp add: conf_ready_def)
  note lat = held_later_brk [where h = ?h and ?h2.0 = ?h2]
  show ?thesis
  proof (cases "receive (inbox ?s)")
    case (Refused sp)
    with rd obtain h3 w3 where r3: "srvd_server_unsock_read (Some ?c) (Some rp) ?h2 w2 = Some (False, h3, w3)"
      "held {brk ?h2..<brk h3} h3 rp sp" "modifies {rp} {} {} {} ?h2 h3" "reads_only ?c w2 w3" by (auto simp: receives_def)
    from fin [OF r3(1,2)] lat [OF r3(2)] mod [OF r3(3)] out [OF r3(4)] Refused show ?thesis
      using get by (force simp: queried_def continues_def Let_def)
  next
    case (Parsed sp)
    with rd obtain h3 w3 where r3: "srvd_server_unsock_read (Some ?c) (Some rp) ?h2 w2 = Some (True, h3, w3)"
      "held {brk ?h2..<brk h3} h3 rp sp" "modifies {rp} {} {} {} ?h2 h3" "reads_only ?c w2 w3" by (auto simp: receives_def)
    from fin [OF r3(1,2)] lat [OF r3(2)] mod [OF r3(3)] close [OF r3(4)] Parsed show ?thesis
      using get by (force simp: queried_def continues_def Let_def)
  qed (simp_all add: queried_def Let_def)
qed

section \<open>A query that does not reach its server\<close>

lemma query_unreached:
  assumes resp: "r_packet r = Some rp" "packet_at Unlocked (w_heap x) rp []"
    and conf: "conf_ready dp fs x d s cm" "unsock_path cm = Some path"
    and cl: "clients_ok (w_clients x)" "\<not> cl_oom (w_clients x) (cl_brk (w_clients x))"
    and os: "\<not> os_fails (w_os x) (os_calls (w_os x))" "\<not> listening (w_os x) (take SUN_PATH_LENGTH path)"
  shows "srvd_service_request_query dp fs (Some q) (Some r) x =
     Some (False, Some (r\<lparr>r_status := SRVD_SERVICE_RESPONSE_FAIL\<rparr>),
       x\<lparr>w_conf := d, w_store := s, w_clients := (w_clients x)\<lparr>cl_brk := Suc (cl_brk (w_clients x))\<rparr>, w_os := opened (w_os x)\<rparr>)"
proof -
  let ?m = "w_clients x" and ?a = "cl_brk (w_clients x)"
  let ?o = "(new_client (Some (fd_brk (w_os x))) path)\<lparr>connected := Some False\<rparr>"
  let ?m1 = "?m\<lparr>cl_brk := Suc ?a, clients := (clients ?m)(?a \<mapsto> ?o)\<rparr>"
  have "srvd_client_free (Some ?a) ?m1 = Some (?m1\<lparr>clients := (clients ?m1)(?a := None)\<rparr>)"
    by (rule client_free_spec [where c = ?o]) (simp_all add: new_client_def)
  moreover have "?m1\<lparr>clients := (clients ?m1)(?a := None)\<rparr> = ?m\<lparr>cl_brk := Suc ?a\<rparr>"
    using cl(1) by (cases ?m) (simp add: clients_ok_def fun_upd_idem)
  moreover have "packet_rep (w_heap x) rp []" unfolding packet_rep_def using resp(2) by (auto intro: exI [of _ "[]"])
  ultimately show ?thesis
    using query_exchange_connect [OF conf cl os(1), of "q_packet q" "Some rp"] os(2) resp(1)
      query_status_spec [of "w_heap x" rp "[]" r]
    by (simp add: srvd_service_request_query_def Let_def status_of_def)
qed

lemma query_unconfigured:
  assumes resp: "r_packet r = Some rp" "packet_at Unlocked (w_heap x) rp []"
    and conf: "conf_ready dp fs x d s cm" "unsock_path cm = None" and cl: "clients_ok (w_clients x)"
  shows "srvd_service_request_query dp fs (Some q) (Some r) x =
     Some (False, Some (r\<lparr>r_status := SRVD_SERVICE_RESPONSE_FAIL\<rparr>), x\<lparr>w_conf := d, w_store := s\<rparr>)"
proof -
  from conf obtain L where get: "srvd_conf_file_default_get dp (Some False) (w_conf x) fs (w_store x) = Some (True, Some True, d, s)"
    and L: "conf_at s (cf_conf (d_fconf d)) L" "conf_map L = cm" by (auto simp: conf_ready_def)
  have "packet_rep (w_heap x) rp []" unfolding packet_rep_def using resp(2) by (auto intro: exI [of _ "[]"])
  then show ?thesis
    using get get_by_conf_spec [OF L(1) cl, of "w_os x"] L(2) conf(2) resp(1) query_status_spec [of "w_heap x" rp "[]" r]
    by (simp add: srvd_service_request_query_def query_exchange_def status_of_def Let_def)
qed

end
