(* ===== verification/Demo_Service.thy ===== *)
theory Demo_Service
  imports Server_Memory Query_Refine Demo
begin

text \<open>
  A small world for the properties of server and client: a server with one handler for the type of a
  passwd request, streams that move all data, and a configuration file that names the socket \<open>/s\<close>.
\<close>

abbreviation demo_request :: spacket where "demo_request \<equiv> [(701, [[104, 105]])]"

definition demo_run :: handler where
  "demo_run q r h = do {
     (_, h) \<leftarrow> srvd_protocol_packet_field_append (r_packet r) 702 1 (Some [7]) h;
     Some (r\<lparr>r_status := SRVD_SERVICE_RESPONSE_SUCCESS\<rparr>, h) }"

definition demo_app :: "u16 \<Rightarrow> service" where
  "demo_app ty sp = (SRVD_SERVICE_RESPONSE_SUCCESS, [(702, [[7]])])"

definition demo_handlers :: "handler node_store" where
  "demo_handlers = \<lparr>nodes = [0 \<mapsto> Some \<lparr>n_type = 701, n_handler = demo_run, n_next = None\<rparr>], nbrk = 1, noom = (\<lambda>_. False)\<rparr>"

definition demo_sv :: server_unsock where
  "demo_sv = \<lparr>monitor = \<lparr>services = Some 0, executing = True\<rparr>, s_conf = \<lparr>cf_socket_path = Some [47, 115, 0], queue_size = 5\<rparr>,
     endpoint = [47, 115, 0], s_socket = Some 3\<rparr>"

definition demo_stream :: "byte list \<Rightarrow> stream" where
  "demo_stream bs = \<lparr>inbox = bs, outbox = [], sched = (\<lambda>_ n. Some n), turn = 0\<rparr>"

definition demo_os :: "(nat \<Rightarrow> byte list) \<Rightarrow> os" where
  "demo_os bs = \<lparr>streams = [3 \<mapsto> demo_stream []], closed = Map.empty, fd_brk = 4, peers = (\<lambda>c. demo_stream (bs c)),
     listening = (\<lambda>p. p = [47, 115]), os_fails = (\<lambda>_. False), os_calls = 0\<rparr>"

lemma demo_implements: "implements demo_run (demo_app ty)"
proof -
  have "\<exists>r' h'. demo_run q r h = Some (r', h') \<and> r_packet r' = Some b \<and> r_status r' = fst (demo_app ty sp) \<and>
      held {brk h..<brk h'} h' b (snd (demo_app ty sp)) \<and> modifies {b} {} {} {} h h'"
    if c: "heap_ok h" "\<forall>k. \<not> oom h k" "r_packet r = Some b" "packet_rep h b []" for q r b h sp
  proof -
    have rd: "readable 1 (Some [7 :: byte])" by (simp add: readable_def)
    from c(4) obtain T where "packet_at Unlocked h b T" "abs_packet T = []" by (auto simp: packet_rep_def)
    then have he: "held {} h b []" by (auto intro: held_empty simp: abs_packet_def)
    obtain z h' where a: "srvd_protocol_packet_field_append (Some b) 702 1 (Some [7]) h = Some (z, h')"
      "held ({} \<union> {brk h..<brk h'}) h' b (if z then [] @ [(702, [payload 1 (Some [7])])] else [])"
      "modifies {b} {} {} {} h h'" "z \<longleftrightarrow> 702 \<notin> fst ` set ([] :: spacket) \<and> payload_ok 1 (Some [7]) \<and> no_oom h h'"
      by (rule held_append [OF c(1) he rd, of 702])
    have "z" using a(4) no_oom_never [of h h'] c(2) by simp
    with a c(3) show ?thesis by (auto simp: demo_run_def demo_app_def)
  qed
  then show ?thesis unfolding implements_def by blast
qed

lemma demo_served [simp]: "served [701 \<mapsto> demo_run] demo_app"
  using demo_implements by (auto simp: served_def answers_fit_def) (auto simp: demo_app_def)

lemma demo_frugal [simp]: "all_frugal [701 \<mapsto> demo_run] demo_app"
proof -
  have "balance h [] h' (snd (demo_app ty sp))"
    if c: "heap_ok h" "\<forall>k. \<not> oom h k" "q_packet q = Some a" "r_packet r = Some b" "a \<noteq> b" "received sp" "packet_rep h a sp"
      "packet_rep h b []" "demo_run q r h = Some (r', h')" for q r a b h sp r' h' ty
  proof -
    from c(4,9) obtain z where app: "srvd_protocol_packet_field_append (Some b) 702 1 (Some [7]) h = Some (z, h')"
      by (auto simp: demo_run_def elim!: bind_SomeE)
    obtain r2 h2 where im: "demo_run q r h = Some (r2, h2)" "held {brk h..<brk h2} h2 b (snd (demo_app ty sp))"
      using demo_implements [of ty] c(1-8) unfolding implements_def by blast
    from c(8) obtain T where T: "packet_at Unlocked h b T" "abs_packet T = []" by (auto simp: packet_rep_def)
    have rd: "readable 1 (Some [7 :: byte])" and pay: "payload_ok 1 (Some [7 :: byte])" by (simp_all add: readable_def)
    have "held {} h b []" using T by (auto intro: held_empty simp: abs_packet_def)
    then have "z" by (rule held_append [OF c(1) _ rd, of _ _ _ 702]) (use app pay no_oom_never c(2) in auto)
    with append_balance [OF c(1,2) pay app, of "[]"] show ?thesis by (simp add: demo_app_def payload_def)
  qed
  then show ?thesis unfolding all_frugal_def frugal_def by (auto split: if_splits)
qed

lemma demo_handlers_rep [simp]: "registry_rep (monitor demo_sv, demo_handlers) [701 \<mapsto> demo_run]"
  unfolding registry_rep_def registry_at_def
  by (auto simp: demo_sv_def demo_handlers_def node_is_def intro!: exI [of _ "[(0, 701, demo_run)]"])

lemma demo_ready [simp]: "ready demo_sv (demo_os bs)"
  by (simp add: ready_def demo_sv_def demo_os_def)

lemma demo_smooth [simp]: "smooth (demo_stream bs)"
  by (simp add: smooth_def demo_stream_def)

lemma demo_os_simps [simp]:
  "fd_brk (demo_os bs) = 4" "peers (demo_os bs) c = demo_stream (bs c)" "os_fails (demo_os bs) k = False"
  "inbox (demo_stream b) = b" "outbox (demo_stream b) = []" "listening (demo_os bs) p = (p = [47, 115])"
  by (simp_all add: demo_os_def demo_stream_def)

lemma demo_request_travels [simp]: "travels demo_request"
  by (simp add: travels_def counts_fit_def entries_fit_def length_wire_field)

lemma demo_received [simp]: "receive (wire_packet demo_request) = Parsed demo_request"
  using receive_wire [OF demo_request_travels, of "[]"] by simp

lemma demo_reply [simp]: "reply [701 \<mapsto> demo_run] demo_app demo_request = [status_field 0, (702, [[7]])]"
  by (simp add: reply_def demo_app_def with_status_def service_codes)

end
