(* ===== verification/Server_Properties.thy ===== *)
theory Server_Properties
  imports Demo_Service
begin

text \<open>
  The properties of the server on its socket. Every one is followed by its use in the small world of
  \<open>Demo_Service\<close>.
\<close>

text \<open>C11. One turn of the server's loop, for every request and every schedule of the connection. A
  request that means a packet with at least one field is answered with the reply: the response of
  the service registered for the type of the first field with the status in front, or the status
  \<open>UNAVAIL\<close> alone. What is sent is a first part of the wire form of the reply, and all of it when the
  connection cuts no call short; when it does, that part may be empty, and the request itself may be
  refused instead. A refused request and one without fields get nothing. A request that breaks the
  parser stops the server. No other connection and no object of the memory is changed, and a turn
  leaves no object of its own: when the handlers leave none but those of the response, the memory
  after the turn is the one before it, except for the number of allocations made. Memory does not
  run out.\<close>

theorem turn_answers_request:
  assumes "heap_ok h" and "\<forall>k. \<not> oom h k" and "ready sv w" and "\<not> os_fails w (os_calls w)"
    and "registry_rep (monitor sv, ns) tbl" and "served tbl app"
  shows "(\<exists>out. turn_as h w (reply tbl app) out (execute_turn sv ns (h, w)) \<and>
       (out = receive (inbox (peers w (fd_brk w))) \<or> out = Refused [] \<and> \<not> smooth (peers w (fd_brk w)))) \<and>
     (all_frugal tbl app \<longrightarrow>
       (\<forall>h' w'. execute_turn sv ns (h, w) = Some (h', w') \<longrightarrow> h' = h\<lparr>brk := brk h'\<rparr>))"
proof -
  let ?s = "peers w (fd_brk w)"
  show ?thesis
  proof (rule execute_turn_spec [OF assms])
    fix m
    assume as: "turn_as h w (reply tbl app) (receive (take m (inbox ?s))) (execute_turn sv ns (h, w))"
      and "smooth ?s \<Longrightarrow> receive (take m (inbox ?s)) = receive (inbox ?s)"
    then have "\<exists>out. turn_as h w (reply tbl app) out (execute_turn sv ns (h, w)) \<and>
        (out = receive (inbox ?s) \<or> out = Refused [] \<and> \<not> smooth ?s)"
      using receive_prefix [of m "inbox ?s"] by (intro exI [of _ "receive (take m (inbox ?s))"]) auto
    moreover have "modifies {} {} {} {} h h'" if "execute_turn sv ns (h, w) = Some (h', w')" for h' w'
      using as that by (auto simp: turn_as_def Let_def split: parse.splits)
    ultimately show ?thesis using execute_turn_restores [OF assms(1-3,5,6)] by blast
  qed
qed

theorem turn_answers_request_witness:
  "\<exists>h' w'. execute_turn demo_sv demo_handlers (demo_empty, demo_os (\<lambda>_. wire_packet demo_request)) = Some (h', w') \<and>
     h' = demo_empty\<lparr>brk := brk h'\<rparr> \<and> sent w' 4 = wire_packet [status_field 0, (702, [[7]])]"
proof -
  let ?w = "demo_os (\<lambda>_. wire_packet demo_request)" and ?W = "wire_packet [status_field 0, (702, [[7]])]"
  have base: "heap_ok demo_empty" "\<forall>k. \<not> oom demo_empty k" "ready demo_sv ?w" "\<not> os_fails ?w (os_calls ?w)"
    "registry_rep (monitor demo_sv, demo_handlers) [701 \<mapsto> demo_run]" "served [701 \<mapsto> demo_run] demo_app" by simp_all
  note turn = turn_answers_request [OF base]
  from turn obtain h' w' k where r: "execute_turn demo_sv demo_handlers (demo_empty, ?w) = Some (h', w')"
    "sent w' 4 = take k ?W" "length ?W \<le> k" by (auto simp: turn_as_def Let_def)
  from turn r(1) demo_frugal have "h' = demo_empty\<lparr>brk := brk h'\<rparr>" by blast
  with r show ?thesis by auto
qed

text \<open>C12. The server does not stop: while no client sends a request that breaks the parser and memory
  does not run out, any number of turns runs, and as many clients are accepted as turns are made
  when \<open>accept\<close> does not fail. Every accepted client whose connection cuts no call short gets the
  whole reply to its request, and nothing for a refused request or one without fields; one whose
  connection does may get only a first part of the reply, or nothing. The turns change no object of
  the memory, and when the handlers leave no objects but those of the response, the memory after all
  of them is the one before, except for the number of allocations made.\<close>

theorem turns_serve_every_client:
  assumes "heap_ok h" and "\<forall>k. \<not> oom h k" and "ready sv w" and "registry_rep (monitor sv, ns) tbl" and "served tbl app"
    and "\<forall>c. harmless (peers w c)"
  shows "\<exists>h' w'. execute_turns n sv ns (h, w) = Some (h', w') \<and> modifies {} {} {} {} h h' \<and>
     (\<forall>c. fd_brk w \<le> c \<and> c < fd_brk w' \<longrightarrow> answered (reply tbl app) (peers w c) (sent w' c)) \<and>
     ((\<forall>k. \<not> os_fails w k) \<longrightarrow> fd_brk w' = fd_brk w + n) \<and>
     (all_frugal tbl app \<longrightarrow> h' = h\<lparr>brk := brk h'\<rparr>)"
proof -
  obtain h' w' where r: "execute_turns n sv ns (h, w) = Some (h', w')" "modifies {} {} {} {} h h'"
    "\<forall>c \<in> {fd_brk w..<fd_brk w'}. answered (reply tbl app) (peers w c) (sent w' c)"
    "(\<forall>k. \<not> os_fails w k) \<longrightarrow> fd_brk w' = fd_brk w + n"
    using execute_turns_live [OF assms, of n] by blast
  with execute_turns_restore [OF assms(1-5) _ assms(6) r(1,2)] show ?thesis by auto
qed

theorem turns_serve_every_client_witness:
  "\<exists>h' w'. execute_turns 2 demo_sv demo_handlers (demo_empty, demo_os (\<lambda>c. if c = 4 then wire_packet demo_request else [1])) =
       Some (h', w') \<and> fd_brk w' = 6 \<and> sent w' 4 = wire_packet [status_field 0, (702, [[7]])] \<and> sent w' 5 = [] \<and>
     h' = demo_empty\<lparr>brk := brk h'\<rparr>"
proof -
  let ?w = "demo_os (\<lambda>c. if c = 4 then wire_packet demo_request else [1])"
  have short: "receive [1] = Refused []" by (simp add: receive_def)
  have calm: "\<forall>c. harmless (peers ?w c)" by (simp add: harmless_def short)
  obtain h' w' where r: "execute_turns 2 demo_sv demo_handlers (demo_empty, ?w) = Some (h', w')" "fd_brk w' = 6"
    "\<forall>c. 4 \<le> c \<and> c < 6 \<longrightarrow> answered (reply [701 \<mapsto> demo_run] demo_app) (peers ?w c) (sent w' c)"
    "h' = demo_empty\<lparr>brk := brk h'\<rparr>"
    using turns_serve_every_client [OF _ _ _ _ _ calm, of demo_empty demo_sv demo_handlers "[701 \<mapsto> demo_run]" demo_app 2] by fastforce
  from r(3) [rule_format, of 4] r(3) [rule_format, of 5] r(1,2,4) show ?thesis
    by (auto simp: answered_def short)
qed

text \<open>C13. Any client can stop the server: the wire form of a packet with an empty entry, which the
  library itself sends when asked to, makes the server use a field it has released.\<close>

theorem empty_entry_stops_server:
  assumes "heap_ok h" and "\<forall>k. \<not> oom h k" and "ready sv w" and "\<not> os_fails w (os_calls w)"
    and "registry_rep (monitor sv, ns) tbl" and "served tbl app"
    and "inbox (peers w (fd_brk w)) = wire_packet sp @ rest" and "smooth (peers w (fd_brk w))"
    and "counts_fit sp" and "entries_fit sp" and "length (wire_body sp) < 4294967296" and "\<exists>f \<in> set sp. [] \<in> set (snd f)"
  shows "execute_turn sv ns (h, w) = None"
proof -
  have "receive (inbox (peers w (fd_brk w))) = Broken"
    unfolding assms(7) by (rule receive_wire_empty_entry [OF assms(9,10,12,11)])
  then show ?thesis
    using execute_turn_spec [OF assms(1-6)] assms(8) by (auto simp: turn_as_def)
qed

theorem empty_entry_stops_server_witness:
  "execute_turn demo_sv demo_handlers (demo_empty, demo_os (\<lambda>_. wire_packet [(701, [[]])] @ [])) = None"
  by (rule empty_entry_stops_server [where tbl = "[701 \<mapsto> demo_run]" and app = demo_app and sp = "[(701, [[]])]"])
     (simp_all add: counts_fit_def entries_fit_def length_wire_field)

text \<open>The end of a server. When binding or listening fails, execution returns with \<open>SRVD_FALSE\<close> and
  the server stays marked as executing. Finalising refuses a server that is not marked, so one that
  was only initialised keeps its registry, and releases every node of one that is marked.\<close>

theorem server_marked_executing:
  assumes "s_socket sv = Some l" and "streams w l \<noteq> None" and "registry_rep (monitor sv, ns) tbl"
    and "os_fails w (os_calls w) \<or> os_fails w (Suc (os_calls w))"
  shows "\<exists>w'. srvd_server_unsock_execute n (Some sv) ns h w =
       Some (Returned False (Some (sv\<lparr>monitor := (monitor sv)\<lparr>executing := True\<rparr>\<rparr>)) w') \<and>
     srvd_server_unsock_finalize (Some sv) ns = Some
       (if executing (monitor sv)
        then (True, Some (sv\<lparr>monitor := (monitor sv)\<lparr>executing := False, services := None\<rparr>\<rparr>), ns\<lparr>nodes := Map.empty\<rparr>)
        else (False, Some sv, ns))"
proof -
  obtain L where "registry_at (monitor sv) ns L" using assms(3) by (auto simp: registry_rep_def)
  note fin = server_finalize_spec [OF this]
  show ?thesis using assms(1,2,4) fin
    by (auto simp: srvd_server_unsock_execute_def srvd_server_unsock_finalize_def os_control_def Let_def)
qed

theorem server_marked_executing_witness:
  "\<exists>w'. srvd_server_unsock_execute 5 (Some demo_sv) demo_handlers demo_empty ((demo_os (\<lambda>_. []))\<lparr>os_fails := \<lambda>k. k = 1\<rparr>) =
       Some (Returned False (Some (demo_sv\<lparr>monitor := (monitor demo_sv)\<lparr>executing := True\<rparr>\<rparr>)) w') \<and>
     srvd_server_unsock_finalize (Some demo_sv) demo_handlers =
       Some (True, Some (demo_sv\<lparr>monitor := (monitor demo_sv)\<lparr>executing := False, services := None\<rparr>\<rparr>),
         demo_handlers\<lparr>nodes := Map.empty\<rparr>)"
  using server_marked_executing [OF _ _ demo_handlers_rep, of 3 "(demo_os (\<lambda>_. []))\<lparr>os_fails := \<lambda>k. k = 1\<rparr>" 5 demo_empty]
  by (simp add: demo_sv_def demo_os_def)

end
