(* ===== verification/Client_Properties.thy ===== *)
theory Client_Properties
  imports Demo_Service Conf_Properties
begin

text \<open>
  The properties of the client side and of client and server together, each with its use in the small
  world of \<open>Demo_Service\<close>.
\<close>

section \<open>A client of the small world\<close>

definition demo_clines :: "cline list" where
  "demo_clines = [Setting (cstr lit_client_adapter) [] [32] (Bare (cstr lit_unsock)),
     Setting (cstr lit_client_path) [] [] (Quoted [47, 115])]"

definition demo_cfs :: fsys where
  "demo_cfs = \<lparr>fs_fopen = (\<lambda>p. p = [47]), fs_stat = (\<lambda>p. if p = [47] then Some (length (file_text demo_clines), 7) else None),
     fs_fread = (\<lambda>p n. take n (file_text demo_clines))\<rparr>"

definition demo_both :: heap where
  "demo_both = demo_full\<lparr>pkts := (pkts demo_full)(5 \<mapsto> Some (demo_packet None 0)), brk := 6\<rparr>"

definition demo_clients :: client_store where
  "demo_clients = \<lparr>clients = Map.empty, cl_brk = 0, cl_oom = (\<lambda>_. False)\<rparr>"

definition demo_world :: "os \<Rightarrow> world" where
  "demo_world w = \<lparr>w_heap = demo_both, w_os = w, w_clients = demo_clients,
     w_conf = \<lparr>d_fconf = demo_file 6, d_lock = Unlocked\<rparr>, w_store = demo_cstore2\<rparr>"

lemma demo_world_simps [simp]:
  "w_heap (demo_world w) = demo_both" "w_os (demo_world w) = w" "w_clients (demo_world w) = demo_clients"
  "d_fconf (w_conf (demo_world w)) = demo_file 6" "d_lock (w_conf (demo_world w)) = Unlocked" "w_store (demo_world w) = demo_cstore2"
  by (simp_all add: demo_world_def)

lemma demo_clines_hold [simp]: "holds_file demo_cfs [47] demo_clines 7"
  by (simp add: holds_file_def demo_cfs_def)
     (simp add: demo_clines_def file_text_def client_literals BP_NAME_CHECK_def isalnum_def BP_EOL_CHECK_def BP_SPACE_CHECK_def ch_defs)

lemma demo_cpath [simp]: "unsock_path (map_of (rev (file_items demo_clines))) = Some [47, 115]"
  by (simp add: demo_clines_def file_items_def unsock_path_def client_literals)

lemma demo_file_stale [simp]: "updated_time (demo_file 6) = 6" "updated (demo_file t)"
  by (simp_all add: demo_file_def)

lemma demo_clients_ok [simp]: "clients_ok demo_clients" "cl_oom demo_clients k = False" "clients demo_clients = Map.empty"
  by (simp_all add: clients_ok_def demo_clients_def)

lemma demo_both_at [simp]:
  "heap_ok demo_both" "oom demo_both k = False" "packet_rep demo_both 0 demo_request" "packet_at Unlocked demo_both 5 []"
proof -
  have m: "modifies {} {} {} {} demo_full demo_both"
    by (auto simp: modifies_def heap_ok_def demo_both_def demo_full_def)
  show "heap_ok demo_both" by (rule modifies_heap_ok [OF m])
  show "packet_rep demo_both 0 demo_request" by (rule packet_rep_modifies [OF m]) simp_all
  show "oom demo_both k = False" by (simp add: demo_both_def)
  show "packet_at Unlocked demo_both 5 []" by (simp add: packet_at_def demo_both_def demo_packet_def)
qed

abbreviation demo_resp :: response where
  "demo_resp \<equiv> \<lparr>r_packet = Some 5, r_status = SRVD_SERVICE_RESPONSE_UNKNOWN\<rparr>"

text \<open>The configuration is read from a file of the grammar.\<close>

lemma conf_ready_from_file:
  assumes "file_at (w_store x) (d_fconf (w_conf x)) cpath L" and "d_lock (w_conf x) = Unlocked" and "\<forall>k. \<not> coom (w_store x) k"
    and "holds_file fs cpath ls mt"
    and "\<not> updated (d_fconf (w_conf x)) \<or> updated_time (d_fconf (w_conf x)) \<noteq> mt \<or> mt = 0"
  obtains d s where "conf_ready dp fs x d s (map_of (rev (file_items ls)))"
proof (rule default_get_parses [OF assms, of dp])
  fix d s L'
  assume "srvd_conf_file_default_get dp (Some False) (w_conf x) fs (w_store x) = Some (True, Some True, d, s)"
    "file_at s (d_fconf d) cpath L'" "conf_items L' = rev (file_items ls)"
  then have "conf_ready dp fs x d s (map_of (rev (file_items ls)))" by (auto simp: conf_ready_def file_at_def)
  then show thesis by (rule that)
qed

section \<open>Client and server\<close>

lemma status_of_with_status: "SRVD_PROTOCOL_STATUS \<notin> fst ` set sp \<Longrightarrow> status_of st0 (with_status st sp) = st"
  by (simp add: with_status_def status_of_def status_field_def)

lemma reply_status:
  assumes "tbl (fst (hd sp)) = Some run" and "SRVD_PROTOCOL_STATUS \<notin> fst ` set (snd (app (fst (hd sp)) sp))"
  shows "status_of st0 (reply tbl app sp) = fst (app (fst (hd sp)) sp)"
  using status_of_with_status [OF assms(2)] assms(1) by (simp add: reply_def Let_def)

lemma turn_sends_reply:
  assumes "heap_ok h" and "\<forall>k. \<not> oom h k" and "ready sv w" and "\<not> os_fails w (os_calls w)"
    and "registry_rep (monitor sv, ns) tbl" and "served tbl app"
    and st: "inbox (peers w (fd_brk w)) = wire_packet sp" "outbox (peers w (fd_brk w)) = []" "smooth (peers w (fd_brk w))"
    and sp: "travels sp" "sp \<noteq> []" and run: "execute_turn sv ns (h, w) = Some (h', w')"
  shows "sent w' (fd_brk w) = wire_packet (reply tbl app sp)"
proof (rule execute_turn_spec [OF assms(1-6)])
  fix m
  let ?s = "peers w (fd_brk w)"
  assume t: "turn_as h w (reply tbl app) (receive (take m (inbox ?s))) (execute_turn sv ns (h, w))"
    and full: "smooth ?s \<Longrightarrow> receive (take m (inbox ?s)) = receive (inbox ?s)"
  have "receive (take m (inbox ?s)) = Parsed sp" using full [OF st(3)] receive_wire [OF sp(1), of "[]"] st(1) by simp
  with t run st sp(2) show ?thesis by (auto simp: turn_as_def Let_def)
qed





section \<open>The choice of the adapter\<close>

text \<open>C16. The configuration selects the client, on every branch: exactly when it names the adapter
  \<open>unsock\<close> and a path, and the object and the socket can be made, the caller gets a new object with
  an open socket that is not connected yet, with the first bytes of the path as its address. Otherwise
  the caller's variable stays NULL, and no object and no socket is left behind.\<close>

theorem client_get_by_conf_selects:
  assumes "conf_at s cf L" and "clients_ok m"
  shows "\<exists>r v m' w'. srvd_client_get_by_conf (Some None) (Some cf) s m w = Some (r, Some v, m', w') \<and>
     (r \<longleftrightarrow> unsock_path (conf_map L) \<noteq> None \<and> \<not> cl_oom m (cl_brk m) \<and> \<not> os_fails w (os_calls w)) \<and>
     (if r then v = Some (cl_brk m) \<and> streams w' = (streams w)(fd_brk w \<mapsto> peers w (fd_brk w)) \<and>
        clients m' = (clients m)(cl_brk m \<mapsto> new_client (Some (fd_brk w)) (the (unsock_path (conf_map L))))
      else v = None \<and> clients m' = clients m \<and> streams w' = streams w)"
  unfolding get_by_conf_spec [OF assms]
  by (cases "unsock_path (conf_map L)"; cases "cl_oom m (cl_brk m)"; cases "os_fails w (os_calls w)")
     (auto simp: os_socket_def Let_def)

theorem client_get_by_conf_selects_witness:
  "\<exists>r v m' w'. srvd_client_get_by_conf (Some None) (Some \<lparr>conf_nodes = Some 0\<rparr>) demo_cstore1 demo_clients (demo_os (\<lambda>_. [])) =
       Some (r, Some v, m', w') \<and> \<not> r \<and> v = None \<and> clients m' = Map.empty"
  using client_get_by_conf_selects [OF demo_conf_at(2) demo_clients_ok(1), of "demo_os (\<lambda>_. [])"]
  by (auto simp: unsock_path_def client_literals)

end
