(* ===== verification/Nss_Service.thy ===== *)
theory Nss_Service
  imports Service CString
begin

text \<open>
  Requests and responses of the name services: \<open>lib/srvd/libsrvd/service/nss/passwd.c\<close> and
  \<open>aliases.c\<close> with their headers. A \<open>size_t\<close> length is cut to the 16 bits of an entry size where it
  is passed on. A pointer to a variable of the caller is its value, \<open>None\<close> for NULL; an offset is
  its 32 bits.
\<close>

definition SRVD_SERVICE_NSS_PASSWD_REQUEST_NAME :: u16 where "SRVD_SERVICE_NSS_PASSWD_REQUEST_NAME = 701"
definition SRVD_SERVICE_NSS_PASSWD_REQUEST_UID :: u16 where "SRVD_SERVICE_NSS_PASSWD_REQUEST_UID = 702"
definition SRVD_SERVICE_NSS_PASSWD_REQUEST_ENTITIES :: u16 where "SRVD_SERVICE_NSS_PASSWD_REQUEST_ENTITIES = 703"
definition SRVD_SERVICE_NSS_PASSWD_RESPONSE_NAME :: u16 where "SRVD_SERVICE_NSS_PASSWD_RESPONSE_NAME = 751"
definition SRVD_SERVICE_NSS_PASSWD_RESPONSE_UID :: u16 where "SRVD_SERVICE_NSS_PASSWD_RESPONSE_UID = 752"
definition SRVD_SERVICE_NSS_PASSWD_RESPONSE_GID :: u16 where "SRVD_SERVICE_NSS_PASSWD_RESPONSE_GID = 753"
definition SRVD_SERVICE_NSS_PASSWD_RESPONSE_DIR :: u16 where "SRVD_SERVICE_NSS_PASSWD_RESPONSE_DIR = 754"
definition SRVD_SERVICE_NSS_PASSWD_RESPONSE_SHELL :: u16 where "SRVD_SERVICE_NSS_PASSWD_RESPONSE_SHELL = 755"
definition SRVD_SERVICE_NSS_PASSWD_RESPONSE_GECOS :: u16 where "SRVD_SERVICE_NSS_PASSWD_RESPONSE_GECOS = 756"

definition SRVD_SERVICE_NSS_ALIASES_REQUEST_NAME :: u16 where "SRVD_SERVICE_NSS_ALIASES_REQUEST_NAME = 101"
definition SRVD_SERVICE_NSS_ALIASES_REQUEST_ENTITIES :: u16 where "SRVD_SERVICE_NSS_ALIASES_REQUEST_ENTITIES = 102"
definition SRVD_SERVICE_NSS_ALIASES_RESPONSE_NAME :: u16 where "SRVD_SERVICE_NSS_ALIASES_RESPONSE_NAME = 151"
definition SRVD_SERVICE_NSS_ALIASES_RESPONSE_MEMBERS :: u16 where "SRVD_SERVICE_NSS_ALIASES_RESPONSE_MEMBERS = 152"
definition SRVD_SERVICE_NSS_ALIASES_RESPONSE_LOCAL :: u16 where "SRVD_SERVICE_NSS_ALIASES_RESPONSE_LOCAL = 153"

lemmas nss_types = SRVD_SERVICE_NSS_PASSWD_REQUEST_NAME_def SRVD_SERVICE_NSS_PASSWD_REQUEST_UID_def
  SRVD_SERVICE_NSS_PASSWD_REQUEST_ENTITIES_def SRVD_SERVICE_NSS_PASSWD_RESPONSE_NAME_def
  SRVD_SERVICE_NSS_PASSWD_RESPONSE_UID_def SRVD_SERVICE_NSS_PASSWD_RESPONSE_GID_def
  SRVD_SERVICE_NSS_PASSWD_RESPONSE_DIR_def SRVD_SERVICE_NSS_PASSWD_RESPONSE_SHELL_def
  SRVD_SERVICE_NSS_PASSWD_RESPONSE_GECOS_def SRVD_SERVICE_NSS_ALIASES_REQUEST_NAME_def
  SRVD_SERVICE_NSS_ALIASES_REQUEST_ENTITIES_def SRVD_SERVICE_NSS_ALIASES_RESPONSE_NAME_def
  SRVD_SERVICE_NSS_ALIASES_RESPONSE_MEMBERS_def SRVD_SERVICE_NSS_ALIASES_RESPONSE_LOCAL_def

section \<open>Reading a request\<close>

text \<open>The tests on the first field that the getters share, and its first entry.\<close>

definition request_has_fields :: "request \<Rightarrow> heap \<Rightarrow> bool option" where
  "request_has_fields q h = do { k \<leftarrow> rd_packet (q_packet q) h; Some (field_count k > 0) }"

definition request_entry :: "u16 \<Rightarrow> request \<Rightarrow> heap \<Rightarrow> (bool \<times> ptr) option" where
  "request_entry ty q h = do {
     (_, field) \<leftarrow> srvd_protocol_packet_field_get_first (q_packet q) (Some None) h;
     f \<leftarrow> rd_field (the field) h;
     if f_type f \<noteq> ty then Some (False, None)
     else if entry_count f \<noteq> 1 then Some (False, None)
     else do {
       (_, entry) \<leftarrow> srvd_protocol_packet_field_entry_get_first (the field) (Some None) h;
       Some (True, the entry) } }"

text \<open>The bytes of an entry, cut to a string: \<open>strncpy\<close> and a forced NUL at the end.\<close>

definition entry_string :: "pentry \<Rightarrow> heap \<Rightarrow> byte list option" where
  "entry_string e h = copy_terminated (unat (e_size e)) (Option.bind (e_data e) (blks h))"

definition request_name :: "u16 \<Rightarrow> request option \<Rightarrow> ptr option \<Rightarrow> heap \<Rightarrow> (bool \<times> ptr option \<times> heap) option" where
  "request_name ty request name h =
     (case request of None \<Rightarrow> Some (False, name, h)
      | Some q \<Rightarrow> do {
          some \<leftarrow> request_has_fields q h;
          if \<not> some then Some (False, name, h)
          else if name = None then Some (False, name, h)
          else if name \<noteq> Some None then Some (False, name, h)
          else do {
            (ok, entry) \<leftarrow> request_entry ty q h;
            if \<not> ok then Some (False, name, h)
            else do {
              e \<leftarrow> rd_entry entry h;
              let (p, h) = malloc_block (unat (e_size e)) h;
              if p = None then Some (False, Some None, h)
              else do {
                bs \<leftarrow> entry_string e h;
                h \<leftarrow> wr_block p 0 bs h;
                Some (True, Some p, h) } } } })"

definition request_uint32 :: "u16 \<Rightarrow> request option \<Rightarrow> u32 option \<Rightarrow> heap \<Rightarrow> (bool \<times> u32 option) option" where
  "request_uint32 ty request v h =
     (case request of None \<Rightarrow> Some (False, v)
      | Some q \<Rightarrow> do {
          some \<leftarrow> request_has_fields q h;
          if \<not> some then Some (False, v)
          else if v = None then Some (False, v)
          else do {
            (ok, entry) \<leftarrow> request_entry ty q h;
            if \<not> ok then Some (False, v)
            else srvd_protocol_packet_field_entry_get_uint32 entry v h } })"

definition request_name_free :: "request option \<Rightarrow> ptr option \<Rightarrow> heap \<Rightarrow> (bool \<times> ptr option \<times> heap) option" where
  "request_name_free request name h =
     (if request = None then Some (False, name, h)
      else if name = None then Some (False, name, h)
      else if name = Some None then Some (False, name, h)
      else do { h \<leftarrow> free_block (the name) h; Some (True, Some None, h) })"

definition srvd_service_nss_passwd_request_name_get ::
    "request option \<Rightarrow> ptr option \<Rightarrow> heap \<Rightarrow> (bool \<times> ptr option \<times> heap) option" where
  "srvd_service_nss_passwd_request_name_get = request_name SRVD_SERVICE_NSS_PASSWD_REQUEST_NAME"

definition srvd_service_nss_passwd_request_name_free ::
    "request option \<Rightarrow> ptr option \<Rightarrow> heap \<Rightarrow> (bool \<times> ptr option \<times> heap) option" where
  "srvd_service_nss_passwd_request_name_free = request_name_free"

definition srvd_service_nss_passwd_request_uid_get ::
    "request option \<Rightarrow> u32 option \<Rightarrow> heap \<Rightarrow> (bool \<times> u32 option) option" where
  "srvd_service_nss_passwd_request_uid_get = request_uint32 SRVD_SERVICE_NSS_PASSWD_REQUEST_UID"

definition srvd_service_nss_passwd_request_entities_get ::
    "request option \<Rightarrow> u32 option \<Rightarrow> heap \<Rightarrow> (bool \<times> u32 option) option" where
  "srvd_service_nss_passwd_request_entities_get = request_uint32 SRVD_SERVICE_NSS_PASSWD_REQUEST_ENTITIES"

definition srvd_service_nss_aliases_request_name_get ::
    "request option \<Rightarrow> ptr option \<Rightarrow> heap \<Rightarrow> (bool \<times> ptr option \<times> heap) option" where
  "srvd_service_nss_aliases_request_name_get = request_name SRVD_SERVICE_NSS_ALIASES_REQUEST_NAME"

definition srvd_service_nss_aliases_request_name_free ::
    "request option \<Rightarrow> ptr option \<Rightarrow> heap \<Rightarrow> (bool \<times> ptr option \<times> heap) option" where
  "srvd_service_nss_aliases_request_name_free = request_name_free"

definition srvd_service_nss_aliases_request_entities_get ::
    "request option \<Rightarrow> u32 option \<Rightarrow> heap \<Rightarrow> (bool \<times> u32 option) option" where
  "srvd_service_nss_aliases_request_entities_get = request_uint32 SRVD_SERVICE_NSS_ALIASES_REQUEST_ENTITIES"

section \<open>Writing a response\<close>

definition response_string :: "u16 \<Rightarrow> response option \<Rightarrow> byte list option \<Rightarrow> nat \<Rightarrow> heap \<Rightarrow> (bool \<times> heap) option" where
  "response_string ty response s len h =
     (case response of None \<Rightarrow> Some (False, h)
      | Some r \<Rightarrow>
        if s = None then Some (False, h)
        else srvd_protocol_packet_field_append (r_packet r) ty (of_nat len) s h)"

definition response_uint32 :: "u16 \<Rightarrow> response option \<Rightarrow> u32 \<Rightarrow> heap \<Rightarrow> (bool \<times> heap) option" where
  "response_uint32 ty response v h =
     (case response of None \<Rightarrow> Some (False, h)
      | Some r \<Rightarrow> srvd_protocol_packet_field_append_uint32 (r_packet r) ty v h)"

definition srvd_service_nss_passwd_response_name_set ::
    "response option \<Rightarrow> byte list option \<Rightarrow> nat \<Rightarrow> heap \<Rightarrow> (bool \<times> heap) option" where
  "srvd_service_nss_passwd_response_name_set = response_string SRVD_SERVICE_NSS_PASSWD_RESPONSE_NAME"

definition srvd_service_nss_passwd_response_uid_set :: "response option \<Rightarrow> u32 \<Rightarrow> heap \<Rightarrow> (bool \<times> heap) option" where
  "srvd_service_nss_passwd_response_uid_set = response_uint32 SRVD_SERVICE_NSS_PASSWD_RESPONSE_UID"

definition srvd_service_nss_passwd_response_gid_set :: "response option \<Rightarrow> u32 \<Rightarrow> heap \<Rightarrow> (bool \<times> heap) option" where
  "srvd_service_nss_passwd_response_gid_set = response_uint32 SRVD_SERVICE_NSS_PASSWD_RESPONSE_GID"

definition srvd_service_nss_passwd_response_dir_set ::
    "response option \<Rightarrow> byte list option \<Rightarrow> nat \<Rightarrow> heap \<Rightarrow> (bool \<times> heap) option" where
  "srvd_service_nss_passwd_response_dir_set = response_string SRVD_SERVICE_NSS_PASSWD_RESPONSE_DIR"

definition srvd_service_nss_passwd_response_shell_set ::
    "response option \<Rightarrow> byte list option \<Rightarrow> nat \<Rightarrow> heap \<Rightarrow> (bool \<times> heap) option" where
  "srvd_service_nss_passwd_response_shell_set = response_string SRVD_SERVICE_NSS_PASSWD_RESPONSE_SHELL"

definition srvd_service_nss_passwd_response_gecos_set ::
    "response option \<Rightarrow> byte list option \<Rightarrow> nat \<Rightarrow> heap \<Rightarrow> (bool \<times> heap) option" where
  "srvd_service_nss_passwd_response_gecos_set = response_string SRVD_SERVICE_NSS_PASSWD_RESPONSE_GECOS"

definition srvd_service_nss_aliases_response_name_set ::
    "response option \<Rightarrow> byte list option \<Rightarrow> nat \<Rightarrow> heap \<Rightarrow> (bool \<times> heap) option" where
  "srvd_service_nss_aliases_response_name_set = response_string SRVD_SERVICE_NSS_ALIASES_RESPONSE_NAME"

definition srvd_service_nss_aliases_response_member_add ::
    "response option \<Rightarrow> byte list option \<Rightarrow> nat \<Rightarrow> heap \<Rightarrow> (bool \<times> heap) option" where
  "srvd_service_nss_aliases_response_member_add response member len h =
     (case response of None \<Rightarrow> Some (False, h)
      | Some r \<Rightarrow>
        if member = None then Some (False, h)
        else do {
          (ok, field, h) \<leftarrow> srvd_protocol_packet_field_get_or_add (r_packet r)
            SRVD_SERVICE_NSS_ALIASES_RESPONSE_MEMBERS (Some None) h;
          if \<not> ok then Some (False, h)
          else srvd_protocol_packet_field_entry_add (the field) (of_nat len) member h })"

definition srvd_service_nss_aliases_response_local_set :: "response option \<Rightarrow> u8 \<Rightarrow> heap \<Rightarrow> (bool \<times> heap) option" where
  "srvd_service_nss_aliases_response_local_set response is_local h =
     (case response of None \<Rightarrow> Some (False, h)
      | Some r \<Rightarrow> srvd_protocol_packet_field_append_uint8 (r_packet r)
          SRVD_SERVICE_NSS_ALIASES_RESPONSE_LOCAL is_local h)"

end
