(* ===== verification/Nss_Lookup.thy ===== *)
theory Nss_Lookup
  imports Nss_Service Query
begin

text \<open>
  What the two name switch services \<open>lib/srvd/nss/passwd.c\<close> and \<open>aliases.c\<close> share, with \<open>nss.h\<close> and the
  buffer macros of \<open>include/srvd/buffer.h\<close>: their functions have the same text but for the names of
  the database, the type of the request and the function that fills the caller's struct. The
  caller's buffer is the list of its bytes; a pointer into it is an offset.
\<close>

datatype nss_status = NSS_STATUS_TRYAGAIN | NSS_STATUS_UNAVAIL | NSS_STATUS_NOTFOUND | NSS_STATUS_SUCCESS

text \<open>The error numbers, as on Linux.\<close>

definition EINVAL :: int where "EINVAL = 22"
definition ERANGE :: int where "ERANGE = 34"

section \<open>The caller's buffer\<close>

definition SRVD_BUFFER_CHECK_OFFSET :: "nat \<Rightarrow> nat \<Rightarrow> nat \<Rightarrow> bool" where
  "SRVD_BUFFER_CHECK_OFFSET bi bufsize len \<longleftrightarrow> bi + len \<le> bufsize"

text \<open>
  Copying an entry to the position \<open>bi\<close>: \<open>strncpy\<close>, then a NUL over the last byte. For an entry of
  size 0 that is the byte before the position.
\<close>

definition put_string :: "pentry \<Rightarrow> byte list \<Rightarrow> nat \<Rightarrow> heap \<Rightarrow> (byte list \<times> nat) option" where
  "put_string e buf bi h = (let n = unat (e_size e) in do {
     bs \<leftarrow> (if n = 0 then Some [] else do { a \<leftarrow> e_data e; src \<leftarrow> blks h a; strncpy_bytes n src });
     buf \<leftarrow> wr_buf buf bi bs;
     if bi + n = 0 then None else Some (buf[bi + n - 1 := 0], bi + n) })"

text \<open>
  Filling a string from the first entry of a field if it fits. The result is an error number, or the
  pointer to the copy, the buffer and the next position.
\<close>

definition fill_string :: "ptr \<Rightarrow> byte list \<Rightarrow> nat \<Rightarrow> nat \<Rightarrow> heap \<Rightarrow> (int + nat \<times> byte list \<times> nat) option" where
  "fill_string field buf bi bufsize h = do {
     (ok, entry) \<leftarrow> srvd_protocol_packet_field_entry_get_first field (Some None) h;
     if \<not> ok then Some (Inl EINVAL)
     else do {
       e \<leftarrow> rd_entry (the entry) h;
       if \<not> SRVD_BUFFER_CHECK_OFFSET bi bufsize (unat (e_size e)) then Some (Inl ERANGE)
       else do {
         (buf, bi') \<leftarrow> put_string e buf bi h;
         Some (Inr (bi, buf, bi')) } } }"

text \<open>Filling a number: its first entry, if it has 4 bytes.\<close>

definition fill_uint32 :: "ptr \<Rightarrow> u32 \<Rightarrow> heap \<Rightarrow> (int + u32) option" where
  "fill_uint32 field v h = do {
     (ok, entry) \<leftarrow> srvd_protocol_packet_field_entry_get_first field (Some None) h;
     if \<not> ok then Some (Inl EINVAL)
     else do {
       (_, v) \<leftarrow> srvd_protocol_packet_field_entry_get_uint32 (the entry) (Some v) h;
       Some (Inr (the v)) } }"

text \<open>The fields after the first one, which holds the status.\<close>

definition response_fields :: "response \<Rightarrow> heap \<Rightarrow> ptr option" where
  "response_fields r h = do {
     k \<leftarrow> rd_packet (r_packet r) h;
     if field_head k = None then Some None else do { f \<leftarrow> rd_field (field_head k) h; Some (f_next f) } }"

section \<open>Lookups\<close>

text \<open>
  What the lookups share: the request with one field and the query; the status of a response that
  ends the lookup, \<open>None\<close> for success; and the end, where both packets are finalised.
\<close>

definition nss_ask :: "byte list \<Rightarrow> fsys \<Rightarrow> (ptr \<Rightarrow> heap \<Rightarrow> (bool \<times> heap) option) \<Rightarrow> world \<Rightarrow> (request \<times> response \<times> world) option" where
  "nss_ask default_path fs add x =
     (let (q, h) = local_request (w_heap x); (r, h) = local_response h in do {
        (_, h) \<leftarrow> srvd_service_request_initialize (Some q) h;
        (_, h) \<leftarrow> add (q_packet q) h;
        (_, r, h) \<leftarrow> srvd_service_response_initialize (Some r) h;
        (_, r, x) \<leftarrow> srvd_service_request_query default_path fs (Some q) r (x\<lparr>w_heap := h\<rparr>);
        Some (q, the r, x) })"

definition nss_failed :: "u16 \<Rightarrow> int \<Rightarrow> (nss_status \<times> int) option" where
  "nss_failed status err =
     (if status = SRVD_SERVICE_RESPONSE_NOTFOUND then Some (NSS_STATUS_NOTFOUND, err)
      else if status = SRVD_SERVICE_RESPONSE_UNAVAIL then Some (NSS_STATUS_UNAVAIL, err)
      else if status \<noteq> SRVD_SERVICE_RESPONSE_SUCCESS then Some (NSS_STATUS_TRYAGAIN, EINVAL)
      else None)"

definition nss_close :: "request \<Rightarrow> response \<Rightarrow> world \<Rightarrow> world option" where
  "nss_close q r x = do {
     (_, h) \<leftarrow> srvd_service_request_finalize (Some q) (w_heap x);
     (_, r, h) \<leftarrow> srvd_service_response_finalize (Some r) h;
     h \<leftarrow> end_local (q_packet q) h;
     h \<leftarrow> end_local (r_packet (the r)) h;
     Some (x\<lparr>w_heap := h\<rparr>) }"

text \<open>One lookup, for a request made by \<open>add\<close> and a result taken by \<open>fill\<close>; first whether there is one.\<close>

type_synonym 'e fill = "response \<Rightarrow> 'e \<Rightarrow> byte list \<Rightarrow> nat \<Rightarrow> int \<Rightarrow> heap \<Rightarrow> (nss_status \<times> 'e \<times> byte list \<times> int) option"

definition nss_lookup :: "'e fill \<Rightarrow> byte list \<Rightarrow> fsys \<Rightarrow> (ptr \<Rightarrow> heap \<Rightarrow> (bool \<times> heap) option) \<Rightarrow> 'e \<Rightarrow> byte list
    \<Rightarrow> nat \<Rightarrow> int \<Rightarrow> world \<Rightarrow> (bool \<times> nss_status \<times> 'e \<times> byte list \<times> int \<times> world) option" where
  "nss_lookup fill default_path fs add ent buf bufsize err x = do {
     (q, r, x) \<leftarrow> nss_ask default_path fs add x;
     (case nss_failed (r_status r) err of
        Some (status, err) \<Rightarrow> do { x \<leftarrow> nss_close q r x; Some (False, status, ent, buf, err, x) }
      | None \<Rightarrow> do {
          (status, ent, buf, err) \<leftarrow> fill r ent buf bufsize err (w_heap x);
          x \<leftarrow> nss_close q r x;
          Some (True, status, ent, buf, err, x) }) }"

text \<open>
  A lookup by name takes as many bytes from the name as \<open>sysconf(_SC_LOGIN_NAME_MAX)\<close> says and one
  more.
\<close>

definition nss_by_name :: "'e fill \<Rightarrow> u16 \<Rightarrow> nat \<Rightarrow> byte list \<Rightarrow> fsys \<Rightarrow> byte list option \<Rightarrow> 'e \<Rightarrow> byte list \<Rightarrow> nat \<Rightarrow> int
    \<Rightarrow> world \<Rightarrow> (nss_status \<times> 'e \<times> byte list \<times> int \<times> world) option" where
  "nss_by_name fill ty login_name_max default_path fs name ent buf bufsize err x = do {
     (_, res) \<leftarrow> nss_lookup fill default_path fs
       (\<lambda>p. srvd_protocol_packet_field_append p ty (of_nat (login_name_max + 1)) name) ent buf bufsize err x;
     Some res }"

definition nss_by_number :: "'e fill \<Rightarrow> u16 \<Rightarrow> byte list \<Rightarrow> fsys \<Rightarrow> u32 \<Rightarrow> 'e \<Rightarrow> byte list \<Rightarrow> nat \<Rightarrow> int
    \<Rightarrow> world \<Rightarrow> (bool \<times> nss_status \<times> 'e \<times> byte list \<times> int \<times> world) option" where
  "nss_by_number fill ty default_path fs n ent buf bufsize err x =
     nss_lookup fill default_path fs (\<lambda>p. srvd_protocol_packet_field_append_uint32 p ty n) ent buf bufsize err x"

section \<open>Enumeration\<close>

text \<open>
  The offset of an enumeration is a variable of its own for each thread, made by \<open>malloc\<close> and found
  through a key of the thread that the first call creates. This is the state of one thread: the value
  of the key, the variables, and which allocations fail.
\<close>

record ent_state =
  key_made :: bool
  key_data :: ptr
  offsets :: "addr \<rightharpoonup> u32"
  off_brk :: nat
  off_oom :: "nat \<Rightarrow> bool"

definition ent_once :: "ent_state \<Rightarrow> ent_state" where
  "ent_once t = (if key_made t then t else t\<lparr>key_made := True, key_data := None\<rparr>)"

definition ent_initialize_offset :: "ent_state \<Rightarrow> bool \<times> ent_state" where
  "ent_initialize_offset t = (let a = off_brk t; t = t\<lparr>off_brk := Suc a\<rparr> in
     if off_oom t a then (False, t)
     else (True, t\<lparr>offsets := (offsets t)(a \<mapsto> 0), key_data := Some a\<rparr>))"

definition ent_begin :: "ent_state \<Rightarrow> bool \<times> ent_state" where
  "ent_begin t = (let t = ent_once t in if key_data t = None then ent_initialize_offset t else (True, t))"

definition nss_setent :: "ent_state \<Rightarrow> (nss_status \<times> ent_state) option" where
  "nss_setent t = (let (ok, t) = ent_begin t in
     if \<not> ok then Some (NSS_STATUS_UNAVAIL, t)
     else do {
       a \<leftarrow> key_data t;
       _ \<leftarrow> offsets t a;
       Some (NSS_STATUS_SUCCESS, t\<lparr>offsets := (offsets t)(a \<mapsto> 0)\<rparr>) })"

definition nss_endent :: "ent_state \<Rightarrow> (nss_status \<times> ent_state) option" where
  "nss_endent t = (let t = ent_once t in
     if key_data t = None then Some (NSS_STATUS_SUCCESS, t)
     else do {
       m \<leftarrow> release (key_data t) (offsets t);
       Some (NSS_STATUS_SUCCESS, t\<lparr>key_data := None, offsets := m\<rparr>) })"

definition nss_getent :: "'e fill \<Rightarrow> u16 \<Rightarrow> byte list \<Rightarrow> fsys \<Rightarrow> 'e \<Rightarrow> byte list \<Rightarrow> nat \<Rightarrow> int
    \<Rightarrow> ent_state \<Rightarrow> world \<Rightarrow> (nss_status \<times> 'e \<times> byte list \<times> int \<times> ent_state \<times> world) option" where
  "nss_getent fill ty default_path fs ent buf bufsize err t x =
     (let (ok, t) = ent_begin t in
      if \<not> ok then Some (NSS_STATUS_UNAVAIL, ent, buf, err, t, x)
      else do {
        a \<leftarrow> key_data t;
        i \<leftarrow> offsets t a;
        (found, status, ent, buf, err, x) \<leftarrow> nss_by_number fill ty default_path fs i ent buf bufsize err x;
        let t = (if found then t\<lparr>offsets := (offsets t)(a \<mapsto> i + 1)\<rparr> else t);
        Some (status, ent, buf, err, t, x) })"

end
