(* ===== verification/Nss_Passwd.thy ===== *)
theory Nss_Passwd
  imports Nss_Lookup
begin

text \<open>
  The name switch service for user names: \<open>lib/srvd/nss/passwd.c\<close>. A pointer member of
  \<open>struct passwd\<close> that was not set is \<open>None\<close>. Whether the build has a comment member is an argument.
\<close>

record passwd =
  pw_name :: "nat option"
  pw_uid :: u32
  pw_gid :: u32
  pw_dir :: "nat option"
  pw_shell :: "nat option"
  pw_gecos :: "nat option"

section \<open>Filling the caller's struct\<close>

definition fill_into :: "((nat option \<Rightarrow> nat option) \<Rightarrow> passwd \<Rightarrow> passwd) \<Rightarrow> ptr \<Rightarrow> passwd \<Rightarrow> byte list \<Rightarrow> nat \<Rightarrow> nat \<Rightarrow> heap
    \<Rightarrow> (int + passwd \<times> byte list \<times> nat) option" where
  "fill_into upd field pwd buf bi bufsize h = do {
     r \<leftarrow> fill_string field buf bi bufsize h;
     Some (case r of Inl e \<Rightarrow> Inl e | Inr (p, buf, bi) \<Rightarrow> Inr (upd (\<lambda>_. Some p) pwd, buf, bi)) }"

text \<open>The switch on the type of a field.\<close>

definition passwd_field :: "bool \<Rightarrow> ptr \<Rightarrow> passwd \<Rightarrow> byte list \<Rightarrow> nat \<Rightarrow> nat \<Rightarrow> heap
    \<Rightarrow> (int + passwd \<times> byte list \<times> nat) option" where
  "passwd_field have_gecos field pwd buf bi bufsize h = do {
     f \<leftarrow> rd_field field h;
     if f_type f = SRVD_SERVICE_NSS_PASSWD_RESPONSE_NAME then fill_into pw_name_update field pwd buf bi bufsize h
     else if f_type f = SRVD_SERVICE_NSS_PASSWD_RESPONSE_UID then do {
       r \<leftarrow> fill_uint32 field (pw_uid pwd) h;
       Some (case r of Inl e \<Rightarrow> Inl e | Inr v \<Rightarrow> Inr (pwd\<lparr>pw_uid := v\<rparr>, buf, bi)) }
     else if f_type f = SRVD_SERVICE_NSS_PASSWD_RESPONSE_GID then do {
       r \<leftarrow> fill_uint32 field (pw_gid pwd) h;
       Some (case r of Inl e \<Rightarrow> Inl e | Inr v \<Rightarrow> Inr (pwd\<lparr>pw_gid := v\<rparr>, buf, bi)) }
     else if f_type f = SRVD_SERVICE_NSS_PASSWD_RESPONSE_DIR then fill_into pw_dir_update field pwd buf bi bufsize h
     else if f_type f = SRVD_SERVICE_NSS_PASSWD_RESPONSE_SHELL then fill_into pw_shell_update field pwd buf bi bufsize h
     else if have_gecos \<and> f_type f = SRVD_SERVICE_NSS_PASSWD_RESPONSE_GECOS
       then fill_into pw_gecos_update field pwd buf bi bufsize h
     else Some (Inr (pwd, buf, bi)) }"

text \<open>The loop. On an error the struct and the buffer keep what was filled in before.\<close>

partial_function (option) passwd_fields :: "bool \<Rightarrow> ptr \<Rightarrow> passwd \<Rightarrow> byte list \<Rightarrow> nat \<Rightarrow> nat \<Rightarrow> int \<Rightarrow> heap
    \<Rightarrow> (nss_status \<times> passwd \<times> byte list \<times> int) option" where
  "passwd_fields have_gecos field pwd buf bi bufsize err h =
     (if field = None then Some (NSS_STATUS_SUCCESS, pwd, buf, err)
      else do {
        r \<leftarrow> passwd_field have_gecos field pwd buf bi bufsize h;
        (case r of Inl e \<Rightarrow> Some (NSS_STATUS_TRYAGAIN, pwd, buf, e)
         | Inr (pwd, buf, bi) \<Rightarrow> do {
             f \<leftarrow> rd_field field h;
             passwd_fields have_gecos (f_next f) pwd buf bi bufsize err h }) })"

definition srvd_nss_passwd_populate :: "bool \<Rightarrow> response \<Rightarrow> passwd \<Rightarrow> byte list \<Rightarrow> nat \<Rightarrow> int \<Rightarrow> heap
    \<Rightarrow> (nss_status \<times> passwd \<times> byte list \<times> int) option" where
  "srvd_nss_passwd_populate have_gecos r pwd buf bufsize err h = do {
     field \<leftarrow> response_fields r h;
     passwd_fields have_gecos field pwd buf 0 bufsize err h }"

section \<open>Lookups and enumeration\<close>

definition nss_srvd_getpwnam_r :: "nat \<Rightarrow> byte list \<Rightarrow> fsys \<Rightarrow> bool \<Rightarrow> byte list option \<Rightarrow> passwd \<Rightarrow> byte list \<Rightarrow> nat \<Rightarrow> int
    \<Rightarrow> world \<Rightarrow> (nss_status \<times> passwd \<times> byte list \<times> int \<times> world) option" where
  "nss_srvd_getpwnam_r login_name_max default_path fs have_gecos =
     nss_by_name (srvd_nss_passwd_populate have_gecos) SRVD_SERVICE_NSS_PASSWD_REQUEST_NAME login_name_max default_path fs"

definition nss_srvd_getpwuid_r :: "byte list \<Rightarrow> fsys \<Rightarrow> bool \<Rightarrow> u32 \<Rightarrow> passwd \<Rightarrow> byte list \<Rightarrow> nat \<Rightarrow> int
    \<Rightarrow> world \<Rightarrow> (nss_status \<times> passwd \<times> byte list \<times> int \<times> world) option" where
  "nss_srvd_getpwuid_r default_path fs have_gecos uid pwd buf bufsize err x = do {
     (_, res) \<leftarrow> nss_by_number (srvd_nss_passwd_populate have_gecos) SRVD_SERVICE_NSS_PASSWD_REQUEST_UID
       default_path fs uid pwd buf bufsize err x;
     Some res }"

definition nss_srvd_setpwent :: "int \<Rightarrow> ent_state \<Rightarrow> (nss_status \<times> ent_state) option" where
  "nss_srvd_setpwent stayopen = nss_setent"

definition nss_srvd_endpwent :: "ent_state \<Rightarrow> (nss_status \<times> ent_state) option" where
  "nss_srvd_endpwent = nss_endent"

definition nss_srvd_getpwent_r :: "byte list \<Rightarrow> fsys \<Rightarrow> bool \<Rightarrow> passwd \<Rightarrow> byte list \<Rightarrow> nat \<Rightarrow> int
    \<Rightarrow> ent_state \<Rightarrow> world \<Rightarrow> (nss_status \<times> passwd \<times> byte list \<times> int \<times> ent_state \<times> world) option" where
  "nss_srvd_getpwent_r default_path fs have_gecos =
     nss_getent (srvd_nss_passwd_populate have_gecos) SRVD_SERVICE_NSS_PASSWD_REQUEST_ENTITIES default_path fs"

end
