(* ===== verification/Nss_Aliases.thy ===== *)
theory Nss_Aliases
  imports Nss_Lookup
begin

text \<open>
  The name switch service for mail aliases: \<open>lib/srvd/nss/aliases.c\<close>. The array of member pointers
  that the code keeps in the caller's buffer is the list of its elements together with its place in
  the buffer; the bytes of that place stay zero. Pointers have 8 bytes and the machine is little
  endian, so a byte stored at the address of an \<open>int\<close> is its low byte.
\<close>

definition POINTER_SIZE :: nat where "POINTER_SIZE = 8"

record aliasent =
  alias_name :: "nat option"
  alias_members_len :: nat
  alias_members :: "(nat \<times> nat option list) option"
  alias_local :: u32

definition set_low_byte :: "u8 \<Rightarrow> u32 \<Rightarrow> u32" where
  "set_low_byte b v = push_bit 8 (drop_bit 8 v) + ucast b"

text \<open>
  The members of the list, \<open>i\<close> of them done. The error number is \<open>None\<close> when all were copied; what was
  copied before an error stays.
\<close>

definition store_member :: "nat \<Rightarrow> nat \<Rightarrow> aliasent \<Rightarrow> aliasent option" where
  "store_member i p ae = (case alias_members ae of None \<Rightarrow> None
     | Some (at, ps) \<Rightarrow> (if i < length ps then Some (ae\<lparr>alias_members := Some (at, ps[i := Some p])\<rparr>) else None))"

partial_function (option) alias_entries :: "ptr \<Rightarrow> u16 \<Rightarrow> aliasent \<Rightarrow> byte list \<Rightarrow> nat \<Rightarrow> nat \<Rightarrow> heap
    \<Rightarrow> (int option \<times> aliasent \<times> byte list \<times> nat) option" where
  "alias_entries entry i ae buf bi bufsize h =
     (if entry = None then Some (None, ae, buf, bi)
      else do {
        e \<leftarrow> rd_entry entry h;
        if \<not> SRVD_BUFFER_CHECK_OFFSET bi bufsize (unat (e_size e)) then Some (Some ERANGE, ae, buf, bi)
        else do {
          (buf, bi') \<leftarrow> put_string e buf bi h;
          ae \<leftarrow> store_member (unat i) bi ae;
          alias_entries (e_next e) (i + 1) ae buf bi' bufsize h } })"

definition alias_list :: "pfield \<Rightarrow> aliasent \<Rightarrow> byte list \<Rightarrow> nat \<Rightarrow> nat \<Rightarrow> heap
    \<Rightarrow> (int option \<times> aliasent \<times> byte list \<times> nat) option" where
  "alias_list f ae buf bi bufsize h =
     (let n = unat (entry_count f); ae = ae\<lparr>alias_members_len := n\<rparr> in
      if \<not> SRVD_BUFFER_CHECK_OFFSET bi bufsize (n * POINTER_SIZE) then Some (Some ERANGE, ae, buf, bi)
      else do {
        buf \<leftarrow> wr_buf buf bi (replicate (n * POINTER_SIZE) 0);
        let ae = ae\<lparr>alias_members := Some (bi, replicate n None)\<rparr>;
        alias_entries (entry_head f) 0 ae buf (bi + n * POINTER_SIZE) bufsize h })"

text \<open>The switch on the type of a field: the error number, if any, and the state it leaves.\<close>

definition alias_field :: "ptr \<Rightarrow> aliasent \<Rightarrow> byte list \<Rightarrow> nat \<Rightarrow> nat \<Rightarrow> heap
    \<Rightarrow> (int option \<times> aliasent \<times> byte list \<times> nat) option" where
  "alias_field field ae buf bi bufsize h = do {
     f \<leftarrow> rd_field field h;
     if f_type f = SRVD_SERVICE_NSS_ALIASES_RESPONSE_NAME then do {
       r \<leftarrow> fill_string field buf bi bufsize h;
       Some (case r of Inl e \<Rightarrow> (Some e, ae, buf, bi) | Inr (p, buf, bi) \<Rightarrow> (None, ae\<lparr>alias_name := Some p\<rparr>, buf, bi)) }
     else if f_type f = SRVD_SERVICE_NSS_ALIASES_RESPONSE_MEMBERS then alias_list f ae buf bi bufsize h
     else if f_type f = SRVD_SERVICE_NSS_ALIASES_RESPONSE_LOCAL then do {
       (ok, entry) \<leftarrow> srvd_protocol_packet_field_entry_get_first field (Some None) h;
       if \<not> ok then Some (Some EINVAL, ae, buf, bi)
       else do {
         (_, v) \<leftarrow> srvd_protocol_packet_field_entry_get_uint8 (the entry) (Some (ucast (alias_local ae))) h;
         Some (None, ae\<lparr>alias_local := set_low_byte (the v) (alias_local ae)\<rparr>, buf, bi) } }
     else Some (None, ae, buf, bi) }"

partial_function (option) alias_fields :: "ptr \<Rightarrow> aliasent \<Rightarrow> byte list \<Rightarrow> nat \<Rightarrow> nat \<Rightarrow> int \<Rightarrow> heap
    \<Rightarrow> (nss_status \<times> aliasent \<times> byte list \<times> int) option" where
  "alias_fields field ae buf bi bufsize err h =
     (if field = None then Some (NSS_STATUS_SUCCESS, ae, buf, err)
      else do {
        (r, ae, buf, bi) \<leftarrow> alias_field field ae buf bi bufsize h;
        (case r of Some e \<Rightarrow> Some (NSS_STATUS_TRYAGAIN, ae, buf, e)
         | None \<Rightarrow> do {
             f \<leftarrow> rd_field field h;
             alias_fields (f_next f) ae buf bi bufsize err h }) })"

definition srvd_nss_aliases_populate :: "response \<Rightarrow> aliasent \<Rightarrow> byte list \<Rightarrow> nat \<Rightarrow> int \<Rightarrow> heap
    \<Rightarrow> (nss_status \<times> aliasent \<times> byte list \<times> int) option" where
  "srvd_nss_aliases_populate r ae buf bufsize err h = (let ae = ae\<lparr>alias_local := 0\<rparr> in do {
     field \<leftarrow> response_fields r h;
     alias_fields field ae buf 0 bufsize err h })"

section \<open>Lookups and enumeration\<close>

definition nss_srvd_getaliasbyname_r :: "nat \<Rightarrow> byte list \<Rightarrow> fsys \<Rightarrow> byte list option \<Rightarrow> aliasent \<Rightarrow> byte list \<Rightarrow> nat \<Rightarrow> int
    \<Rightarrow> world \<Rightarrow> (nss_status \<times> aliasent \<times> byte list \<times> int \<times> world) option" where
  "nss_srvd_getaliasbyname_r = nss_by_name srvd_nss_aliases_populate SRVD_SERVICE_NSS_ALIASES_REQUEST_NAME"

definition nss_srvd_setaliasent :: "int \<Rightarrow> ent_state \<Rightarrow> (nss_status \<times> ent_state) option" where
  "nss_srvd_setaliasent stayopen = nss_setent"

definition nss_srvd_endaliasent :: "ent_state \<Rightarrow> (nss_status \<times> ent_state) option" where
  "nss_srvd_endaliasent = nss_endent"

definition nss_srvd_getaliasent_r :: "byte list \<Rightarrow> fsys \<Rightarrow> aliasent \<Rightarrow> byte list \<Rightarrow> nat \<Rightarrow> int
    \<Rightarrow> ent_state \<Rightarrow> world \<Rightarrow> (nss_status \<times> aliasent \<times> byte list \<times> int \<times> ent_state \<times> world) option" where
  "nss_srvd_getaliasent_r = nss_getent srvd_nss_aliases_populate SRVD_SERVICE_NSS_ALIASES_REQUEST_ENTITIES"

end
