(* ===== verification/Nss_Refine.thy ===== *)
theory Nss_Refine
  imports Nss_Passwd Nss_Aliases Typed_Refine Packet_Refine
begin

text \<open>
  Filling the caller's struct, as functions of the fields of the response: the loops over the fields
  in memory compute them whenever no entry is empty, as in every packet that was received.
\<close>

section \<open>Strings in the caller's buffer\<close>

definition fields_fit :: "spacket \<Rightarrow> bool" where
  "fields_fit sp \<longleftrightarrow> (\<forall>f \<in> set sp. [] \<notin> set (snd f) \<and> length (snd f) < 65536)"

lemma fields_fit_simps [simp]:
  "fields_fit []" "fields_fit (f # sp) \<longleftrightarrow> [] \<notin> set (snd f) \<and> length (snd f) < 65536 \<and> fields_fit sp"
  by (auto simp: fields_fit_def)

text \<open>The bytes a string entry leaves: its text up to the first NUL, padded, with the last byte NUL.\<close>

definition terminated :: "byte list \<Rightarrow> byte list" where
  "terminated bs = the (copy_terminated (length bs) (Some bs))"

lemma terminated_props:
  assumes "bs \<noteq> []"
  shows "copy_terminated (length bs) (Some bs) = Some (terminated bs)" "length (terminated bs) = length bs"
    "0 \<in> set (terminated bs)" "cstr (terminated bs) = take (length bs - 1) (cstr bs)"
  using copy_terminated_spec [of bs "length bs"] assms by (auto simp: terminated_def)

definition write_at :: "byte list \<Rightarrow> nat \<Rightarrow> byte list \<Rightarrow> byte list" where
  "write_at buf i ds = take i buf @ ds @ drop (i + length ds) buf"

lemma length_write_at: "i + length ds \<le> length buf \<Longrightarrow> length (write_at buf i ds) = length buf"
  by (simp add: write_at_def)

lemma wr_buf_write_at: "i + length ds \<le> length buf \<Longrightarrow> wr_buf buf i ds = Some (write_at buf i ds)"
  by (simp add: wr_buf_def write_at_def)

lemma write_at_update:
  assumes "length ds = Suc k" and "i + Suc k \<le> length buf"
  shows "(write_at buf i ds)[i + k := z] = write_at buf i (ds[k := z])"
  using assms by (simp add: write_at_def list_update_append)

lemma put_string_spec:
  assumes "entry_ok h e" and "ents h (e_addr e) = Some (Some n)" and "e_bytes e \<noteq> []"
    and "bi + length (e_bytes e) \<le> length buf"
  shows "put_string n buf bi h = Some (write_at buf bi (terminated (e_bytes e)), bi + length (e_bytes e))"
proof -
  let ?bs = "e_bytes e"
  from assms obtain b where b: "e_data n = Some b" "blks h b = Some ?bs" "e_size n = of_nat (length ?bs)" "length ?bs < 65536"
    by (auto simp: entry_ok_def split: option.splits)
  then have u: "unat (e_size n) = length ?bs" by (simp add: unat_of_nat)
  obtain k where k: "length ?bs = Suc k" using assms(3) by (cases ?bs) auto
  obtain ds where ds: "strncpy_bytes (length ?bs) ?bs = Some ds" using strncpy_spec [of ?bs "length ?bs"] by simp
  then have l: "length ds = Suc k" using strncpy_length k by metis
  have "terminated ?bs = ds[k := 0]"
    using ds k by (simp add: terminated_def copy_terminated_def)
  then show ?thesis
    using b(1,2) u ds l k assms(4) wr_buf_write_at [of bi ds buf] write_at_update [OF l, of bi buf 0]
    by (simp add: put_string_def Let_def)
qed

definition view_string :: "byte list list \<Rightarrow> byte list \<Rightarrow> nat \<Rightarrow> nat \<Rightarrow> int + nat \<times> byte list \<times> nat" where
  "view_string es buf bi n = (case es of [] \<Rightarrow> Inl EINVAL
     | bs # _ \<Rightarrow> if bi + length bs \<le> n then Inr (bi, write_at buf bi (terminated bs), bi + length bs) else Inl ERANGE)"

definition view_uint32 :: "byte list list \<Rightarrow> u32 \<Rightarrow> int + u32" where
  "view_uint32 es v = (case es of [] \<Rightarrow> Inl EINVAL | bs # _ \<Rightarrow> Inr (if length bs = 4 then of_be32 bs else v))"

lemma entry_get_first_of:
  "field_ok h t \<Longrightarrow> srvd_protocol_packet_field_entry_get_first (Some (f_addr t)) (Some None) h =
     Some (f_ents t \<noteq> [], Some (if f_ents t = [] then None else Some (e_addr (hd (f_ents t)))))"
  by (rule entry_get_first_spec [of h "f_addr t" "f_ty t"]) (cases t, simp)

lemma first_entry:
  assumes "field_ok h t" and "f_ents t = e # es"
  obtains n where "srvd_protocol_packet_field_entry_get_first (Some (f_addr t)) (Some None) h = Some (True, Some (Some (e_addr e)))"
    "entry_ok h e" "ents h (e_addr e) = Some (Some n)" "unat (e_size n) = length (e_bytes e)"
proof -
  have e: "entry_ok h e" using assms by (auto simp: field_ok_def)
  then obtain n where "ents h (e_addr e) = Some (Some n)" "e_size n = of_nat (length (e_bytes e))" "length (e_bytes e) < 65536"
    by (auto simp: entry_ok_def)
  with entry_get_first_of [OF assms(1)] assms(2) e show ?thesis by (intro that [of n]) (simp_all add: unat_of_nat)
qed

lemma no_first_entry:
  "field_ok h t \<Longrightarrow> f_ents t = [] \<Longrightarrow>
     srvd_protocol_packet_field_entry_get_first (Some (f_addr t)) (Some None) h = Some (False, Some None)"
  using entry_get_first_of [of h t] by simp

lemma fill_string_view:
  assumes "field_ok h t" and "[] \<notin> set (map e_bytes (f_ents t))" and "n \<le> length buf"
  shows "fill_string (Some (f_addr t)) buf bi n h = Some (view_string (map e_bytes (f_ents t)) buf bi n)"
proof (cases "f_ents t")
  case Nil
  then show ?thesis using no_first_entry [OF assms(1)] by (simp add: fill_string_def view_string_def)
next
  case (Cons e es)
  obtain k where k: "srvd_protocol_packet_field_entry_get_first (Some (f_addr t)) (Some None) h = Some (True, Some (Some (e_addr e)))"
    "entry_ok h e" "ents h (e_addr e) = Some (Some k)" "unat (e_size k) = length (e_bytes e)"
    by (rule first_entry [OF assms(1) Cons])
  have "e_bytes e \<noteq> []" using assms(2) Cons by auto
  from put_string_spec [OF k(2,3) this, of bi buf] k Cons assms(3) show ?thesis
    by (auto simp: fill_string_def view_string_def SRVD_BUFFER_CHECK_OFFSET_def mem_simps)
qed

lemma fill_uint32_view:
  assumes "field_ok h t"
  shows "fill_uint32 (Some (f_addr t)) v h = Some (view_uint32 (map e_bytes (f_ents t)) v)"
proof (cases "f_ents t")
  case Nil
  then show ?thesis using no_first_entry [OF assms(1)] by (simp add: fill_uint32_def view_uint32_def)
next
  case (Cons e es)
  obtain k where k: "srvd_protocol_packet_field_entry_get_first (Some (f_addr t)) (Some None) h = Some (True, Some (Some (e_addr e)))"
    "entry_ok h e" "ents h (e_addr e) = Some (Some k)" "unat (e_size k) = length (e_bytes e)"
    by (rule first_entry [OF assms(1) Cons])
  from entry_get_uint32_spec [OF k(2), of v] k(1) Cons show ?thesis by (simp add: fill_uint32_def view_uint32_def)
qed

section \<open>User names\<close>

definition view_into :: "((nat option \<Rightarrow> nat option) \<Rightarrow> passwd \<Rightarrow> passwd) \<Rightarrow> byte list list \<Rightarrow> passwd \<Rightarrow> byte list \<Rightarrow> nat \<Rightarrow> nat
    \<Rightarrow> int + passwd \<times> byte list \<times> nat" where
  "view_into upd es pwd buf bi n = (case view_string es buf bi n of Inl e \<Rightarrow> Inl e
     | Inr (p, buf, bi) \<Rightarrow> Inr (upd (\<lambda>_. Some p) pwd, buf, bi))"

definition passwd_view_field :: "bool \<Rightarrow> sfield \<Rightarrow> passwd \<Rightarrow> byte list \<Rightarrow> nat \<Rightarrow> nat \<Rightarrow> int + passwd \<times> byte list \<times> nat" where
  "passwd_view_field g f pwd buf bi n = (let (ty, es) = f in
     if ty = SRVD_SERVICE_NSS_PASSWD_RESPONSE_NAME then view_into pw_name_update es pwd buf bi n
     else if ty = SRVD_SERVICE_NSS_PASSWD_RESPONSE_UID then
       (case view_uint32 es (pw_uid pwd) of Inl e \<Rightarrow> Inl e | Inr v \<Rightarrow> Inr (pwd\<lparr>pw_uid := v\<rparr>, buf, bi))
     else if ty = SRVD_SERVICE_NSS_PASSWD_RESPONSE_GID then
       (case view_uint32 es (pw_gid pwd) of Inl e \<Rightarrow> Inl e | Inr v \<Rightarrow> Inr (pwd\<lparr>pw_gid := v\<rparr>, buf, bi))
     else if ty = SRVD_SERVICE_NSS_PASSWD_RESPONSE_DIR then view_into pw_dir_update es pwd buf bi n
     else if ty = SRVD_SERVICE_NSS_PASSWD_RESPONSE_SHELL then view_into pw_shell_update es pwd buf bi n
     else if g \<and> ty = SRVD_SERVICE_NSS_PASSWD_RESPONSE_GECOS then view_into pw_gecos_update es pwd buf bi n
     else Inr (pwd, buf, bi))"

fun passwd_view :: "bool \<Rightarrow> spacket \<Rightarrow> passwd \<Rightarrow> byte list \<Rightarrow> nat \<Rightarrow> nat \<Rightarrow> int \<Rightarrow> nss_status \<times> passwd \<times> byte list \<times> int" where
  "passwd_view g [] pwd buf bi n err = (NSS_STATUS_SUCCESS, pwd, buf, err)"
| "passwd_view g (f # sp) pwd buf bi n err = (case passwd_view_field g f pwd buf bi n of
     Inl e \<Rightarrow> (NSS_STATUS_TRYAGAIN, pwd, buf, e)
   | Inr (pwd, buf, bi) \<Rightarrow> passwd_view g sp pwd buf bi n err)"

lemma fill_into_view:
  assumes "field_ok h t" and "[] \<notin> set (map e_bytes (f_ents t))" and "n \<le> length buf"
  shows "fill_into upd (Some (f_addr t)) pwd buf bi n h = Some (view_into upd (map e_bytes (f_ents t)) pwd buf bi n)"
  using fill_string_view [OF assms, of bi] by (simp add: fill_into_def view_into_def)

lemma passwd_field_view:
  assumes "field_ok h t" and "[] \<notin> set (map e_bytes (f_ents t))" and "n \<le> length buf"
  shows "passwd_field g (Some (f_addr t)) pwd buf bi n h = Some (passwd_view_field g (abs_field t) pwd buf bi n)"
proof -
  from assms(1) obtain f where f: "flds h (f_addr t) = Some (Some f)" "f_type f = f_ty t" by (auto simp: field_ok_def)
  then show ?thesis
    using fill_into_view [OF assms] fill_uint32_view [OF assms(1)]
    by (simp add: passwd_field_def passwd_view_field_def abs_field_def mem_simps)
qed

lemma view_into_length:
  assumes "view_into upd es pwd buf bi n = Inr (pwd', buf', bi')" and "n \<le> length buf" and "[] \<notin> set es"
  shows "length buf' = length buf" "bi' \<le> n"
proof -
  from assms obtain bs es' where es: "es = bs # es'" "bi + length bs \<le> n" "buf' = write_at buf bi (terminated bs)" "bi' = bi + length bs"
    by (auto simp: view_into_def view_string_def split: list.splits if_splits)
  moreover have "bs \<noteq> []" using es(1) assms(3) by auto
  ultimately show "length buf' = length buf" "bi' \<le> n"
    using terminated_props(2) [of bs] assms(2) by (simp_all add: length_write_at)
qed

lemma passwd_view_field_length:
  assumes "passwd_view_field g f pwd buf bi n = Inr (pwd', buf', bi')" and "n \<le> length buf" and "[] \<notin> set (snd f)"
  shows "length buf' = length buf"
  using assms view_into_length(1) [OF _ assms(2), of _ "snd f"]
  by (auto simp: passwd_view_field_def split: if_splits sum.splits prod.splits)

lemma passwd_fields_view:
  assumes "dlseg f_next f_previous (flds h) bk p (map f_addr T) None z" and "\<forall>t \<in> set T. field_ok h t"
    and "fields_fit (abs_packet T)" and "n \<le> length buf"
  shows "passwd_fields g p pwd buf bi n err h = Some (passwd_view g (abs_packet T) pwd buf bi n err)"
  using assms
proof (induction T arbitrary: bk p pwd buf bi)
  case Nil
  then show ?case by (subst passwd_fields.simps) (simp add: abs_packet_def)
next
  case (Cons t T)
  from Cons.prems(1) obtain k where k: "p = Some (f_addr t)" "flds h (f_addr t) = Some (Some k)"
    and seg: "dlseg f_next f_previous (flds h) (Some (f_addr t)) (f_next k) (map f_addr T) None z" by auto
  have fo: "field_ok h t" and ne: "[] \<notin> set (map e_bytes (f_ents t))" and fit: "fields_fit (abs_packet T)"
    using Cons.prems(2,3) by (auto simp: abs_packet_def abs_field_def)
  have abs: "abs_packet (t # T) = abs_field t # abs_packet T" by (simp add: abs_packet_def)
  note field = passwd_field_view [OF fo ne Cons.prems(4), of g pwd bi]
  show ?case
  proof (cases "passwd_view_field g (abs_field t) pwd buf bi n")
    case (Inl e)
    then show ?thesis unfolding k(1) abs by (subst passwd_fields.simps) (simp add: field)
  next
    case (Inr r)
    obtain pwd' buf' bi' where r: "r = (pwd', buf', bi')" by (cases r)
    have "n \<le> length buf'"
      using passwd_view_field_length [OF Inr [unfolded r] Cons.prems(4)] ne Cons.prems(4) by (simp add: abs_field_def)
    with Cons.IH [OF seg _ fit] Cons.prems(2) have
      "passwd_fields g (f_next k) pwd' buf' bi' n err h = Some (passwd_view g (abs_packet T) pwd' buf' bi' n err)" by simp
    then show ?thesis unfolding k(1) abs by (subst passwd_fields.simps) (simp add: field Inr r k(2) mem_simps)
  qed
qed

lemma response_fields_spec:
  assumes "packet_at lk h p T" and "r_packet r = Some p"
  obtains q bk z where "response_fields r h = Some q" "dlseg f_next f_previous (flds h) bk q (map f_addr (tl T)) None z"
proof -
  from assms(1) obtain k where k: "pkts h p = Some (Some k)"
    "dlseg f_next f_previous (flds h) None (field_head k) (map f_addr T) None (field_tail k)" by (auto simp: packet_at_def)
  show ?thesis
  proof (cases T)
    case Nil
    with k assms(2) show ?thesis by (intro that [of None None None]) (simp_all add: response_fields_def mem_simps)
  next
    case (Cons t T')
    with k(2) obtain f where "field_head k = Some (f_addr t)" "flds h (f_addr t) = Some (Some f)"
      "dlseg f_next f_previous (flds h) (Some (f_addr t)) (f_next f) (map f_addr T') None (field_tail k)" by auto
    with k(1) assms(2) Cons show ?thesis by (intro that) (auto simp: response_fields_def mem_simps)
  qed
qed

lemma passwd_populate_view:
  assumes "packet_rep h p sp" and "r_packet r = Some p" and "fields_fit (tl sp)" and "n \<le> length buf"
  shows "srvd_nss_passwd_populate g r pwd buf n err h = Some (passwd_view g (tl sp) pwd buf 0 n err)"
proof -
  from assms(1) obtain T where T: "packet_at Unlocked h p T" "abs_packet T = sp" by (auto simp: packet_rep_def)
  obtain q bk z where q: "response_fields r h = Some q" "dlseg f_next f_previous (flds h) bk q (map f_addr (tl T)) None z"
    by (rule response_fields_spec [OF T(1) assms(2)])
  have tl: "abs_packet (tl T) = tl sp" using T(2) by (cases T) (auto simp: abs_packet_def)
  have "\<forall>t \<in> set (tl T). field_ok h t" using T(1) by (cases T) (auto simp: packet_at_def)
  from passwd_fields_view [OF q(2) this, of n buf g pwd 0 err] q(1) tl assms(3,4) show ?thesis
    by (simp add: srvd_nss_passwd_populate_def)
qed

end
