(* ===== verification/Passwd_Record.thy ===== *)
theory Passwd_Record
  imports Nss_Refine Packet_Held
begin

text \<open>
  What the caller gets in \<open>struct passwd\<close>: every pointer that was set leads to a terminated string in
  the used part of the buffer, and a record made with the functions of the service comes out as it
  was put in.
\<close>

section \<open>Pointers into the buffer\<close>

text \<open>A pointer that leads to a string with a NUL before the position \<open>bi\<close>.\<close>

definition leads_to :: "byte list \<Rightarrow> nat \<Rightarrow> nat \<Rightarrow> bool" where
  "leads_to buf bi i \<longleftrightarrow> i < bi \<and> 0 \<in> set (drop i (take bi buf))"

definition ptr_ok :: "byte list \<Rightarrow> nat \<Rightarrow> nat option \<Rightarrow> bool" where
  "ptr_ok buf bi p \<longleftrightarrow> (\<forall>i. p = Some i \<longrightarrow> leads_to buf bi i)"

definition passwd_ok :: "byte list \<Rightarrow> nat \<Rightarrow> passwd \<Rightarrow> bool" where
  "passwd_ok buf bi pwd \<longleftrightarrow> ptr_ok buf bi (pw_name pwd) \<and> ptr_ok buf bi (pw_dir pwd) \<and>
     ptr_ok buf bi (pw_shell pwd) \<and> ptr_ok buf bi (pw_gecos pwd)"

definition string_at :: "byte list \<Rightarrow> nat option \<Rightarrow> byte list option" where
  "string_at buf p = map_option (\<lambda>i. cstr (drop i buf)) p"

lemma ptr_ok_None [simp]: "ptr_ok buf bi None"
  by (simp add: ptr_ok_def)

lemma leads_to_mono:
  assumes "leads_to buf bi i" and "take bi buf' = take bi buf" and "bi \<le> bi'"
  shows "leads_to buf' bi' i"
proof -
  have "take bi buf' = take bi (take bi' buf')" using assms(3) by (simp add: min_def)
  then have "set (drop i (take bi buf)) \<subseteq> set (drop i (take bi' buf'))"
    unfolding assms(2) [symmetric] by (metis drop_take set_take_subset)
  then show ?thesis using assms(1,3) by (auto simp: leads_to_def)
qed

lemma ptr_ok_mono: "ptr_ok buf bi p \<Longrightarrow> take bi buf' = take bi buf \<Longrightarrow> bi \<le> bi' \<Longrightarrow> ptr_ok buf' bi' p"
  by (auto simp: ptr_ok_def intro: leads_to_mono)

lemma passwd_ok_mono: "passwd_ok buf bi pwd \<Longrightarrow> take bi buf' = take bi buf \<Longrightarrow> bi \<le> bi' \<Longrightarrow> passwd_ok buf' bi' pwd"
  by (auto simp: passwd_ok_def intro: ptr_ok_mono)

lemma drop_write_at: "bi + length ds \<le> n \<Longrightarrow> n \<le> length buf \<Longrightarrow> drop n (write_at buf bi ds) = drop n buf"
  by (simp add: write_at_def)

text \<open>Copying a string keeps what is before and after it.\<close>

lemma view_string_Inr:
  "view_string (bs # es) buf bi n = Inr (p, buf', bi') \<longleftrightarrow>
     bi + length bs \<le> n \<and> p = bi \<and> buf' = write_at buf bi (terminated bs) \<and> bi' = bi + length bs"
  by (auto simp: view_string_def)

lemma view_string_Nil: "view_string [] buf bi n = Inl EINVAL"
  by (simp add: view_string_def)

lemma view_string_ok:
  assumes "view_string es buf bi n = Inr (p, buf', bi')" and "n \<le> length buf" and "[] \<notin> set es"
  shows "p = bi" "bi < bi'" "bi' \<le> n" "length buf' = length buf" "take bi buf' = take bi buf" "drop n buf' = drop n buf"
    "leads_to buf' bi' p"
proof -
  obtain bs es' where cons: "es = bs # es'" using assms(1) view_string_Nil by (cases es) auto
  note es = cons assms(1) [unfolded cons view_string_Inr, THEN conjunct1]
    assms(1) [unfolded cons view_string_Inr, THEN conjunct2, THEN conjunct2, THEN conjunct1]
    assms(1) [unfolded cons view_string_Inr, THEN conjunct2, THEN conjunct1]
    assms(1) [unfolded cons view_string_Inr, THEN conjunct2, THEN conjunct2, THEN conjunct2]
  have ne: "bs \<noteq> []" using es(1) assms(3) by auto
  note t = terminated_props(2,3) [OF ne]
  show "p = bi" "bi < bi'" "bi' \<le> n" "length buf' = length buf" using es ne t(1) assms(2) by (simp_all add: length_write_at)
  show "take bi buf' = take bi buf" using es assms(2) by (simp add: write_at_def)
  show "drop n buf' = drop n buf"
    unfolding es(3) by (rule drop_write_at) (use es(2) assms(2) t(1) in simp_all)
  have "drop bi (take bi' buf') = terminated bs" using es assms(2) t(1) by (simp add: write_at_def)
  then show "leads_to buf' bi' p" using es(4) \<open>bi < bi'\<close> t(2) by (simp add: leads_to_def)
qed

lemma passwd_view_field_ok:
  assumes "passwd_view_field g f pwd buf bi n = Inr (pwd', buf', bi')" and "n \<le> length buf" and "[] \<notin> set (snd f)"
    and "passwd_ok buf bi pwd" and "bi \<le> n"
  shows "passwd_ok buf' bi' pwd' \<and> bi' \<le> n \<and> length buf' = length buf \<and> drop n buf' = drop n buf"
proof -
  have str: "passwd_ok buf' bi' (upd (\<lambda>_. Some p) pwd) \<and> bi' \<le> n \<and> length buf' = length buf \<and> drop n buf' = drop n buf"
    if v: "view_string (snd f) buf bi n = Inr (p, buf', bi')"
      and upd: "upd \<in> {pw_name_update, pw_dir_update, pw_shell_update, pw_gecos_update}" for upd p
  proof -
    note s = view_string_ok [OF v assms(2,3)]
    have "passwd_ok buf' bi' pwd" by (rule passwd_ok_mono [OF assms(4) s(5)]) (use s(2) in simp)
    with s(3,4,6,7) upd show ?thesis by (auto simp: passwd_ok_def ptr_ok_def)
  qed
  have upd2: "passwd_ok buf bi (pwd\<lparr>pw_uid := v\<rparr>)" "passwd_ok buf bi (pwd\<lparr>pw_gid := v\<rparr>)" for v
    using assms(4) by (simp_all add: passwd_ok_def)
  show ?thesis using assms(1,4,5) str upd2
    by (auto simp: passwd_view_field_def view_into_def Let_def split: if_splits sum.splits prod.splits)
qed

lemma passwd_view_ok:
  assumes "passwd_view g sp pwd buf bi n err = (st, pwd', buf', err')" and "fields_fit sp" and "n \<le> length buf"
    and "passwd_ok buf bi pwd" and "bi \<le> n"
  shows "passwd_ok buf' n pwd' \<and> length buf' = length buf \<and> drop n buf' = drop n buf"
  using assms
proof (induction sp arbitrary: pwd buf bi)
  case Nil
  then show ?case using passwd_ok_mono [of buf bi pwd buf n] by simp
next
  case (Cons f sp)
  show ?case
  proof (cases "passwd_view_field g f pwd buf bi n")
    case (Inl e)
    with Cons.prems show ?thesis using passwd_ok_mono [of buf bi pwd buf n] by simp
  next
    case (Inr r)
    obtain pwd1 buf1 bi1 where r: "r = (pwd1, buf1, bi1)" by (cases r)
    have "[] \<notin> set (snd f)" using Cons.prems(2) by simp
    from passwd_view_field_ok [OF Inr [unfolded r] Cons.prems(3) this Cons.prems(4,5)]
      Cons.IH [of pwd1 buf1 bi1] Cons.prems(1-3) Inr r show ?thesis by simp
  qed
qed

section \<open>A record through the wire\<close>

text \<open>The packet a service makes of a record, with the NUL of each string.\<close>

definition passwd_packet :: "byte list \<Rightarrow> u32 \<Rightarrow> u32 \<Rightarrow> byte list \<Rightarrow> byte list \<Rightarrow> byte list \<Rightarrow> spacket" where
  "passwd_packet nm uid gid dir shell gecos =
     [(SRVD_SERVICE_NSS_PASSWD_RESPONSE_NAME, [nm @ [0]]), (SRVD_SERVICE_NSS_PASSWD_RESPONSE_UID, [be32 uid]),
      (SRVD_SERVICE_NSS_PASSWD_RESPONSE_GID, [be32 gid]), (SRVD_SERVICE_NSS_PASSWD_RESPONSE_DIR, [dir @ [0]]),
      (SRVD_SERVICE_NSS_PASSWD_RESPONSE_SHELL, [shell @ [0]]), (SRVD_SERVICE_NSS_PASSWD_RESPONSE_GECOS, [gecos @ [0]])]"

definition set_passwd :: "response \<Rightarrow> byte list \<Rightarrow> u32 \<Rightarrow> u32 \<Rightarrow> byte list \<Rightarrow> byte list \<Rightarrow> byte list \<Rightarrow> heap
    \<Rightarrow> (bool list \<times> heap) option" where
  "set_passwd r nm uid gid dir shell gecos h = do {
     (a, h) \<leftarrow> srvd_service_nss_passwd_response_name_set (Some r) (Some (nm @ [0])) (length nm + 1) h;
     (b, h) \<leftarrow> srvd_service_nss_passwd_response_uid_set (Some r) uid h;
     (c, h) \<leftarrow> srvd_service_nss_passwd_response_gid_set (Some r) gid h;
     (d, h) \<leftarrow> srvd_service_nss_passwd_response_dir_set (Some r) (Some (dir @ [0])) (length dir + 1) h;
     (e, h) \<leftarrow> srvd_service_nss_passwd_response_shell_set (Some r) (Some (shell @ [0])) (length shell + 1) h;
     (f, h) \<leftarrow> srvd_service_nss_passwd_response_gecos_set (Some r) (Some (gecos @ [0])) (length gecos + 1) h;
     Some ([a, b, c, d, e, f], h) }"

text \<open>One field more, when memory does not run out.\<close>

lemma append_never_fails:
  assumes "heap_ok h" and "held A h p sp" and "\<forall>k. \<not> oom h k" and "ty \<notin> fst ` set sp" and "payload_ok sz (Some bs)"
  obtains h' where "srvd_protocol_packet_field_append (Some p) ty sz (Some bs) h = Some (True, h')"
    "held (A \<union> {brk h..<brk h'}) h' p (sp @ [(ty, [take (unat sz) bs])])" "modifies {p} A {} {} h h'"
    "heap_ok h'" "\<forall>k. \<not> oom h' k"
proof -
  have rd: "readable sz (Some bs)" using assms(5) by (simp add: readable_def payload_ok_def)
  obtain r h' where r: "srvd_protocol_packet_field_append (Some p) ty sz (Some bs) h = Some (r, h')"
    "held (A \<union> {brk h..<brk h'}) h' p (if r then sp @ [(ty, [payload sz (Some bs)])] else sp)"
    "modifies {p} A {} {} h h'" "r \<longleftrightarrow> ty \<notin> fst ` set sp \<and> payload_ok sz (Some bs) \<and> no_oom h h'"
    by (rule held_append [OF assms(1,2) rd])
  have "r" using r(4) assms(3-5) no_oom_never by blast
  with r that show ?thesis using assms(3) modifies_heap_ok [OF r(3)] by (auto simp: payload_def modifies_def)
qed

definition string_ok :: "byte list \<Rightarrow> bool" where
  "string_ok s \<longleftrightarrow> 0 \<notin> set s \<and> length s < 65535"

lemma string_payload:
  assumes "string_ok s"
  shows "payload_ok (of_nat (length s + 1)) (Some (s @ [0]))" "take (unat (of_nat (length s + 1) :: u16)) (s @ [0]) = s @ [0]"
proof -
  have u: "unat (of_nat (length s + 1) :: u16) = length s + 1"
    using assms unat_of_nat_16 [of "length s + 1"] by (simp add: string_ok_def del: of_nat_add of_nat_Suc)
  then have "(of_nat (length s + 1) :: u16) \<noteq> 0" by (metis add_is_0 one_neq_zero unat_0)
  with u show "payload_ok (of_nat (length s + 1)) (Some (s @ [0]))" "take (unat (of_nat (length s + 1) :: u16)) (s @ [0]) = s @ [0]"
    by (simp_all del: of_nat_add of_nat_Suc)
qed

lemma word_payload: "payload_ok 4 (Some (be32 v))" "take (unat (4 :: u16)) (be32 v) = be32 v"
  by simp_all

text \<open>
  A step of a service that sets fields, begun in the memory \<open>h0\<close>: the response so far, in memory that
  does not run out, with all its objects new.
\<close>

definition answering :: "heap \<Rightarrow> heap \<Rightarrow> addr \<Rightarrow> spacket \<Rightarrow> bool" where
  "answering h0 h p sp \<longleftrightarrow> heap_ok h \<and> (\<forall>k. \<not> oom h k) \<and> held {brk h0..<brk h} h p sp \<and> modifies {p} {} {} {} h0 h"

lemma answering_start: "heap_ok h \<Longrightarrow> \<forall>k. \<not> oom h k \<Longrightarrow> packet_rep h p [] \<Longrightarrow> answering h h p []"
  by (auto simp: answering_def packet_rep_def abs_packet_def intro: held_empty modifies_refl)

lemma answering_append:
  assumes "answering h0 h p sp" and "ty \<notin> fst ` set sp" and "payload_ok sz (Some bs)"
  obtains h' where "srvd_protocol_packet_field_append (Some p) ty sz (Some bs) h = Some (True, h')"
    "answering h0 h' p (sp @ [(ty, [take (unat sz) bs])])"
proof -
  from assms(1) have a: "heap_ok h" "held {brk h0..<brk h} h p sp" "\<forall>k. \<not> oom h k" "modifies {p} {} {} {} h0 h"
    by (auto simp: answering_def)
  show ?thesis
  proof (rule append_never_fails [OF a(1-3) assms(2,3)])
    fix h'
    assume run: "srvd_protocol_packet_field_append (Some p) ty sz (Some bs) h = Some (True, h')" "heap_ok h'" "\<forall>k. \<not> oom h' k"
      "held ({brk h0..<brk h} \<union> {brk h..<brk h'}) h' p (sp @ [(ty, [take (unat sz) bs])])"
      and m: "modifies {p} {brk h0..<brk h} {} {} h h'"
    have "brk h0 \<le> brk h" "brk h \<le> brk h'" using a(4) m by (simp_all add: modifies_def)
    then have "held {brk h0..<brk h'} h' p (sp @ [(ty, [take (unat sz) bs])])" by (intro held_mono [OF run(4)]) auto
    moreover have "modifies {p} {} {} {} h0 h'" by (rule modifies_new [OF a(4) m]) auto
    ultimately show ?thesis using run by (intro that) (simp_all add: answering_def)
  qed
qed

lemma set_string:
  assumes "answering h0 h p sp" and "ty \<notin> fst ` set sp" and "string_ok s" and "r_packet r = Some p"
  obtains h' where "response_string ty (Some r) (Some (s @ [0])) (length s + 1) h = Some (True, h')"
    "answering h0 h' p (sp @ [(ty, [s @ [0]])])"
  by (rule answering_append [OF assms(1,2) string_payload(1) [OF assms(3)]])
     (use assms(3,4) string_payload(2) that in \<open>simp add: response_string_def del: of_nat_add of_nat_Suc\<close>)

lemma set_number:
  assumes "answering h0 h p sp" and "ty \<notin> fst ` set sp" and "r_packet r = Some p"
  obtains h' where "response_uint32 ty (Some r) v h = Some (True, h')" "answering h0 h' p (sp @ [(ty, [be32 v])])"
  by (rule answering_append [OF assms(1,2) word_payload(1) [of v]])
     (use assms(3) that in \<open>simp add: response_uint32_def srvd_protocol_packet_field_append_uint32_def\<close>)

lemma set_passwd_spec:
  assumes "answering h0 h p []" and "r_packet r = Some p"
    and ok: "string_ok nm" "string_ok dir" "string_ok shell" "string_ok gecos"
  obtains h' where "set_passwd r nm uid gid dir shell gecos h = Some ([True, True, True, True, True, True], h')"
    "answering h0 h' p (passwd_packet nm uid gid dir shell gecos)"
proof -
  note setters = srvd_service_nss_passwd_response_name_set_def srvd_service_nss_passwd_response_uid_set_def
    srvd_service_nss_passwd_response_gid_set_def srvd_service_nss_passwd_response_dir_set_def
    srvd_service_nss_passwd_response_shell_set_def srvd_service_nss_passwd_response_gecos_set_def
  obtain h1 where h1: "srvd_service_nss_passwd_response_name_set (Some r) (Some (nm @ [0])) (length nm + 1) h = Some (True, h1)"
    "answering h0 h1 p ([] @ [(SRVD_SERVICE_NSS_PASSWD_RESPONSE_NAME, [nm @ [0]])])"
    unfolding setters by (rule set_string [OF assms(1) _ ok(1) assms(2)]) simp
  obtain h2 where h2: "srvd_service_nss_passwd_response_uid_set (Some r) uid h1 = Some (True, h2)"
    "answering h0 h2 p (([] @ [(SRVD_SERVICE_NSS_PASSWD_RESPONSE_NAME, [nm @ [0]])]) @ [(SRVD_SERVICE_NSS_PASSWD_RESPONSE_UID, [be32 uid])])"
    unfolding setters by (rule set_number [where ty = SRVD_SERVICE_NSS_PASSWD_RESPONSE_UID, OF h1(2) _ assms(2)]) (simp add: nss_types)
  obtain h3 where h3: "srvd_service_nss_passwd_response_gid_set (Some r) gid h2 = Some (True, h3)"
    "answering h0 h3 p ([(SRVD_SERVICE_NSS_PASSWD_RESPONSE_NAME, [nm @ [0]]), (SRVD_SERVICE_NSS_PASSWD_RESPONSE_UID, [be32 uid])] @
       [(SRVD_SERVICE_NSS_PASSWD_RESPONSE_GID, [be32 gid])])"
    unfolding setters by (rule set_number [where ty = SRVD_SERVICE_NSS_PASSWD_RESPONSE_GID, OF h2(2) [simplified] _ assms(2)]) (simp add: nss_types)
  obtain h4 where h4: "srvd_service_nss_passwd_response_dir_set (Some r) (Some (dir @ [0])) (length dir + 1) h3 = Some (True, h4)"
    "answering h0 h4 p ([(SRVD_SERVICE_NSS_PASSWD_RESPONSE_NAME, [nm @ [0]]), (SRVD_SERVICE_NSS_PASSWD_RESPONSE_UID, [be32 uid]),
       (SRVD_SERVICE_NSS_PASSWD_RESPONSE_GID, [be32 gid])] @ [(SRVD_SERVICE_NSS_PASSWD_RESPONSE_DIR, [dir @ [0]])])"
    unfolding setters by (rule set_string [where ty = SRVD_SERVICE_NSS_PASSWD_RESPONSE_DIR, OF h3(2) [simplified] _ ok(2) assms(2)]) (simp add: nss_types)
  obtain h5 where h5: "srvd_service_nss_passwd_response_shell_set (Some r) (Some (shell @ [0])) (length shell + 1) h4 = Some (True, h5)"
    "answering h0 h5 p ([(SRVD_SERVICE_NSS_PASSWD_RESPONSE_NAME, [nm @ [0]]), (SRVD_SERVICE_NSS_PASSWD_RESPONSE_UID, [be32 uid]),
       (SRVD_SERVICE_NSS_PASSWD_RESPONSE_GID, [be32 gid]), (SRVD_SERVICE_NSS_PASSWD_RESPONSE_DIR, [dir @ [0]])] @
       [(SRVD_SERVICE_NSS_PASSWD_RESPONSE_SHELL, [shell @ [0]])])"
    unfolding setters by (rule set_string [where ty = SRVD_SERVICE_NSS_PASSWD_RESPONSE_SHELL, OF h4(2) [simplified] _ ok(3) assms(2)]) (simp add: nss_types)
  obtain h6 where h6: "srvd_service_nss_passwd_response_gecos_set (Some r) (Some (gecos @ [0])) (length gecos + 1) h5 = Some (True, h6)"
    "answering h0 h6 p ([(SRVD_SERVICE_NSS_PASSWD_RESPONSE_NAME, [nm @ [0]]), (SRVD_SERVICE_NSS_PASSWD_RESPONSE_UID, [be32 uid]),
       (SRVD_SERVICE_NSS_PASSWD_RESPONSE_GID, [be32 gid]), (SRVD_SERVICE_NSS_PASSWD_RESPONSE_DIR, [dir @ [0]]),
       (SRVD_SERVICE_NSS_PASSWD_RESPONSE_SHELL, [shell @ [0]])] @ [(SRVD_SERVICE_NSS_PASSWD_RESPONSE_GECOS, [gecos @ [0]])])"
    unfolding setters by (rule set_string [where ty = SRVD_SERVICE_NSS_PASSWD_RESPONSE_GECOS, OF h5(2) [simplified] _ ok(4) assms(2)]) (simp add: nss_types)
  show ?thesis
    by (rule that [of h6]) (use h1(1) h2(1) h3(1) h4(1) h5(1) h6 in \<open>simp_all add: set_passwd_def passwd_packet_def\<close>)
qed

section \<open>Reading the record back\<close>

lemma terminated_string: "0 \<notin> set s \<Longrightarrow> terminated (s @ [0]) = s @ [0]"
proof -
  assume s: "0 \<notin> set s"
  then have "strncpy_bytes (length (s @ [0])) (s @ [0]) = Some (s @ [0])"
    using strncpy_spec [of "s @ [0]" "length (s @ [0])"] by (simp add: cstr_append_NUL)
  then show ?thesis by (simp add: terminated_def copy_terminated_def)
qed

text \<open>The buffer after the strings \<open>pre\<close> were written at its start.\<close>

definition packed :: "byte list \<Rightarrow> byte list \<Rightarrow> byte list" where
  "packed pre buf = pre @ drop (length pre) buf"

lemma packed_Nil: "packed [] buf = buf"
  by (simp add: packed_def)

lemma write_at_packed:
  "length pre + length ds \<le> length buf \<Longrightarrow> write_at (packed pre buf) (length pre) ds = packed (pre @ ds) buf"
  by (simp add: write_at_def packed_def add.commute)

lemma view_into_packed:
  assumes "0 \<notin> set s" and "length pre + length s + 1 \<le> n" and "n \<le> length buf"
  shows "view_into upd [s @ [0]] pwd (packed pre buf) (length pre) n =
     Inr (upd (\<lambda>_. Some (length pre)) pwd, packed (pre @ s @ [0]) buf, length (pre @ s @ [0]))"
  using assms terminated_string [OF assms(1)] write_at_packed [of pre "s @ [0]" buf]
  by (simp add: view_into_def view_string_Inr view_string_def)

lemma view_uint32_word: "view_uint32 [be32 v] w = Inr v"
  by (simp add: view_uint32_def)

lemma string_at_packed: "0 \<notin> set s \<Longrightarrow> string_at (packed (pre @ (s @ [0]) @ post) buf) (Some (length pre)) = Some s"
  by (simp add: string_at_def packed_def cstr_append_NUL)

lemma passwd_view_packet:
  assumes ok: "0 \<notin> set nm" "0 \<notin> set dir" "0 \<notin> set shell" "0 \<notin> set gecos"
    and fit: "length nm + length dir + length shell + length gecos + 4 \<le> n" "n \<le> length buf"
  defines "b1 \<equiv> nm @ [0]" and "b2 \<equiv> nm @ [0] @ dir @ [0]" and "b3 \<equiv> nm @ [0] @ dir @ [0] @ shell @ [0]"
    and "b4 \<equiv> nm @ [0] @ dir @ [0] @ shell @ [0] @ gecos @ [0]"
  shows "passwd_view True (passwd_packet nm uid gid dir shell gecos) pwd buf 0 n err =
     (NSS_STATUS_SUCCESS, pwd\<lparr>pw_name := Some 0, pw_uid := uid, pw_gid := gid, pw_dir := Some (length b1),
        pw_shell := Some (length b2), pw_gecos := Some (length b3)\<rparr>, packed b4 buf, err)"
proof -
  note name = view_into_packed [OF ok(1), of "[]" n buf pw_name_update, unfolded packed_Nil]
  have fits: "length b1 + length dir + 1 \<le> n" "length b2 + length shell + 1 \<le> n" "length b3 + length gecos + 1 \<le> n"
    using fit by (simp_all add: b1_def b2_def b3_def)
  have eqs: "b1 @ dir @ [0] = b2" "b2 @ shell @ [0] = b3" "b3 @ gecos @ [0] = b4" "[] @ nm @ [0] = b1"
    by (simp_all add: b1_def b2_def b3_def b4_def)
  note rest = view_into_packed [OF ok(2) fits(1) fit(2), of pw_dir_update] view_into_packed [OF ok(3) fits(2) fit(2), of pw_shell_update]
    view_into_packed [OF ok(4) fits(3) fit(2), of pw_gecos_update]
  have name': "view_into pw_name_update [nm @ [0]] pwd buf 0 n = Inr (pwd\<lparr>pw_name := Some 0\<rparr>, packed b1 buf, length b1)"
    using name fit eqs(4) by (simp add: b1_def)
  show ?thesis unfolding passwd_packet_def
    using name' rest eqs by (simp add: passwd_view_field_def nss_types view_uint32_word)
qed

end
