(* ===== verification/Alias_Refine.thy ===== *)
theory Alias_Refine
  imports Nss_Refine
begin

text \<open>
  Filling \<open>struct aliasent\<close>, as a function of the fields of the response, and what the members of
  the list are afterwards.
\<close>

definition put_member :: "nat \<Rightarrow> nat \<Rightarrow> aliasent \<Rightarrow> aliasent" where
  "put_member i p ae = ae\<lparr>alias_members := map_option (\<lambda>(at, ps). (at, ps[i := Some p])) (alias_members ae)\<rparr>"

fun view_members :: "byte list list \<Rightarrow> nat \<Rightarrow> aliasent \<Rightarrow> byte list \<Rightarrow> nat \<Rightarrow> nat \<Rightarrow> int option \<times> aliasent \<times> byte list \<times> nat" where
  "view_members [] i ae buf bi n = (None, ae, buf, bi)"
| "view_members (bs # es) i ae buf bi n =
     (if bi + length bs \<le> n
      then view_members es (Suc i) (put_member i bi ae) (write_at buf bi (terminated bs)) (bi + length bs) n
      else (Some ERANGE, ae, buf, bi))"

definition view_list :: "byte list list \<Rightarrow> aliasent \<Rightarrow> byte list \<Rightarrow> nat \<Rightarrow> nat \<Rightarrow> int option \<times> aliasent \<times> byte list \<times> nat" where
  "view_list es ae buf bi n = (let k = length es; ae = ae\<lparr>alias_members_len := k\<rparr> in
     if bi + k * POINTER_SIZE \<le> n
     then view_members es 0 (ae\<lparr>alias_members := Some (bi, replicate k None)\<rparr>)
       (write_at buf bi (replicate (k * POINTER_SIZE) 0)) (bi + k * POINTER_SIZE) n
     else (Some ERANGE, ae, buf, bi))"

definition alias_view_field :: "sfield \<Rightarrow> aliasent \<Rightarrow> byte list \<Rightarrow> nat \<Rightarrow> nat \<Rightarrow> int option \<times> aliasent \<times> byte list \<times> nat" where
  "alias_view_field f ae buf bi n = (let (ty, es) = f in
     if ty = SRVD_SERVICE_NSS_ALIASES_RESPONSE_NAME then
       (case view_string es buf bi n of Inl e \<Rightarrow> (Some e, ae, buf, bi) | Inr (p, buf, bi) \<Rightarrow> (None, ae\<lparr>alias_name := Some p\<rparr>, buf, bi))
     else if ty = SRVD_SERVICE_NSS_ALIASES_RESPONSE_MEMBERS then view_list es ae buf bi n
     else if ty = SRVD_SERVICE_NSS_ALIASES_RESPONSE_LOCAL then
       (case es of [] \<Rightarrow> (Some EINVAL, ae, buf, bi)
        | bs # _ \<Rightarrow> (None, ae\<lparr>alias_local := set_low_byte (if length bs = 1 then hd bs else ucast (alias_local ae)) (alias_local ae)\<rparr>, buf, bi))
     else (None, ae, buf, bi))"

fun alias_view :: "spacket \<Rightarrow> aliasent \<Rightarrow> byte list \<Rightarrow> nat \<Rightarrow> nat \<Rightarrow> int \<Rightarrow> nss_status \<times> aliasent \<times> byte list \<times> int" where
  "alias_view [] ae buf bi n err = (NSS_STATUS_SUCCESS, ae, buf, err)"
| "alias_view (f # sp) ae buf bi n err = (case alias_view_field f ae buf bi n of
     (Some e, ae, buf, bi) \<Rightarrow> (NSS_STATUS_TRYAGAIN, ae, buf, e)
   | (None, ae, buf, bi) \<Rightarrow> alias_view sp ae buf bi n err)"

section \<open>The loops compute it\<close>

lemma alias_entries_view:
  assumes "dlseg e_next e_previous (ents h) bk p (map e_addr es) None z" and "\<forall>e \<in> set es. entry_ok h e \<and> e_bytes e \<noteq> []"
    and "alias_members ae = Some (at, ps)" and "i + length es \<le> length ps" and "i + length es < 65536" and "n \<le> length buf"
  shows "alias_entries p (of_nat i) ae buf bi n h = Some (view_members (map e_bytes es) i ae buf bi n)"
  using assms
proof (induction es arbitrary: bk p i ae ps buf bi)
  case Nil
  then show ?case by (subst alias_entries.simps) simp
next
  case (Cons e es)
  from Cons.prems(1) obtain k where k: "p = Some (e_addr e)" "ents h (e_addr e) = Some (Some k)"
    and seg: "dlseg e_next e_previous (ents h) (Some (e_addr e)) (e_next k) (map e_addr es) None z" by auto
  have e: "entry_ok h e" "e_bytes e \<noteq> []" using Cons.prems(2) by auto
  then have sz: "unat (e_size k) = length (e_bytes e)" using k(2) by (auto simp: entry_ok_def unat_of_nat)
  have i: "unat (of_nat i :: u16) = i" "(of_nat i :: u16) + 1 = of_nat (Suc i)" using Cons.prems(5) by (auto simp: unat_of_nat)
  have mem: "store_member i bi ae = Some (put_member i bi ae)" using Cons.prems(3,4) by (simp add: store_member_def put_member_def)
  show ?case
  proof (cases "bi + length (e_bytes e) \<le> n")
    case False
    then show ?thesis using k sz by (subst alias_entries.simps) (simp add: mem_simps SRVD_BUFFER_CHECK_OFFSET_def)
  next
    case True
    note put = put_string_spec [OF e(1) k(2) e(2), of bi buf]
    have len: "length (write_at buf bi (terminated (e_bytes e))) = length buf"
      using True Cons.prems(6) terminated_props(2) [OF e(2)] by (intro length_write_at) simp
    have "alias_entries (e_next k) (of_nat (Suc i)) (put_member i bi ae) (write_at buf bi (terminated (e_bytes e))) (bi + length (e_bytes e)) n h =
        Some (view_members (map e_bytes es) (Suc i) (put_member i bi ae) (write_at buf bi (terminated (e_bytes e))) (bi + length (e_bytes e)) n)"
      by (rule Cons.IH [OF seg, where ps = "ps[i := Some bi]"]) (use Cons.prems len in \<open>simp_all add: put_member_def\<close>)
    then show ?thesis using k sz True put i mem Cons.prems(6)
      by (subst alias_entries.simps) (simp add: mem_simps SRVD_BUFFER_CHECK_OFFSET_def del: of_nat_Suc)
  qed
qed

lemma alias_list_view:
  assumes "field_ok h t" and "flds h (f_addr t) = Some (Some f)" and "[] \<notin> set (map e_bytes (f_ents t))"
    and "length (f_ents t) < 65536" and "n \<le> length buf"
  shows "alias_list f ae buf bi n h = Some (view_list (map e_bytes (f_ents t)) ae buf bi n)"
proof -
  let ?k = "length (f_ents t)"
  from assms(1,2) have f: "entry_count f = of_nat ?k" "\<forall>e \<in> set (f_ents t). entry_ok h e"
    "dlseg e_next e_previous (ents h) None (entry_head f) (map e_addr (f_ents t)) None (entry_tail f)"
    by (auto simp: field_ok_def)
  have n: "unat (entry_count f) = ?k" using f(1) assms(4) by (simp add: unat_of_nat)
  show ?thesis
  proof (cases "bi + ?k * POINTER_SIZE \<le> n")
    case False
    then show ?thesis using n by (simp add: alias_list_def view_list_def SRVD_BUFFER_CHECK_OFFSET_def Let_def)
  next
    case True
    let ?ae = "ae\<lparr>alias_members_len := ?k, alias_members := Some (bi, replicate ?k None)\<rparr>"
    let ?buf = "write_at buf bi (replicate (?k * POINTER_SIZE) 0)"
    have w: "wr_buf buf bi (replicate (?k * POINTER_SIZE) 0) = Some ?buf" "length ?buf = length buf"
      using True assms(5) by (simp_all add: wr_buf_write_at length_write_at)
    have "alias_entries (entry_head f) (of_nat 0) ?ae ?buf (bi + ?k * POINTER_SIZE) n h =
        Some (view_members (map e_bytes (f_ents t)) 0 ?ae ?buf (bi + ?k * POINTER_SIZE) n)"
      by (rule alias_entries_view [OF f(3), where ps = "replicate ?k None"]) (use assms(3-5) f(2) w(2) in \<open>force+\<close>)
    then show ?thesis using True n w(1) by (simp add: alias_list_def view_list_def SRVD_BUFFER_CHECK_OFFSET_def Let_def)
  qed
qed

lemma alias_field_view:
  assumes "field_ok h t" and "[] \<notin> set (map e_bytes (f_ents t))" and "length (f_ents t) < 65536" and "n \<le> length buf"
  shows "alias_field (Some (f_addr t)) ae buf bi n h = Some (alias_view_field (abs_field t) ae buf bi n)"
proof -
  from assms(1) obtain f where f: "flds h (f_addr t) = Some (Some f)" "f_type f = f_ty t" by (auto simp: field_ok_def)
  have loc: "do { (ok, entry) \<leftarrow> srvd_protocol_packet_field_entry_get_first (Some (f_addr t)) (Some None) h;
       if \<not> ok then Some (Some EINVAL, ae, buf, bi)
       else do { (_, v) \<leftarrow> srvd_protocol_packet_field_entry_get_uint8 (the entry) (Some (ucast (alias_local ae))) h;
         Some (None, ae\<lparr>alias_local := set_low_byte (the v) (alias_local ae)\<rparr>, buf, bi) } } =
     Some (case map e_bytes (f_ents t) of [] \<Rightarrow> (Some EINVAL, ae, buf, bi)
        | bs # _ \<Rightarrow> (None, ae\<lparr>alias_local := set_low_byte (if length bs = 1 then hd bs else ucast (alias_local ae)) (alias_local ae)\<rparr>, buf, bi))"
  proof (cases "f_ents t")
    case Nil
    then show ?thesis using no_first_entry [OF assms(1)] by simp
  next
    case (Cons e es)
    have "entry_ok h e" using assms(1) Cons by (auto simp: field_ok_def)
    from entry_get_uint8_spec [OF this, of "ucast (alias_local ae)"] entry_get_first_of [OF assms(1)] Cons show ?thesis by simp
  qed
  show ?thesis using f loc fill_string_view [OF assms(1,2,4), of bi] alias_list_view [OF assms(1) f(1) assms(2-4), of ae bi]
    by (auto simp: alias_field_def alias_view_field_def abs_field_def mem_simps split: sum.splits)
qed

lemma view_members_length:
  assumes "view_members es i ae buf bi n = (e, ae', buf', bi')" and "n \<le> length buf" and "[] \<notin> set es"
  shows "length buf' = length buf"
  using assms
proof (induction es arbitrary: i ae buf bi)
  case (Cons bs es)
  then show ?case
    using terminated_props(2) [of bs] length_write_at [of bi "terminated bs" buf] by (auto split: if_splits)
qed simp

lemma alias_view_field_length:
  assumes "alias_view_field f ae buf bi n = (e, ae', buf', bi')" and "n \<le> length buf" and "[] \<notin> set (snd f)"
  shows "length buf' = length buf"
proof -
  obtain ty es where f: "f = (ty, es)" by (cases f)
  have s: "length b = length buf" if "view_string es buf bi n = Inr (p, b, k)" for p b k
    using view_into_length(1) [of pw_name_update es undefined buf bi n "undefined\<lparr>pw_name := Some p\<rparr>" b k] that assms(2,3) f
    by (simp add: view_into_def)
  have l: "length b = length buf" if "view_list es ae buf bi n = (x, a, b, k)" for x a b k
    using that view_members_length [of es 0] assms(2,3) f length_write_at [of bi "replicate (length es * POINTER_SIZE) 0" buf]
    by (force simp: view_list_def Let_def split: if_splits)
  show ?thesis using assms(1) f s l
    by (auto simp: alias_view_field_def Let_def split: if_splits sum.splits prod.splits list.splits)
qed

lemma alias_fields_view:
  assumes "dlseg f_next f_previous (flds h) bk p (map f_addr T) None z" and "\<forall>t \<in> set T. field_ok h t"
    and "fields_fit (abs_packet T)" and "n \<le> length buf"
  shows "alias_fields p ae buf bi n err h = Some (alias_view (abs_packet T) ae buf bi n err)"
  using assms
proof (induction T arbitrary: bk p ae buf bi)
  case Nil
  then show ?case by (subst alias_fields.simps) (simp add: abs_packet_def)
next
  case (Cons t T)
  from Cons.prems(1) obtain k where k: "p = Some (f_addr t)" "flds h (f_addr t) = Some (Some k)"
    and seg: "dlseg f_next f_previous (flds h) (Some (f_addr t)) (f_next k) (map f_addr T) None z" by auto
  have fo: "field_ok h t" and ne: "[] \<notin> set (map e_bytes (f_ents t))" "length (f_ents t) < 65536" and fit: "fields_fit (abs_packet T)"
    using Cons.prems(2,3) by (auto simp: abs_packet_def abs_field_def)
  have abs: "abs_packet (t # T) = abs_field t # abs_packet T" by (simp add: abs_packet_def)
  obtain e ae' buf' bi' where r: "alias_view_field (abs_field t) ae buf bi n = (e, ae', buf', bi')"
    by (cases "alias_view_field (abs_field t) ae buf bi n")
  note field = alias_field_view [OF fo ne Cons.prems(4), of ae bi, unfolded r]
  have "n \<le> length buf'"
    using alias_view_field_length [OF r Cons.prems(4)] ne Cons.prems(4) by (simp add: abs_field_def)
  with Cons.IH [OF seg _ fit] Cons.prems(2) have
    "alias_fields (f_next k) ae' buf' bi' n err h = Some (alias_view (abs_packet T) ae' buf' bi' n err)" by simp
  then show ?case unfolding k(1) abs
    by (subst alias_fields.simps) (cases e; simp add: field r k(2) mem_simps)
qed

lemma aliases_populate_view:
  assumes "packet_rep h p sp" and "r_packet r = Some p" and "fields_fit (tl sp)" and "n \<le> length buf"
  shows "srvd_nss_aliases_populate r ae buf n err h = Some (alias_view (tl sp) (ae\<lparr>alias_local := 0\<rparr>) buf 0 n err)"
proof -
  from assms(1) obtain T where T: "packet_at Unlocked h p T" "abs_packet T = sp" by (auto simp: packet_rep_def)
  obtain q bk z where q: "response_fields r h = Some q" "dlseg f_next f_previous (flds h) bk q (map f_addr (tl T)) None z"
    by (rule response_fields_spec [OF T(1) assms(2)])
  have tl: "abs_packet (tl T) = tl sp" using T(2) by (cases T) (auto simp: abs_packet_def)
  have "\<forall>t \<in> set (tl T). field_ok h t" using T(1) by (cases T) (auto simp: packet_at_def)
  from alias_fields_view [OF q(2) this, of n buf "ae\<lparr>alias_local := 0\<rparr>" 0 err] q(1) tl assms(3,4) show ?thesis
    by (simp add: srvd_nss_aliases_populate_def Let_def)
qed

end
