(* ===== verification/Nss_Client.thy ===== *)
theory Nss_Client
  imports Passwd_Record Alias_Refine Query_Refine Server_Turn
begin

text \<open>
  A lookup from end to end: the request it sends, what it makes of the answer, and that memory is as
  before. The two databases are clients of one interface, the function that fills the caller's
  struct from the fields of a response.
\<close>

section \<open>Asking\<close>

text \<open>A world in which a query reaches its server: the configuration names a socket that listens.\<close>

definition reaches :: "byte list \<Rightarrow> fsys \<Rightarrow> world \<Rightarrow> bool" where
  "reaches dp fs x \<longleftrightarrow> (\<exists>d s cm path. conf_ready dp fs x d s cm \<and> unsock_path cm = Some path \<and>
       listening (w_os x) (take SUN_PATH_LENGTH path)) \<and>
     clients_ok (w_clients x) \<and> \<not> cl_oom (w_clients x) (cl_brk (w_clients x)) \<and>
     (\<forall>k. \<not> os_fails (w_os x) k) \<and> smooth (peers (w_os x) (fd_brk (w_os x)))"

text \<open>What the bytes sent back mean: the fields that were received, whole or not.\<close>

definition answers_with :: "world \<Rightarrow> spacket \<Rightarrow> bool" where
  "answers_with x sp \<longleftrightarrow> receive (inbox (peers (w_os x) (fd_brk (w_os x)))) \<in> {Parsed sp, Refused sp}"

lemma reaches_query:
  assumes "reaches dp fs x" and "answers_with x sp"
    and "heap_ok h" and "\<forall>k. \<not> oom h k" and "held A h a rq" and "counts_fit rq" and "packet_at Unlocked h b []"
  obtains st h' w' m' x' where
    "srvd_service_request_query dp fs (Some \<lparr>q_packet = Some a\<rparr>) (Some \<lparr>r_packet = Some b, r_status = c\<rparr>) (x\<lparr>w_heap := h\<rparr>) =
       Some (st, Some \<lparr>r_packet = Some b, r_status = status_of c sp\<rparr>, x')"
    "held {brk h..<brk (w_heap x')} (w_heap x') b sp" "modifies {b} {} {} {} h (w_heap x')"
    "continues dp fs x x'"
    "sent (w_os x') (fd_brk (w_os x)) = outbox (peers (w_os x) (fd_brk (w_os x))) @ wire_packet rq"
proof -
  let ?x = "x\<lparr>w_heap := h\<rparr>" and ?r = "\<lparr>r_packet = Some b, r_status = c\<rparr>"
  from assms(1) obtain d s cm path where c: "conf_ready dp fs x d s cm" and path: "unsock_path cm = Some path"
    and li: "listening (w_os ?x) (take SUN_PATH_LENGTH path)" by (auto simp: reaches_def)
  have conf: "conf_ready dp fs ?x d s cm" "unsock_path cm = Some path" using c path by (simp_all add: conf_ready_def)
  have cl: "clients_ok (w_clients ?x)" "\<not> cl_oom (w_clients ?x) (cl_brk (w_clients ?x))"
    and os: "\<forall>k. \<not> os_fails (w_os ?x) k" "smooth (peers (w_os ?x) (fd_brk (w_os ?x)))"
    using assms(1) by (simp_all add: reaches_def)
  from assms(5) obtain T where T: "packet_at Unlocked h a T" "abs_packet T = rq" by (auto simp: held_def)
  have "queried dp fs b ?r (wire_packet (abs_packet T)) (receive (inbox (peers (w_os ?x) (fd_brk (w_os ?x))))) ?x
      (srvd_service_request_query dp fs (Some \<lparr>q_packet = Some a\<rparr>) (Some ?r) ?x)"
    by (rule query_spec [OF _ _ _ _ _ _ _ conf cl os(1) li os(2)]) (use assms(3,4,6,7) T in simp_all)
  with assms(2) that T(2) show ?thesis by (fastforce simp: queried_def answers_with_def Let_def)
qed

lemma nss_ask_spec:
  assumes ok: "heap_ok (w_heap x)" and mem: "\<forall>k. \<not> oom (w_heap x) k" and reach: "reaches dp fs x" and ans: "answers_with x sp"
    and pay: "payload_ok sz (Some bs)"
  defines "a \<equiv> brk (w_heap x)" and "b \<equiv> Suc (brk (w_heap x))"
  obtains h2 r x' where
    "nss_ask dp fs (\<lambda>p. srvd_protocol_packet_field_append p ty sz (Some bs)) x = Some (\<lparr>q_packet = Some a\<rparr>, r, x')"
    "r_packet r = Some b" "r_status r = status_of SRVD_SERVICE_RESPONSE_UNKNOWN sp" "packet_rep (w_heap x') b sp"
    "modifies {} {} {} {} (w_heap x) h2" "brk h2 = Suc b" "settled h2 a b (w_heap x')"
    "continues dp fs x x'"
    "sent (w_os x') (fd_brk (w_os x)) = outbox (peers (w_os x) (fd_brk (w_os x))) @ wire_packet [(ty, [take (unat sz) bs])]"
proof -
  let ?h = "w_heap x" and ?rq = "[(ty, [take (unat sz) bs])]"
  let ?h2 = "?h\<lparr>brk := Suc b, pkts := (pkts ?h)(a \<mapsto> None, b \<mapsto> None)\<rparr>"
  have ok2: "heap_ok ?h2" and m2: "modifies {} {} {} {} ?h ?h2" using ok by (auto simp: heap_ok_def modifies_def a_def b_def)
  obtain h3 where h3: "srvd_protocol_packet_initialize (Some a) ?h2 = Some (True, h3)" "packet_at Unlocked h3 a []"
    "modifies {a} {} {} {} ?h2 h3" "brk h3 = brk ?h2"
    by (rule packet_initialize_spec [OF ok2, of a None]) (simp_all add: a_def b_def)
  have ok3: "heap_ok h3" and mem3: "\<forall>k. \<not> oom h3 k" using modifies_heap_ok [OF h3(3)] h3(3) mem by (auto simp: modifies_def)
  obtain h4 where h4: "srvd_protocol_packet_field_append (Some a) ty sz (Some bs) h3 = Some (True, h4)"
    "held ({} \<union> {brk h3..<brk h4}) h4 a ([] @ ?rq)" "modifies {a} {} {} {} h3 h4" "heap_ok h4" "\<forall>k. \<not> oom h4 k"
    by (rule append_never_fails [OF ok3 held_empty [OF h3(2)] mem3 _ pay]) simp
  have b3: "b < brk h3" and br: "brk h3 \<le> brk h4" using h3(4) h4(3) by (simp_all add: modifies_def)
  have "pkts h3 b = Some None" using modifiesD(1) [OF h3(3), of b] by (simp add: a_def b_def)
  then have "pkts h4 b = Some None" using modifiesD(1) [OF h4(3) b3] by (simp add: a_def b_def)
  then obtain h5 where h5: "srvd_protocol_packet_initialize (Some b) h4 = Some (True, h5)" "packet_at Unlocked h5 b []"
    "modifies {b} {} {} {} h4 h5" "brk h5 = brk h4" by (rule packet_initialize_spec [OF h4(4)])
  have ok5: "heap_ok h5" and mem5: "\<forall>k. \<not> oom h5 k" using modifies_heap_ok [OF h5(3)] h5(3) h4(5) by (auto simp: modifies_def)
  have ha5: "held {brk h3..<brk h4} h5 a ?rq" using held_frame [OF h5(3) h4(4), of "{brk h3..<brk h4}" a ?rq] h4(2) by (simp add: a_def b_def)
  have fit: "counts_fit ?rq" by (simp add: counts_fit_def)
  obtain st x' where q: "srvd_service_request_query dp fs (Some \<lparr>q_packet = Some a\<rparr>) (Some \<lparr>r_packet = Some b, r_status = SRVD_SERVICE_RESPONSE_UNKNOWN\<rparr>)
       (x\<lparr>w_heap := h5\<rparr>) = Some (st, Some \<lparr>r_packet = Some b, r_status = status_of SRVD_SERVICE_RESPONSE_UNKNOWN sp\<rparr>, x')"
    "held {brk h5..<brk (w_heap x')} (w_heap x') b sp" "modifies {b} {} {} {} h5 (w_heap x')"
    "continues dp fs x x'"
    "sent (w_os x') (fd_brk (w_os x)) = outbox (peers (w_os x) (fd_brk (w_os x))) @ wire_packet ?rq"
    by (rule reaches_query [OF reach ans ok5 mem5 ha5 fit h5(2)])
  have br5: "brk h5 \<le> brk (w_heap x')" using q(3) by (simp add: modifies_def)
  have ha: "held {brk h3..<brk h4} (w_heap x') a ?rq" using held_frame [OF q(3) ok5 ha5] by (simp add: a_def b_def)
  have "modifies {a, b} {} {} {} ?h2 (w_heap x')"
    by (rule modifies_trans [OF modifies_mono [OF h3(3)] modifies_trans [OF modifies_mono [OF h4(3)]
          modifies_trans [OF modifies_mono [OF h5(3)] modifies_mono [OF q(3)]]]]) auto
  then have set: "settled ?h2 a b (w_heap x')" unfolding settled_def
    by (intro conjI exI [of _ "{brk h3..<brk h4}"] exI [of _ "{brk h5..<brk (w_heap x')}"] exI [of _ ?rq] exI [of _ sp])
       (use ha q(2) h3(4) h5(4) br br5 in auto)
  have ask: "nss_ask dp fs (\<lambda>p. srvd_protocol_packet_field_append p ty sz (Some bs)) x =
      Some (\<lparr>q_packet = Some a\<rparr>, \<lparr>r_packet = Some b, r_status = status_of SRVD_SERVICE_RESPONSE_UNKNOWN sp\<rparr>, x')"
    using h3(1) h4(1) h5(1) q(1) by (simp add: nss_ask_def local_request_def local_response_def local_packet_def
        srvd_service_request_initialize_def srvd_service_response_initialize_def a_def b_def Let_def)
  show ?thesis by (rule that [OF ask _ _ held_rep [OF q(2)] m2 _ set q(4,5)]) (simp_all add: b_def)
qed

lemma nss_close_packets:
  "nss_close q r x = map_option (\<lambda>h. x\<lparr>w_heap := h\<rparr>) (close_packets q r (w_heap x))"
  by (auto simp: nss_close_def close_packets_def map_option_case split: option.splits Option.bind_splits)

lemma add_number:
  "(\<lambda>p. srvd_protocol_packet_field_append_uint32 p ty v) = (\<lambda>p. srvd_protocol_packet_field_append p ty 4 (Some (be32 v)))"
  by (intro ext) (simp add: srvd_protocol_packet_field_append_uint32_def)

section \<open>Lookups of any database\<close>

text \<open>What a lookup answers when the fields \<open>sp\<close> come back; first whether the server had an entry.\<close>

type_synonym 'e view = "spacket \<Rightarrow> 'e \<Rightarrow> byte list \<Rightarrow> nat \<Rightarrow> int \<Rightarrow> nss_status \<times> 'e \<times> byte list \<times> int"

definition nss_answer :: "'e view \<Rightarrow> spacket \<Rightarrow> 'e \<Rightarrow> byte list \<Rightarrow> nat \<Rightarrow> int \<Rightarrow> bool \<times> nss_status \<times> 'e \<times> byte list \<times> int" where
  "nss_answer view sp e buf n err = (case nss_failed (status_of SRVD_SERVICE_RESPONSE_UNKNOWN sp) err of
     Some (st, err) \<Rightarrow> (False, st, e, buf, err) | None \<Rightarrow> (True, view (tl sp) e buf n err))"

definition user_view :: "bool \<Rightarrow> passwd view" where
  "user_view g sp e buf n err = passwd_view g sp e buf 0 n err"

definition mail_view :: "aliasent view" where
  "mail_view sp ae buf n err = alias_view sp (ae\<lparr>alias_local := 0\<rparr>) buf 0 n err"

locale nss_fill =
  fixes fill :: "'e fill" and view :: "'e view"
  assumes fill_law: "\<lbrakk>packet_rep h p sp; r_packet r = Some p; fields_fit (tl sp); n \<le> length buf\<rbrakk> \<Longrightarrow>
    fill r e buf n err h = Some (view (tl sp) e buf n err)"
begin

lemma lookup_answers:
  assumes "heap_ok (w_heap x)" and "\<forall>k. \<not> oom (w_heap x) k" and "reaches dp fs x" and "answers_with x sp"
    and "payload_ok sz (Some bs)" and "fields_fit (tl sp)" and "n \<le> length buf"
  obtains x' where "nss_lookup fill dp fs (\<lambda>p. srvd_protocol_packet_field_append p ty sz (Some bs)) e buf n err x =
       Some (case nss_answer view sp e buf n err of (found, st, e, buf, err) \<Rightarrow> (found, st, e, buf, err, x'))"
    "modifies {} {} {} {} (w_heap x) (w_heap x')" "continues dp fs x x'"
    "sent (w_os x') (fd_brk (w_os x)) = outbox (peers (w_os x) (fd_brk (w_os x))) @ wire_packet [(ty, [take (unat sz) bs])]"
proof (rule nss_ask_spec [OF assms(1-5), of ty])
  fix h2 r x1
  let ?a = "brk (w_heap x)" and ?b = "Suc (brk (w_heap x))"
  assume ask: "nss_ask dp fs (\<lambda>p. srvd_protocol_packet_field_append p ty sz (Some bs)) x = Some (\<lparr>q_packet = Some ?a\<rparr>, r, x1)"
    and r: "r_packet r = Some ?b" "r_status r = status_of SRVD_SERVICE_RESPONSE_UNKNOWN sp" and rep: "packet_rep (w_heap x1) ?b sp"
    and m: "modifies {} {} {} {} (w_heap x) h2" "brk h2 = Suc ?b" and set: "settled h2 ?a ?b (w_heap x1)"
    and cl: "continues dp fs x x1"
    and out: "sent (w_os x1) (fd_brk (w_os x)) = outbox (peers (w_os x) (fd_brk (w_os x))) @ wire_packet [(ty, [take (unat sz) bs])]"
  obtain h' where h': "close_packets \<lparr>q_packet = Some ?a\<rparr> r (w_heap x1) = Some h'" "modifies {} {} {} {} (w_heap x) h'"
    by (rule turn_end [OF assms(1) m set r(1)])
  note fill = fill_law [OF rep r(1) assms(6,7), of e err]
  have close: "nss_close \<lparr>q_packet = Some ?a\<rparr> r x1 = Some (x1\<lparr>w_heap := h'\<rparr>)" using h'(1) by (simp add: nss_close_packets)
  have "nss_lookup fill dp fs (\<lambda>p. srvd_protocol_packet_field_append p ty sz (Some bs)) e buf n err x =
      Some (case nss_answer view sp e buf n err of (found, st, e, buf, err) \<Rightarrow> (found, st, e, buf, err, x1\<lparr>w_heap := h'\<rparr>))"
    using ask close fill r(2) by (auto simp: nss_lookup_def nss_answer_def split: option.splits prod.splits)
  then show ?thesis by (rule that) (use h'(2) cl out in simp_all)
qed

lemma by_number_answers:
  assumes "heap_ok (w_heap x)" and "\<forall>k. \<not> oom (w_heap x) k" and "reaches dp fs x" and "answers_with x sp"
    and "fields_fit (tl sp)" and "n \<le> length buf"
  obtains x' where "nss_by_number fill ty dp fs v e buf n err x =
       Some (case nss_answer view sp e buf n err of (found, st, e, buf, err) \<Rightarrow> (found, st, e, buf, err, x'))"
    "modifies {} {} {} {} (w_heap x) (w_heap x')" "continues dp fs x x'"
    "sent (w_os x') (fd_brk (w_os x)) = outbox (peers (w_os x) (fd_brk (w_os x))) @ wire_packet [(ty, [be32 v])]"
proof (rule lookup_answers [OF assms(1-4) word_payload(1) assms(5,6), of ty v e err])
  fix x'
  assume "nss_lookup fill dp fs (\<lambda>p. srvd_protocol_packet_field_append p ty 4 (Some (be32 v))) e buf n err x =
       Some (case nss_answer view sp e buf n err of (found, st, e, buf, err) \<Rightarrow> (found, st, e, buf, err, x'))"
    "modifies {} {} {} {} (w_heap x) (w_heap x')" "continues dp fs x x'"
    "sent (w_os x') (fd_brk (w_os x)) = outbox (peers (w_os x) (fd_brk (w_os x))) @ wire_packet [(ty, [take (unat (4::u16)) (be32 v)])]"
  then show ?thesis
    by (intro that [of x']) (simp_all add: nss_by_number_def add_number word_payload(2))
qed

text \<open>
  The enumeration asks for its offset, and moves on whenever the server had an entry, whether or not
  it fitted the caller's buffer.
\<close>

lemma getent_counts:
  assumes "heap_ok (w_heap x)" and "\<forall>k. \<not> oom (w_heap x) k" and "reaches dp fs x" and "answers_with x sp"
    and "fields_fit (tl sp)" and "n \<le> length buf" and "key_made t" and "key_data t = Some a" and "offsets t a = Some i"
    and "nss_answer view sp e buf n err = (found, st, e', buf', err')"
  obtains x' where "nss_getent fill ty dp fs e buf n err t x =
      Some (st, e', buf', err', if found then t\<lparr>offsets := (offsets t)(a \<mapsto> i + 1)\<rparr> else t, x')"
    "modifies {} {} {} {} (w_heap x) (w_heap x')" "continues dp fs x x'"
    "sent (w_os x') (fd_brk (w_os x)) = outbox (peers (w_os x) (fd_brk (w_os x))) @ wire_packet [(ty, [be32 i])]"
  by (rule by_number_answers [OF assms(1-6), of ty i e err])
     (use assms(7-10) that in \<open>auto simp: nss_getent_def ent_begin_def ent_once_def Let_def\<close>)

end

interpretation pw: nss_fill "srvd_nss_passwd_populate g" "user_view g" for g
  by unfold_locales (simp add: passwd_populate_view user_view_def)

interpretation al: nss_fill srvd_nss_aliases_populate mail_view
  by unfold_locales (simp add: aliases_populate_view mail_view_def)

section \<open>Names that are too short\<close>

lemma append_short_data:
  assumes ok: "heap_ok h" and at: "packet_at Unlocked h p []" and mem: "\<forall>k. \<not> oom h k"
    and short: "length bs < unat sz"
  shows "srvd_protocol_packet_field_append (Some p) ty sz (Some bs) h = None"
proof -
  from at obtain k where k: "pkts h p = Some (Some k)" "field_lock k = Unlocked" "field_head k = None" by (auto simp: packet_at_def)
  let ?h1 = "h\<lparr>pkts := (pkts h)(p \<mapsto> Some (k\<lparr>field_lock := Locked\<rparr>))\<rparr>"
  have lock: "with_field_lock lock_mutex (Some p) h = Some ?h1"
    using k by (simp add: with_field_lock_def lock_mutex_def mem_simps)
  have find: "field_find_type None ty h' = Some None" for h' by (subst field_find_type.simps) simp
  have "sz \<noteq> 0" "0 < sz" using short by (metis not_less_zero unat_0, metis not_less_zero unat_0 word_gt_0)
  then have "field_create srvd_protocol_packet_field_add_locked (Some p) ty sz (Some bs) ?h1 = None"
    using k find mem short
    by (simp add: field_create_def srvd_protocol_packet_field_get_by_type_def srvd_protocol_packet_field_allocate_def
      malloc_field_def malloc_entry_def malloc_block_def srvd_protocol_packet_field_initialize_def memcpy_bytes_def rd_buf_def
      srvd_protocol_packet_field_entry_add_def entry_create_def mem_simps Let_def)
  with lock show ?thesis by (simp add: srvd_protocol_packet_field_append_def)
qed

lemma by_name_short:
  assumes ok: "heap_ok (w_heap x)" and mem: "\<forall>k. \<not> oom (w_heap x) k" and short: "length name < unat (of_nat (lnm + 1) :: u16)"
  shows "nss_by_name fill ty lnm dp fs (Some name) e buf n err x = None"
proof -
  let ?h = "w_heap x" and ?a = "brk (w_heap x)" and ?b = "Suc (brk (w_heap x))"
  let ?h2 = "?h\<lparr>brk := Suc ?b, pkts := (pkts ?h)(?a \<mapsto> None, ?b \<mapsto> None)\<rparr>"
  have ok2: "heap_ok ?h2" using ok by (auto simp: heap_ok_def)
  obtain h3 where h3: "srvd_protocol_packet_initialize (Some ?a) ?h2 = Some (True, h3)" "packet_at Unlocked h3 ?a []"
    "modifies {?a} {} {} {} ?h2 h3"
    by (rule packet_initialize_spec [OF ok2, of ?a None]) simp_all
  have ok3: "heap_ok h3" and mem3: "\<forall>k. \<not> oom h3 k" using modifies_heap_ok [OF h3(3)] h3(3) mem by (auto simp: modifies_def)
  have "nss_ask dp fs (\<lambda>p. srvd_protocol_packet_field_append p ty (of_nat (lnm + 1)) (Some name)) x = None"
    using h3(1) append_short_data [OF ok3 h3(2) mem3 short]
    by (simp add: nss_ask_def local_request_def local_response_def local_packet_def srvd_service_request_initialize_def Let_def)
  then show ?thesis by (simp add: nss_by_name_def nss_lookup_def)
qed

end
