(* ===== verification/Alias_Record.thy ===== *)
theory Alias_Record
  imports Alias_Refine Passwd_Record
begin

text \<open>
  What the caller gets in \<open>struct aliasent\<close>: the name and every member of the list, in order, as
  strings in the used part of the buffer.
\<close>

text \<open>The text of a string entry: up to its first NUL, without its last byte.\<close>

definition entry_text :: "byte list \<Rightarrow> byte list" where
  "entry_text bs = take (length bs - 1) (cstr bs)"

lemma entry_text_string [simp]: "0 \<notin> set s \<Longrightarrow> entry_text (s @ [0]) = s"
  by (simp add: entry_text_def cstr_append_NUL)

definition reads :: "byte list \<Rightarrow> nat \<Rightarrow> nat option \<Rightarrow> byte list \<Rightarrow> bool" where
  "reads buf bi p s \<longleftrightarrow> (\<exists>k. p = Some k \<and> leads_to buf bi k \<and> cstr (drop k (take bi buf)) = s)"

lemma cstr_more: "0 \<in> set xs \<Longrightarrow> cstr (xs @ ys) = cstr xs"
  by (induction xs) auto

lemma reads_mono:
  assumes "reads buf bi p s" and "take bi buf' = take bi buf" and "bi \<le> bi'"
  shows "reads buf' bi' p s"
proof -
  from assms(1) obtain k where k: "p = Some k" "leads_to buf bi k" "cstr (drop k (take bi buf)) = s" by (auto simp: reads_def)
  have "take bi' buf' = take bi buf @ take (bi' - bi) (drop bi buf')"
    using assms(2,3) by (metis append_take_drop_id le_add_diff_inverse take_add)
  moreover have "k \<le> length (take bi buf)"
    using k(2) by (metis drop_all empty_iff leads_to_def list.set(1) nat_le_linear)
  ultimately have "drop k (take bi' buf') = drop k (take bi buf) @ take (bi' - bi) (drop bi buf')" by simp
  then have "cstr (drop k (take bi' buf')) = s" using k(2,3) cstr_more by (simp add: leads_to_def)
  then show ?thesis using leads_to_mono [OF k(2) assms(2,3)] k(1) by (auto simp: reads_def)
qed

lemma written_reads:
  assumes "bs \<noteq> []" and "bi + length bs \<le> length buf"
  shows "reads (write_at buf bi (terminated bs)) (bi + length bs) (Some bi) (entry_text bs)"
proof -
  note t = terminated_props [OF assms(1)]
  have "drop bi (take (bi + length bs) (write_at buf bi (terminated bs))) = terminated bs"
    using assms(2) t(2) by (simp add: write_at_def)
  then show ?thesis using t assms(1) by (simp add: reads_def leads_to_def entry_text_def)
qed

text \<open>Copying goes forward only: what was written before \<open>bi\<close> stays, and nothing after \<open>n\<close> changes.\<close>

definition forward :: "nat \<Rightarrow> byte list \<Rightarrow> nat \<Rightarrow> byte list \<Rightarrow> nat \<Rightarrow> bool" where
  "forward n buf bi buf' bi' \<longleftrightarrow> bi \<le> bi' \<and> bi' \<le> n \<and> length buf' = length buf \<and> take bi buf' = take bi buf \<and> drop n buf' = drop n buf"

lemma forward_trans: "forward n b i b1 i1 \<Longrightarrow> forward n b1 i1 b2 i2 \<Longrightarrow> forward n b i b2 i2"
  by (auto simp: forward_def) (metis min.absorb_iff1 take_take)

lemma forward_refl: "bi \<le> n \<Longrightarrow> forward n buf bi buf bi"
  by (simp add: forward_def)

lemma forward_reads: "reads buf bi p s \<Longrightarrow> forward n buf bi buf' bi' \<Longrightarrow> reads buf' bi' p s"
  by (auto simp: forward_def intro: reads_mono)

lemma forward_write: "bi + length ds \<le> n \<Longrightarrow> n \<le> length buf \<Longrightarrow> forward n buf bi (write_at buf bi ds) (bi + length ds)"
  by (simp add: forward_def length_write_at drop_write_at) (simp add: write_at_def)

lemma forward_string:
  "bs \<noteq> [] \<Longrightarrow> bi + length bs \<le> n \<Longrightarrow> n \<le> length buf \<Longrightarrow> forward n buf bi (write_at buf bi (terminated bs)) (bi + length bs)"
  using forward_write [of bi "terminated bs" n buf] terminated_props(2) by simp

text \<open>The members that fit are all copied, and read as their texts.\<close>

lemma view_members_reads:
  assumes "bi + sum_list (map length es) \<le> n" and "n \<le> length buf" and "[] \<notin> set es"
    and "alias_members ae = Some (at, ps)" and "length ps = i + length es"
    and "list_all2 (reads buf bi) (take i ps) ts"
  shows "\<exists>ps' buf' bi'. view_members es i ae buf bi n = (None, ae\<lparr>alias_members := Some (at, ps')\<rparr>, buf', bi') \<and>
     forward n buf bi buf' bi' \<and> bi' = bi + sum_list (map length es) \<and> list_all2 (reads buf' bi') ps' (ts @ map entry_text es)"
  using assms
proof (induction es arbitrary: i ae ps buf bi ts)
  case Nil
  then show ?case by (cases ae) (auto intro!: exI [of _ ps] forward_refl)
next
  case (Cons bs es)
  let ?b = "write_at buf bi (terminated bs)" and ?i = "bi + length bs" and ?ps = "ps[i := Some bi]"
  have bs: "bs \<noteq> []" "bi + length bs \<le> n" using Cons.prems(1,3) by auto
  note fw = forward_string [OF bs Cons.prems(2)]
  have ae: "alias_members (put_member i bi ae) = Some (at, ?ps)"
    "(put_member i bi ae)\<lparr>alias_members := Some (at, q)\<rparr> = ae\<lparr>alias_members := Some (at, q)\<rparr>" for q
    using Cons.prems(4) by (simp_all add: put_member_def)
  have "take (Suc i) ?ps = take i ps @ [Some bi]" using Cons.prems(5) by (simp add: take_Suc_conv_app_nth)
  moreover have "list_all2 (reads ?b ?i) (take i ps) ts"
    by (rule list_all2_mono [OF Cons.prems(6)]) (rule forward_reads [OF _ fw])
  ultimately have all: "list_all2 (reads ?b ?i) (take (Suc i) ?ps) (ts @ [entry_text bs])"
    using written_reads [OF bs(1), of bi buf] bs(2) Cons.prems(2) by (simp add: list_all2_appendI)
  have prem: "?i + sum_list (map length es) \<le> n" "n \<le> length ?b" "[] \<notin> set es" "length ?ps = Suc i + length es"
    using Cons.prems fw by (simp_all add: forward_def)
  from Cons.IH [OF prem(1-3) ae(1) prem(4) all] obtain ps' buf' bi' where
    "view_members es (Suc i) (put_member i bi ae) ?b ?i n = (None, ae\<lparr>alias_members := Some (at, ps')\<rparr>, buf', bi')"
    "forward n ?b ?i buf' bi'" "bi' = ?i + sum_list (map length es)"
    "list_all2 (reads buf' bi') ps' ((ts @ [entry_text bs]) @ map entry_text es)" unfolding ae(2) by blast
  then show ?case using bs(2) forward_trans [OF fw] by (intro exI [of _ ps'] exI [of _ buf'] exI [of _ bi']) simp
qed

text \<open>A whole response of the aliases service, with the NUL of each string.\<close>

definition alias_packet :: "byte list \<Rightarrow> byte list list \<Rightarrow> u8 \<Rightarrow> spacket" where
  "alias_packet nm ms loc =
     [(SRVD_SERVICE_NSS_ALIASES_RESPONSE_NAME, [nm @ [0]]),
      (SRVD_SERVICE_NSS_ALIASES_RESPONSE_MEMBERS, map (\<lambda>m. m @ [0]) ms),
      (SRVD_SERVICE_NSS_ALIASES_RESPONSE_LOCAL, [[loc]])]"

lemma alias_packet_fits: "length ms < 65536 \<Longrightarrow> fields_fit (alias_packet nm ms loc)"
  by (auto simp: alias_packet_def)

lemma set_low_byte_zero: "set_low_byte b 0 = ucast b"
  by (simp add: set_low_byte_def)

lemma alias_view_packet:
  assumes nm: "0 \<notin> set nm" and ms: "\<forall>m \<in> set ms. 0 \<notin> set m"
    and fit: "length nm + 1 + length ms * POINTER_SIZE + sum_list (map (\<lambda>m. length m + 1) ms) \<le> n" "n \<le> length buf"
    and zero: "alias_local ae = 0"
  shows "\<exists>ps buf'. alias_view (alias_packet nm ms loc) ae buf 0 n err =
       (NSS_STATUS_SUCCESS, ae\<lparr>alias_name := Some 0, alias_members_len := length ms,
          alias_members := Some (length nm + 1, ps), alias_local := ucast loc\<rparr>, buf', err) \<and>
     reads buf' n (Some 0) nm \<and> list_all2 (reads buf' n) ps ms \<and> length buf' = length buf \<and> drop n buf' = drop n buf"
proof -
  let ?b1 = "write_at buf 0 (terminated (nm @ [0]))" and ?i1 = "length nm + 1" and ?k = "length ms * POINTER_SIZE"
  let ?b2 = "write_at ?b1 ?i1 (replicate ?k 0)" and ?es = "map (\<lambda>m. m @ [0]) ms"
  let ?ae = "ae\<lparr>alias_name := Some 0, alias_members_len := length ms, alias_members := Some (?i1, replicate (length ms) None)\<rparr>"
  have ne: "nm @ [0] \<noteq> []" "[] \<notin> set ?es" by auto
  have f1: "forward n buf 0 ?b1 ?i1" using forward_string [OF ne(1), of 0 n buf] fit by simp
  have r1: "reads ?b1 ?i1 (Some 0) nm" using written_reads [OF ne(1), of 0 buf] fit nm by simp
  have l1: "length ?b1 = length buf" using f1 by (simp add: forward_def)
  have f2: "forward n ?b1 ?i1 ?b2 (?i1 + ?k)"
    using forward_write [of ?i1 "replicate ?k 0" n ?b1] fit l1 by simp
  have l2: "length ?b2 = length buf" using f2 l1 by (simp add: forward_def)
  have sum: "sum_list (map length ?es) = sum_list (map (\<lambda>m. length m + 1) ms)" by (simp add: comp_def)
  have s1: "?i1 + ?k + sum_list (map length ?es) \<le> n" and s2: "n \<le> length ?b2" using fit sum l2 by simp_all
  obtain ps buf' bi' where v: "view_members ?es 0 ?ae ?b2 (?i1 + ?k) n = (None, ?ae\<lparr>alias_members := Some (?i1, ps)\<rparr>, buf', bi')"
    "forward n ?b2 (?i1 + ?k) buf' bi'" "list_all2 (reads buf' bi') ps ([] @ map entry_text ?es)"
    using view_members_reads [OF s1 s2 ne(2), of ?ae ?i1 "replicate (length ms) None" 0 "[]"] by auto
  have texts: "map entry_text ?es = ms" using ms by (simp add: map_idI)
  have f3: "forward n buf' bi' buf' n" using v(2) by (simp add: forward_def)
  note f = forward_trans [OF f2 forward_trans [OF v(2) f3]]
  have "list_all2 (reads buf' n) ps ms"
    by (rule list_all2_mono [OF v(3) [unfolded texts append_Nil]]) (rule forward_reads [OF _ f3])
  moreover have "reads buf' n (Some 0) nm" by (rule forward_reads [OF r1 f])
  moreover have "length buf' = length buf" "drop n buf' = drop n buf" using forward_trans [OF f1 f] by (simp_all add: forward_def)
  moreover have "view_string [nm @ [0]] buf 0 n = Inr (0, ?b1, ?i1)" using fit by (simp add: view_string_def)
  moreover have "view_list ?es (ae\<lparr>alias_name := Some 0\<rparr>) ?b1 ?i1 n = (None, ?ae\<lparr>alias_members := Some (?i1, ps)\<rparr>, buf', bi')"
    using v(1) fit by (simp add: view_list_def Let_def)
  ultimately show ?thesis using zero
    by (intro exI [of _ ps] exI [of _ buf']) (simp add: alias_packet_def alias_view_field_def nss_types set_low_byte_zero)
qed

end
