(* ===== verification/Request_Refine.thy ===== *)
theory Request_Refine
  imports Nss_Refine Packet_Held
begin

text \<open>
  The getters of the name services: what a server reads from a request it has received. The first
  field must be of the asked type and have one entry, which is the number, or the name with its last
  byte made NUL; otherwise the getter answers \<open>SRVD_FALSE\<close> and the caller's variable is untouched.
\<close>

lemma request_first:
  assumes "packet_rep h a ((ty', es) # sp)" and "length sp < 65535" and "q_packet q = Some a"
  obtains x where "request_has_fields q h = Some True"
    "request_entry ty q h = Some (if ty' = ty \<and> length es mod 65536 = 1 then (True, Some x) else (False, None))"
    "length es mod 65536 = 1 \<Longrightarrow> \<exists>e. x = e_addr e \<and> entry_ok h e \<and> e_bytes e = hd es"
proof -
  from assms(1) obtain t T where T: "packet_at Unlocked h a (t # T)" "abs_field t = (ty', es)" "abs_packet T = sp"
    by (auto simp: packet_rep_def abs_packet_def map_eq_Cons_conv)
  obtain k where k: "pkts h a = Some (Some k)" "field_count k = of_nat (length (t # T))" using T(1) by (auto simp: packet_at_def)
  have "length (t # T) < 65536" "0 < length (t # T)" using T(3) assms(2) by (auto simp: abs_packet_def)
  then have "field_count k > 0" using k(2) unat_of_nat_16 [of "length (t # T)"] by (metis unat_0 word_gt_0 less_numeral_extra(3))
  then have has: "request_has_fields q h = Some True" using k(1) assms(3) by (simp add: request_has_fields_def mem_simps)
  have fo: "field_ok h t" using T(1) by (simp add: packet_at_def)
  then obtain f where f: "flds h (f_addr t) = Some (Some f)" "f_type f = f_ty t" "entry_count f = of_nat (length (f_ents t))"
    by (auto simp: field_ok_def)
  have t: "f_ty t = ty'" "map e_bytes (f_ents t) = es" using T(2) by (auto simp: abs_field_def)
  have "length (f_ents t) = length es" using t(2) by auto
  then have one: "entry_count f = 1 \<longleftrightarrow> length es mod 65536 = 1"
    using f(3) by (simp add: word_unat_eq_iff unat_of_nat)
  note first = get_first_spec [OF T(1)] entry_get_first_of [OF fo]
  have entry: "request_entry ty q h = Some (if ty' = ty \<and> length es mod 65536 = 1 then (True, Some (e_addr (hd (f_ents t)))) else (False, None))"
  proof (cases "ty' = ty \<and> length es mod 65536 = 1")
    case True
    then have "f_ents t \<noteq> []" using t(2) by auto
    then show ?thesis using True first f t(1) one assms(3) by (simp add: request_entry_def mem_simps)
  next
    case False
    then show ?thesis using first f t(1) one assms(3) by (auto simp: request_entry_def mem_simps)
  qed
  have "\<exists>e. e_addr (hd (f_ents t)) = e_addr e \<and> entry_ok h e \<and> e_bytes e = hd es" if "length es mod 65536 = 1"
    using that t(2) fo by (cases "f_ents t") (auto simp: field_ok_def intro!: exI [of _ "hd (f_ents t)"])
  with has entry show ?thesis by (rule that)
qed

lemma request_uint32_spec:
  assumes "packet_rep h a ((ty', es) # sp)" and "length sp < 65535" and "q_packet q = Some a"
  shows "request_uint32 ty (Some q) (Some v) h =
     Some (if ty' = ty \<and> length es mod 65536 = 1 \<and> length (hd es) = 4 then (True, Some (of_be32 (hd es))) else (False, Some v))"
proof (rule request_first [OF assms, of ty])
  fix x
  assume r: "request_has_fields q h = Some True"
    "request_entry ty q h = Some (if ty' = ty \<and> length es mod 65536 = 1 then (True, Some x) else (False, None))"
    and e: "length es mod 65536 = 1 \<Longrightarrow> \<exists>e. x = e_addr e \<and> entry_ok h e \<and> e_bytes e = hd es"
  show ?thesis
  proof (cases "ty' = ty \<and> length es mod 65536 = 1")
    case True
    with e obtain y where "x = e_addr y" "entry_ok h y" "e_bytes y = hd es" by blast
    with entry_get_uint32_spec [of h y v] r True show ?thesis by (simp add: request_uint32_def)
  next
    case False
    with r show ?thesis by (auto simp: request_uint32_def)
  qed
qed

lemma request_name_spec:
  assumes "packet_rep h a ((ty', es) # sp)" and "length sp < 65535" and "q_packet q = Some a"
    and ok: "heap_ok h" and mem: "\<not> oom h (brk h)" and ne: "[] \<notin> set es"
  shows "request_name ty (Some q) (Some None) h =
     Some (if ty' = ty \<and> length es mod 65536 = 1
       then (True, Some (Some (brk h)), set_blk (brk h) (terminated (hd es)) (h\<lparr>brk := Suc (brk h)\<rparr>)) else (False, Some None, h))"
proof (rule request_first [OF assms(1-3), of ty])
  fix x
  assume r: "request_has_fields q h = Some True"
    "request_entry ty q h = Some (if ty' = ty \<and> length es mod 65536 = 1 then (True, Some x) else (False, None))"
    and e: "length es mod 65536 = 1 \<Longrightarrow> \<exists>e. x = e_addr e \<and> entry_ok h e \<and> e_bytes e = hd es"
  show ?thesis
  proof (cases "ty' = ty \<and> length es mod 65536 = 1")
    case True
    with e obtain y where y: "x = e_addr y" "entry_ok h y" "e_bytes y = hd es" by blast
    have bs: "hd es \<noteq> []" using True ne by (cases es) auto
    from y bs obtain n b where n: "ents h x = Some (Some n)" "e_data n = Some b" "blks h b = Some (hd es)"
      "e_size n = of_nat (length (hd es))" "length (hd es) < 65536" by (auto simp: entry_ok_def split: option.splits)
    have "unat (e_size n) = length (hd es)" using n(4,5) by (simp add: unat_of_nat)
    moreover have "b < brk h" using ok n(3) by (metis heap_ok_def not_less option.distinct(1))
    moreover note terminated_props(1,2) [OF bs]
    moreover have "wr_buf (replicate (length (hd es)) 0) 0 (terminated (hd es)) = Some (terminated (hd es))"
      using terminated_props(2) [OF bs] by (simp add: wr_buf_def)
    ultimately show ?thesis using r True n(1-3) mem
      by (simp add: request_name_def malloc_block_def entry_string_def wr_block_def set_blk_def mem_simps Let_def)
  next
    case False
    with r show ?thesis by (auto simp: request_name_def)
  qed
qed

end
