(* ===== verification/Nss_Properties.thy ===== *)
theory Nss_Properties
  imports Nss_Client Alias_Record Request_Refine Client_Properties
begin

text \<open>
  The properties of the name services, each with its use in the small world of the client.
\<close>

section \<open>Packets and worlds for their use\<close>

abbreviation fresh_pwd :: passwd where
  "fresh_pwd \<equiv> \<lparr>pw_name = None, pw_uid = 0, pw_gid = 0, pw_dir = None, pw_shell = None, pw_gecos = None\<rparr>"

abbreviation fresh_alias :: aliasent where
  "fresh_alias \<equiv> \<lparr>alias_name = None, alias_members_len = 0, alias_members = None, alias_local = 0\<rparr>"

lemma demo_answering: "answering demo_empty demo_empty 0 []"
  by (rule answering_start) (use demo_empty_at in \<open>auto simp: packet_rep_def abs_packet_def intro!: exI [of _ "[]"]\<close>)

text \<open>Every packet can be built from the empty one, field by field.\<close>

lemma demo_packet_of:
  assumes "distinct (map fst sp)" and "\<forall>f \<in> set sp. \<exists>bs. snd f = [bs] \<and> bs \<noteq> [] \<and> length bs < 65536"
  shows "\<exists>h. answering demo_empty h 0 sp"
  using assms
proof (induction sp rule: rev_induct)
  case Nil
  then show ?case using demo_answering by blast
next
  case (snoc f sp)
  then obtain h where h: "answering demo_empty h 0 sp" by auto
  from snoc.prems(2) obtain bs where bs: "snd f = [bs]" "bs \<noteq> []" "length bs < 65536" by auto
  then have u: "unat (of_nat (length bs) :: u16) = length bs" by (simp add: unat_of_nat)
  then have "(of_nat (length bs) :: u16) \<noteq> 0" using bs(2) by (metis length_0_conv unat_0)
  then have pay: "payload_ok (of_nat (length bs)) (Some bs)" using u by simp
  have "fst f \<notin> fst ` set sp" using snoc.prems(1) by simp
  from answering_append [OF h this pay] obtain h' where
    "answering demo_empty h' 0 (sp @ [(fst f, [take (unat (of_nat (length bs) :: u16)) bs])])" by blast
  then show ?case using u bs(1) by (metis order_refl surjective_pairing take_all)
qed

lemma answering_rep: "answering h0 h p sp \<Longrightarrow> packet_rep h p sp"
  by (auto simp: answering_def held_rep)

section \<open>Requests\<close>

text \<open>C35. A server reads from the request for a user what the client asked for: of the getters for
  name, number and offset exactly the one of the request's type answers. The numbers are those that
  were sent, if they have four bytes; the name is a new string with the text of the entry, up to
  its first NUL and without its last byte, so a name that was sent with its NUL is whole and one that
  was sent without loses a byte. The others
  answer \<open>SRVD_FALSE\<close> and leave memory and the caller's variable alone.\<close>

theorem passwd_request_read_back:
  assumes "heap_ok h" and "\<not> oom h (brk h)" and "packet_rep h a [(ty, [bs])]" and "bs \<noteq> []" and "q_packet q = Some a"
  shows "srvd_service_nss_passwd_request_uid_get (Some q) (Some v) h =
       Some (if ty = SRVD_SERVICE_NSS_PASSWD_REQUEST_UID \<and> length bs = 4 then (True, Some (of_be32 bs)) else (False, Some v)) \<and>
     srvd_service_nss_passwd_request_entities_get (Some q) (Some v) h =
       Some (if ty = SRVD_SERVICE_NSS_PASSWD_REQUEST_ENTITIES \<and> length bs = 4 then (True, Some (of_be32 bs)) else (False, Some v)) \<and>
     (\<exists>r p h'. srvd_service_nss_passwd_request_name_get (Some q) (Some None) h = Some (r, Some p, h') \<and>
        (r \<longleftrightarrow> ty = SRVD_SERVICE_NSS_PASSWD_REQUEST_NAME) \<and>
        (if r then \<exists>b ds. p = Some b \<and> blks h b = None \<and> blks h' = (blks h)(b \<mapsto> ds) \<and> 0 \<in> set ds \<and>
           cstr ds = take (length bs - 1) (cstr bs) else p = None \<and> h' = h))"
proof (intro conjI)
  have l: "length [] < (65535 :: nat)" by simp
  note num = request_uint32_spec [OF assms(3) l assms(5), of _ v]
  show "srvd_service_nss_passwd_request_uid_get (Some q) (Some v) h =
       Some (if ty = SRVD_SERVICE_NSS_PASSWD_REQUEST_UID \<and> length bs = 4 then (True, Some (of_be32 bs)) else (False, Some v))"
    by (simp add: srvd_service_nss_passwd_request_uid_get_def num)
  show "srvd_service_nss_passwd_request_entities_get (Some q) (Some v) h =
       Some (if ty = SRVD_SERVICE_NSS_PASSWD_REQUEST_ENTITIES \<and> length bs = 4 then (True, Some (of_be32 bs)) else (False, Some v))"
    by (simp add: srvd_service_nss_passwd_request_entities_get_def num)
  have "blks h (brk h) = None" using assms(1) by (simp add: heap_ok_def)
  then show "\<exists>r p h'. srvd_service_nss_passwd_request_name_get (Some q) (Some None) h = Some (r, Some p, h') \<and>
        (r \<longleftrightarrow> ty = SRVD_SERVICE_NSS_PASSWD_REQUEST_NAME) \<and>
        (if r then \<exists>b ds. p = Some b \<and> blks h b = None \<and> blks h' = (blks h)(b \<mapsto> ds) \<and> 0 \<in> set ds \<and>
           cstr ds = take (length bs - 1) (cstr bs) else p = None \<and> h' = h)"
    using request_name_spec [OF assms(3) l assms(5,1,2), of SRVD_SERVICE_NSS_PASSWD_REQUEST_NAME] terminated_props [OF assms(4)] assms(4)
    by (auto simp: srvd_service_nss_passwd_request_name_get_def set_blk_def)
qed

theorem passwd_request_read_back_witness:
  "srvd_service_nss_passwd_request_uid_get (Some \<lparr>q_packet = Some 0\<rparr>) (Some 9) demo_full = Some (False, Some 9) \<and>
   (\<exists>b ds h'. srvd_service_nss_passwd_request_name_get (Some \<lparr>q_packet = Some 0\<rparr>) (Some None) demo_full = Some (True, Some (Some b), h') \<and>
     blks h' = (blks demo_full)(b \<mapsto> ds) \<and> cstr ds = [104])"
proof -
  let ?q = "\<lparr>q_packet = Some 0\<rparr>"
  have o: "\<not> oom demo_full (brk demo_full)" and ne: "[104, 105] \<noteq> ([] :: byte list)" and q: "q_packet ?q = Some 0" by simp_all
  note w = passwd_request_read_back [OF demo_heap_ok(2) o demo_full_rep ne q, of 9]
  from w obtain r p h' where r: "srvd_service_nss_passwd_request_name_get (Some ?q) (Some None) demo_full = Some (r, Some p, h')"
    "r \<longleftrightarrow> 701 = SRVD_SERVICE_NSS_PASSWD_REQUEST_NAME"
    "if r then \<exists>b ds. p = Some b \<and> blks demo_full b = None \<and> blks h' = (blks demo_full)(b \<mapsto> ds) \<and> 0 \<in> set ds \<and>
       cstr ds = take (length [104, 105 :: byte] - 1) (cstr [104, 105]) else p = None \<and> h' = demo_full" by blast
  then have r1: "r" by (simp add: nss_types)
  then obtain b ds where "p = Some b" "blks h' = (blks demo_full)(b \<mapsto> ds)" "cstr ds = [104]" using r(3) by auto
  with r(1) r1 have "\<exists>b ds h'. srvd_service_nss_passwd_request_name_get (Some ?q) (Some None) demo_full = Some (True, Some (Some b), h') \<and>
     blks h' = (blks demo_full)(b \<mapsto> ds) \<and> cstr ds = [104]"
    by (intro exI [of _ b] exI [of _ ds] exI [of _ h']) simp
  moreover have "srvd_service_nss_passwd_request_uid_get (Some ?q) (Some 9) demo_full = Some (False, Some 9)"
    using w by (simp add: nss_types)
  ultimately show ?thesis by blast
qed

section \<open>The caller's struct\<close>

text \<open>C36. Whatever types, numbers and orders of fields a response has, as long as no entry after its
  status field is empty and no such field has more than 65535 entries: filling \<open>struct passwd\<close> from it
  returns, writes only to the \<open>bufsize\<close> bytes it was given, and leaves in every pointer member that it
  sets a string that ends within them; this holds on the error returns, too. Empty entries, for
  which \<open>nss/passwd.c:41\<close> can put the NUL in front of the buffer, are excluded by a hypothesis (by
  \<open>receive_received\<close> in \<open>Server_Refine\<close> no packet that the parser accepts has one).\<close>

theorem passwd_struct_well_formed:
  assumes "packet_rep h p sp" and "r_packet r = Some p" and "fields_fit (tl sp)" and "n \<le> length buf"
    and "passwd_ok buf 0 pwd"
  shows "\<exists>st pwd' buf' err'. srvd_nss_passwd_populate g r pwd buf n err h = Some (st, pwd', buf', err') \<and>
     passwd_ok buf' n pwd' \<and> length buf' = length buf \<and> drop n buf' = drop n buf"
proof -
  obtain st pwd' buf' err' where v: "passwd_view g (tl sp) pwd buf 0 n err = (st, pwd', buf', err')"
    by (cases "passwd_view g (tl sp) pwd buf 0 n err")
  from passwd_populate_view [OF assms(1-4), of g pwd err] passwd_view_ok [OF v assms(3-5)] v show ?thesis by simp
qed

theorem passwd_struct_well_formed_witness:
  "\<exists>h st pwd' buf' err'. srvd_nss_passwd_populate False \<lparr>r_packet = Some 0, r_status = 0\<rparr> fresh_pwd (replicate 9 7) 6 0 h =
       Some (st, pwd', buf', err') \<and> passwd_ok buf' 6 pwd' \<and> length buf' = length (replicate 9 (7 :: byte)) \<and>
     drop 6 buf' = drop 6 (replicate 9 7)"
proof -
  let ?sp = "[(1, [[0]]), (SRVD_SERVICE_NSS_PASSWD_RESPONSE_NAME, [[97, 98, 0]]), (SRVD_SERVICE_NSS_PASSWD_RESPONSE_DIR, [[47, 97, 98, 0]])]"
  obtain h where "answering demo_empty h 0 ?sp" using demo_packet_of [of ?sp] by (auto simp: nss_types)
  then have rep: "packet_rep h 0 ?sp" by (rule answering_rep)
  have fit: "fields_fit (tl ?sp)" by simp
  have start: "passwd_ok (replicate 9 7) 0 fresh_pwd" by (simp add: passwd_ok_def)
  have "\<exists>st pwd' buf' err'. srvd_nss_passwd_populate False \<lparr>r_packet = Some 0, r_status = 0\<rparr> fresh_pwd (replicate 9 7) 6 0 h =
       Some (st, pwd', buf', err') \<and> passwd_ok buf' 6 pwd' \<and> length buf' = length (replicate 9 (7 :: byte)) \<and>
     drop 6 buf' = drop 6 (replicate 9 7)"
    by (rule passwd_struct_well_formed [OF rep _ fit _ start]) simp_all
  then show ?thesis by blast
qed

text \<open>C37. A record of a user goes through the whole library: the six setters of the service make a
  packet of it when memory does not run out; the bytes of this packet with a status in front mean
  that packet; and filling \<open>struct passwd\<close> from such a packet, with a buffer for the strings and their
  NULs, gives back the same strings and numbers.\<close>

theorem passwd_record_round_trip:
  assumes "heap_ok h" and "\<forall>k. \<not> oom h k" and "packet_at Unlocked h p []" and "r_packet r = Some p"
    and "string_ok nm" and "string_ok dir" and "string_ok shell" and "string_ok gecos"
    and "packet_rep hc pc (with_status st (passwd_packet nm uid gid dir shell gecos))" and "r_packet rc = Some pc"
    and "length nm + length dir + length shell + length gecos + 4 \<le> n" and "n \<le> length buf"
  shows "(\<exists>h'. set_passwd r nm uid gid dir shell gecos h = Some ([True, True, True, True, True, True], h') \<and>
       packet_rep h' p (passwd_packet nm uid gid dir shell gecos)) \<and>
     receive (wire_packet (with_status st (passwd_packet nm uid gid dir shell gecos))) =
       Parsed (with_status st (passwd_packet nm uid gid dir shell gecos)) \<and>
     (\<exists>pwd' buf'. srvd_nss_passwd_populate True rc pwd buf n err hc = Some (NSS_STATUS_SUCCESS, pwd', buf', err) \<and>
       pw_uid pwd' = uid \<and> pw_gid pwd' = gid \<and> string_at buf' (pw_name pwd') = Some nm \<and>
       string_at buf' (pw_dir pwd') = Some dir \<and> string_at buf' (pw_shell pwd') = Some shell \<and>
       string_at buf' (pw_gecos pwd') = Some gecos)"
proof (intro conjI)
  let ?sp = "passwd_packet nm uid gid dir shell gecos"
  have ans: "answering h h p []"
    by (rule answering_start [OF assms(1,2)]) (use assms(3) in \<open>auto simp: packet_rep_def abs_packet_def intro!: exI [of _ "[]"]\<close>)
  show "\<exists>h'. set_passwd r nm uid gid dir shell gecos h = Some ([True, True, True, True, True, True], h') \<and> packet_rep h' p ?sp"
    by (rule set_passwd_spec [OF ans assms(4-8)]) (auto dest: answering_rep)
  have ws: "with_status st ?sp = status_field st # ?sp" by (simp add: with_status_def passwd_packet_def nss_types service_codes)
  have "travels (with_status st ?sp)" unfolding ws using assms(5-8)
    by (simp add: travels_def status_field_def passwd_packet_def nss_types service_codes counts_fit_def entries_fit_def
        length_wire_field string_ok_def be16_def be32_def)
  from receive_wire [OF this, of "[]"] show "receive (wire_packet (with_status st ?sp)) = Parsed (with_status st ?sp)" by simp
  have nul: "0 \<notin> set nm" "0 \<notin> set dir" "0 \<notin> set shell" "0 \<notin> set gecos" using assms(5-8) by (simp_all add: string_ok_def)
  have "fields_fit (tl (with_status st ?sp))" unfolding ws by (simp add: passwd_packet_def be32_def)
  note pop = passwd_populate_view [OF assms(9,10) this assms(12), of True pwd err]
  let ?b = "packed (nm @ [0] @ dir @ [0] @ shell @ [0] @ gecos @ [0]) buf"
  have "string_at ?b (Some 0) = Some nm" "string_at ?b (Some (length (nm @ [0]))) = Some dir"
    "string_at ?b (Some (length (nm @ [0] @ dir @ [0]))) = Some shell"
    "string_at ?b (Some (length (nm @ [0] @ dir @ [0] @ shell @ [0]))) = Some gecos"
    using string_at_packed [OF nul(1), of "[]" "dir @ [0] @ shell @ [0] @ gecos @ [0]" buf]
      string_at_packed [OF nul(2), of "nm @ [0]" "shell @ [0] @ gecos @ [0]" buf]
      string_at_packed [OF nul(3), of "nm @ [0] @ dir @ [0]" "gecos @ [0]" buf]
      string_at_packed [OF nul(4), of "nm @ [0] @ dir @ [0] @ shell @ [0]" "[]" buf] by simp_all
  then show "\<exists>pwd' buf'. srvd_nss_passwd_populate True rc pwd buf n err hc = Some (NSS_STATUS_SUCCESS, pwd', buf', err) \<and>
       pw_uid pwd' = uid \<and> pw_gid pwd' = gid \<and> string_at buf' (pw_name pwd') = Some nm \<and>
       string_at buf' (pw_dir pwd') = Some dir \<and> string_at buf' (pw_shell pwd') = Some shell \<and>
       string_at buf' (pw_gecos pwd') = Some gecos"
    using pop passwd_view_packet [OF nul assms(11,12), of uid gid pwd err] unfolding ws by simp
qed

theorem passwd_record_round_trip_witness:
  "\<exists>h' hc pwd' buf'. set_passwd \<lparr>r_packet = Some 0, r_status = 0\<rparr> [97, 98] 5 6 [47] [115] [99, 100, 101] demo_empty =
       Some ([True, True, True, True, True, True], h') \<and>
     srvd_nss_passwd_populate True \<lparr>r_packet = Some 0, r_status = 0\<rparr> fresh_pwd (replicate 20 7) 11 0 hc =
       Some (NSS_STATUS_SUCCESS, pwd', buf', 0) \<and> pw_uid pwd' = 5 \<and> string_at buf' (pw_dir pwd') = Some [47]"
proof -
  let ?sp = "passwd_packet [97, 98] 5 6 [47] [115] [99, 100, 101]"
  have "\<exists>hc. answering demo_empty hc 0 (with_status 0 ?sp)"
    by (rule demo_packet_of) (simp_all add: with_status_def status_field_def passwd_packet_def nss_types service_codes be16_def be32_def)
  then obtain hc where rep: "packet_rep hc 0 (with_status 0 ?sp)" using answering_rep by blast
  from passwd_record_round_trip [OF demo_heap_ok(1) _ demo_empty_at _ _ _ _ _ rep,
      of "\<lparr>r_packet = Some 0, r_status = 0\<rparr>" "\<lparr>r_packet = Some 0, r_status = 0\<rparr>" 11 "replicate 20 7" fresh_pwd 0]
  show ?thesis by (auto simp: string_ok_def)
qed

text \<open>Reading an alias: from a response with a name, a list of members and the local flag, and a
  buffer for the strings and one pointer for each member, \<open>struct aliasent\<close> gets the name, the flag
  and as many members as the list has, each of them at a pointer to its text inside the buffer, in
  order.\<close>

theorem alias_members_read_back:
  assumes "packet_rep h p (status_field st # alias_packet nm ms loc)" and "r_packet r = Some p"
    and "0 \<notin> set nm" and "\<forall>m \<in> set ms. 0 \<notin> set m" and "length ms < 65536" and "n \<le> length buf"
    and "length nm + 1 + length ms * POINTER_SIZE + sum_list (map (\<lambda>m. length m + 1) ms) \<le> n"
  shows "\<exists>ae' buf' at ps. srvd_nss_aliases_populate r ae buf n err h = Some (NSS_STATUS_SUCCESS, ae', buf', err) \<and>
     reads buf' n (alias_name ae') nm \<and> alias_local ae' = ucast loc \<and> alias_members_len ae' = length ms \<and>
     alias_members ae' = Some (at, ps) \<and> list_all2 (reads buf' n) ps ms \<and> drop n buf' = drop n buf"
proof -
  have fit: "fields_fit (tl (status_field st # alias_packet nm ms loc))" using alias_packet_fits [OF assms(5)] by simp
  from aliases_populate_view [OF assms(1,2) fit assms(6), of ae err]
    alias_view_packet [OF assms(3,4,7,6), of "ae\<lparr>alias_local := 0\<rparr>" loc err] show ?thesis by auto
qed

theorem alias_members_read_back_witness:
  "\<exists>h ae' buf' at ps. srvd_nss_aliases_populate \<lparr>r_packet = Some 0, r_status = 0\<rparr> fresh_alias (replicate 20 7) 13 0 h =
       Some (NSS_STATUS_SUCCESS, ae', buf', 0) \<and> reads buf' 13 (alias_name ae') [97] \<and> alias_local ae' = 1 \<and>
     alias_members_len ae' = 1 \<and> alias_members ae' = Some (at, ps) \<and> list_all2 (reads buf' 13) ps [[98, 99]]"
proof -
  have "\<exists>h. answering demo_empty h 0 (status_field 0 # alias_packet [97] [[98, 99]] 1)"
    by (rule demo_packet_of) (simp_all add: status_field_def alias_packet_def nss_types service_codes be16_def)
  then obtain h where rep: "packet_rep h 0 (status_field 0 # alias_packet [97] [[98, 99]] 1)" using answering_rep by blast
  have "\<exists>ae' buf' at ps. srvd_nss_aliases_populate \<lparr>r_packet = Some 0, r_status = 0\<rparr> fresh_alias (replicate 20 7) 13 0 h =
       Some (NSS_STATUS_SUCCESS, ae', buf', 0) \<and> reads buf' 13 (alias_name ae') [97] \<and> alias_local ae' = ucast (1 :: u8) \<and>
     alias_members_len ae' = length [[98, 99] :: byte list] \<and> alias_members ae' = Some (at, ps) \<and>
     list_all2 (reads buf' 13) ps [[98, 99]] \<and> drop 13 buf' = drop 13 (replicate 20 7)"
    by (rule alias_members_read_back [OF rep]) (simp_all add: POINTER_SIZE_def)
  then have "\<exists>ae' buf' at ps. srvd_nss_aliases_populate \<lparr>r_packet = Some 0, r_status = 0\<rparr> fresh_alias (replicate 20 7) 13 0 h =
       Some (NSS_STATUS_SUCCESS, ae', buf', 0) \<and> reads buf' 13 (alias_name ae') [97] \<and> alias_local ae' = 1 \<and>
     alias_members_len ae' = 1 \<and> alias_members ae' = Some (at, ps) \<and> list_all2 (reads buf' 13) ps [[98, 99]]"
    by (elim exE conjE) (intro exI conjI, assumption+, simp_all)
  then show ?thesis by blast
qed

section \<open>Lookups\<close>

text \<open>The enumeration of users asks the server for the entry at its offset, hands on what comes
  back, and leaves memory as it was. The offset moves on exactly when the server had an entry, even if
  the entry did not fit the caller's buffer; \<open>setpwent\<close> sets it back to the first.\<close>

theorem getpwent_walks:
  assumes "heap_ok (w_heap x)" and "\<forall>k. \<not> oom (w_heap x) k" and "reaches dp fs x" and "answers_with x sp"
    and "fields_fit (tl sp)" and "n \<le> length buf" and "key_made t" and "key_data t = Some a" and "offsets t a = Some i"
    and "nss_answer (user_view g) sp pwd buf n err = (found, st, pwd', buf', err')"
  shows "nss_srvd_setpwent so t = Some (NSS_STATUS_SUCCESS, t\<lparr>offsets := (offsets t)(a \<mapsto> 0)\<rparr>) \<and>
     (\<exists>x'. nss_srvd_getpwent_r dp fs g pwd buf n err t x = Some (st, pwd', buf', err',
         if found then t\<lparr>offsets := (offsets t)(a \<mapsto> i + 1)\<rparr> else t, x') \<and>
       modifies {} {} {} {} (w_heap x) (w_heap x') \<and>
       sent (w_os x') (fd_brk (w_os x)) = outbox (peers (w_os x) (fd_brk (w_os x))) @
         wire_packet [(SRVD_SERVICE_NSS_PASSWD_REQUEST_ENTITIES, [be32 i])])"
proof (rule conjI)
  show "nss_srvd_setpwent so t = Some (NSS_STATUS_SUCCESS, t\<lparr>offsets := (offsets t)(a \<mapsto> 0)\<rparr>)"
    using assms(7-9) by (simp add: nss_srvd_setpwent_def nss_setent_def ent_begin_def ent_once_def)
  show "\<exists>x'. nss_srvd_getpwent_r dp fs g pwd buf n err t x = Some (st, pwd', buf', err',
         if found then t\<lparr>offsets := (offsets t)(a \<mapsto> i + 1)\<rparr> else t, x') \<and>
       modifies {} {} {} {} (w_heap x) (w_heap x') \<and>
       sent (w_os x') (fd_brk (w_os x)) = outbox (peers (w_os x) (fd_brk (w_os x))) @
         wire_packet [(SRVD_SERVICE_NSS_PASSWD_REQUEST_ENTITIES, [be32 i])]"
    unfolding nss_srvd_getpwent_r_def by (rule pw.getent_counts [OF assms]) blast
qed

definition demo_ent :: "u32 \<Rightarrow> ent_state" where
  "demo_ent i = \<lparr>key_made = True, key_data = Some 0, offsets = [0 \<mapsto> i], off_brk = 1, off_oom = (\<lambda>_. False)\<rparr>"

lemma demo_reaches: "reaches [] demo_cfs (demo_world (demo_os bs))"
proof -
  obtain d s where "conf_ready [] demo_cfs (demo_world (demo_os bs)) d s (map_of (rev (file_items demo_clines)))"
    by (rule conf_ready_from_file [of "demo_world (demo_os bs)" "[47]" demo_items demo_cfs demo_clines 7])
       (simp_all del: One_nat_def)
  then have "\<exists>d s cm path. conf_ready [] demo_cfs (demo_world (demo_os bs)) d s cm \<and> unsock_path cm = Some path \<and>
       listening (w_os (demo_world (demo_os bs))) (take SUN_PATH_LENGTH path)"
    using demo_cpath by (intro exI conjI) (assumption+, simp add: SUN_PATH_LENGTH_def)
  then show ?thesis by (simp add: reaches_def)
qed

text \<open>At the entry 3, a user whose name does not fit the two bytes of the buffer: an error, and the next
  call asks for the entry 4.\<close>

theorem getpwent_walks_witness:
  "\<exists>x'. nss_srvd_getpwent_r [] demo_cfs True fresh_pwd [7, 7] 2 0 (demo_ent 3)
       (demo_world (demo_os (\<lambda>_. wire_packet [status_field 0, (SRVD_SERVICE_NSS_PASSWD_RESPONSE_NAME, [[97, 98, 0]])]))) =
     Some (NSS_STATUS_TRYAGAIN, fresh_pwd, [7, 7], ERANGE, (demo_ent 3)\<lparr>offsets := [0 \<mapsto> 4]\<rparr>, x') \<and>
     sent (w_os x') 4 = wire_packet [(SRVD_SERVICE_NSS_PASSWD_REQUEST_ENTITIES, [be32 3])]"
proof -
  let ?sp = "[status_field 0, (SRVD_SERVICE_NSS_PASSWD_RESPONSE_NAME, [[97, 98, 0]])]"
  let ?x = "demo_world (demo_os (\<lambda>_. wire_packet ?sp))"
  have "travels ?sp"
    by (simp add: travels_def status_field_def nss_types service_codes counts_fit_def entries_fit_def length_wire_field be16_def)
  from receive_wire [OF this, of "[]"] have ans: "answers_with ?x ?sp" by (simp add: answers_with_def)
  have st: "status_of SRVD_SERVICE_RESPONSE_UNKNOWN ?sp = SRVD_SERVICE_RESPONSE_SUCCESS"
    by (simp add: status_of_def status_field_def service_codes)
  have v: "nss_answer (user_view True) ?sp fresh_pwd [7, 7] 2 0 = (True, NSS_STATUS_TRYAGAIN, fresh_pwd, [7, 7], ERANGE)"
    unfolding nss_answer_def st
    by (simp add: nss_failed_def user_view_def passwd_view_field_def view_into_def view_string_def service_codes)
  have e: "key_made (demo_ent 3)" "key_data (demo_ent 3) = Some 0" "offsets (demo_ent 3) 0 = Some 3"
    "(offsets (demo_ent 3))(0 \<mapsto> 4) = [0 \<mapsto> 4]" by (simp_all add: demo_ent_def)
  from getpwent_walks [OF _ _ demo_reaches ans _ _ e(1-3) v, of 0] show ?thesis using e(4) by auto
qed

text \<open>C38. A lookup by name takes a fixed number of bytes from the caller's name, one more than the
  longest login name: when the memory behind the pointer is shorter, as it is for every string in a
  buffer of its own size, the function reads past it.\<close>

theorem getpwnam_reads_past_name:
  assumes "heap_ok (w_heap x)" and "\<forall>k. \<not> oom (w_heap x) k" and "length name < unat (of_nat (login_name_max + 1) :: u16)"
  shows "nss_srvd_getpwnam_r login_name_max dp fs g (Some name) pwd buf n err x = None"
  unfolding nss_srvd_getpwnam_r_def by (rule by_name_short [OF assms])

theorem getpwnam_reads_past_name_witness:
  "nss_srvd_getpwnam_r 256 [] demo_cfs True (Some [114, 111, 111, 116, 0]) fresh_pwd (replicate 99 0) 99 0
     (demo_world (demo_os (\<lambda>_. []))) = None"
  by (rule getpwnam_reads_past_name) simp_all

end
