(* ===== verification/Nss_Session.thy ===== *)
theory Nss_Session
  imports Nss_Client
begin

text \<open>
  Many lookups in a row: a program that walks through a database with \<open>getpwent_r\<close> or \<open>getaliasent_r\<close>,
  with one connection to the server for each entry.
\<close>

section \<open>A world in which queries keep reaching the server\<close>

definition standing :: "byte list \<Rightarrow> fsys \<Rightarrow> world \<Rightarrow> bool" where
  "standing dp fs x \<longleftrightarrow> (\<exists>d s cm path. conf_ready dp fs x d s cm \<and> unsock_path cm = Some path \<and>
       listening (w_os x) (take SUN_PATH_LENGTH path) \<and>
       srvd_conf_file_default_get dp (Some False) d fs s = Some (True, Some True, d, s)) \<and>
     clients_ok (w_clients x) \<and> (\<forall>k. \<not> cl_oom (w_clients x) k) \<and> (\<forall>k. \<not> os_fails (w_os x) k) \<and>
     (\<forall>c. smooth (peers (w_os x) c))"

lemma standing_reaches: "standing dp fs x \<Longrightarrow> reaches dp fs x"
  by (auto simp: standing_def reaches_def)

lemma standing_continues:
  assumes "standing dp fs x" and "continues dp fs x x'"
  shows "standing dp fs x'"
proof -
  from assms(1) obtain d s cm path where c: "conf_ready dp fs x d s cm" "unsock_path cm = Some path"
    "listening (w_os x) (take SUN_PATH_LENGTH path)"
    "srvd_conf_file_default_get dp (Some False) d fs s = Some (True, Some True, d, s)" by (auto simp: standing_def)
  from c(1) assms(2) have "w_conf x' = d" "w_store x' = s" by (auto simp: conf_ready_def continues_def)
  with c have "conf_ready dp fs x' d s cm" by (simp add: conf_ready_def)
  moreover have "clients_ok (w_clients x')" using assms by (simp add: standing_def continues_def clients_ok_def)
  ultimately show ?thesis using assms c(2-4) unfolding standing_def continues_def next_system_def by metis
qed

section \<open>Walking\<close>

text \<open>The loop of the program: each call with a fresh struct and buffer, and what it answered.\<close>

fun nss_getents :: "('e \<Rightarrow> byte list \<Rightarrow> nat \<Rightarrow> int \<Rightarrow> ent_state \<Rightarrow> world
      \<Rightarrow> (nss_status \<times> 'e \<times> byte list \<times> int \<times> ent_state \<times> world) option) \<Rightarrow> 'e \<Rightarrow> byte list \<Rightarrow> nat \<Rightarrow> int \<Rightarrow> nat
    \<Rightarrow> ent_state \<Rightarrow> world \<Rightarrow> ((nss_status \<times> 'e \<times> byte list \<times> int) list \<times> ent_state \<times> world) option" where
  "nss_getents getent e buf n err 0 t x = Some ([], t, x)"
| "nss_getents getent e buf n err (Suc m) t x = do {
     (st, e', buf', err', t, x) \<leftarrow> getent e buf n err t x;
     (rs, t, x) \<leftarrow> nss_getents getent e buf n err m t x;
     Some ((st, e', buf', err') # rs, t, x) }"

context nss_fill
begin

lemma getents_walk:
  assumes "heap_ok (w_heap x)" and "\<forall>k. \<not> oom (w_heap x) k" and "standing dp fs x"
    and "n \<le> length buf" and "key_made t" and "key_data t = Some a" and "offsets t a = Some (of_nat i)" and "i \<le> L"
    and "\<And>k. k < m \<Longrightarrow> receive (inbox (peers (w_os x) (fd_brk (w_os x) + k))) = Parsed (ans (min (i + k) L))"
    and fit: "\<And>j. j \<le> L \<Longrightarrow> fields_fit (tl (ans j))" and there: "\<And>j. j \<le> L \<Longrightarrow> fst (nss_answer view (ans j) e buf n err) \<longleftrightarrow> j < L"
  shows "\<exists>x'. nss_getents (nss_getent fill ty dp fs) e buf n err m t x =
       Some (map (\<lambda>k. snd (nss_answer view (ans (min (i + k) L)) e buf n err)) [0..<m],
         t\<lparr>offsets := (offsets t)(a \<mapsto> of_nat (min (i + m) L))\<rparr>, x') \<and>
     modifies {} {} {} {} (w_heap x) (w_heap x') \<and> standing dp fs x' \<and> fd_brk (w_os x') = fd_brk (w_os x) + m \<and>
     (\<forall>c < fd_brk (w_os x). sent (w_os x') c = sent (w_os x) c) \<and>
     (\<forall>k < m. sent (w_os x') (fd_brk (w_os x) + k) = outbox (peers (w_os x) (fd_brk (w_os x) + k)) @
        wire_packet [(ty, [be32 (of_nat (min (i + k) L))])])"
  using assms(1-9)
proof (induction m arbitrary: x t i)
  case 0
  have "(offsets t)(a \<mapsto> of_nat i) = offsets t" by (rule fun_upd_idem) (rule 0)
  then show ?case using 0(1,3,8) by (simp add: modifies_refl min_absorb1 del: fun_upd_apply)
next
  case (Suc m)
  let ?ans = "nss_answer view (ans i) e buf n err" and ?c = "fd_brk (w_os x)"
  obtain found st e' buf' err' where v: "?ans = (found, st, e', buf', err')" by (cases ?ans)
  have got: "answers_with x (ans i)" using Suc.prems(9) [of 0] Suc.prems(8) by (simp add: answers_with_def)
  obtain x1 where x1: "nss_getent fill ty dp fs e buf n err t x =
      Some (st, e', buf', err', if found then t\<lparr>offsets := (offsets t)(a \<mapsto> of_nat i + 1)\<rparr> else t, x1)"
    "modifies {} {} {} {} (w_heap x) (w_heap x1)" "continues dp fs x x1"
    "sent (w_os x1) ?c = outbox (peers (w_os x) ?c) @ wire_packet [(ty, [be32 (of_nat i)])]"
    by (rule getent_counts [OF Suc.prems(1,2) standing_reaches [OF Suc.prems(3)] got fit [OF Suc.prems(8)] Suc.prems(4-7) v])
  let ?t = "t\<lparr>offsets := (offsets t)(a \<mapsto> of_nat (min (Suc i) L))\<rparr>"
  have t1: "(if found then t\<lparr>offsets := (offsets t)(a \<mapsto> of_nat i + 1)\<rparr> else t) = ?t"
    using there [OF Suc.prems(8)] v Suc.prems(7,8) by (auto simp: min_def add.commute fun_upd_idem)
  have sys: "fd_brk (w_os x1) = Suc ?c" "peers (w_os x1) = peers (w_os x)"
    "\<And>b. b < ?c \<Longrightarrow> sent (w_os x1) b = sent (w_os x) b"
    using x1(3) by (auto simp: continues_def next_system_def sent_def split: option.split)
  have mem: "\<forall>k. \<not> oom (w_heap x1) k" using x1(2) Suc.prems(2) by (simp add: modifies_def)
  have bytes: "receive (inbox (peers (w_os x1) (fd_brk (w_os x1) + k))) = Parsed (ans (min (min (Suc i) L + k) L))" if "k < m" for k
    using Suc.prems(8) Suc.prems(9) [of "Suc k"] that sys by (auto simp: min_def)
  have walk: "(\<lambda>k. ans (min (min (Suc i) L + k) L)) = (\<lambda>k. ans (min (i + Suc k) L))"
    "(\<lambda>k. min (min (Suc i) L + k) L) = (\<lambda>k. min (i + Suc k) L)" by (auto simp: min_def fun_eq_iff)
  have "\<exists>x'. nss_getents (nss_getent fill ty dp fs) e buf n err m ?t x1 =
       Some (map (\<lambda>k. snd (nss_answer view (ans (min (min (Suc i) L + k) L)) e buf n err)) [0..<m],
         ?t\<lparr>offsets := (offsets ?t)(a \<mapsto> of_nat (min (min (Suc i) L + m) L))\<rparr>, x') \<and>
     modifies {} {} {} {} (w_heap x1) (w_heap x') \<and> standing dp fs x' \<and> fd_brk (w_os x') = fd_brk (w_os x1) + m \<and>
     (\<forall>c < fd_brk (w_os x1). sent (w_os x') c = sent (w_os x1) c) \<and>
     (\<forall>k < m. sent (w_os x') (fd_brk (w_os x1) + k) = outbox (peers (w_os x1) (fd_brk (w_os x1) + k)) @
        wire_packet [(ty, [be32 (of_nat (min (min (Suc i) L + k) L))])])"
    by (rule Suc.IH [OF modifies_heap_ok [OF x1(2)] mem standing_continues [OF Suc.prems(3) x1(3)] Suc.prems(4)])
       (use Suc.prems(5,6) bytes in simp_all)
  then obtain x' where x': "nss_getents (nss_getent fill ty dp fs) e buf n err m ?t x1 =
       Some (map (\<lambda>k. snd (nss_answer view (ans (min (i + Suc k) L)) e buf n err)) [0..<m],
         ?t\<lparr>offsets := (offsets ?t)(a \<mapsto> of_nat (min (i + Suc m) L))\<rparr>, x')"
    "modifies {} {} {} {} (w_heap x1) (w_heap x')" "standing dp fs x'" "fd_brk (w_os x') = Suc ?c + m"
    "\<forall>c < Suc ?c. sent (w_os x') c = sent (w_os x1) c"
    "\<forall>k < m. sent (w_os x') (Suc ?c + k) = outbox (peers (w_os x) (Suc ?c + k)) @ wire_packet [(ty, [be32 (of_nat (min (i + Suc k) L))])]"
    unfolding sys(1,2) walk(2) [THEN fun_cong] by auto
  have "map (\<lambda>k. snd (nss_answer view (ans (min (i + k) L)) e buf n err)) [0..<Suc m] =
      snd ?ans # map (\<lambda>k. snd (nss_answer view (ans (min (i + Suc k) L)) e buf n err)) [0..<m]"
    using Suc.prems(8) by (simp add: map_upt_Suc min_def del: upt_Suc)
  moreover have "sent (w_os x') (?c + k) = outbox (peers (w_os x) (?c + k)) @ wire_packet [(ty, [be32 (of_nat (min (i + k) L))])]"
    if "k < Suc m" for k
    using that x'(5,6) x1(4) Suc.prems(8) by (cases k) (auto simp: min_def)
  moreover have "nss_getents (nss_getent fill ty dp fs) e buf n err (Suc m) t x =
      Some ((st, e', buf', err') # map (\<lambda>k. snd (nss_answer view (ans (min (i + Suc k) L)) e buf n err)) [0..<m],
        t\<lparr>offsets := (offsets t)(a \<mapsto> of_nat (min (i + Suc m) L))\<rparr>, x')"
    using x1(1) x'(1) unfolding t1 by simp
  ultimately show ?case using v x'(2-5) sys(3) modifies_trans [OF x1(2) x'(2)] by (intro exI [of _ x']) (simp del: fun_upd_apply upt_Suc)
qed

text \<open>A lookup by name, for a name in a buffer that is long enough.\<close>

lemma by_name_answers:
  assumes "heap_ok (w_heap x)" and "\<forall>k. \<not> oom (w_heap x) k" and "reaches dp fs x" and "answers_with x sp"
    and "lnm < 65535" and "lnm < length name" and "fields_fit (tl sp)" and "n \<le> length buf"
  obtains x' where "nss_by_name fill ty lnm dp fs (Some name) e buf n err x =
       Some (case snd (nss_answer view sp e buf n err) of (st, e, buf, err) \<Rightarrow> (st, e, buf, err, x'))"
    "modifies {} {} {} {} (w_heap x) (w_heap x')"
    "sent (w_os x') (fd_brk (w_os x)) = outbox (peers (w_os x) (fd_brk (w_os x))) @ wire_packet [(ty, [take (lnm + 1) name])]"
proof -
  let ?sz = "of_nat (lnm + 1) :: u16"
  have u: "unat ?sz = lnm + 1" using unat_of_nat_16 [of "lnm + 1"] assms(5) by (simp del: of_nat_add of_nat_Suc)
  then have "?sz \<noteq> 0" by (metis add_is_0 one_neq_zero unat_0)
  then have pay: "payload_ok ?sz (Some name)" using u assms(6) by (simp del: of_nat_add of_nat_Suc)
  obtain x' where "nss_lookup fill dp fs (\<lambda>p. srvd_protocol_packet_field_append p ty ?sz (Some name)) e buf n err x =
       Some (case nss_answer view sp e buf n err of (found, st, e, buf, err) \<Rightarrow> (found, st, e, buf, err, x'))"
    "modifies {} {} {} {} (w_heap x) (w_heap x')"
    "sent (w_os x') (fd_brk (w_os x)) = outbox (peers (w_os x) (fd_brk (w_os x))) @ wire_packet [(ty, [take (unat ?sz) name])]"
    by (rule lookup_answers [OF assms(1-4) pay assms(7,8), of ty e err])
  then show ?thesis unfolding u
    by (intro that [of x']) (auto simp: nss_by_name_def simp del: of_nat_add of_nat_Suc split: prod.splits)
qed

end

end
