(* ===== verification/Nss_Database.thy ===== *)
theory Nss_Database
  imports Nss_Session Request_Refine Server_Loop
begin

text \<open>
  Databases behind the server, users and mail aliases alike: what a service for a list of entries
  answers, and a handler that answers so with nothing but the getters of the library and the setters
  of an entry. Handlers are code of the application; this one shows that the library suffices to write
  them and stands for any other that keeps the promise.
\<close>

section \<open>The promise\<close>

definition answer_for :: "('a \<Rightarrow> spacket) \<Rightarrow> 'a option \<Rightarrow> u16 \<times> spacket" where
  "answer_for shape u = (case u of None \<Rightarrow> (SRVD_SERVICE_RESPONSE_NOTFOUND, [])
     | Some u \<Rightarrow> (SRVD_SERVICE_RESPONSE_SUCCESS, shape u))"

definition entry_at :: "'a list \<Rightarrow> u32 \<Rightarrow> 'a option" where
  "entry_at db i = (if unat i < length db then Some (db ! unat i) else None)"

text \<open>
  The keys by which an entry is asked for: request types with a number, and one with a name. Anything
  else is answered with \<open>FAIL\<close>.
\<close>

type_synonym 'a keys = "(u16 \<times> (u32 \<Rightarrow> 'a option)) list"

definition database_app :: "('a \<Rightarrow> spacket) \<Rightarrow> 'a keys \<Rightarrow> u16 \<Rightarrow> (byte list \<Rightarrow> 'a option) \<Rightarrow> service" where
  "database_app shape keys tn named sp = (case sp of (ty, bs # es) # _ \<Rightarrow>
       if length (bs # es) mod 65536 \<noteq> 1 then (SRVD_SERVICE_RESPONSE_FAIL, [])
       else if map_of keys ty \<noteq> None \<and> length bs = 4 then answer_for shape (the (map_of keys ty) (of_be32 bs))
       else if ty = tn then answer_for shape (named (cstr (terminated bs)))
       else (SRVD_SERVICE_RESPONSE_FAIL, [])
     | _ \<Rightarrow> (SRVD_SERVICE_RESPONSE_FAIL, []))"

section \<open>A handler\<close>

definition give :: "('a \<Rightarrow> response \<Rightarrow> heap \<Rightarrow> heap option) \<Rightarrow> 'a option \<Rightarrow> response \<Rightarrow> heap \<Rightarrow> (response \<times> heap) option" where
  "give setters u r h = (case u of None \<Rightarrow> Some (r\<lparr>r_status := SRVD_SERVICE_RESPONSE_NOTFOUND\<rparr>, h)
     | Some u \<Rightarrow> do { h \<leftarrow> setters u r h; Some (r\<lparr>r_status := SRVD_SERVICE_RESPONSE_SUCCESS\<rparr>, h) })"

primrec database_run :: "('a \<Rightarrow> response \<Rightarrow> heap \<Rightarrow> heap option) \<Rightarrow> u16 \<Rightarrow> (byte list \<Rightarrow> 'a option) \<Rightarrow> 'a keys \<Rightarrow> handler" where
  "database_run setters tn named [] q r h = do {
     (ok, p, h) \<leftarrow> request_name tn (Some q) (Some None) h;
     if \<not> ok then Some (r\<lparr>r_status := SRVD_SERVICE_RESPONSE_FAIL\<rparr>, h)
     else do {
       nm \<leftarrow> Option.bind (the p) (blks h);
       (_, _, h) \<leftarrow> request_name_free (Some q) p h;
       give setters (named (cstr nm)) r h } }"
| "database_run setters tn named (k # keys) q r h = do {
     (ok, v) \<leftarrow> request_uint32 (fst k) (Some q) (Some 0) h;
     if ok then give setters (snd k (the v)) r h else database_run setters tn named keys q r h }"

lemma answering_malloc:
  assumes "heap_ok h" and "\<forall>k. \<not> oom h k" and "packet_rep h b []"
  shows "answering h (h\<lparr>brk := Suc (brk h)\<rparr>) b []"
proof -
  let ?h = "h\<lparr>brk := Suc (brk h)\<rparr>"
  have m: "modifies {} {} {} {} h ?h" using assms(1) by (auto simp: modifies_def heap_ok_def)
  have "packet_at Unlocked h b []" using assms(3) by (auto simp: packet_rep_def abs_packet_def)
  then have "held {brk h..<brk ?h} ?h b []" using held_empty [OF packet_at_empty_frame [OF m assms(1)]] by blast
  then show ?thesis using modifies_heap_ok [OF m] modifies_mono [OF m, of "{b}"] assms(2) by (simp add: answering_def)
qed

lemma set_blk_gone: "blks h b = None \<Longrightarrow> free_block (Some b) (set_blk b xs (h\<lparr>brk := n\<rparr>)) = Some (h\<lparr>brk := n\<rparr>)"
  by (cases h) (simp add: free_block_def release_def set_blk_def fun_upd_idem)

text \<open>What the handler does with a request, by the type and the length of its first entry.\<close>

lemma database_run_empty:
  assumes "packet_rep h a []" and "q_packet q = Some a"
  shows "database_run setters tn named keys q r h = Some (r\<lparr>r_status := SRVD_SERVICE_RESPONSE_FAIL\<rparr>, h)"
proof -
  from assms(1) obtain k where "pkts h a = Some (Some k)" "field_count k = 0" by (auto simp: packet_rep_def packet_at_def abs_packet_def)
  then have "request_has_fields q h = Some False" using assms(2) by (simp add: request_has_fields_def mem_simps)
  then show ?thesis by (induction keys) (simp_all add: request_uint32_def request_name_def)
qed

lemma database_run_asked:
  assumes rep: "packet_rep h a ((ty, bs # es) # sp)" and fits: "length sp < 65535" "[] \<notin> set (bs # es)" and q: "q_packet q = Some a"
    and ok: "heap_ok h" "\<not> oom h (brk h)"
  shows "database_run setters tn named keys q r h =
     (if length (bs # es) mod 65536 \<noteq> 1 then Some (r\<lparr>r_status := SRVD_SERVICE_RESPONSE_FAIL\<rparr>, h)
      else if map_of keys ty \<noteq> None \<and> length bs = 4 then give setters (the (map_of keys ty) (of_be32 bs)) r h
      else if ty = tn then give setters (named (cstr (terminated bs))) r (h\<lparr>brk := Suc (brk h)\<rparr>)
      else Some (r\<lparr>r_status := SRVD_SERVICE_RESPONSE_FAIL\<rparr>, h))"
proof (induction keys)
  case Nil
  have "blks h (brk h) = None" using ok(1) by (simp add: heap_ok_def)
  then show ?case using request_name_spec [OF rep fits(1) q ok fits(2), of tn] set_blk_gone
    by (simp add: request_name_free_def set_blk_def)
next
  case (Cons k keys)
  then show ?case using request_uint32_spec [OF rep fits(1) q, of "fst k" 0] by (cases k) auto
qed

section \<open>The contract of a kind of entries\<close>

locale entry_shape =
  fixes shape :: "'a \<Rightarrow> spacket" and entry_ok :: "'a \<Rightarrow> bool"
  assumes shape_travels: "entry_ok u \<Longrightarrow> travels (status_field SRVD_SERVICE_RESPONSE_SUCCESS # shape u)"
begin

lemma shape_fits: "entry_ok u \<Longrightarrow> fields_fit (shape u)"
  using shape_travels by (fastforce simp: travels_def counts_fit_def fields_fit_def)

lemma answer_small:
  assumes "\<And>v. u = Some v \<Longrightarrow> entry_ok v"
  shows "length (snd (answer_for shape u)) < 65535 \<and> (\<forall>f \<in> set (snd (answer_for shape u)). length (snd f) < 65536)"
  using shape_travels [OF assms] by (cases u) (auto simp: answer_for_def travels_def counts_fit_def)

definition reply_for :: "'a option \<Rightarrow> spacket" where
  "reply_for u = (case answer_for shape u of (st, sp) \<Rightarrow> with_status st sp)"

lemma reply_for_simps:
  "reply_for None = [status_field SRVD_SERVICE_RESPONSE_NOTFOUND]"
  "entry_ok u \<Longrightarrow> reply_for (Some u) = status_field SRVD_SERVICE_RESPONSE_SUCCESS # shape u"
  using shape_travels [of u] by (auto simp: reply_for_def answer_for_def with_status_def travels_def status_field_def)

lemma reply_for_fits: "(\<And>v. u = Some v \<Longrightarrow> entry_ok v) \<Longrightarrow> fields_fit (tl (reply_for u))"
  by (cases u) (simp_all add: reply_for_simps shape_fits)

lemma reply_for_received:
  assumes "\<And>v. u = Some v \<Longrightarrow> entry_ok v"
  shows "receive (wire_packet (reply_for u)) = Parsed (reply_for u)"
proof -
  have "travels (reply_for u)"
  proof (cases u)
    case None
    then show ?thesis
      by (simp add: reply_for_simps travels_def status_field_def counts_fit_def entries_fit_def length_wire_field be16_def)
  qed (use assms shape_travels in \<open>simp add: reply_for_simps\<close>)
  from receive_wire [OF this, of "[]"] show ?thesis by simp
qed

text \<open>Whatever the keys find is an entry.\<close>

definition finds_ok :: "'a keys \<Rightarrow> (byte list \<Rightarrow> 'a option) \<Rightarrow> bool" where
  "finds_ok keys named \<longleftrightarrow> (\<forall>k \<in> set keys. \<forall>v u. snd k v = Some u \<longrightarrow> entry_ok u) \<and> (\<forall>s u. named s = Some u \<longrightarrow> entry_ok u)"

lemma finds_ok_number: "finds_ok keys named \<Longrightarrow> the (map_of keys ty) v = Some u \<Longrightarrow> map_of keys ty \<noteq> None \<Longrightarrow> entry_ok u"
  by (fastforce simp: finds_ok_def dest: map_of_SomeD)

lemma finds_ok_name: "finds_ok keys named \<Longrightarrow> named s = Some u \<Longrightarrow> entry_ok u"
  by (auto simp: finds_ok_def)

end

locale entry_setters = entry_shape shape entry_ok for shape :: "'a \<Rightarrow> spacket" and entry_ok :: "'a \<Rightarrow> bool" +
  fixes setters :: "'a \<Rightarrow> response \<Rightarrow> heap \<Rightarrow> heap option"
  assumes setters_law: "\<lbrakk>answering h0 h p []; r_packet r = Some p; entry_ok u\<rbrakk> \<Longrightarrow>
    \<exists>h'. setters u r h = Some h' \<and> answering h0 h' p (shape u)"
begin

lemma give_spec:
  assumes "answering h0 h b []" and "r_packet r = Some b" and "\<And>v. u = Some v \<Longrightarrow> entry_ok v"
  shows "\<exists>r' h'. give setters u r h = Some (r', h') \<and> r_packet r' = Some b \<and> r_status r' = fst (answer_for shape u) \<and>
     answering h0 h' b (snd (answer_for shape u))"
  using assms setters_law [OF assms(1,2)] by (cases u) (fastforce simp: give_def answer_for_def)+

theorem database_run_implements:
  assumes "finds_ok keys named"
  shows "implements (database_run setters tn named keys) (database_app shape keys tn named)"
proof -
  have "\<exists>r' h'. database_run setters tn named keys q r h = Some (r', h') \<and> r_packet r' = Some b \<and>
      r_status r' = fst (database_app shape keys tn named sp) \<and> answering h h' b (snd (database_app shape keys tn named sp))"
    if c: "heap_ok h" "\<forall>k. \<not> oom h k" "q_packet q = Some a" "r_packet r = Some b" "received sp" "packet_rep h a sp" "packet_rep h b []"
    for q r a b h sp
  proof -
    have start: "answering h h b []" by (rule answering_start [OF c(1,2,7)])
    have fail: "\<exists>r' h'. Some (r\<lparr>r_status := SRVD_SERVICE_RESPONSE_FAIL\<rparr>, h) = Some (r', h') \<and> r_packet r' = Some b \<and>
        r_status r' = SRVD_SERVICE_RESPONSE_FAIL \<and> answering h h' b []"
      using start c(4) by simp
    consider "sp = []" | ty sp' where "sp = (ty, []) # sp'" | ty bs es sp' where "sp = (ty, bs # es) # sp'"
      by (metis list.exhaust surj_pair)
    then show ?thesis
    proof cases
      case 1
      then show ?thesis using fail database_run_empty [of h a q setters tn named keys r] c(3,6) by (simp add: database_app_def)
    next
      case (2 ty sp')
      have "length sp' < 65535" using c(5) 2 by (simp add: received_def)
      then have "database_run setters tn named keys q r h = Some (r\<lparr>r_status := SRVD_SERVICE_RESPONSE_FAIL\<rparr>, h)"
        using request_uint32_spec [of h a ty "[]" sp' q] request_name_spec [of h a ty "[]" sp' q] c(1-3,6) 2 by (induction keys) auto
      then show ?thesis using fail 2 by (simp add: database_app_def)
    next
      case (3 ty bs es sp')
      have fits: "length sp' < 65535" "[] \<notin> set (bs # es)" using c(5) 3 by (simp_all add: received_def)
      have mem: "\<not> oom h (brk h)" using c(2) by blast
      note run = database_run_asked [OF c(6) [unfolded 3] fits c(3,1) mem, of setters tn named keys r]
      note key = finds_ok_number [OF assms] and named = finds_ok_name [OF assms]
      note number = give_spec [OF start c(4), of "the (map_of keys ty) (of_be32 bs)"]
        and name = give_spec [OF answering_malloc [OF c(1,2,7)] c(4), of "named (cstr (terminated bs))", OF named]
      show ?thesis unfolding run using number key name fail 3 by (simp add: database_app_def)
    qed
  qed
  then show ?thesis unfolding implements_def answering_def by blast
qed

lemma database_app_fits:
  assumes "finds_ok keys named"
  shows "answers_fit (database_app shape keys tn named)"
proof -
  let ?small = "\<lambda>a. length (snd a) < 65535 \<and> (\<forall>f \<in> set (snd a). length (snd f) < 65536)"
  have number: "?small (answer_for shape (the (map_of keys ty) v))" if "map_of keys ty \<noteq> None" for ty v
    by (rule answer_small) (rule finds_ok_number [OF assms _ that])
  have name: "?small (answer_for shape (named s))" for s
    by (rule answer_small) (rule finds_ok_name [OF assms])
  have "length (snd (database_app shape keys tn named sp)) < 65535 \<and>
      (\<forall>f \<in> set (snd (database_app shape keys tn named sp)). length (snd f) < 65536)" for sp
    unfolding database_app_def using number name by (auto split: list.split prod.split)
  then show ?thesis by (simp add: answers_fit_def)
qed

end

end
