(* ===== verification/Nss_Exchange.thy ===== *)
theory Nss_Exchange
  imports Nss_Database
begin

text \<open>
  From a lookup to its answer, with both sides at work: a program whose lookups are clients of a server
  with a database. What is proved here once, for any function that fills a struct and any kind of
  entries, holds for users and for mail aliases.
\<close>

section \<open>Both sides\<close>

text \<open>A server that ran \<open>m\<close> turns, from the system \<open>ws\<close> to the system \<open>ws'\<close>.\<close>

definition ran_server :: "nat \<Rightarrow> server_unsock \<Rightarrow> handler node_store \<Rightarrow> (u16 \<rightharpoonup> handler) \<Rightarrow> (u16 \<Rightarrow> service) \<Rightarrow> os \<Rightarrow> os \<Rightarrow> bool" where
  "ran_server m sv ns tbl app ws ws' \<longleftrightarrow> ready sv ws \<and> registry_rep (monitor sv, ns) tbl \<and> served tbl app \<and>
     (\<forall>k. \<not> os_fails ws k) \<and> (\<forall>c. harmless (peers ws c)) \<and>
     (\<exists>hs hs'. heap_ok hs \<and> (\<forall>k. \<not> oom hs k) \<and> execute_turns m sv ns (hs, ws) = Some (hs', ws'))"

text \<open>The client of turn \<open>k\<close> sends a request; the connection \<open>j\<close> that a program opens next is that client.\<close>

definition asks :: "os \<Rightarrow> nat \<Rightarrow> spacket \<Rightarrow> bool" where
  "asks ws k rq \<longleftrightarrow> inbox (peers ws (fd_brk ws + k)) = wire_packet rq \<and> outbox (peers ws (fd_brk ws + k)) = [] \<and>
     smooth (peers ws (fd_brk ws + k))"

definition joined :: "os \<Rightarrow> os \<Rightarrow> nat \<Rightarrow> world \<Rightarrow> nat \<Rightarrow> bool" where
  "joined ws ws' k x j \<longleftrightarrow> inbox (peers (w_os x) (fd_brk (w_os x) + j)) = sent ws' (fd_brk ws + k) \<and>
     outbox (peers (w_os x) (fd_brk (w_os x) + j)) = []"

lemma server_sends_reply:
  assumes "ran_server m sv ns tbl app ws ws'" and "k < m" and "asks ws k sp" and "travels sp" and "sp \<noteq> []"
  shows "sent ws' (fd_brk ws + k) = wire_packet (reply tbl app sp)"
proof -
  from assms(1) obtain hs hs' where s: "heap_ok hs" "\<forall>k. \<not> oom hs k" "execute_turns m sv ns (hs, ws) = Some (hs', ws')"
    and r: "ready sv ws" "registry_rep (monitor sv, ns) tbl" "served tbl app" "\<forall>k. \<not> os_fails ws k" "\<forall>c. harmless (peers ws c)"
    by (auto simp: ran_server_def)
  from execute_turns_live [OF s(1,2) r(1-3,5), of m] r(4) s(3) assms(2)
  have a: "answered (reply tbl app) (peers ws (fd_brk ws + k)) (sent ws' (fd_brk ws + k))" by auto
  have "receive (inbox (peers ws (fd_brk ws + k))) = Parsed sp"
    using assms(3) receive_wire [OF assms(4), of "[]"] by (simp add: asks_def)
  then show ?thesis using a assms(3,5) by (cases sp) (auto simp: answered_def asks_def)
qed

lemma number_travels: "travels [(ty, [be32 i])]"
  by (simp add: travels_def counts_fit_def entries_fit_def length_wire_field be32_def)

lemma entry_at_nat: "k \<le> length db \<Longrightarrow> length db < 4294967296 \<Longrightarrow>
    entry_at db (of_nat k) = (if k < length db then Some (db ! k) else None)"
  by (simp add: entry_at_def unat_of_nat)

text \<open>The bytes of a lookup by name are those of the name, its NUL and what follows it.\<close>

lemma asked_name:
  assumes "0 \<notin> set nm" and "length nm \<le> lnm" and "lnm \<le> length nm + length pad"
  shows "cstr (terminated (take (lnm + 1) (nm @ 0 # pad))) = nm"
proof -
  let ?bs = "take (lnm + 1) (nm @ 0 # pad)"
  have ne: "?bs \<noteq> []" by simp
  have "?bs = (nm @ [0]) @ take (lnm - length nm) pad" using assms(2) by (simp add: Suc_diff_le)
  then have "cstr ?bs = nm" using assms(1) cstr_append_NUL [of nm "take (lnm - length nm) pad"] by simp
  moreover have "length nm \<le> length ?bs - 1" using assms(2,3) by simp
  ultimately show ?thesis using terminated_props(4) [OF ne] by simp
qed

text \<open>An enumeration that is about to start.\<close>

definition started :: "ent_state \<Rightarrow> ent_state" where
  "started t = t\<lparr>key_made := True, key_data := Some (off_brk t), offsets := (offsets t)(off_brk t \<mapsto> 0), off_brk := Suc (off_brk t)\<rparr>"

lemma setent_starts:
  "key_data t = None \<Longrightarrow> \<not> off_oom t (off_brk t) \<Longrightarrow> nss_setent t = Some (NSS_STATUS_SUCCESS, started t)"
  by (cases t) (auto simp: nss_setent_def ent_begin_def ent_once_def ent_initialize_offset_def started_def Let_def)

text \<open>The entries that a walk has shown after each call: those of the list in order, then nothing.\<close>

definition walks :: "('a \<Rightarrow> nss_status \<times> 'e \<times> byte list \<times> int \<Rightarrow> bool) \<Rightarrow> 'a list
    \<Rightarrow> (nss_status \<times> 'e \<times> byte list \<times> int) list \<Rightarrow> bool" where
  "walks shows db rs \<longleftrightarrow> (\<forall>k < length rs.
     if k < length db then shows (db ! k) (rs ! k) else fst (rs ! k) = NSS_STATUS_NOTFOUND)"

text \<open>What a single lookup makes of the entry that the server found, or did not find.\<close>

definition finds :: "('a \<Rightarrow> nss_status \<times> 'e \<times> byte list \<times> int \<Rightarrow> bool) \<Rightarrow> 'a option
    \<Rightarrow> nss_status \<times> 'e \<times> byte list \<times> int \<Rightarrow> bool" where
  "finds shows_entry u res \<longleftrightarrow> (case u of None \<Rightarrow> fst res = NSS_STATUS_NOTFOUND | Some u \<Rightarrow> shows_entry u res)"

section \<open>Entries that a struct can show\<close>

locale nss_shown = nss_fill fill view + entry_shape shape entry_ok
  for fill :: "'e fill" and view :: "'e view" and shape :: "'a \<Rightarrow> spacket" and entry_ok :: "'a \<Rightarrow> bool" +
  fixes room :: "'a \<Rightarrow> nat" and shows_entry :: "'a \<Rightarrow> nss_status \<times> 'e \<times> byte list \<times> int \<Rightarrow> bool"
  assumes shown: "\<lbrakk>entry_ok u; room u \<le> n; n \<le> length buf\<rbrakk> \<Longrightarrow> shows_entry u (view (shape u) e buf n err)"
begin

lemma answer_finds:
  assumes "\<And>v. u = Some v \<Longrightarrow> entry_ok v \<and> room v \<le> n" and "n \<le> length buf"
  shows "fst (nss_answer view (reply_for u) e buf n err) \<longleftrightarrow> u \<noteq> None"
    and "finds shows_entry u (snd (nss_answer view (reply_for u) e buf n err))"
  using assms shown [of _ n buf e err] reply_for_simps
  by (cases u; simp add: finds_def nss_answer_def status_of_def status_field_def nss_failed_def service_codes)+

text \<open>A program that asks for a name.\<close>

theorem name_found:
  assumes run: "ran_server m sv ns tbl app ws ws'" "k < m" "asks ws k [(ty, [take (lnm + 1) (nm @ 0 # pad)])]"
    and serves: "\<And>bs. reply tbl app [(ty, [bs])] = reply_for (named (cstr (terminated bs)))"
    and fit: "\<And>s v. named s = Some v \<Longrightarrow> entry_ok v \<and> room v \<le> n" "n \<le> length buf"
    and x: "heap_ok (w_heap x)" "\<forall>k. \<not> oom (w_heap x) k" "reaches dp fs x" "joined ws ws' k x 0"
    and nm: "0 \<notin> set nm" "length nm \<le> lnm" "lnm \<le> length nm + length pad" "lnm < 65535"
  shows "\<exists>st e' buf' err' x'. nss_by_name fill ty lnm dp fs (Some (nm @ 0 # pad)) e buf n err x = Some (st, e', buf', err', x') \<and>
     finds shows_entry (named nm) (st, e', buf', err') \<and>
     sent (w_os x') (fd_brk (w_os x)) = inbox (peers ws (fd_brk ws + k)) \<and> modifies {} {} {} {} (w_heap x) (w_heap x')"
proof -
  let ?rq = "[(ty, [take (lnm + 1) (nm @ 0 # pad)])]" and ?name = "nm @ 0 # pad"
  have ok: "entry_ok v \<and> room v \<le> n" if "named nm = Some v" for v using fit(1) that by blast
  have tr: "travels ?rq" using nm by (simp add: travels_def counts_fit_def entries_fit_def length_wire_field)
  have "sent ws' (fd_brk ws + k) = wire_packet (reply_for (named nm))"
    using server_sends_reply [OF run tr] serves asked_name [OF nm(1-3)] by simp
  moreover have "receive (wire_packet (reply_for (named nm))) = Parsed (reply_for (named nm))"
    by (rule reply_for_received) (use ok in blast)
  ultimately have ans: "answers_with x (reply_for (named nm))" using x(4) by (simp add: answers_with_def joined_def)
  have len: "lnm < length ?name" using nm(3) by simp
  have ff: "fields_fit (tl (reply_for (named nm)))" by (rule reply_for_fits) (use ok in blast)
  obtain x' where x': "nss_by_name fill ty lnm dp fs (Some ?name) e buf n err x =
       Some (case snd (nss_answer view (reply_for (named nm)) e buf n err) of (st, e, buf, err) \<Rightarrow> (st, e, buf, err, x'))"
    "modifies {} {} {} {} (w_heap x) (w_heap x')"
    "sent (w_os x') (fd_brk (w_os x)) = outbox (peers (w_os x) (fd_brk (w_os x))) @ wire_packet [(ty, [take (lnm + 1) ?name])]"
    by (rule by_name_answers [OF x(1-3) ans nm(4) len ff fit(2)])
  obtain st e' buf' err' where r: "snd (nss_answer view (reply_for (named nm)) e buf n err) = (st, e', buf', err')"
    by (cases "snd (nss_answer view (reply_for (named nm)) e buf n err)")
  have "finds shows_entry (named nm) (snd (nss_answer view (reply_for (named nm)) e buf n err))"
    by (rule answer_finds(2) [OF ok fit(2)])
  then show ?thesis using x' r run(3) x(4)
    by (intro exI [of _ st] exI [of _ e'] exI [of _ buf'] exI [of _ err'] exI [of _ x']) (simp add: asks_def joined_def)
qed

text \<open>A program that asks for a number.\<close>

theorem number_found:
  assumes run: "ran_server m sv ns tbl app ws ws'" "k < m" "asks ws k [(ty, [be32 v])]"
    and serves: "reply tbl app [(ty, [be32 v])] = reply_for u"
    and fit: "\<And>v. u = Some v \<Longrightarrow> entry_ok v \<and> room v \<le> n" "n \<le> length buf"
    and x: "heap_ok (w_heap x)" "\<forall>k. \<not> oom (w_heap x) k" "reaches dp fs x" "joined ws ws' k x 0"
  shows "\<exists>found st e' buf' err' x'. nss_by_number fill ty dp fs v e buf n err x = Some (found, st, e', buf', err', x') \<and>
     finds shows_entry u (st, e', buf', err') \<and>
     sent (w_os x') (fd_brk (w_os x)) = inbox (peers ws (fd_brk ws + k)) \<and> modifies {} {} {} {} (w_heap x) (w_heap x')"
proof -
  have "receive (wire_packet (reply_for u)) = Parsed (reply_for u)" by (rule reply_for_received) (use fit(1) in blast)
  then have ans: "answers_with x (reply_for u)"
    using server_sends_reply [OF run number_travels] serves x(4) by (simp add: answers_with_def joined_def)
  have ff: "fields_fit (tl (reply_for u))" by (rule reply_for_fits) (use fit(1) in blast)
  obtain x' where x': "nss_by_number fill ty dp fs v e buf n err x =
       Some (case nss_answer view (reply_for u) e buf n err of (found, st, e, buf, err) \<Rightarrow> (found, st, e, buf, err, x'))"
    "modifies {} {} {} {} (w_heap x) (w_heap x')"
    "sent (w_os x') (fd_brk (w_os x)) = outbox (peers (w_os x) (fd_brk (w_os x))) @ wire_packet [(ty, [be32 v])]"
    by (rule by_number_answers [OF x(1-3) ans ff fit(2)])
  obtain found st e' buf' err' where r: "nss_answer view (reply_for u) e buf n err = (found, st, e', buf', err')"
    by (cases "nss_answer view (reply_for u) e buf n err")
  have "finds shows_entry u (snd (nss_answer view (reply_for u) e buf n err))" by (rule answer_finds(2) [OF fit])
  then show ?thesis using x' r run(3) x(4)
    by (intro exI [of _ found] exI [of _ st] exI [of _ e'] exI [of _ buf'] exI [of _ err'] exI [of _ x'])
       (simp add: asks_def joined_def)
qed

text \<open>A program that walks through all entries.\<close>

lemma walk_shows:
  assumes "\<forall>u \<in> set db. entry_ok u \<and> room u \<le> n" and "n \<le> length buf" and "length db < 4294967296"
  defines "res \<equiv> \<lambda>e err j. nss_answer view (reply_for (entry_at db (of_nat j))) e buf n err"
  shows "walks shows_entry db (map (\<lambda>k. snd (res e err (min k (length db)))) [0..<m])"
    and "\<And>j. j \<le> length db \<Longrightarrow> fst (res e err j) \<longleftrightarrow> j < length db"
proof -
  have ok: "entry_at db i = Some v \<Longrightarrow> entry_ok v \<and> room v \<le> n" for i v
    using assms(1) by (auto simp: entry_at_def split: if_splits)
  have ans: "fst (res e err j) \<longleftrightarrow> entry_at db (of_nat j) \<noteq> None" "finds shows_entry (entry_at db (of_nat j)) (snd (res e err j))" for j
    using answer_finds [OF ok assms(2)] by (simp_all add: res_def)
  have hit: "shows_entry (db ! j) (snd (res e err j))" if "j < length db" for j
    using ans(2) [of j] that assms(3) by (simp add: finds_def entry_at_nat)
  have miss: "fst (snd (res e err (length db))) = NSS_STATUS_NOTFOUND"
    using ans(2) [of "length db"] assms(3) by (simp add: finds_def entry_at_nat)
  show "walks shows_entry db (map (\<lambda>k. snd (res e err (min k (length db)))) [0..<m])"
    using hit miss by (auto simp: walks_def min_def)
  show "fst (res e err j) \<longleftrightarrow> j < length db" if "j \<le> length db" for j
    using ans(1) [of j] that assms(3) by (simp add: entry_at_nat)
qed

theorem entries_walked:
  assumes run: "ran_server m sv ns tbl app ws ws'"
    and ask: "\<forall>k < m. asks ws k [(ty, [be32 (of_nat (min k (length db)))])] \<and> joined ws ws' k x k"
    and serves: "\<And>i. reply tbl app [(ty, [be32 i])] = reply_for (entry_at db i)"
    and fit: "\<forall>u \<in> set db. entry_ok u \<and> room u \<le> n" "n \<le> length buf" "length db < 4294967296"
    and x: "heap_ok (w_heap x)" "\<forall>k. \<not> oom (w_heap x) k" "standing dp fs x"
    and t: "key_data t = None" "\<not> off_oom t (off_brk t)"
  shows "\<exists>t1 rs t2 x'. nss_setent t = Some (NSS_STATUS_SUCCESS, t1) \<and>
     nss_getents (nss_getent fill ty dp fs) e buf n err m t1 x = Some (rs, t2, x') \<and> length rs = m \<and>
     walks shows_entry db rs \<and> modifies {} {} {} {} (w_heap x) (w_heap x') \<and>
     (\<forall>k < m. sent (w_os x') (fd_brk (w_os x) + k) = inbox (peers ws (fd_brk ws + k)))"
proof -
  let ?i = "\<lambda>k. of_nat (min k (length db)) :: u32"
  let ?rs = "map (\<lambda>k. snd (nss_answer view (reply_for (entry_at db (?i (0 + k)))) e buf n err)) [0..<m]"
  note walk = walk_shows [OF fit]
  have ok: "entry_at db i = Some v \<Longrightarrow> entry_ok v" for i v using fit(1) by (auto simp: entry_at_def split: if_splits)
  have ff: "fields_fit (tl (reply_for (entry_at db (of_nat j))))" for j by (rule reply_for_fits) (rule ok)
  have wire: "receive (wire_packet (reply_for (entry_at db i))) = Parsed (reply_for (entry_at db i))" for i
    by (rule reply_for_received) (rule ok)
  have got: "receive (inbox (peers (w_os x) (fd_brk (w_os x) + k))) = Parsed (reply_for (entry_at db (?i (0 + k))))" if k: "k < m" for k
    using server_sends_reply [OF run k _ number_travels, of ty "?i k"] ask k serves wire
    by (simp add: joined_def)
  have t1: "key_made (started t)" "key_data (started t) = Some (off_brk t)" "offsets (started t) (off_brk t) = Some (of_nat 0)"
    by (simp_all add: started_def)
  from getents_walk [where ans = "\<lambda>j. reply_for (entry_at db (of_nat j))" and ty = ty and e = e and err = err and m = m,
      OF x fit(2) t1 _ got ff walk(2)]
  obtain x' where x': "nss_getents (nss_getent fill ty dp fs) e buf n err m (started t) x = Some (?rs,
      (started t)\<lparr>offsets := (offsets (started t))(off_brk t \<mapsto> of_nat (min (0 + m) (length db)))\<rparr>, x')"
    "modifies {} {} {} {} (w_heap x) (w_heap x')"
    "\<forall>k < m. sent (w_os x') (fd_brk (w_os x) + k) = outbox (peers (w_os x) (fd_brk (w_os x) + k)) @ wire_packet [(ty, [be32 (?i (0 + k))])]"
    by auto
  have "walks shows_entry db ?rs" using walk(1) [where m = m] by simp
  then show ?thesis using x' setent_starts [OF t] ask
    by (intro exI [of _ "started t"] exI [of _ ?rs] exI [of _ x'] exI conjI) (assumption | simp add: asks_def joined_def)+
qed

end

end
