(* ===== verification/User_Service.thy ===== *)
theory User_Service
  imports Nss_Exchange
begin

text \<open>
  A user database behind the server: its users, the promise of a service for them, and a handler that
  keeps it with the getters and setters of \<open>lib/srvd/libsrvd/service/nss/passwd.c\<close>.
\<close>

section \<open>The promise\<close>

record user =
  u_name :: "byte list"
  u_uid :: u32
  u_gid :: u32
  u_dir :: "byte list"
  u_shell :: "byte list"
  u_gecos :: "byte list"

definition user_ok :: "user \<Rightarrow> bool" where
  "user_ok u \<longleftrightarrow> string_ok (u_name u) \<and> string_ok (u_dir u) \<and> string_ok (u_shell u) \<and> string_ok (u_gecos u)"

definition user_packet :: "user \<Rightarrow> spacket" where
  "user_packet u = passwd_packet (u_name u) (u_uid u) (u_gid u) (u_dir u) (u_shell u) (u_gecos u)"

definition user_named :: "user list \<Rightarrow> byte list \<Rightarrow> user option" where
  "user_named db s = find (\<lambda>u. u_name u = s) db"

definition user_keys :: "user list \<Rightarrow> user keys" where
  "user_keys db = [(SRVD_SERVICE_NSS_PASSWD_REQUEST_UID, \<lambda>i. find (\<lambda>u. u_uid u = i) db),
     (SRVD_SERVICE_NSS_PASSWD_REQUEST_ENTITIES, entry_at db)]"

definition users_app :: "user list \<Rightarrow> service" where
  "users_app db = database_app user_packet (user_keys db) SRVD_SERVICE_NSS_PASSWD_REQUEST_NAME (user_named db)"

section \<open>A handler\<close>

definition set_user :: "user \<Rightarrow> response \<Rightarrow> heap \<Rightarrow> heap option" where
  "set_user u r h = map_option snd (set_passwd r (u_name u) (u_uid u) (u_gid u) (u_dir u) (u_shell u) (u_gecos u) h)"

definition users_run :: "user list \<Rightarrow> handler" where
  "users_run db q r h = do {
     (ok, v) \<leftarrow> srvd_service_nss_passwd_request_uid_get (Some q) (Some 0) h;
     if ok then give set_user (find (\<lambda>u. u_uid u = the v) db) r h
     else do {
       (ok, v) \<leftarrow> srvd_service_nss_passwd_request_entities_get (Some q) (Some 0) h;
       if ok then give set_user (entry_at db (the v)) r h
       else do {
         (ok, p, h) \<leftarrow> srvd_service_nss_passwd_request_name_get (Some q) (Some None) h;
         if \<not> ok then Some (r\<lparr>r_status := SRVD_SERVICE_RESPONSE_FAIL\<rparr>, h)
         else do {
           nm \<leftarrow> Option.bind (the p) (blks h);
           (_, _, h) \<leftarrow> srvd_service_nss_passwd_request_name_free (Some q) p h;
           give set_user (user_named db (cstr nm)) r h } } } }"

lemma users_run_database:
  "users_run db = database_run set_user SRVD_SERVICE_NSS_PASSWD_REQUEST_NAME (user_named db) (user_keys db)"
  by (intro ext) (unfold users_run_def user_keys_def database_run.simps fst_conv snd_conv
      srvd_service_nss_passwd_request_uid_get_def srvd_service_nss_passwd_request_entities_get_def
      srvd_service_nss_passwd_request_name_get_def srvd_service_nss_passwd_request_name_free_def, rule refl)

interpretation us: entry_setters user_packet user_ok set_user
proof
  show "travels (status_field SRVD_SERVICE_RESPONSE_SUCCESS # user_packet u)" if "user_ok u" for u
    using that by (simp add: travels_def status_field_def user_packet_def passwd_packet_def nss_types service_codes
        counts_fit_def entries_fit_def length_wire_field user_ok_def string_ok_def be16_def be32_def)
  show "\<exists>h'. set_user u r h = Some h' \<and> answering h0 h' p (user_packet u)"
    if c: "answering h0 h p []" "r_packet r = Some p" "user_ok u" for h0 h p r u
  proof -
    have ok: "string_ok (u_name u)" "string_ok (u_dir u)" "string_ok (u_shell u)" "string_ok (u_gecos u)"
      using c(3) by (simp_all add: user_ok_def)
    obtain h' where "set_passwd r (u_name u) (u_uid u) (u_gid u) (u_dir u) (u_shell u) (u_gecos u) h =
        Some ([True, True, True, True, True, True], h')" "answering h0 h' p (user_packet u)"
      unfolding user_packet_def by (rule set_passwd_spec [OF c(1,2) ok])
    then show ?thesis by (simp add: set_user_def)
  qed
qed

lemma users_found: "\<forall>u \<in> set db. user_ok u \<Longrightarrow> us.finds_ok (user_keys db) (user_named db)"
  by (auto simp: us.finds_ok_def user_keys_def user_named_def entry_at_def find_Some_iff split: if_splits)

theorem users_run_implements: "\<forall>u \<in> set db. user_ok u \<Longrightarrow> implements (users_run db) (users_app db)"
  unfolding users_run_database users_app_def by (rule us.database_run_implements [OF users_found])

lemma users_app_fits: "\<forall>u \<in> set db. user_ok u \<Longrightarrow> answers_fit (users_app db)"
  unfolding users_app_def by (rule us.database_app_fits [OF users_found])

end
