(* ===== verification/User_Refine.thy ===== *)
theory User_Refine
  imports User_Service
begin

text \<open>
  What a client of the user database gets: the answer of the service travels through the wire format
  and fills the caller's struct with the user.
\<close>

section \<open>The answer to a lookup\<close>

text \<open>The caller's struct and buffer hold the user.\<close>

definition shows_user :: "user \<Rightarrow> nss_status \<times> passwd \<times> byte list \<times> int \<Rightarrow> bool" where
  "shows_user u res \<longleftrightarrow> (case res of (st, pwd, buf, err) \<Rightarrow> st = NSS_STATUS_SUCCESS \<and>
     pw_uid pwd = u_uid u \<and> pw_gid pwd = u_gid u \<and> string_at buf (pw_name pwd) = Some (u_name u) \<and>
     string_at buf (pw_dir pwd) = Some (u_dir u) \<and> string_at buf (pw_shell pwd) = Some (u_shell u) \<and>
     string_at buf (pw_gecos pwd) = Some (u_gecos u))"

definition user_room :: "user \<Rightarrow> nat" where
  "user_room u = length (u_name u) + length (u_dir u) + length (u_shell u) + length (u_gecos u) + 4"

lemma passwd_view_shows:
  assumes "user_ok u" and "user_room u \<le> n" and "n \<le> length buf"
  obtains pwd' buf' where "passwd_view True (user_packet u) pwd buf 0 n err = (NSS_STATUS_SUCCESS, pwd', buf', err)"
    "shows_user u (NSS_STATUS_SUCCESS, pwd', buf', err)"
proof -
  let ?nm = "u_name u" and ?dir = "u_dir u" and ?shell = "u_shell u" and ?gecos = "u_gecos u"
  from assms(1) have nul: "0 \<notin> set ?nm" "0 \<notin> set ?dir" "0 \<notin> set ?shell" "0 \<notin> set ?gecos"
    by (simp_all add: user_ok_def string_ok_def)
  note view = passwd_view_packet [OF nul assms(2) [unfolded user_room_def] assms(3), of "u_uid u" "u_gid u" pwd err, folded user_packet_def]
  let ?b = "packed (?nm @ [0] @ ?dir @ [0] @ ?shell @ [0] @ ?gecos @ [0]) buf"
  have "string_at ?b (Some 0) = Some ?nm" "string_at ?b (Some (length (?nm @ [0]))) = Some ?dir"
    "string_at ?b (Some (length (?nm @ [0] @ ?dir @ [0]))) = Some ?shell"
    "string_at ?b (Some (length (?nm @ [0] @ ?dir @ [0] @ ?shell @ [0]))) = Some ?gecos"
    using string_at_packed [OF nul(1), of "[]" "?dir @ [0] @ ?shell @ [0] @ ?gecos @ [0]" buf]
      string_at_packed [OF nul(2), of "?nm @ [0]" "?shell @ [0] @ ?gecos @ [0]" buf]
      string_at_packed [OF nul(3), of "?nm @ [0] @ ?dir @ [0]" "?gecos @ [0]" buf]
      string_at_packed [OF nul(4), of "?nm @ [0] @ ?dir @ [0] @ ?shell @ [0]" "[]" buf] by simp_all
  then show ?thesis by (intro that [OF view]) (simp add: shows_user_def)
qed

interpretation users: nss_shown "srvd_nss_passwd_populate True" "user_view True" user_packet user_ok user_room shows_user
proof
  show "shows_user u (user_view True (user_packet u) pwd buf n err)" if "user_ok u" "user_room u \<le> n" "n \<le> length buf"
    for u n buf pwd err
    using passwd_view_shows [OF that, of pwd err] unfolding user_view_def by metis
qed

section \<open>The server's part\<close>

text \<open>A server that has a user database of these users.\<close>

definition serves_users :: "(u16 \<rightharpoonup> handler) \<Rightarrow> (u16 \<Rightarrow> service) \<Rightarrow> u16 \<Rightarrow> user list \<Rightarrow> bool" where
  "serves_users tbl app ty db \<longleftrightarrow> tbl ty \<noteq> None \<and> app ty = users_app db \<and> (\<forall>u \<in> set db. user_ok u)"

lemma serves_users_reply:
  "serves_users tbl app SRVD_SERVICE_NSS_PASSWD_REQUEST_ENTITIES db \<Longrightarrow>
     reply tbl app [(SRVD_SERVICE_NSS_PASSWD_REQUEST_ENTITIES, [be32 i])] = us.reply_for (entry_at db i)"
  "serves_users tbl app SRVD_SERVICE_NSS_PASSWD_REQUEST_UID db \<Longrightarrow>
     reply tbl app [(SRVD_SERVICE_NSS_PASSWD_REQUEST_UID, [be32 i])] = us.reply_for (find (\<lambda>u. u_uid u = i) db)"
  "serves_users tbl app SRVD_SERVICE_NSS_PASSWD_REQUEST_NAME db \<Longrightarrow>
     reply tbl app [(SRVD_SERVICE_NSS_PASSWD_REQUEST_NAME, [bs])] = us.reply_for (user_named db (cstr (terminated bs)))"
  by (auto simp: serves_users_def reply_def users_app_def database_app_def user_keys_def us.reply_for_def nss_types split: prod.splits)

end
