(* ===== verification/User_Properties.thy ===== *)
theory User_Properties
  imports User_Refine Nss_Properties
begin

text \<open>
  The whole system: a program asks the C library, the name service asks the server over a socket, a
  handler answers from its list of users, and the program gets the user in its own struct.
\<close>

section \<open>A small database for their use\<close>

definition demo_user :: user where
  "demo_user = \<lparr>u_name = [97, 98], u_uid = 5, u_gid = 6, u_dir = [47], u_shell = [115], u_gecos = []\<rparr>"

lemma demo_user_ok [simp]: "user_ok demo_user" "user_room demo_user = 8" "u_name demo_user = [97, 98]"
  by (simp_all add: demo_user_def user_ok_def string_ok_def user_room_def)

definition demo_users :: "handler node_store" where
  "demo_users = \<lparr>nodes = [0 \<mapsto> Some \<lparr>n_type = 701, n_handler = users_run [demo_user], n_next = Some 1\<rparr>,
     1 \<mapsto> Some \<lparr>n_type = 703, n_handler = users_run [demo_user], n_next = None\<rparr>], nbrk = 2, noom = (\<lambda>_. False)\<rparr>"

abbreviation demo_user_table :: "u16 \<rightharpoonup> handler" where
  "demo_user_table \<equiv> [703 \<mapsto> users_run [demo_user], 701 \<mapsto> users_run [demo_user]]"

lemma demo_users_rep: "registry_rep (monitor demo_sv, demo_users) demo_user_table"
  unfolding registry_rep_def registry_at_def
  by (auto simp: demo_sv_def demo_users_def node_is_def fun_eq_iff
      intro!: exI [of _ "[(0, 701, users_run [demo_user]), (1, 703, users_run [demo_user])]"])

lemma demo_users_served: "served demo_user_table (\<lambda>_. users_app [demo_user])"
  using users_run_implements [of "[demo_user]"] users_app_fits [of "[demo_user]"] by (auto simp: served_def split: if_splits)

lemma demo_serves: "serves_users demo_user_table (\<lambda>_. users_app [demo_user]) SRVD_SERVICE_NSS_PASSWD_REQUEST_ENTITIES [demo_user]"
  "serves_users demo_user_table (\<lambda>_. users_app [demo_user]) SRVD_SERVICE_NSS_PASSWD_REQUEST_NAME [demo_user]"
  by (simp_all add: serves_users_def nss_types)

text \<open>A server that runs the turns of its clients.\<close>

lemma demo_run_server:
  assumes "\<And>c. travels (rq c)" and "registry_rep (monitor demo_sv, ns) tbl" and "served tbl app"
  obtains ws' where "ran_server m demo_sv ns tbl app (demo_os (\<lambda>c. wire_packet (rq c))) ws'"
proof -
  have calm: "\<forall>c. harmless (peers (demo_os (\<lambda>c. wire_packet (rq c))) c)"
    using receive_wire [OF assms(1), where rest = "[]"] by (simp add: harmless_def)
  have "ready demo_sv (demo_os (\<lambda>c. wire_packet (rq c)))" by simp
  from execute_turns_live [OF _ _ this assms(2,3) calm, of demo_empty m]
  obtain hs' ws' where "execute_turns m demo_sv ns (demo_empty, demo_os (\<lambda>c. wire_packet (rq c))) = Some (hs', ws')" by auto
  then have "ran_server m demo_sv ns tbl app (demo_os (\<lambda>c. wire_packet (rq c))) ws'" unfolding ran_server_def
    by (intro conjI exI [of _ demo_empty] exI [of _ hs'] demo_ready assms(2,3) calm) simp_all
  then show ?thesis by (rule that)
qed

lemma demo_standing: "standing [] demo_cfs (demo_world (demo_os bs))"
proof (rule default_get_parses [of "w_store (demo_world (demo_os bs))" "w_conf (demo_world (demo_os bs))" "[47]" demo_items demo_cfs demo_clines 7 "[]"])
  fix d s L
  assume d: "srvd_conf_file_default_get [] (Some False) (w_conf (demo_world (demo_os bs))) demo_cfs (w_store (demo_world (demo_os bs))) =
      Some (True, Some True, d, s)" "file_at s (d_fconf d) [47] L" "conf_items L = rev (file_items demo_clines)"
    "updated (d_fconf d)" "updated_time (d_fconf d) = 7" "d_lock d = Unlocked"
  have "srvd_conf_file_default_get [] (Some False) d demo_cfs s = Some (True, Some True, d, s)"
    by (rule default_get_cached [OF d(2,6,4), of _ "length (file_text demo_clines)"])
       (use demo_clines_hold in \<open>simp_all add: d(5) holds_file_def\<close>)
  moreover have "conf_ready [] demo_cfs (demo_world (demo_os bs)) d s (map_of (rev (file_items demo_clines)))"
    using d(1-3) by (auto simp: conf_ready_def file_at_def)
  ultimately show ?thesis unfolding standing_def using demo_cpath
    by (intro conjI exI [of _ d] exI [of _ s] exI [of _ "map_of (rev (file_items demo_clines))"] exI [of _ "[47, 115]"])
       (simp_all add: SUN_PATH_LENGTH_def)
qed (simp_all del: One_nat_def)

section \<open>From the name service to the server and back\<close>

text \<open>C17. Walking through the users of a server, with both sides at work: the server answers \<open>m\<close> clients
  from a database, and a program calls \<open>setpwent\<close> and then \<open>getpwent_r\<close> \<open>m\<close> times, each call being
  one of these clients. Memory does not run out, and the caller's buffer has room for every user of
  the database. Every call returns; the calls show the users of the database in order, each whole and
  once, and after the last one they answer \<open>NOTFOUND\<close>. What the calls send is what the server
  received, and no object that the program had in memory before is changed.\<close>

theorem users_are_enumerated:
  assumes "ran_server m sv ns tbl app ws ws'"
    and "serves_users tbl app SRVD_SERVICE_NSS_PASSWD_REQUEST_ENTITIES db" and "length db < 4294967296"
    and "\<forall>k < m. asks ws k [(SRVD_SERVICE_NSS_PASSWD_REQUEST_ENTITIES, [be32 (of_nat (min k (length db)))])] \<and> joined ws ws' k x k"
    and "heap_ok (w_heap x)" and "\<forall>k. \<not> oom (w_heap x) k" and "standing dp fs x"
    and "\<forall>u \<in> set db. user_room u \<le> n" and "n \<le> length buf" and "key_data t = None" and "\<not> off_oom t (off_brk t)"
  shows "\<exists>t1 rs t2 x'. nss_srvd_setpwent so t = Some (NSS_STATUS_SUCCESS, t1) \<and>
     nss_getents (nss_srvd_getpwent_r dp fs True) pwd buf n err m t1 x = Some (rs, t2, x') \<and> length rs = m \<and>
     walks shows_user db rs \<and> modifies {} {} {} {} (w_heap x) (w_heap x') \<and>
     (\<forall>k < m. sent (w_os x') (fd_brk (w_os x) + k) = inbox (peers ws (fd_brk ws + k)))"
  unfolding nss_srvd_setpwent_def nss_srvd_getpwent_r_def
  by (rule users.entries_walked [OF assms(1,4) serves_users_reply(1) [OF assms(2)] _ assms(9,3,5-7,10,11)])
     (use assms(2,8) in \<open>simp add: serves_users_def\<close>)

theorem users_are_enumerated_witness:
  "\<exists>bs t1 rs t2 x'. nss_srvd_setpwent 0 ((demo_ent 0)\<lparr>key_data := None\<rparr>) = Some (NSS_STATUS_SUCCESS, t1) \<and>
     nss_getents (nss_srvd_getpwent_r [] demo_cfs True) fresh_pwd (replicate 9 7) 8 0 2 t1 (demo_world (demo_os bs)) = Some (rs, t2, x') \<and>
     length rs = 2 \<and> shows_user demo_user (rs ! 0) \<and> fst (rs ! 1) = NSS_STATUS_NOTFOUND"
proof -
  let ?rq = "\<lambda>c. [(SRVD_SERVICE_NSS_PASSWD_REQUEST_ENTITIES, [be32 (of_nat (min (c - 4) 1))])]"
  let ?t = "(demo_ent 0)\<lparr>key_data := None\<rparr>" and ?x = "\<lambda>ws. demo_world (demo_os (sent ws))"
  obtain ws' where run: "ran_server 2 demo_sv demo_users demo_user_table (\<lambda>_. users_app [demo_user]) (demo_os (\<lambda>c. wire_packet (?rq c))) ws'"
    by (rule demo_run_server [of ?rq, OF number_travels demo_users_rep demo_users_served])
  have t: "key_data ?t = None" "\<not> off_oom ?t (off_brk ?t)" by (simp_all add: demo_ent_def)
  have "\<exists>t1 rs t2 x'. nss_srvd_setpwent 0 ?t = Some (NSS_STATUS_SUCCESS, t1) \<and>
     nss_getents (nss_srvd_getpwent_r [] demo_cfs True) fresh_pwd (replicate 9 7) 8 0 2 t1 (?x ws') = Some (rs, t2, x') \<and>
     length rs = 2 \<and> walks shows_user [demo_user] rs \<and> modifies {} {} {} {} (w_heap (?x ws')) (w_heap x') \<and>
     (\<forall>k < 2. sent (w_os x') (fd_brk (w_os (?x ws')) + k) =
        inbox (peers (demo_os (\<lambda>c. wire_packet (?rq c))) (fd_brk (demo_os (\<lambda>c. wire_packet (?rq c))) + k)))"
    by (rule users_are_enumerated [OF run demo_serves(1) _ _ _ _ demo_standing _ _ t]) (simp_all add: asks_def joined_def)
  then obtain t1 rs t2 x' where r: "nss_srvd_setpwent 0 ?t = Some (NSS_STATUS_SUCCESS, t1)"
    "nss_getents (nss_srvd_getpwent_r [] demo_cfs True) fresh_pwd (replicate 9 7) 8 0 2 t1 (?x ws') = Some (rs, t2, x')"
    "length rs = 2" "walks shows_user [demo_user] rs" by blast
  from r(3,4) [unfolded walks_def] have "shows_user demo_user (rs ! 0)" "fst (rs ! 1) = NSS_STATUS_NOTFOUND"
    by (auto dest!: spec [of _ 0])
  with r(1-3) show ?thesis by blast
qed

text \<open>C18. Looking a user up by name, with both sides at work: one of the clients of a server with a user
  database is a program that asks for a name. The name is followed by a NUL in memory that is as
  long as the longest login name and one, as the function requires. The program gets the first user
  of the database with this name, whole, in its struct, or \<open>NOTFOUND\<close> when there is none.\<close>

theorem getpwnam_finds_user:
  assumes "ran_server m sv ns tbl app ws ws'" and "k < m"
    and "serves_users tbl app SRVD_SERVICE_NSS_PASSWD_REQUEST_NAME db"
    and "asks ws k [(SRVD_SERVICE_NSS_PASSWD_REQUEST_NAME, [take (lnm + 1) (nm @ 0 # pad)])]" and "joined ws ws' k x 0"
    and "heap_ok (w_heap x)" and "\<forall>k. \<not> oom (w_heap x) k" and "reaches dp fs x"
    and "0 \<notin> set nm" and "length nm \<le> lnm" and "lnm \<le> length nm + length pad" and "lnm < 65535"
    and "\<forall>u \<in> set db. user_room u \<le> n" and "n \<le> length buf"
  shows "\<exists>st pwd' buf' err' x'. nss_srvd_getpwnam_r lnm dp fs True (Some (nm @ 0 # pad)) pwd buf n err x =
       Some (st, pwd', buf', err', x') \<and>
     (case find (\<lambda>u. u_name u = nm) db of None \<Rightarrow> st = NSS_STATUS_NOTFOUND | Some u \<Rightarrow> shows_user u (st, pwd', buf', err')) \<and>
     sent (w_os x') (fd_brk (w_os x)) = inbox (peers ws (fd_brk ws + k)) \<and> modifies {} {} {} {} (w_heap x) (w_heap x')"
proof -
  have fit: "user_named db s = Some v \<Longrightarrow> user_ok v \<and> user_room v \<le> n" for s v
    using assms(3,13) by (auto simp: serves_users_def user_named_def find_Some_iff)
  from users.name_found [OF assms(1,2,4) serves_users_reply(3) [OF assms(3)] fit assms(14,6-8,5,9-12), where e = pwd and err = err]
  show ?thesis by (simp only: nss_srvd_getpwnam_r_def finds_def user_named_def fst_conv)
qed

theorem getpwnam_finds_user_witness:
  "\<exists>bs st pwd' buf' err' x'. nss_srvd_getpwnam_r 3 [] demo_cfs True (Some [97, 98, 0, 7]) fresh_pwd (replicate 9 7) 8 0
       (demo_world (demo_os bs)) = Some (st, pwd', buf', err', x') \<and> shows_user demo_user (st, pwd', buf', err')"
proof -
  let ?rq = "[(SRVD_SERVICE_NSS_PASSWD_REQUEST_NAME, [[97, 98, 0, 7]])]" and ?x = "\<lambda>ws. demo_world (demo_os (sent ws))"
  have tr: "travels ?rq" by (simp add: travels_def counts_fit_def entries_fit_def length_wire_field)
  obtain ws' where run: "ran_server 1 demo_sv demo_users demo_user_table (\<lambda>_. users_app [demo_user]) (demo_os (\<lambda>c. wire_packet ?rq)) ws'"
    by (rule demo_run_server [of "\<lambda>_. ?rq", OF tr demo_users_rep demo_users_served])
  have "\<exists>st pwd' buf' err' x'. nss_srvd_getpwnam_r 3 [] demo_cfs True (Some ([97, 98] @ 0 # [7])) fresh_pwd (replicate 9 7) 8 0
       (?x ws') = Some (st, pwd', buf', err', x') \<and>
     (case find (\<lambda>u. u_name u = [97, 98]) [demo_user] of None \<Rightarrow> st = NSS_STATUS_NOTFOUND | Some u \<Rightarrow> shows_user u (st, pwd', buf', err')) \<and>
     sent (w_os x') (fd_brk (w_os (?x ws'))) = inbox (peers (demo_os (\<lambda>c. wire_packet ?rq)) (fd_brk (demo_os (\<lambda>c. wire_packet ?rq)) + 0)) \<and>
     modifies {} {} {} {} (w_heap (?x ws')) (w_heap x')"
    by (rule getpwnam_finds_user [OF run _ demo_serves(2) _ _ _ _ demo_reaches]) (simp_all add: asks_def joined_def)
  then show ?thesis by (elim exE conjE) (intro exI conjI, simp, simp)
qed

text \<open>And by number.\<close>

theorem getpwuid_finds_user:
  assumes "ran_server m sv ns tbl app ws ws'" and "k < m"
    and "serves_users tbl app SRVD_SERVICE_NSS_PASSWD_REQUEST_UID db"
    and "asks ws k [(SRVD_SERVICE_NSS_PASSWD_REQUEST_UID, [be32 uid])]" and "joined ws ws' k x 0"
    and "heap_ok (w_heap x)" and "\<forall>k. \<not> oom (w_heap x) k" and "reaches dp fs x"
    and "\<forall>u \<in> set db. user_room u \<le> n" and "n \<le> length buf"
  shows "\<exists>st pwd' buf' err' x'. nss_srvd_getpwuid_r dp fs True uid pwd buf n err x = Some (st, pwd', buf', err', x') \<and>
     (case find (\<lambda>u. u_uid u = uid) db of None \<Rightarrow> st = NSS_STATUS_NOTFOUND | Some u \<Rightarrow> shows_user u (st, pwd', buf', err')) \<and>
     sent (w_os x') (fd_brk (w_os x)) = inbox (peers ws (fd_brk ws + k)) \<and> modifies {} {} {} {} (w_heap x) (w_heap x')"
proof -
  have fit: "find (\<lambda>u. u_uid u = uid) db = Some v \<Longrightarrow> user_ok v \<and> user_room v \<le> n" for v
    using assms(3,9) by (auto simp: serves_users_def find_Some_iff)
  from users.number_found [OF assms(1,2,4) serves_users_reply(2) [OF assms(3)] fit assms(10,6-8,5), where e = pwd and err = err]
  show ?thesis by (fastforce simp: nss_srvd_getpwuid_r_def finds_def split: option.splits)
qed

end
