(* ===== verification/Alias_Service.thy ===== *)
theory Alias_Service
  imports Nss_Exchange Alias_Record
begin

text \<open>
  A database of mail aliases behind the server: its entries, the promise of a service for them, and a
  handler that keeps it with the getters and setters of \<open>lib/srvd/libsrvd/service/nss/aliases.c\<close>. The
  members are added one by one; an alias without members has no field for them.
\<close>

section \<open>Adding members\<close>

text \<open>The field of a type, at the end of the packet or not there yet.\<close>

definition tail_field :: "u16 \<Rightarrow> byte list list \<Rightarrow> spacket" where
  "tail_field ty es = (if es = [] then [] else [(ty, es)])"

lemma member_field:
  assumes ok: "heap_ok h" and he: "held A h p (sp @ tail_field ty es)" and new: "ty \<notin> fst ` set sp" and mem: "\<forall>k. \<not> oom h k"
  obtains h1 T T1 a es' where "srvd_protocol_packet_field_get_or_add (Some p) ty (Some None) h = Some (True, Some (Some a), h1)"
    "packet_at Unlocked h1 p (T1 @ [(a, ty, es')])" "modifies {p} A {} {} h h1" "grown h T (T1 @ [(a, ty, es')])"
    "abs_packet T1 = sp" "map e_bytes es' = es"
    "f_addr ` set T \<subseteq> A" "set (own_ents T) \<subseteq> A" "set (own_blks T) \<subseteq> A"
proof -
  from he obtain T where T: "packet_at Unlocked h p T" "abs_packet T = sp @ tail_field ty es" "f_addr ` set T \<subseteq> A"
    "set (own_ents T) \<subseteq> A" "set (own_blks T) \<subseteq> A" by (auto simp: held_def)
  obtain r out h1 U where g: "srvd_protocol_packet_field_get_or_add (Some p) ty (Some None) h = Some (r, out, h1)"
    "packet_at Unlocked h1 p U" "modifies {p} (f_addr ` set T) {} {} h h1" "adder.get_or_post h ty T (r, out) h1 U"
    by (rule get_or_add_spec [OF ok T(1)])
  have r: "r" using g(4) no_oom_never [of h h1] mem by (simp add: adder.get_or_post_def)
  have m: "modifies {p} A {} {} h h1" by (rule modifies_mono [OF g(3)]) (use T(3) in auto)
  show ?thesis
  proof (cases "es = []")
    case True
    then have "abs_packet T = sp" using T(2) by (simp add: tail_field_def)
    then have "find (\<lambda>t. f_ty t = ty) T = None" using new set_fst_abs [of T] by (force simp: find_None_iff)
    with g(4) r obtain a where a: "brk h \<le> a" "out = Some (Some a)" "U = T @ [(a, ty, [])]"
      by (auto simp: adder.get_or_post_def)
    show ?thesis
      by (rule that [of a h1 T "[]" T]) (use g(1,2) r m a T(3-5) \<open>abs_packet T = sp\<close> True in \<open>auto simp: grown_def\<close>)
  next
    case False
    then obtain T1 t where t: "T = T1 @ [t]" "abs_packet T1 = sp" "abs_field t = (ty, es)"
      using T(2) by (auto simp: tail_field_def abs_packet_def map_eq_append_conv)
    obtain a es' where t': "t = (a, ty, es')" "map e_bytes es' = es" using t(3) by (cases t) auto
    have "find (\<lambda>t. f_ty t = ty) T1 = None" using new t(2) set_fst_abs [of T1] by (force simp: find_None_iff)
    then have "find (\<lambda>t. f_ty t = ty) T = Some t" using t(1) t'(1) by (simp add: find_skip)
    with g(4) have a: "out = Some (Some a)" "U = T" using t'(1) by (auto simp: adder.get_or_post_def)
    show ?thesis
      by (rule that [of a h1 T1 es' T]) (use g(1,2) r m a t t' T(3-5) in \<open>auto simp: grown_def\<close>)
  qed
qed

lemma member_added:
  assumes ans: "answering h0 h p (sp @ tail_field SRVD_SERVICE_NSS_ALIASES_RESPONSE_MEMBERS es)"
    and new: "SRVD_SERVICE_NSS_ALIASES_RESPONSE_MEMBERS \<notin> fst ` set sp" and s: "string_ok s" and r: "r_packet r = Some p"
  obtains h' where "srvd_service_nss_aliases_response_member_add (Some r) (Some (s @ [0])) (length s + 1) h = Some (True, h')"
    "answering h0 h' p (sp @ tail_field SRVD_SERVICE_NSS_ALIASES_RESPONSE_MEMBERS (es @ [s @ [0]]))"
proof -
  let ?ty = SRVD_SERVICE_NSS_ALIASES_RESPONSE_MEMBERS and ?A = "{brk h0..<brk h}"
  from ans have a: "heap_ok h" "held ?A h p (sp @ tail_field ?ty es)" "\<forall>k. \<not> oom h k" "modifies {p} {} {} {} h0 h"
    by (auto simp: answering_def)
  note pay = string_payload [OF s]
  obtain h1 T T1 b es' where g: "srvd_protocol_packet_field_get_or_add (Some p) ?ty (Some None) h = Some (True, Some (Some b), h1)"
    "packet_at Unlocked h1 p (T1 @ [(b, ?ty, es')])" "modifies {p} ?A {} {} h h1" "grown h T (T1 @ [(b, ?ty, es')])"
    "abs_packet T1 = sp" "map e_bytes es' = es"
    "f_addr ` set T \<subseteq> ?A" "set (own_ents T) \<subseteq> ?A" "set (own_blks T) \<subseteq> ?A"
    by (rule member_field [OF a(1,2) new a(3)])
  have ok1: "heap_ok h1" and mem1: "\<And>k. \<not> oom h1 k" and br1: "brk h \<le> brk h1"
    using g(3) a(3) by (auto simp: modifies_def)
  obtain x h2 es'' where e: "srvd_protocol_packet_field_entry_add (Some b) (of_nat (length s + 1)) (Some (s @ [0])) h1 = Some (x, h2)"
    "modifies {} {b} (e_addr ` set es') {} h1 h2" "x \<longleftrightarrow> no_oom h1 h2" "packet_at Unlocked h2 p (T1 @ (b, ?ty, es'') # [])"
    "if x then (\<exists>e. es'' = es' @ [e] \<and> e_bytes e = payload (of_nat (length s + 1)) (Some (s @ [0])) \<and> brk h1 \<le> e_addr e \<and>
        (\<forall>b. e_blk e = Some b \<longrightarrow> brk h1 \<le> b)) else es'' = es'"
    by (rule entry_add_in_packet [OF ok1 g(2) pay(1)])
  have x: "x" using e(3) no_oom_never mem1 by blast
  have load: "payload (of_nat (length s + 1)) (Some (s @ [0])) = s @ [0]"
    using pay(2) by (simp add: payload_def del: of_nat_add of_nat_Suc take_append)
  from e(5) [unfolded load] x obtain n where n: "es'' = es' @ [n]" "e_bytes n = s @ [0]" "brk h1 \<le> e_addr n" "\<forall>b. e_blk n = Some b \<longrightarrow> brk h1 \<le> b"
    by (simp only: if_True) blast
  have grow: "grown h T (T1 @ [(b, ?ty, es'')])"
    using g(4) n br1 by (cases "e_blk n") (auto simp: grown_def)
  have abs: "abs_packet (T1 @ [(b, ?ty, es'')]) = sp @ tail_field ?ty (es @ [s @ [0]])"
    using g(5,6) n(1,2) by (simp add: tail_field_def)
  have ok2: "heap_ok h2" and mem2: "\<forall>k. \<not> oom h2 k" and br2: "brk h1 \<le> brk h2"
    using e(2) mem1 by (auto simp: modifies_def)
  have "held (?A \<union> {brk h..<brk h2}) h2 p (sp @ tail_field ?ty (es @ [s @ [0]]))"
    using held_grown [OF e(4) grow ok2 g(7-9)] unfolding abs .
  then have held: "held {brk h0..<brk h2} h2 p (sp @ tail_field ?ty (es @ [s @ [0]]))"
    by (rule held_mono) (use br1 br2 a(4) in \<open>auto simp: modifies_def\<close>)
  have own: "brk h0 \<le> b" "\<forall>c \<in> e_addr ` set es'. brk h0 \<le> c"
    using g(4,7,8) a(4) by (fastforce simp: grown_def modifies_def)+
  have "modifies ({p} \<union> {}) ({} \<union> (?A \<union> {b})) ({} \<union> e_addr ` set es') ({} \<union> {}) h0 h2"
    by (rule modifies_trans [OF modifies_mono [OF a(4)] modifies_trans [OF modifies_mono [OF g(3)] modifies_mono [OF e(2)]]]) auto
  then have "modifies {p} {} {} {} h0 h2" by (rule modifies_weaken_new) (use own in auto)
  with held ok2 mem2 have "answering h0 h2 p (sp @ tail_field ?ty (es @ [s @ [0]]))" by (simp add: answering_def)
  moreover have "srvd_service_nss_aliases_response_member_add (Some r) (Some (s @ [0])) (length s + 1) h = Some (True, h2)"
    using g(1) e(1) r x by (simp add: srvd_service_nss_aliases_response_member_add_def del: of_nat_add of_nat_Suc)
  ultimately show ?thesis by (rule that [rotated])
qed

section \<open>The promise\<close>

record mail_alias =
  a_name :: "byte list"
  a_members :: "byte list list"
  a_local :: u8

definition alias_fields_of :: "mail_alias \<Rightarrow> spacket" where
  "alias_fields_of a = (SRVD_SERVICE_NSS_ALIASES_RESPONSE_NAME, [a_name a @ [0]]) #
     tail_field SRVD_SERVICE_NSS_ALIASES_RESPONSE_MEMBERS (map (\<lambda>m. m @ [0]) (a_members a)) @
     [(SRVD_SERVICE_NSS_ALIASES_RESPONSE_LOCAL, [[a_local a]])]"

text \<open>Its strings, their number and its size are within what the wire format can carry.\<close>

definition alias_ok :: "mail_alias \<Rightarrow> bool" where
  "alias_ok a \<longleftrightarrow> string_ok (a_name a) \<and> (\<forall>m \<in> set (a_members a). string_ok m) \<and> length (a_members a) < 65536 \<and>
     length (wire_body (status_field SRVD_SERVICE_RESPONSE_SUCCESS # alias_fields_of a)) < 4294967296"

definition alias_named :: "mail_alias list \<Rightarrow> byte list \<Rightarrow> mail_alias option" where
  "alias_named db s = find (\<lambda>a. a_name a = s) db"

definition aliases_app :: "mail_alias list \<Rightarrow> service" where
  "aliases_app db = database_app alias_fields_of [(SRVD_SERVICE_NSS_ALIASES_REQUEST_ENTITIES, entry_at db)]
     SRVD_SERVICE_NSS_ALIASES_REQUEST_NAME (alias_named db)"

section \<open>A handler\<close>

primrec add_members :: "byte list list \<Rightarrow> response \<Rightarrow> heap \<Rightarrow> heap option" where
  "add_members [] r h = Some h"
| "add_members (m # ms) r h = do {
     (_, h) \<leftarrow> srvd_service_nss_aliases_response_member_add (Some r) (Some (m @ [0])) (length m + 1) h;
     add_members ms r h }"

definition set_alias :: "mail_alias \<Rightarrow> response \<Rightarrow> heap \<Rightarrow> heap option" where
  "set_alias a r h = do {
     (_, h) \<leftarrow> srvd_service_nss_aliases_response_name_set (Some r) (Some (a_name a @ [0])) (length (a_name a) + 1) h;
     h \<leftarrow> add_members (a_members a) r h;
     (_, h) \<leftarrow> srvd_service_nss_aliases_response_local_set (Some r) (a_local a) h;
     Some h }"

definition aliases_run :: "mail_alias list \<Rightarrow> handler" where
  "aliases_run db q r h = do {
     (ok, v) \<leftarrow> srvd_service_nss_aliases_request_entities_get (Some q) (Some 0) h;
     if ok then give set_alias (entry_at db (the v)) r h
     else do {
       (ok, p, h) \<leftarrow> srvd_service_nss_aliases_request_name_get (Some q) (Some None) h;
       if \<not> ok then Some (r\<lparr>r_status := SRVD_SERVICE_RESPONSE_FAIL\<rparr>, h)
       else do {
         nm \<leftarrow> Option.bind (the p) (blks h);
         (_, _, h) \<leftarrow> srvd_service_nss_aliases_request_name_free (Some q) p h;
         give set_alias (alias_named db (cstr nm)) r h } } }"

lemma aliases_run_database:
  "aliases_run db = database_run set_alias SRVD_SERVICE_NSS_ALIASES_REQUEST_NAME (alias_named db)
     [(SRVD_SERVICE_NSS_ALIASES_REQUEST_ENTITIES, entry_at db)]"
  by (intro ext) (unfold aliases_run_def database_run.simps fst_conv snd_conv srvd_service_nss_aliases_request_entities_get_def
      srvd_service_nss_aliases_request_name_get_def srvd_service_nss_aliases_request_name_free_def, rule refl)

lemma add_members_spec:
  assumes "answering h0 h p (sp @ tail_field SRVD_SERVICE_NSS_ALIASES_RESPONSE_MEMBERS es)"
    and "SRVD_SERVICE_NSS_ALIASES_RESPONSE_MEMBERS \<notin> fst ` set sp" and "\<forall>m \<in> set ms. string_ok m" and "r_packet r = Some p"
  shows "\<exists>h'. add_members ms r h = Some h' \<and>
     answering h0 h' p (sp @ tail_field SRVD_SERVICE_NSS_ALIASES_RESPONSE_MEMBERS (es @ map (\<lambda>m. m @ [0]) ms))"
  using assms(1,3)
proof (induction ms arbitrary: es h)
  case (Cons m ms)
  obtain h1 where h1: "srvd_service_nss_aliases_response_member_add (Some r) (Some (m @ [0])) (length m + 1) h = Some (True, h1)"
    "answering h0 h1 p (sp @ tail_field SRVD_SERVICE_NSS_ALIASES_RESPONSE_MEMBERS (es @ [m @ [0]]))"
    by (rule member_added [OF Cons.prems(1) assms(2) _ assms(4), of m]) (use Cons.prems(2) in auto)
  from Cons.IH [OF h1(2)] Cons.prems(2) h1(1) show ?case by (simp del: of_nat_add of_nat_Suc)
qed simp

lemma set_alias_spec:
  assumes "answering h0 h p []" and r: "r_packet r = Some p" and ok: "alias_ok a"
  shows "\<exists>h'. set_alias a r h = Some h' \<and> answering h0 h' p (alias_fields_of a)"
proof -
  let ?nm = "(SRVD_SERVICE_NSS_ALIASES_RESPONSE_NAME, [a_name a @ [0]])"
  let ?sp = "?nm # tail_field SRVD_SERVICE_NSS_ALIASES_RESPONSE_MEMBERS (map (\<lambda>m. m @ [0]) (a_members a))"
  have s: "string_ok (a_name a)" "\<forall>m \<in> set (a_members a). string_ok m" using ok by (simp_all add: alias_ok_def)
  obtain h1 where h1: "srvd_service_nss_aliases_response_name_set (Some r) (Some (a_name a @ [0])) (length (a_name a) + 1) h = Some (True, h1)"
    "answering h0 h1 p ([] @ [?nm])"
    unfolding srvd_service_nss_aliases_response_name_set_def by (rule set_string [OF assms(1) _ s(1) r]) simp
  have "answering h0 h1 p ([?nm] @ tail_field SRVD_SERVICE_NSS_ALIASES_RESPONSE_MEMBERS [])" using h1(2) by (simp add: tail_field_def)
  from add_members_spec [OF this _ s(2) r] obtain h2 where h2: "add_members (a_members a) r h1 = Some h2" "answering h0 h2 p ?sp"
    by (auto simp: nss_types)
  have word: "payload_ok 1 (Some [a_local a])" by simp
  obtain h3 where "srvd_protocol_packet_field_append (Some p) SRVD_SERVICE_NSS_ALIASES_RESPONSE_LOCAL 1 (Some [a_local a]) h2 = Some (True, h3)"
    "answering h0 h3 p (?sp @ [(SRVD_SERVICE_NSS_ALIASES_RESPONSE_LOCAL, [take (unat (1 :: u16)) [a_local a]])])"
    by (rule answering_append [OF h2(2) _ word]) (auto simp: nss_types tail_field_def)
  with h1(1) h2(1) r show ?thesis
    by (simp add: set_alias_def alias_fields_of_def srvd_service_nss_aliases_response_local_set_def
        srvd_protocol_packet_field_append_uint8_def del: of_nat_add of_nat_Suc)
qed

lemma alias_travels: "alias_ok a \<Longrightarrow> travels (status_field SRVD_SERVICE_RESPONSE_SUCCESS # alias_fields_of a)"
  by (auto simp: travels_def status_field_def alias_fields_of_def tail_field_def nss_types service_codes counts_fit_def
      entries_fit_def alias_ok_def string_ok_def be16_def)

interpretation ma: entry_setters alias_fields_of alias_ok set_alias
  by unfold_locales (use alias_travels set_alias_spec in auto)

lemma aliases_found: "\<forall>a \<in> set db. alias_ok a \<Longrightarrow>
    ma.finds_ok [(SRVD_SERVICE_NSS_ALIASES_REQUEST_ENTITIES, entry_at db)] (alias_named db)"
  by (auto simp: ma.finds_ok_def alias_named_def entry_at_def find_Some_iff split: if_splits)

theorem aliases_run_implements: "\<forall>a \<in> set db. alias_ok a \<Longrightarrow> implements (aliases_run db) (aliases_app db)"
  unfolding aliases_run_database aliases_app_def by (rule ma.database_run_implements [OF aliases_found])

lemma aliases_app_fits: "\<forall>a \<in> set db. alias_ok a \<Longrightarrow> answers_fit (aliases_app db)"
  unfolding aliases_app_def by (rule ma.database_app_fits [OF aliases_found])

end
