(* ===== verification/Alias_Properties.thy ===== *)
theory Alias_Properties
  imports Alias_Service User_Properties
begin

text \<open>
  Mail aliases through the whole system: a program asks for an alias by name or walks through all of
  them, the server answers from a list of aliases, and the program gets them in its own struct.
\<close>

section \<open>What a program gets\<close>

text \<open>The caller's struct and buffer hold the alias. The pointers to the members are set when there are any.\<close>

definition shows_alias :: "mail_alias \<Rightarrow> nss_status \<times> aliasent \<times> byte list \<times> int \<Rightarrow> bool" where
  "shows_alias a res \<longleftrightarrow> (case res of (st, ae, buf, err) \<Rightarrow> st = NSS_STATUS_SUCCESS \<and>
     string_at buf (alias_name ae) = Some (a_name a) \<and> alias_local ae = ucast (a_local a) \<and>
     (a_members a \<noteq> [] \<longrightarrow> alias_members_len ae = length (a_members a) \<and>
        (\<exists>at ps. alias_members ae = Some (at, ps) \<and> map (string_at buf) ps = map Some (a_members a))))"

definition alias_room :: "mail_alias \<Rightarrow> nat" where
  "alias_room a = length (a_name a) + 1 + length (a_members a) * POINTER_SIZE + sum_list (map (\<lambda>m. length m + 1) (a_members a))"

lemma reads_string_at:
  assumes "reads buf n p s"
  shows "string_at buf p = Some s"
proof -
  from assms obtain k where k: "p = Some k" "leads_to buf n k" "cstr (drop k (take n buf)) = s" by (auto simp: reads_def)
  then have "k \<le> length (take n buf)" by (metis drop_all empty_iff leads_to_def list.set(1) nat_le_linear)
  then have "drop k buf = drop k (take n buf) @ drop n buf"
    by (metis append_take_drop_id drop_append diff_is_0_eq drop_0)
  then show ?thesis using k cstr_more by (simp add: string_at_def leads_to_def)
qed

lemma reads_strings_at: "list_all2 (reads buf n) ps ms \<Longrightarrow> map (string_at buf) ps = map Some ms"
  by (induction rule: list_all2_induct) (simp_all add: reads_string_at)

text \<open>An alias with members is the packet whose reading is known already; one without has two fields.\<close>

lemma alias_fields_members: "a_members a \<noteq> [] \<Longrightarrow> alias_fields_of a = alias_packet (a_name a) (a_members a) (a_local a)"
  by (simp add: alias_fields_of_def tail_field_def alias_packet_def)

lemma memberless_view:
  assumes "alias_ok a" and "a_members a = []" and "alias_room a \<le> n" and "n \<le> length buf"
  shows "mail_view (alias_fields_of a) ae buf n err = (NSS_STATUS_SUCCESS, ae\<lparr>alias_name := Some 0, alias_local := ucast (a_local a)\<rparr>,
     packed (a_name a @ [0]) buf, err)"
proof -
  have nul: "0 \<notin> set (a_name a)" using assms(1) by (simp add: alias_ok_def string_ok_def)
  have fit: "length (a_name a) + 1 \<le> n" using assms(3) by (simp add: alias_room_def)
  then have "view_string [a_name a @ [0]] buf 0 n = Inr (0, packed (a_name a @ [0]) buf, length (a_name a) + 1)"
    using assms(4) terminated_string [OF nul] write_at_packed [of "[]" "a_name a @ [0]" buf] by (simp add: view_string_def packed_Nil)
  then show ?thesis using assms(2)
    by (simp add: mail_view_def alias_fields_of_def tail_field_def alias_view_field_def nss_types set_low_byte_zero)
qed

lemma alias_shown:
  assumes "alias_ok a" and "alias_room a \<le> n" and "n \<le> length buf"
  shows "shows_alias a (mail_view (alias_fields_of a) ae buf n err)"
proof (cases "a_members a = []")
  case True
  have nul: "0 \<notin> set (a_name a)" using assms(1) by (simp add: alias_ok_def string_ok_def)
  show ?thesis unfolding memberless_view [OF assms(1) True assms(2,3)]
    using True string_at_packed [OF nul, of "[]" "[]" buf] by (simp add: shows_alias_def)
next
  case False
  have nul: "0 \<notin> set (a_name a)" "\<forall>m \<in> set (a_members a). 0 \<notin> set m" using assms(1) by (auto simp: alias_ok_def string_ok_def)
  obtain ps buf' where v: "alias_view (alias_packet (a_name a) (a_members a) (a_local a)) (ae\<lparr>alias_local := 0\<rparr>) buf 0 n err =
       (NSS_STATUS_SUCCESS, (ae\<lparr>alias_local := 0\<rparr>)\<lparr>alias_name := Some 0, alias_members_len := length (a_members a),
          alias_members := Some (length (a_name a) + 1, ps), alias_local := ucast (a_local a)\<rparr>, buf', err)"
    "reads buf' n (Some 0) (a_name a)" "list_all2 (reads buf' n) ps (a_members a)"
    using alias_view_packet [OF nul assms(2) [unfolded alias_room_def] assms(3), of "ae\<lparr>alias_local := 0\<rparr>" "a_local a" err]
    by auto
  from v(1) show ?thesis unfolding mail_view_def alias_fields_members [OF False]
    using reads_string_at [OF v(2)] reads_strings_at [OF v(3)] by (simp add: shows_alias_def)
qed

interpretation aliases: nss_shown srvd_nss_aliases_populate mail_view alias_fields_of alias_ok alias_room shows_alias
  by unfold_locales (rule alias_shown)

section \<open>The server's part\<close>

definition serves_aliases :: "(u16 \<rightharpoonup> handler) \<Rightarrow> (u16 \<Rightarrow> service) \<Rightarrow> u16 \<Rightarrow> mail_alias list \<Rightarrow> bool" where
  "serves_aliases tbl app ty db \<longleftrightarrow> tbl ty \<noteq> None \<and> app ty = aliases_app db \<and> (\<forall>a \<in> set db. alias_ok a)"

lemma serves_aliases_reply:
  "serves_aliases tbl app SRVD_SERVICE_NSS_ALIASES_REQUEST_ENTITIES db \<Longrightarrow>
     reply tbl app [(SRVD_SERVICE_NSS_ALIASES_REQUEST_ENTITIES, [be32 i])] = ma.reply_for (entry_at db i)"
  "serves_aliases tbl app SRVD_SERVICE_NSS_ALIASES_REQUEST_NAME db \<Longrightarrow>
     reply tbl app [(SRVD_SERVICE_NSS_ALIASES_REQUEST_NAME, [bs])] = ma.reply_for (alias_named db (cstr (terminated bs)))"
  by (auto simp: serves_aliases_def reply_def aliases_app_def database_app_def ma.reply_for_def nss_types split: prod.splits)

section \<open>A small database for their use\<close>

definition demo_alias :: mail_alias where
  "demo_alias = \<lparr>a_name = [97], a_members = [[98, 99], [100]], a_local = 1\<rparr>"

lemma demo_alias_ok [simp]: "alias_ok demo_alias" "alias_room demo_alias = 23" "a_name demo_alias = [97]"
  by (simp_all add: demo_alias_def alias_ok_def string_ok_def alias_room_def POINTER_SIZE_def alias_fields_of_def tail_field_def
      length_wire_field status_field_def be16_def)

definition demo_aliases :: "handler node_store" where
  "demo_aliases = \<lparr>nodes = [0 \<mapsto> Some \<lparr>n_type = 101, n_handler = aliases_run [demo_alias], n_next = Some 1\<rparr>,
     1 \<mapsto> Some \<lparr>n_type = 102, n_handler = aliases_run [demo_alias], n_next = None\<rparr>], nbrk = 2, noom = (\<lambda>_. False)\<rparr>"

abbreviation demo_alias_table :: "u16 \<rightharpoonup> handler" where
  "demo_alias_table \<equiv> [102 \<mapsto> aliases_run [demo_alias], 101 \<mapsto> aliases_run [demo_alias]]"

lemma demo_aliases_rep: "registry_rep (monitor demo_sv, demo_aliases) demo_alias_table"
  unfolding registry_rep_def registry_at_def
  by (auto simp: demo_sv_def demo_aliases_def node_is_def fun_eq_iff
      intro!: exI [of _ "[(0, 101, aliases_run [demo_alias]), (1, 102, aliases_run [demo_alias])]"])

lemma demo_aliases_served: "served demo_alias_table (\<lambda>_. aliases_app [demo_alias])"
  using aliases_run_implements [of "[demo_alias]"] aliases_app_fits [of "[demo_alias]"] by (auto simp: served_def split: if_splits)

lemma demo_serves_aliases:
  "serves_aliases demo_alias_table (\<lambda>_. aliases_app [demo_alias]) SRVD_SERVICE_NSS_ALIASES_REQUEST_ENTITIES [demo_alias]"
  "serves_aliases demo_alias_table (\<lambda>_. aliases_app [demo_alias]) SRVD_SERVICE_NSS_ALIASES_REQUEST_NAME [demo_alias]"
  by (simp_all add: serves_aliases_def nss_types)

section \<open>Properties\<close>

text \<open>C19. Looking a mail alias up by name, with both sides at work: one of the clients of a server with a
  database of aliases is a program that asks for a name, in memory as long as the function requires.
  The program gets the first alias of the database with this name in its struct, or \<open>NOTFOUND\<close> when
  there is none: the name, the local flag, and for an alias that has members an array of as many
  pointers, which lead to their texts in order.\<close>

theorem getaliasbyname_finds_alias:
  assumes "ran_server m sv ns tbl app ws ws'" and "k < m"
    and "serves_aliases tbl app SRVD_SERVICE_NSS_ALIASES_REQUEST_NAME db"
    and "asks ws k [(SRVD_SERVICE_NSS_ALIASES_REQUEST_NAME, [take (lnm + 1) (nm @ 0 # pad)])]" and "joined ws ws' k x 0"
    and "heap_ok (w_heap x)" and "\<forall>k. \<not> oom (w_heap x) k" and "reaches dp fs x"
    and "0 \<notin> set nm" and "length nm \<le> lnm" and "lnm \<le> length nm + length pad" and "lnm < 65535"
    and "\<forall>a \<in> set db. alias_room a \<le> n" and "n \<le> length buf"
  shows "\<exists>st ae' buf' err' x'. nss_srvd_getaliasbyname_r lnm dp fs (Some (nm @ 0 # pad)) ae buf n err x =
       Some (st, ae', buf', err', x') \<and>
     (case find (\<lambda>a. a_name a = nm) db of None \<Rightarrow> st = NSS_STATUS_NOTFOUND | Some a \<Rightarrow> shows_alias a (st, ae', buf', err')) \<and>
     sent (w_os x') (fd_brk (w_os x)) = inbox (peers ws (fd_brk ws + k)) \<and> modifies {} {} {} {} (w_heap x) (w_heap x')"
proof -
  have fit: "alias_named db s = Some v \<Longrightarrow> alias_ok v \<and> alias_room v \<le> n" for s v
    using assms(3,13) by (auto simp: serves_aliases_def alias_named_def find_Some_iff)
  from aliases.name_found [OF assms(1,2,4) serves_aliases_reply(2) [OF assms(3)] fit assms(14,6-8,5,9-12), where e = ae and err = err]
  show ?thesis by (simp only: nss_srvd_getaliasbyname_r_def finds_def alias_named_def fst_conv)
qed

theorem getaliasbyname_finds_alias_witness:
  "\<exists>bs st ae' buf' err' x'. nss_srvd_getaliasbyname_r 2 [] demo_cfs (Some [97, 0, 7]) fresh_alias (replicate 24 7) 23 0
       (demo_world (demo_os bs)) = Some (st, ae', buf', err', x') \<and> shows_alias demo_alias (st, ae', buf', err')"
proof -
  let ?rq = "[(SRVD_SERVICE_NSS_ALIASES_REQUEST_NAME, [[97, 0, 7]])]" and ?x = "\<lambda>ws. demo_world (demo_os (sent ws))"
  have tr: "travels ?rq" by (simp add: travels_def counts_fit_def entries_fit_def length_wire_field)
  obtain ws' where run: "ran_server 1 demo_sv demo_aliases demo_alias_table (\<lambda>_. aliases_app [demo_alias]) (demo_os (\<lambda>c. wire_packet ?rq)) ws'"
    by (rule demo_run_server [of "\<lambda>_. ?rq", OF tr demo_aliases_rep demo_aliases_served])
  have "\<exists>st ae' buf' err' x'. nss_srvd_getaliasbyname_r 2 [] demo_cfs (Some ([97] @ 0 # [7])) fresh_alias (replicate 24 7) 23 0
       (?x ws') = Some (st, ae', buf', err', x') \<and>
     (case find (\<lambda>a. a_name a = [97]) [demo_alias] of None \<Rightarrow> st = NSS_STATUS_NOTFOUND | Some a \<Rightarrow> shows_alias a (st, ae', buf', err')) \<and>
     sent (w_os x') (fd_brk (w_os (?x ws'))) = inbox (peers (demo_os (\<lambda>c. wire_packet ?rq)) (fd_brk (demo_os (\<lambda>c. wire_packet ?rq)) + 0)) \<and>
     modifies {} {} {} {} (w_heap (?x ws')) (w_heap x')"
    by (rule getaliasbyname_finds_alias [OF run _ demo_serves_aliases(2) _ _ _ _ demo_reaches]) (simp_all add: asks_def joined_def)
  then show ?thesis by (elim exE conjE) (intro exI conjI, simp, simp)
qed

text \<open>Walking through the aliases of a server, as through its users.\<close>

theorem aliases_are_enumerated:
  assumes "ran_server m sv ns tbl app ws ws'"
    and "serves_aliases tbl app SRVD_SERVICE_NSS_ALIASES_REQUEST_ENTITIES db" and "length db < 4294967296"
    and "\<forall>k < m. asks ws k [(SRVD_SERVICE_NSS_ALIASES_REQUEST_ENTITIES, [be32 (of_nat (min k (length db)))])] \<and> joined ws ws' k x k"
    and "heap_ok (w_heap x)" and "\<forall>k. \<not> oom (w_heap x) k" and "standing dp fs x"
    and "\<forall>a \<in> set db. alias_room a \<le> n" and "n \<le> length buf" and "key_data t = None" and "\<not> off_oom t (off_brk t)"
  shows "\<exists>t1 rs t2 x'. nss_srvd_setaliasent so t = Some (NSS_STATUS_SUCCESS, t1) \<and>
     nss_getents (nss_srvd_getaliasent_r dp fs) ae buf n err m t1 x = Some (rs, t2, x') \<and> length rs = m \<and>
     walks shows_alias db rs \<and> modifies {} {} {} {} (w_heap x) (w_heap x') \<and>
     (\<forall>k < m. sent (w_os x') (fd_brk (w_os x) + k) = inbox (peers ws (fd_brk ws + k)))"
  unfolding nss_srvd_setaliasent_def nss_srvd_getaliasent_r_def
  by (rule aliases.entries_walked [OF assms(1,4) serves_aliases_reply(1) [OF assms(2)] _ assms(9,3,5-7,10,11)])
     (use assms(2,8) in \<open>simp add: serves_aliases_def\<close>)

text \<open>The struct is not cleared: for an alias without members its array is whatever the caller had there.\<close>

theorem memberless_alias_keeps_array:
  assumes "packet_rep h p (status_field st # alias_fields_of a)" and "r_packet r = Some p"
    and "alias_ok a" and "a_members a = []" and "alias_room a \<le> n" and "n \<le> length buf"
  shows "\<exists>ae' buf'. srvd_nss_aliases_populate r ae buf n err h = Some (NSS_STATUS_SUCCESS, ae', buf', err) \<and>
     alias_members ae' = alias_members ae \<and> alias_members_len ae' = alias_members_len ae"
proof -
  have "fields_fit (tl (status_field st # alias_fields_of a))" using ma.shape_fits [OF assms(3)] by simp
  from al.fill_law [OF assms(1,2) this assms(6), of ae err] memberless_view [OF assms(3-6), of ae err] show ?thesis by simp
qed

end
