(* ===== verification/Conf_Test.thy ===== *)
theory Conf_Test
  imports Conf_File_Refine
begin

text \<open>
  The test program of the repository, \<open>test/test-conf.c\<close>: it reads a configuration file and checks
  what it finds. The prints are left out; \<open>f\<close> is what the uninitialised variable holds.
\<close>

definition TEST_PATH :: "byte list" where
  "TEST_PATH = bytes ''test-conf.conf''"

definition CHECK :: "nat \<Rightarrow> bool \<Rightarrow> nat" where
  "CHECK errors condition = (if \<not> condition then errors + 1 else errors)"

definition test_conf :: "conf_file \<Rightarrow> fsys \<Rightarrow> conf_store \<Rightarrow> (nat \<times> conf_store) option" where
  "test_conf f fs s = (let errors = 0 in do {
     (_, conf, s) \<leftarrow> srvd_conf_file_initialize (Some f) (Some (TEST_PATH @ [0])) (length TEST_PATH + 1) s;
     uptodate \<leftarrow> srvd_conf_file_uptodate conf fs s;
     let errors = CHECK errors (\<not> uptodate);
     (parsed, conf, s) \<leftarrow> srvd_conf_file_parse conf fs s;
     let errors = CHECK errors parsed;
     uptodate \<leftarrow> srvd_conf_file_uptodate conf fs s;
     let errors = CHECK errors uptodate;
     let items = map_option cf_conf conf;
     let name = bytes ''client:adapter'' @ [0];
     has \<leftarrow> srvd_conf_item_has items (Some name) s;
     let errors = CHECK errors has;
     (got, adapter, adapter_length) \<leftarrow> srvd_conf_item_get items (Some name) None (Some 0) s;
     let errors = CHECK errors got;
     same \<leftarrow> (if adapter_length = Some (length (bytes ''unsock'') + 1)
       then do { value \<leftarrow> rd_cstr adapter s; Some (cstr value = bytes ''unsock'') } else Some False);
     let errors = CHECK errors same;
     (_, _, s) \<leftarrow> srvd_conf_file_finalize conf s;
     Some (errors, s) })"

definition test_main :: "conf_file \<Rightarrow> fsys \<Rightarrow> conf_store \<Rightarrow> (nat \<times> conf_store) option" where
  "test_main f fs s = (let errors = 0 in do {
     (n, s) \<leftarrow> test_conf f fs s;
     let errors = errors + n;
     Some (if errors \<noteq> 0 then 1 else 0, s) })"

section \<open>What the test reports\<close>

lemma test_strings [simp]:
  "0 \<notin> set TEST_PATH" "0 \<notin> set (bytes ''client:adapter'')" "0 \<notin> set (bytes ''unsock'')" "length (bytes s) = length s"
  by (simp_all add: TEST_PATH_def bytes_def)

lemma file_finalize_spec:
  assumes "file_at s f path L"
  shows "\<exists>f' s'. srvd_conf_file_finalize (Some f) s = Some (True, Some f', s')"
proof -
  from assms obtain p bs where p: "cf_path f = Some p" "cstrs s p = Some bs" "p \<notin> set (concat (map item_strs L))"
    and at: "conf_at s (cf_conf f) L" by (auto simp: file_at_def)
  let ?s = "s\<lparr>cstrs := (cstrs s)(p := None)\<rparr>"
  have "item_is ?s x" if x: "x \<in> set L" for x
  proof -
    have "p \<notin> set (item_strs x)" using p(3) x by auto
    then show ?thesis using at x by (auto simp: conf_at_def item_is_def item_strs_def)
  qed
  then have "conf_at ?s (cf_conf f) L" using at by (auto simp: conf_at_def cstore_ok_def)
  from conf_clear_spec(1) [OF this] p(1,2) show ?thesis
    by (simp add: srvd_conf_file_finalize_def srvd_conf_finalize_def free_cstr_def release_def)
qed

text \<open>The value of an item is looked up as in the map of the assignments, with its length.\<close>

lemma item_value:
  assumes at: "file_at s f path L" and k: "0 \<notin> set k"
  obtains (missing) "conf_map L k = None" "srvd_conf_item_get (Some (cf_conf f)) (Some (k @ [0])) None (Some l) s = Some (False, None, Some l)"
  | (there) v a bs where "conf_map L k = Some v" "cstrs s a = Some bs" "cstr bs = v"
      "srvd_conf_item_get (Some (cf_conf f)) (Some (k @ [0])) None (Some l) s = Some (True, Some a, Some (length v + 1))"
proof (cases "find (\<lambda>x. cstr (i_name x) = k) L")
  case None
  have "conf_at s (cf_conf f) L" using at by (simp add: file_at_def)
  from item_get_spec [OF this, of "k @ [0]" "Some l"] None find_item(1) [of k L] k show ?thesis
    by (intro missing) (simp_all add: cstr_append_NUL)
next
  case (Some x)
  note x = find_item(2) [OF Some]
  have c: "conf_at s (cf_conf f) L" and e: "exact x" using at x by (simp_all add: file_at_def)
  have "cstrs s (fst (snd (snd x))) = Some (i_value x)" using c x by (auto simp: conf_at_def item_is_def)
  with item_get_spec [OF c, of "k @ [0]" "Some l"] Some x k e show ?thesis
    by (intro there [of "cstr (i_value x)" "fst (snd (snd x))" "i_value x"]) (simp_all add: cstr_append_NUL exact_def)
qed

text \<open>C31. What the test of the configuration reports, for every file of the grammar: one error when the
  file has no time of change, and beside it none when the last assignment to the adapter is the one
  it looks for, one when it is another, and three when there is no assignment.\<close>

theorem test_conf_counts:
  assumes "cstore_ok s" and "\<forall>k. \<not> coom s k" and "holds_file fs TEST_PATH ls mt"
  shows "\<exists>s'. test_conf f fs s = Some ((if mt = 0 then 1 else 0) +
     (case map_of (rev (file_items ls)) (bytes ''client:adapter'') of None \<Rightarrow> 3
      | Some v \<Rightarrow> if v = bytes ''unsock'' then 0 else 1), s')"
proof -
  obtain f1 s1 where i: "srvd_conf_file_initialize (Some f) (Some (TEST_PATH @ [0])) (length TEST_PATH + 1) s = Some (True, Some f1, s1)"
    "file_at s1 f1 TEST_PATH []" "\<not> updated f1" "coom s1 = coom s"
    by (rule conf_file_initialize_spec [OF assms(1) _ test_strings(1), of f]) (use assms(2) in auto)
  have u1: "srvd_conf_file_uptodate (Some f1) fs s1 = Some False" using conf_file_uptodate_spec [OF i(2)] i(3) by simp
  obtain f2 s2 L where p: "srvd_conf_file_parse (Some f1) fs s1 = Some (True, Some f2, s2)" "file_at s2 f2 TEST_PATH L"
    "conf_items L = rev (file_items ls)" "updated f2" "updated_time f2 = mt"
    by (rule conf_file_parse_spec [OF i(2) _ assms(3)]) (use assms(2) i(4) in auto)
  have u2: "srvd_conf_file_uptodate (Some f2) fs s2 = Some (mt \<noteq> 0)"
    using conf_file_uptodate_spec [OF p(2), of fs] p(4,5) assms(3) by (auto simp: holds_file_def)
  let ?k = "bytes ''client:adapter''"
  have at: "conf_at s2 (cf_conf f2) L" using p(2) by (simp add: file_at_def)
  have has: "srvd_conf_item_has (Some (cf_conf f2)) (Some (?k @ [0])) s2 = Some (conf_map L ?k \<noteq> None)"
    using item_has_spec [OF at, of "?k @ [0]"] by (simp add: cstr_append_NUL)
  obtain f3 s3 where fin: "srvd_conf_file_finalize (Some f2) s2 = Some (True, Some f3, s3)"
    using file_finalize_spec [OF p(2)] by blast
  note run = i(1) u1 p(1,3) u2 has fin
  from p(2) test_strings(2) show ?thesis
  proof (cases rule: item_value [where l = 0])
    case missing
    with run show ?thesis by (simp add: test_conf_def CHECK_def)
  next
    case (there v a bs)
    have "v = bytes ''unsock'' \<longleftrightarrow> length v = length ''unsock'' \<and> v = bytes ''unsock''" by auto
    with there run show ?thesis by (auto simp: test_conf_def CHECK_def rd_cstr_def)
  qed
qed

text \<open>The file of the repository, \<open>test/test-conf.conf\<close>, passes it.\<close>

definition test_file :: "cline list" where
  "test_file = [Setting (bytes ''client:adapter'') [ch_space] [ch_space] (Quoted (bytes ''unsock''))]"

lemma test_file_text: "file_text test_file = bytes ''client:adapter = \"unsock\"'' @ [ch_nl]"
  by (simp add: file_text_def test_file_def bytes_def ch_defs)

definition test_fs :: fsys where
  "test_fs = \<lparr>fs_fopen = (\<lambda>p. p = TEST_PATH), fs_stat = (\<lambda>p. if p = TEST_PATH then Some (length (file_text test_file), 7) else None),
     fs_fread = (\<lambda>p n. take n (file_text test_file))\<rparr>"

lemma test_file_held: "holds_file test_fs TEST_PATH test_file 7"
  by (simp add: holds_file_def test_fs_def test_file_text)
     (simp add: test_file_def bytes_def ch_defs BP_NAME_CHECK_def isalnum_def BP_SPACE_CHECK_def BP_EOL_CHECK_def)

theorem test_conf_counts_witness:
  "\<exists>s'. test_main \<lparr>cf_conf = \<lparr>conf_nodes = Some 9\<rparr>, updated = True, updated_time = 5, cf_path = Some 7\<rparr> test_fs
     \<lparr>cnodes = Map.empty, cstrs = Map.empty, cbrk = 0, coom = (\<lambda>_. False)\<rparr> = Some (0, s')"
proof -
  let ?f = "\<lparr>cf_conf = \<lparr>conf_nodes = Some 9\<rparr>, updated = True, updated_time = 5, cf_path = Some 7\<rparr>"
    and ?s = "\<lparr>cnodes = Map.empty, cstrs = Map.empty, cbrk = 0, coom = (\<lambda>_. False)\<rparr>"
  have "file_items test_file = [(bytes ''client:adapter'', bytes ''unsock'')]" by (simp add: file_items_def test_file_def)
  then have "\<exists>s'. test_conf ?f test_fs ?s = Some (0, s')"
    using test_conf_counts [OF _ _ test_file_held, of ?s ?f] by (simp add: cstore_ok_def)
  then show ?thesis by (auto simp: test_main_def)
qed

end
