(* ===== verification/Critical_Section.thy ===== *)
theory Critical_Section
  imports Prelude
begin

text \<open>
  Threads that call operations on shared memory, each of them a critical section under one lock. A
  thread is where its call has got to; its steps are those of the sequential code. The locale says what
  makes a set of steps a critical section, and shows that interleaved calls have the effect of calls
  one after another in the order in which they took the lock.
\<close>

text \<open>The calls by number, the memory, the environment, and who took the lock in which environment.\<close>

record ('c, 's, 'e) threads =
  calls :: "nat \<Rightarrow> 'c"
  mem :: 's
  ambient :: 'e
  taken :: "(nat \<times> 'e) list"

definition do_step :: "('e \<Rightarrow> 'c \<Rightarrow> 's \<Rightarrow> ('c \<times> 's) option) \<Rightarrow> (nat \<Rightarrow> 'c) \<Rightarrow> nat \<Rightarrow> ('c, 's, 'e) threads
    \<Rightarrow> ('c, 's, 'e) threads option" where
  "do_step step begin_at i x = map_option (\<lambda>(c, s). x\<lparr>calls := (calls x)(i := c), mem := s,
       taken := (if calls x i = begin_at i then taken x @ [(i, ambient x)] else taken x)\<rparr>)
     (step (ambient x) (calls x i) (mem x))"

text \<open>A call moves, or the environment becomes one that is allowed.\<close>

inductive threads_step for step begin_at allowed where
  move: "do_step step begin_at i x = Some y \<Longrightarrow> threads_step step begin_at allowed x y"
| change: "allowed x e \<Longrightarrow> threads_step step begin_at allowed x (x\<lparr>ambient := e\<rparr>)"

inductive_cases threads_stepE: "threads_step step begin_at allowed x y"

abbreviation threads_reach where
  "threads_reach step begin_at allowed \<equiv> (threads_step step begin_at allowed)\<^sup>*\<^sup>*"

text \<open>One call on its own, \<open>n\<close> steps.\<close>

primrec run_call where
  "run_call step begin_at i 0 x = Some x"
| "run_call step begin_at i (Suc n) x = do { y \<leftarrow> do_step step begin_at i x; run_call step begin_at i n y }"

lemma run_call_reach: "run_call step begin_at i n x = Some y \<Longrightarrow> threads_reach step begin_at allowed x y"
proof (induction n arbitrary: x)
  case (Suc n)
  from Suc.prems obtain z where "do_step step begin_at i x = Some z" "run_call step begin_at i n z = Some y"
    by (auto elim: bind_SomeE)
  with Suc.IH threads_step.move [of step begin_at i x z allowed] show ?case by (meson converse_rtranclp_into_rtranclp)
qed simp

definition threads_start :: "(nat \<Rightarrow> 'c) \<Rightarrow> 's \<Rightarrow> ('c, 's, 'e) threads \<Rightarrow> bool" where
  "threads_start begin_at s x \<longleftrightarrow> calls x = begin_at \<and> taken x = [] \<and> mem x = s"

text \<open>A call run to its end with nobody else moving.\<close>

partial_function (option) finish ::
    "('c \<Rightarrow> 's \<Rightarrow> ('c \<times> 's) option) \<Rightarrow> ('c \<Rightarrow> 'r option) \<Rightarrow> 'c \<Rightarrow> 's \<Rightarrow> ('r \<times> 's) option" where
  "finish step result c s = (case result c of Some r \<Rightarrow> Some (r, s)
     | None \<Rightarrow> do { (c, s) \<leftarrow> step c s; finish step result c s })"

lemma finish_ended: "result c = Some r \<Longrightarrow> finish step result c s = Some (r, s)"
  by (simp add: finish.simps)

lemma finish_step: "result c = None \<Longrightarrow> finish step result c s = do { (c, s) \<leftarrow> step c s; finish step result c s }"
  by (subst finish.simps) simp

text \<open>A call that ends on its own can do so from wherever it is.\<close>

lemma finish_runs:
  assumes "finish (step (ambient x)) result (calls x i) (mem x) = Some (r, s)"
  shows "\<exists>n y. run_call step begin_at i n x = Some y \<and> mem y = s \<and> result (calls y i) = Some r \<and>
     (\<forall>j. j \<noteq> i \<longrightarrow> calls y j = calls x j)"
proof -
  have "finish st result c m = Some rs \<Longrightarrow> st = step (ambient x) \<Longrightarrow> c = calls x i \<Longrightarrow> m = mem x \<Longrightarrow>
      \<exists>n y. run_call step begin_at i n x = Some y \<and> mem y = snd rs \<and> result (calls y i) = Some (fst rs) \<and>
        (\<forall>j. j \<noteq> i \<longrightarrow> calls y j = calls x j)" for st c m rs
  proof (induction arbitrary: x rule: finish.raw_induct [rotated, consumes 1])
    case (1 go st result c m rs)
    show ?case
    proof (cases "result c")
      case (Some r)
      with 1 show ?thesis by (intro exI [of _ 0] exI [of _ x]) auto
    next
      case None
      with "1.hyps" obtain c' m' where s: "st c m = Some (c', m')" "go st result c' m' = Some rs"
        by (auto elim!: bind_SomeE)
      let ?x = "x\<lparr>calls := (calls x)(i := c'), mem := m',
        taken := (if calls x i = begin_at i then taken x @ [(i, ambient x)] else taken x)\<rparr>"
      have d: "do_step step begin_at i x = Some ?x" using s(1) "1.prems" by (simp add: do_step_def)
      from "1.IH" [OF s(2), of ?x] "1.prems" obtain n y where "run_call step begin_at i n ?x = Some y" "mem y = snd rs"
          "result (calls y i) = Some (fst rs)" "\<forall>j. j \<noteq> i \<longrightarrow> calls y j = calls ?x j" by auto
      with d show ?thesis by (intro exI [of _ "Suc n"] exI [of _ y]) simp
    qed
  qed
  from this [OF assms refl refl refl] show ?thesis by simp
qed

section \<open>Calls one after another\<close>

fun serial :: "(nat \<Rightarrow> 'e \<Rightarrow> 's \<Rightarrow> ('r \<times> 's) option) \<Rightarrow> (nat \<times> 'e) list \<Rightarrow> 's \<Rightarrow> ((nat \<times> 'r) list \<times> 's) option" where
  "serial run [] s = Some ([], s)"
| "serial run ((i, e) # q) s = do {
     (r, s) \<leftarrow> run i e s;
     (rs, s) \<leftarrow> serial run q s;
     Some ((i, r) # rs, s) }"

lemma serial_snoc:
  assumes "serial run q s = Some (rs, s1)" and "run i e s1 = Some (r, s2)"
  shows "serial run (q @ [(i, e)]) s = Some (rs @ [(i, r)], s2)"
  using assms by (induction q arbitrary: s rs) (auto elim!: bind_SomeE)

lemma serial_calls: "serial run q s = Some (rs, s1) \<Longrightarrow> map fst rs = map fst q"
  by (induction q arbitrary: s rs) (auto elim!: bind_SomeE)

section \<open>Critical sections\<close>

locale critical_section =
  fixes step :: "'e \<Rightarrow> 'c \<Rightarrow> 's \<Rightarrow> ('c \<times> 's) option" and begin_at :: "nat \<Rightarrow> 'c" and inside :: "'c \<Rightarrow> bool"
    and ended :: "'r \<Rightarrow> 'c" and unlocked :: "'s \<Rightarrow> bool" and rest :: "'e \<Rightarrow> 'c \<Rightarrow> 's \<Rightarrow> ('r \<times> 's) option"
  assumes outside: "\<not> inside (begin_at i)" "\<not> inside (ended r)" "begin_at i \<noteq> ended r" "ended r = ended r' \<longleftrightarrow> r = r'"
    and ended_rest: "step e (ended r) s = None" "rest e (ended r) s = Some (r, s)"
    and enter: "step e (begin_at i) s = Some (c, s') \<Longrightarrow> unlocked s \<and> \<not> unlocked s' \<and> inside c"
    and move: "step e c s = Some (c', s') \<Longrightarrow> inside c \<Longrightarrow> \<not> unlocked s \<Longrightarrow>
      inside c' \<and> \<not> unlocked s' \<or> (\<exists>r. c' = ended r) \<and> unlocked s'"
    and rest_step: "step e c s = Some (c', s') \<Longrightarrow> rest e c' s' = rest e c s"
begin

abbreviation alone :: "nat \<Rightarrow> 'e \<Rightarrow> 's \<Rightarrow> ('r \<times> 's) option" where
  "alone i e s \<equiv> rest e (begin_at i) s"

text \<open>The calls of \<open>rs\<close> have returned what it says, \<open>inner\<close> is inside, the others have not started.\<close>

definition calls_are :: "('c, 's, 'e) threads \<Rightarrow> (nat \<times> 'r) list \<Rightarrow> nat option \<Rightarrow> bool" where
  "calls_are x rs inner \<longleftrightarrow> distinct (map fst rs) \<and> (\<forall>i. inner = Some i \<longrightarrow> inside (calls x i) \<and> map_of rs i = None) \<and>
     (\<forall>j. inner \<noteq> Some j \<longrightarrow> calls x j = (case map_of rs j of None \<Rightarrow> begin_at j | Some r \<Rightarrow> ended r))"

lemma ended_begin [simp]: "ended r \<noteq> begin_at i" "begin_at i \<noteq> ended r"
  using outside(3) [of i r] by auto

lemma calls_are_update:
  "calls_are x rs None \<Longrightarrow> calls x i = begin_at i \<Longrightarrow> calls y = (calls x)(i := c) \<Longrightarrow> inside c \<Longrightarrow> calls_are y rs (Some i)"
  "calls_are x rs (Some i) \<Longrightarrow> calls y = (calls x)(i := c) \<Longrightarrow> inside c \<Longrightarrow> calls_are y rs (Some i)"
  "calls_are x rs (Some i) \<Longrightarrow> calls y = (calls x)(i := ended r) \<Longrightarrow> calls_are y (rs @ [(i, r)]) None"
  by (auto simp: calls_are_def map_add_def outside split: option.splits)

lemma calls_are_inside: "calls_are x rs inner \<Longrightarrow> inside (calls x i) \<Longrightarrow> inner = Some i"
  by (auto simp: calls_are_def split: option.splits) (metis outside(1,2))

lemma calls_are_outside: "calls_are x rs inner \<Longrightarrow> \<not> inside (calls x i) \<Longrightarrow> calls x i = begin_at i \<or> (\<exists>r. calls x i = ended r)"
  unfolding calls_are_def by (cases "map_of rs i") force+

definition serialized :: "'s \<Rightarrow> ('c, 's, 'e) threads \<Rightarrow> bool" where
  "serialized s0 x \<longleftrightarrow>
     unlocked (mem x) \<and> (\<exists>rs. serial alone (taken x) s0 = Some (rs, mem x) \<and> calls_are x rs None) \<or>
     \<not> unlocked (mem x) \<and> (\<exists>q rs i s. taken x = q @ [(i, ambient x)] \<and> serial alone q s0 = Some (rs, s) \<and>
        calls_are x rs (Some i) \<and> rest (ambient x) (calls x i) (mem x) = alone i (ambient x) s)"

lemma serialized_enter:
  assumes "serialized s0 x" and "step (ambient x) (calls x i) (mem x) = Some (c, s)" and "\<not> inside (calls x i)"
  shows "serialized s0 (x\<lparr>calls := (calls x)(i := c), mem := s,
     taken := (if calls x i = begin_at i then taken x @ [(i, ambient x)] else taken x)\<rparr>)" (is "serialized s0 ?y")
proof -
  obtain rs inner where "calls_are x rs inner" using assms(1) by (auto simp: serialized_def)
  from calls_are_outside [OF this assms(3)] assms(2) ended_rest(1) have b: "calls x i = begin_at i" by auto
  note e = enter [OF assms(2) [unfolded b]]
  then obtain rs where rs: "serial alone (taken x) s0 = Some (rs, mem x)" "calls_are x rs None"
    using assms(1) by (auto simp: serialized_def)
  from calls_are_update(1) [OF rs(2) b, of ?y c] rs(1) e rest_step [OF assms(2)] b show ?thesis
    by (auto simp: serialized_def)
qed

lemma serialized_move:
  assumes "serialized s0 x" and "step (ambient x) (calls x i) (mem x) = Some (c, s)" and "inside (calls x i)"
  shows "serialized s0 (x\<lparr>calls := (calls x)(i := c), mem := s\<rparr>)"
proof -
  let ?y = "x\<lparr>calls := (calls x)(i := c), mem := s\<rparr>"
  have "\<not> calls_are x rs None" for rs using calls_are_inside [of x rs None i] assms(3) by auto
  then obtain q rs j s1 where x: "\<not> unlocked (mem x)" "taken x = q @ [(j, ambient x)]" "serial alone q s0 = Some (rs, s1)"
      "calls_are x rs (Some j)" "rest (ambient x) (calls x j) (mem x) = alone j (ambient x) s1"
    using assms(1) by (auto simp: serialized_def)
  have j: "j = i" using calls_are_inside [OF x(4) assms(3)] by simp
  note rest = rest_step [OF assms(2)]
  from move [OF assms(2,3) x(1)] show ?thesis
  proof (elim disjE conjE exE)
    assume "inside c" "\<not> unlocked s"
    with calls_are_update(2) [OF x(4), of ?y c] rest x(2,3,5) j show ?thesis unfolding serialized_def by auto
  next
    fix r
    assume r: "unlocked s" "c = ended r"
    with rest x(5) j have "alone i (ambient x) s1 = Some (r, s)" by (simp add: ended_rest)
    from serial_snoc [where run = alone, OF x(3) this] calls_are_update(3) [OF x(4), of ?y r] x(2) r j show ?thesis
      by (auto simp: serialized_def)
  qed
qed

lemma serialized_step:
  assumes "serialized s0 x" and "threads_step step begin_at allowed x y"
    and quiet: "\<And>x e. allowed x e \<Longrightarrow> unlocked (mem x)"
  shows "serialized s0 y"
  using assms(2)
proof cases
  case (move i)
  then obtain c s where c: "step (ambient x) (calls x i) (mem x) = Some (c, s)"
    and y: "y = x\<lparr>calls := (calls x)(i := c), mem := s,
       taken := (if calls x i = begin_at i then taken x @ [(i, ambient x)] else taken x)\<rparr>"
    by (auto simp: do_step_def)
  show ?thesis
  proof (cases "inside (calls x i)")
    case True
    then have "calls x i \<noteq> begin_at i" using outside(1) by auto
    with serialized_move [OF assms(1) c True] y show ?thesis by simp
  next
    case False
    with serialized_enter [OF assms(1) c] y show ?thesis by simp
  qed
next
  case (change e)
  with quiet [OF change(2)] assms(1) show ?thesis by (auto simp: serialized_def calls_are_def)
qed

lemma serialized_start: "threads_start begin_at s0 x \<Longrightarrow> unlocked s0 \<Longrightarrow> serialized s0 x"
  by (simp add: threads_start_def serialized_def calls_are_def)

theorem calls_serialize:
  assumes "threads_reach step begin_at allowed x y" and "threads_start begin_at s0 x" and "unlocked s0"
    and "\<And>x e. allowed x e \<Longrightarrow> unlocked (mem x)" and "unlocked (mem y)"
  shows "\<exists>rs. serial alone (taken y) s0 = Some (rs, mem y) \<and> distinct (map fst (taken y)) \<and>
     (\<forall>i. calls y i = (case map_of rs i of None \<Rightarrow> begin_at i | Some r \<Rightarrow> ended r))"
proof -
  from assms(1) have "serialized s0 y"
    by induction (use assms(2-4) in \<open>auto intro: serialized_start serialized_step\<close>)
  with assms(5) obtain rs where rs: "serial alone (taken y) s0 = Some (rs, mem y)" "calls_are y rs None"
    by (auto simp: serialized_def)
  with serial_calls [where run = alone, OF rs(1)] show ?thesis by (auto simp: calls_are_def)
qed

end

end
