(* ===== verification/Conf_Threads.thy ===== *)
theory Conf_Threads
  imports Conf_File_Refine Critical_Section
begin

text \<open>
  Concurrent calls of \<open>srvd_conf_file_default_get\<close> (\<open>lib/srvd/libsrvd/conf.c\<close>): every client of the
  process asks for the shared \<open>fconf_default\<close> through it, under \<open>_srvd_conf_file_default_lock\<close>. A call
  is the point it has reached and the local variables it still needs; a step runs the code up to the
  next point, reading the file system as it is at that moment. Within a call of
  \<open>srvd_conf_file_parse\<close> the points separate its accesses to the file system, and the list is cleared
  node by node.
\<close>

datatype call =
    Calling
  | Entered
  | Checking
  | Loading
  | Opened
  | Fetching nat int
  | Clearing "byte list" int ptr
  | Reading "byte list" int
  | Leaving bool
  | Finished bool

text \<open>\<open>None\<close> at \<open>Calling\<close> is a call that waits for the lock; anywhere else it is undefined behaviour.\<close>

fun call_step ::
    "byte list \<Rightarrow> fsys \<Rightarrow> call \<Rightarrow> conf_default \<Rightarrow> conf_store \<Rightarrow> (call \<times> conf_default \<times> conf_store) option" where
  "call_step dp fs Calling d s = do {
     l \<leftarrow> lock_mutex (d_lock d);
     Some (Entered, d\<lparr>d_lock := l\<rparr>, s) }"
| "call_step dp fs Entered d s =
     (if cf_path (d_fconf d) = None then do {
        (_, f, s) \<leftarrow> srvd_conf_file_initialize (Some (d_fconf d)) (Some (dp @ [0])) (length dp + 1) s;
        Some (Checking, d\<lparr>d_fconf := the f\<rparr>, s) }
      else Some (Checking, d, s))"
| "call_step dp fs Checking d s = do {
     fresh \<leftarrow> srvd_conf_file_uptodate (Some (d_fconf d)) fs s;
     Some (if fresh then Leaving True else Loading, d, s) }"
| "call_step dp fs Loading d s = do {
     path \<leftarrow> rd_cstr (cf_path (d_fconf d)) s;
     Some (if fs_fopen fs (cstr path) then Opened else Leaving False, d, s) }"
| "call_step dp fs Opened d s = do {
     path \<leftarrow> rd_cstr (cf_path (d_fconf d)) s;
     case fs_stat fs (cstr path) of None \<Rightarrow> Some (Leaving False, d, s)
     | Some (sz, mtime) \<Rightarrow>
       if sz = 0 then Some (Leaving False, d, s)
       else Some (if coom s (cbrk s) then Leaving False else Fetching sz mtime, d, s\<lparr>cbrk := Suc (cbrk s)\<rparr>) }"
| "call_step dp fs (Fetching sz mtime) d s = do {
     path \<leftarrow> rd_cstr (cf_path (d_fconf d)) s;
     let bytes = fs_fread fs (cstr path) sz;
     Some (if length bytes \<noteq> sz then Leaving False
       else Clearing (bytes @ [0]) mtime (conf_nodes (cf_conf (d_fconf d))), d, s) }"
| "call_step dp fs (Clearing buffer mtime i) d s =
     (if i = None
      then Some (Reading buffer mtime, d\<lparr>d_fconf := (d_fconf d)\<lparr>cf_conf := (cf_conf (d_fconf d))\<lparr>conf_nodes := None\<rparr>\<rparr>\<rparr>, s)
      else do {
        n \<leftarrow> deref (cnodes s) i;
        s \<leftarrow> free_cstr (c_name n) s;
        s \<leftarrow> free_cstr (c_value n) s;
        s \<leftarrow> free_cnode i s;
        Some (Clearing buffer mtime (c_next n), d, s) })"
| "call_step dp fs (Reading buffer mtime) d s = do {
     (ok, cf, s) \<leftarrow> srvd_conf_file_read buffer (cf_conf (d_fconf d)) s;
     let f = (d_fconf d)\<lparr>cf_conf := cf\<rparr>;
     Some (Leaving ok, d\<lparr>d_fconf := (if ok then f\<lparr>updated := True, updated_time := mtime\<rparr> else f)\<rparr>, s) }"
| "call_step dp fs (Leaving ok) d s = do {
     l \<leftarrow> unlock_mutex (d_lock d);
     Some (Finished ok, d\<lparr>d_lock := l\<rparr>, s) }"
| "call_step dp fs (Finished ok) d s = None"

fun inside :: "call \<Rightarrow> bool" where
  "inside Calling \<longleftrightarrow> False"
| "inside (Finished ok) \<longleftrightarrow> False"
| "inside c \<longleftrightarrow> True"

section \<open>The calls together\<close>

text \<open>The memory is the default file and its store; the environment is the file system.\<close>

type_synonym conf_system = "(call, conf_default \<times> conf_store, fsys) threads"

abbreviation shared :: "conf_system \<Rightarrow> conf_default" where "shared x \<equiv> fst (mem x)"
abbreviation store :: "conf_system \<Rightarrow> conf_store" where "store x \<equiv> snd (mem x)"

definition conf_step :: "byte list \<Rightarrow> fsys \<Rightarrow> call \<Rightarrow> conf_default \<times> conf_store \<Rightarrow> (call \<times> conf_default \<times> conf_store) option" where
  "conf_step dp fs c m = call_step dp fs c (fst m) (snd m)"

text \<open>
  The file system becomes another one that \<open>env\<close> allows; with \<open>quiet\<close> it does so only while no call is
  inside.
\<close>

definition conf_allowed :: "(fsys \<Rightarrow> bool) \<Rightarrow> bool \<Rightarrow> conf_system \<Rightarrow> fsys \<Rightarrow> bool" where
  "conf_allowed env quiet x fs \<longleftrightarrow> env fs \<and> (quiet \<longrightarrow> d_lock (shared x) = Unlocked)"

abbreviation conf_do :: "byte list \<Rightarrow> nat \<Rightarrow> conf_system \<Rightarrow> conf_system option" where
  "conf_do dp \<equiv> do_step (conf_step dp) (\<lambda>_. Calling)"

abbreviation conf_run :: "byte list \<Rightarrow> nat \<Rightarrow> nat \<Rightarrow> conf_system \<Rightarrow> conf_system option" where
  "conf_run dp \<equiv> run_call (conf_step dp) (\<lambda>_. Calling)"

abbreviation conf_reach :: "byte list \<Rightarrow> (fsys \<Rightarrow> bool) \<Rightarrow> bool \<Rightarrow> conf_system \<Rightarrow> conf_system \<Rightarrow> bool" where
  "conf_reach dp env quiet \<equiv> threads_reach (conf_step dp) (\<lambda>_. Calling) (conf_allowed env quiet)"

text \<open>No call has started.\<close>

definition conf_start :: "conf_default \<Rightarrow> conf_store \<Rightarrow> conf_system \<Rightarrow> bool" where
  "conf_start d s x \<longleftrightarrow> threads_start (\<lambda>_. Calling) (d, s) x \<and> d_lock d = Unlocked"

text \<open>The sequential call.\<close>

definition default_call :: "byte list \<Rightarrow> nat \<Rightarrow> fsys \<Rightarrow> conf_default \<times> conf_store \<Rightarrow> (bool \<times> conf_default \<times> conf_store) option" where
  "default_call dp i fs m = do {
     (ok, _, d, s) \<leftarrow> srvd_conf_file_default_get dp (Some False) (fst m) fs (snd m);
     Some (ok, d, s) }"

section \<open>The rest of a call\<close>

text \<open>What remains of the sequential code at each point.\<close>

definition rest_leave :: "bool \<Rightarrow> conf_default \<Rightarrow> conf_store \<Rightarrow> (bool \<times> conf_default \<times> conf_store) option" where
  "rest_leave ok d s = do { l \<leftarrow> unlock_mutex (d_lock d); Some (ok, d\<lparr>d_lock := l\<rparr>, s) }"

definition rest_read :: "byte list \<Rightarrow> int \<Rightarrow> conf_default \<Rightarrow> conf_store \<Rightarrow> (bool \<times> conf_default \<times> conf_store) option" where
  "rest_read buffer mtime d s = do {
     (ok, cf, s) \<leftarrow> srvd_conf_file_read buffer (cf_conf (d_fconf d)) s;
     let f = (d_fconf d)\<lparr>cf_conf := cf\<rparr>;
     rest_leave ok (d\<lparr>d_fconf := (if ok then f\<lparr>updated := True, updated_time := mtime\<rparr> else f)\<rparr>) s }"

definition rest_clear ::
    "byte list \<Rightarrow> int \<Rightarrow> ptr \<Rightarrow> conf_default \<Rightarrow> conf_store \<Rightarrow> (bool \<times> conf_default \<times> conf_store) option" where
  "rest_clear buffer mtime i d s = do {
     s \<leftarrow> conf_clear_nodes i s;
     rest_read buffer mtime (d\<lparr>d_fconf := (d_fconf d)\<lparr>cf_conf := (cf_conf (d_fconf d))\<lparr>conf_nodes := None\<rparr>\<rparr>\<rparr>) s }"

definition rest_fetch ::
    "fsys \<Rightarrow> nat \<Rightarrow> int \<Rightarrow> conf_default \<Rightarrow> conf_store \<Rightarrow> (bool \<times> conf_default \<times> conf_store) option" where
  "rest_fetch fs sz mtime d s = do {
     path \<leftarrow> rd_cstr (cf_path (d_fconf d)) s;
     let bytes = fs_fread fs (cstr path) sz;
     if length bytes \<noteq> sz then rest_leave False d s
     else rest_clear (bytes @ [0]) mtime (conf_nodes (cf_conf (d_fconf d))) d s }"

definition rest_opened :: "fsys \<Rightarrow> conf_default \<Rightarrow> conf_store \<Rightarrow> (bool \<times> conf_default \<times> conf_store) option" where
  "rest_opened fs d s = do {
     path \<leftarrow> rd_cstr (cf_path (d_fconf d)) s;
     case fs_stat fs (cstr path) of None \<Rightarrow> rest_leave False d s
     | Some (sz, mtime) \<Rightarrow>
       if sz = 0 then rest_leave False d s
       else if coom s (cbrk s) then rest_leave False d (s\<lparr>cbrk := Suc (cbrk s)\<rparr>)
       else rest_fetch fs sz mtime d (s\<lparr>cbrk := Suc (cbrk s)\<rparr>) }"

definition rest_load :: "fsys \<Rightarrow> conf_default \<Rightarrow> conf_store \<Rightarrow> (bool \<times> conf_default \<times> conf_store) option" where
  "rest_load fs d s = do {
     (ok, f, s) \<leftarrow> srvd_conf_file_parse (Some (d_fconf d)) fs s;
     rest_leave ok (d\<lparr>d_fconf := the f\<rparr>) s }"

definition rest_check :: "fsys \<Rightarrow> conf_default \<Rightarrow> conf_store \<Rightarrow> (bool \<times> conf_default \<times> conf_store) option" where
  "rest_check fs d s = do {
     fresh \<leftarrow> srvd_conf_file_uptodate (Some (d_fconf d)) fs s;
     if fresh then rest_leave True d s else rest_load fs d s }"

definition rest_enter ::
    "byte list \<Rightarrow> fsys \<Rightarrow> conf_default \<Rightarrow> conf_store \<Rightarrow> (bool \<times> conf_default \<times> conf_store) option" where
  "rest_enter dp fs d s =
     (if cf_path (d_fconf d) = None then do {
        (_, f, s) \<leftarrow> srvd_conf_file_initialize (Some (d_fconf d)) (Some (dp @ [0])) (length dp + 1) s;
        rest_check fs (d\<lparr>d_fconf := the f\<rparr>) s }
      else rest_check fs d s)"

fun rest :: "byte list \<Rightarrow> fsys \<Rightarrow> call \<Rightarrow> conf_default \<Rightarrow> conf_store \<Rightarrow> (bool \<times> conf_default \<times> conf_store) option" where
  "rest dp fs Calling d s = do { l \<leftarrow> lock_mutex (d_lock d); rest_enter dp fs (d\<lparr>d_lock := l\<rparr>) s }"
| "rest dp fs Entered d s = rest_enter dp fs d s"
| "rest dp fs Checking d s = rest_check fs d s"
| "rest dp fs Loading d s = rest_load fs d s"
| "rest dp fs Opened d s = rest_opened fs d s"
| "rest dp fs (Fetching sz mtime) d s = rest_fetch fs sz mtime d s"
| "rest dp fs (Clearing buffer mtime i) d s = rest_clear buffer mtime i d s"
| "rest dp fs (Reading buffer mtime) d s = rest_read buffer mtime d s"
| "rest dp fs (Leaving ok) d s = rest_leave ok d s"
| "rest dp fs (Finished ok) d s = Some (ok, d, s)"

end
