(* ===== verification/Conf_Threads_Refine.thy ===== *)
theory Conf_Threads_Refine
  imports Conf_Threads
begin

text \<open>
  What the lock gives: interleaved calls have the effect of calls one after another, no call meets
  undefined behaviour, and the call inside always comes out.
\<close>

section \<open>A step and the rest of its call\<close>

lemma default_self [simp]: "d\<lparr>d_fconf := d_fconf d\<rparr> = (d :: conf_default)"
  by (cases d) simp

abbreviation handed :: "bool \<times> conf_default \<times> conf_store \<Rightarrow> bool \<times> bool option \<times> conf_default \<times> conf_store" where
  "handed \<equiv> \<lambda>(ok, d, s). (ok, if ok then Some True else Some False, d, s)"

lemma check_rest:
  "do { fresh \<leftarrow> srvd_conf_file_uptodate (Some (d_fconf d)) fs s;
        (ok, d, s) \<leftarrow> (if \<not> fresh then do {
              (ok, f, s) \<leftarrow> srvd_conf_file_parse (Some (d_fconf d)) fs s;
              Some (ok, d\<lparr>d_fconf := the f\<rparr>, s) }
            else Some (True, d, s));
        l \<leftarrow> unlock_mutex (d_lock d);
        Some (ok, if ok then Some True else Some False, d\<lparr>d_lock := l\<rparr>, s) } =
     map_option handed (rest_check fs d s)"
proof (cases "srvd_conf_file_uptodate (Some (d_fconf d)) fs s")
  case (Some fresh)
  then show ?thesis
    by (cases "unlock_mutex (d_lock d)"; cases "srvd_conf_file_parse (Some (d_fconf d)) fs s")
       (auto simp: rest_check_def rest_load_def rest_leave_def)
qed (simp add: rest_check_def)

lemma default_get_rest:
  "srvd_conf_file_default_get dp (Some False) d fs s = map_option handed (rest dp fs Calling d s)"
proof (cases "lock_mutex (d_lock d)")
  case (Some l)
  then show ?thesis
    using check_rest [of "d\<lparr>d_lock := l\<rparr>" fs s]
    by (cases "srvd_conf_file_initialize (Some (d_fconf d)) (Some (dp @ [0])) (length dp + 1) s")
       (auto simp: srvd_conf_file_default_get_def rest_enter_def check_rest Let_def)
qed (simp add: srvd_conf_file_default_get_def)

lemma rest_load_opened:
  "rest_load fs d s = do {
     path \<leftarrow> rd_cstr (cf_path (d_fconf d)) s;
     if fs_fopen fs (cstr path) then rest_opened fs d s else rest_leave False d s }"
proof (cases "rd_cstr (cf_path (d_fconf d)) s")
  case (Some path)
  then show ?thesis
  proof (cases "fs_stat fs (cstr path)")
    case None
    with Some show ?thesis by (simp add: rest_load_def srvd_conf_file_parse_def rest_opened_def)
  next
    case stat: (Some a)
    obtain sz mt where a: "a = (sz, mt)" by (cases a)
    let ?b = "fs_fread fs (cstr path) sz" and ?s = "s\<lparr>cbrk := Suc (cbrk s)\<rparr>"
    let ?cf = "cf_conf (d_fconf d)"
    have path: "rd_cstr (cf_path (d_fconf d)) ?s = Some path" using Some by (auto simp: rd_cstr_def split: option.splits)
    show ?thesis
    proof (cases "conf_clear_nodes (conf_nodes ?cf) ?s")
      case None
      with Some stat a path show ?thesis
        by (simp add: rest_load_def srvd_conf_file_parse_def rest_opened_def rest_fetch_def rest_clear_def srvd_conf_clear_def Let_def)
    next
      case clear: (Some s')
      show ?thesis
        using Some stat a path clear
        by (cases "srvd_conf_file_read (?b @ [0]) (?cf\<lparr>conf_nodes := None\<rparr>) s'")
           (auto simp: rest_load_def srvd_conf_file_parse_def rest_opened_def rest_fetch_def rest_clear_def rest_read_def
             srvd_conf_clear_def Let_def)
    qed
  qed
qed (simp add: rest_load_def srvd_conf_file_parse_def)

text \<open>A step leaves the rest of its call as it is, as long as the files are the same.\<close>

lemma call_step_rest:
  assumes "call_step dp fs c d s = Some (c', d', s')"
  shows "rest dp fs c' d' s' = rest dp fs c d s"
  using assms
proof (cases c)
  case (Clearing buffer mtime i)
  with assms show ?thesis
    by (auto simp: rest_clear_def conf_clear_nodes.simps [of i] mem_simps elim!: bind_SomeE split: if_splits)
next
  case (Leaving ok)
  with assms show ?thesis by (auto simp: rest_leave_def elim!: bind_SomeE)
qed (auto simp: rest_enter_def rest_check_def rest_load_opened rest_opened_def rest_fetch_def rest_read_def
    Let_def elim!: bind_SomeE split: if_splits option.splits)

lemma call_step_inside:
  assumes "call_step dp fs c d s = Some (c', d', s')"
  shows "inside c \<Longrightarrow> inside c' \<and> d_lock d' = d_lock d \<or> (\<exists>ok. c = Leaving ok \<and> c' = Finished ok \<and> d_lock d = Locked \<and> d_lock d' = Unlocked)"
    "\<not> inside c \<Longrightarrow> c = Calling \<and> c' = Entered \<and> d_lock d = Unlocked \<and> d_lock d' = Locked"
  using assms by (cases c; auto simp: lock_mutex_def unlock_mutex_def Let_def elim!: bind_SomeE split: if_splits option.splits)+

text \<open>The calls are critical sections under the lock of the default file.\<close>

definition conf_rest :: "byte list \<Rightarrow> fsys \<Rightarrow> call \<Rightarrow> conf_default \<times> conf_store \<Rightarrow> (bool \<times> conf_default \<times> conf_store) option" where
  "conf_rest dp fs c m = rest dp fs c (fst m) (snd m)"

lemma conf_rest_calling: "conf_rest dp fs Calling m = default_call dp i fs m"
  by (cases "rest dp fs Calling (fst m) (snd m)") (auto simp: conf_rest_def default_call_def default_get_rest)

interpretation conf_calls: critical_section "conf_step dp" "\<lambda>_. Calling" inside Finished "\<lambda>m. d_lock (fst m) = Unlocked" "conf_rest dp"
proof unfold_locales
  fix fs c m c' and m' :: "conf_default \<times> conf_store"
  assume step: "conf_step dp fs c m = Some (c', m')"
  obtain d s d' s' where m: "m = (d, s)" "m' = (d', s')" by (cases m; cases m')
  show "conf_rest dp fs c' m' = conf_rest dp fs c m"
    using call_step_rest [of dp fs c d s c' d' s'] step m by (simp add: conf_rest_def conf_step_def)
  assume "inside c" "d_lock (fst m) \<noteq> Unlocked"
  with call_step_inside(1) [of dp fs c d s c' d' s'] step m
  show "inside c' \<and> d_lock (fst m') \<noteq> Unlocked \<or> (\<exists>r. c' = Finished r) \<and> d_lock (fst m') = Unlocked"
    by (auto simp: conf_step_def)
qed (auto simp: conf_step_def conf_rest_def lock_mutex_def split: if_splits)

section \<open>No call is stuck\<close>

text \<open>
  The file systems the environment goes through: a file that is read in the size its status announced,
  then or earlier, follows the grammar.
\<close>

definition tidy :: "(fsys \<Rightarrow> bool) \<Rightarrow> byte list \<Rightarrow> bool" where
  "tidy env path \<longleftrightarrow> (\<forall>fs fs' sz mt. env fs \<longrightarrow> env fs' \<longrightarrow> fs_stat fs path = Some (sz, mt) \<longrightarrow> sz \<noteq> 0 \<longrightarrow>
     length (fs_fread fs' path sz) = sz \<longrightarrow> (\<exists>ls. fs_fread fs' path sz = file_text ls \<and> (\<forall>l \<in> set ls. line_ok l)))"

text \<open>The shared file between calls: not yet given its path, or holding items.\<close>

definition at_rest :: "byte list \<Rightarrow> conf_default \<Rightarrow> conf_store \<Rightarrow> nat \<Rightarrow> bool" where
  "at_rest dp d s n \<longleftrightarrow>
     cf_path (d_fconf d) = None \<and> cstore_ok s \<or> (\<exists>L. file_at s (d_fconf d) dp L \<and> length L \<le> n)"

text \<open>What a call inside finds, and how many of its steps are left at most.\<close>

fun finds :: "byte list \<Rightarrow> (fsys \<Rightarrow> bool) \<Rightarrow> call \<Rightarrow> conf_default \<Rightarrow> conf_store \<Rightarrow> nat \<Rightarrow> bool" where
  "finds dp env Entered d s n \<longleftrightarrow> (\<exists>m. at_rest dp d s m \<and> m + 9 \<le> n)"
| "finds dp env Checking d s n \<longleftrightarrow> (\<exists>L. file_at s (d_fconf d) dp L \<and> length L + 8 \<le> n)"
| "finds dp env Loading d s n \<longleftrightarrow> (\<exists>L. file_at s (d_fconf d) dp L \<and> length L + 7 \<le> n)"
| "finds dp env Opened d s n \<longleftrightarrow> (\<exists>L. file_at s (d_fconf d) dp L \<and> length L + 6 \<le> n)"
| "finds dp env (Fetching sz mt) d s n \<longleftrightarrow> (\<exists>L. file_at s (d_fconf d) dp L \<and> length L + 5 \<le> n) \<and>
     sz \<noteq> 0 \<and> (\<exists>fs. env fs \<and> fs_stat fs dp = Some (sz, mt))"
| "finds dp env (Clearing buf mt i) d s n \<longleftrightarrow>
     (\<exists>L. file_at s ((d_fconf d)\<lparr>cf_conf := (cf_conf (d_fconf d))\<lparr>conf_nodes := i\<rparr>\<rparr>) dp L \<and> length L + 4 \<le> n) \<and>
     (\<exists>ls. buf = file_text ls @ [0] \<and> (\<forall>l \<in> set ls. line_ok l))"
| "finds dp env (Reading buf mt) d s n \<longleftrightarrow> file_at s (d_fconf d) dp [] \<and> 3 \<le> n \<and>
     (\<exists>ls. buf = file_text ls @ [0] \<and> (\<forall>l \<in> set ls. line_ok l))"
| "finds dp env (Leaving ok) d s n \<longleftrightarrow> (\<exists>L. file_at s (d_fconf d) dp L) \<and> 2 \<le> n"
| "finds dp env (Finished ok) d s n \<longleftrightarrow> (\<exists>m. at_rest dp d s m) \<and> 1 \<le> n"
| "finds dp env Calling d s n \<longleftrightarrow> False"

lemma file_at_path: "file_at s f path L \<Longrightarrow> \<exists>bs. rd_cstr (cf_path f) s = Some bs \<and> cstr bs = path"
  by (auto simp: file_at_def rd_cstr_def)

lemma file_at_nodes: "file_at s f path L \<Longrightarrow> file_at s (f\<lparr>cf_conf := (cf_conf f)\<lparr>conf_nodes := conf_nodes (cf_conf f)\<rparr>\<rparr>) path L"
  by simp

lemma file_at_stamp: "file_at s (f\<lparr>updated := u, updated_time := t\<rparr>) path L = file_at s f path L"
  by (simp add: file_at_def)

lemma file_at_drop_first:
  assumes "file_at s f path (x # L)"
  obtains n where "conf_nodes (cf_conf f) = Some (i_addr x)" "cnodes s (i_addr x) = Some (Some n)"
    "do { s \<leftarrow> free_cstr (c_name n) s; s \<leftarrow> free_cstr (c_value n) s; free_cnode (conf_nodes (cf_conf f)) s } = Some (drop_items [x] s)"
    "file_at (drop_items [x] s) (f\<lparr>cf_conf := (cf_conf f)\<lparr>conf_nodes := c_next n\<rparr>\<rparr>) path L"
proof -
  have "conf_at s (cf_conf f) (x # L)" using assms by (simp add: file_at_def)
  then obtain n where n: "conf_nodes (cf_conf f) = Some (i_addr x)" "cnodes s (i_addr x) = Some (Some n)"
    "do { s \<leftarrow> free_cstr (c_name n) s; s \<leftarrow> free_cstr (c_value n) s; free_cnode (conf_nodes (cf_conf f)) s } = Some (drop_items [x] s)"
    "conf_at (drop_items [x] s) ((cf_conf f)\<lparr>conf_nodes := c_next n\<rparr>) L" by (rule drop_first)
  from assms n(4) have "file_at (drop_items [x] s) (f\<lparr>cf_conf := (cf_conf f)\<lparr>conf_nodes := c_next n\<rparr>\<rparr>) path L"
    by (auto simp: file_at_def drop_items_def restrict_map_def)
  with n(1-3) show ?thesis by (intro that)
qed

lemma clearing_step:
  assumes "file_at s ((d_fconf d)\<lparr>cf_conf := (cf_conf (d_fconf d))\<lparr>conf_nodes := i\<rparr>\<rparr>) dp (x # L)"
  obtains j where "call_step dp fs (Clearing buf mt i) d s = Some (Clearing buf mt j, d, drop_items [x] s)"
    "i = Some (i_addr x)"
    "file_at (drop_items [x] s) ((d_fconf d)\<lparr>cf_conf := (cf_conf (d_fconf d))\<lparr>conf_nodes := j\<rparr>\<rparr>) dp L"
proof -
  let ?f = "(d_fconf d)\<lparr>cf_conf := (cf_conf (d_fconf d))\<lparr>conf_nodes := i\<rparr>\<rparr>"
  obtain n where n: "conf_nodes (cf_conf ?f) = Some (i_addr x)" "cnodes s (i_addr x) = Some (Some n)"
    "do { s \<leftarrow> free_cstr (c_name n) s; s \<leftarrow> free_cstr (c_value n) s; free_cnode (conf_nodes (cf_conf ?f)) s } = Some (drop_items [x] s)"
    "file_at (drop_items [x] s) (?f\<lparr>cf_conf := (cf_conf ?f)\<lparr>conf_nodes := c_next n\<rparr>\<rparr>) dp L"
    by (rule file_at_drop_first [OF assms])
  then have "call_step dp fs (Clearing buf mt i) d s = Some (Clearing buf mt (c_next n), d, drop_items [x] s)"
    by (auto simp: mem_simps elim!: bind_SomeE)
  with n(1,4) show ?thesis by (intro that) auto
qed

lemma entered_step:
  assumes "0 \<notin> set dp" and "at_rest dp d s m" and mem: "\<forall>k. \<not> coom s k"
  obtains d' s' where "call_step dp fs Entered d s = Some (Checking, d', s')" "d_lock d' = d_lock d"
    "\<exists>L. file_at s' (d_fconf d') dp L \<and> length L \<le> m" "\<forall>k. \<not> coom s' k"
proof (cases "cf_path (d_fconf d) = None")
  case True
  then have "cstore_ok s" using assms(2) by (auto simp: at_rest_def file_at_def)
  moreover have "\<not> coom s (cbrk s)" using mem by simp
  ultimately obtain f' s' where f: "srvd_conf_file_initialize (Some (d_fconf d)) (Some (dp @ [0])) (length dp + 1) s = Some (True, Some f', s')"
      "file_at s' f' dp []" "\<not> updated f'" "coom s' = coom s"
    by (rule conf_file_initialize_spec [OF _ _ assms(1)])
  with True mem show ?thesis by (intro that [of "d\<lparr>d_fconf := f'\<rparr>" s']) auto
next
  case False
  with assms show ?thesis by (intro that [of d s]) (auto simp: at_rest_def)
qed

lemma reading_step:
  assumes "file_at s (d_fconf d) dp []" and "\<forall>l \<in> set ls. line_ok l" and "\<forall>k. \<not> coom s k"
  obtains d' s' L where "call_step dp fs (Reading (file_text ls @ [0]) mt) d s = Some (Leaving True, d', s')"
    "d_lock d' = d_lock d" "file_at s' (d_fconf d') dp L" "\<forall>k. \<not> coom s' k"
proof -
  obtain cf' s' L where r: "srvd_conf_file_read (file_text ls @ [0]) (cf_conf (d_fconf d)) s = Some (True, cf', s')"
      "file_at s' ((d_fconf d)\<lparr>cf_conf := cf'\<rparr>) dp L" "\<forall>k. \<not> coom s' k"
    by (rule file_read_spec [OF assms(1,3,2)])
  then show ?thesis
    by (intro that [of "d\<lparr>d_fconf := (d_fconf d)\<lparr>cf_conf := cf', updated := True, updated_time := mt\<rparr>\<rparr>" s' L])
       (auto simp: file_at_stamp [where f = "(d_fconf d)\<lparr>cf_conf := cf'\<rparr>", simplified])
qed

lemma inside_step:
  assumes env: "tidy env dp" "env fs" and dp: "0 \<notin> set dp" and mem: "\<forall>k. \<not> coom s k"
    and lk: "d_lock d = Locked" and "inside c" and at: "finds dp env c d s (Suc n)"
  obtains c' d' s' where "call_step dp fs c d s = Some (c', d', s')" "finds dp env c' d' s' n" "\<forall>k. \<not> coom s' k"
proof (cases c)
  case Entered
  with at obtain m where m: "at_rest dp d s m" "m + 9 \<le> Suc n" by auto
  obtain d' s' where e: "call_step dp fs Entered d s = Some (Checking, d', s')" "d_lock d' = d_lock d"
      "\<exists>L. file_at s' (d_fconf d') dp L \<and> length L \<le> m" "\<forall>k. \<not> coom s' k"
    by (rule entered_step [OF dp m(1) mem])
  then have "finds dp env Checking d' s' n" using m(2) by auto
  from that [unfolded Entered, OF e(1) this e(4)] show ?thesis .
next
  case Checking
  with at obtain L where L: "file_at s (d_fconf d) dp L" "length L + 8 \<le> Suc n" by auto
  then have "finds dp env (if fresh then Leaving True else Loading) d s n" for fresh by auto
  with Checking mem conf_file_uptodate_spec [OF L(1), of fs] that show ?thesis by simp
next
  case Loading
  with at obtain L where L: "file_at s (d_fconf d) dp L" "length L + 7 \<le> Suc n" by auto
  then have "finds dp env (if fs_fopen fs dp then Opened else Leaving False) d s n" by auto
  with Loading mem file_at_path [OF L(1)] that show ?thesis by auto
next
  case Opened
  with at obtain L where L: "file_at s (d_fconf d) dp L" "length L + 6 \<le> Suc n" by auto
  obtain bs where bs: "rd_cstr (cf_path (d_fconf d)) s = Some bs" "cstr bs = dp" using file_at_path [OF L(1)] by blast
  show ?thesis
  proof (cases "\<exists>sz mt. fs_stat fs dp = Some (sz, mt) \<and> sz \<noteq> 0")
    case True
    then obtain sz mt where st: "fs_stat fs dp = Some (sz, mt)" "sz \<noteq> 0" by blast
    have "finds dp env (Fetching sz mt) d (s\<lparr>cbrk := Suc (cbrk s)\<rparr>) n"
      using L st env(2) file_at_bump [OF L(1)] by auto
    with Opened bs st mem show ?thesis by (intro that [of "Fetching sz mt" d "s\<lparr>cbrk := Suc (cbrk s)\<rparr>"]) simp_all
  next
    case False
    have "finds dp env (Leaving False) d s n" using L by auto
    with Opened bs False mem show ?thesis by (intro that) (auto split: option.split)
  qed
next
  case (Fetching sz mt)
  with at obtain L fs' where L: "file_at s (d_fconf d) dp L" "length L + 5 \<le> Suc n"
      "sz \<noteq> 0" "env fs'" "fs_stat fs' dp = Some (sz, mt)" by auto
  obtain bs where bs: "rd_cstr (cf_path (d_fconf d)) s = Some bs" "cstr bs = dp" using file_at_path [OF L(1)] by blast
  let ?b = "fs_fread fs dp sz"
  show ?thesis
  proof (cases "length ?b = sz")
    case True
    then obtain ls where "?b = file_text ls" "\<forall>l \<in> set ls. line_ok l" using env L(3-5) unfolding tidy_def by blast
    then have "finds dp env (Clearing (?b @ [0]) mt (conf_nodes (cf_conf (d_fconf d)))) d s n" using L(1,2) by auto
    with Fetching bs True mem show ?thesis by (intro that [of _ d s]) (simp_all del: finds.simps)
  next
    case False
    have "finds dp env (Leaving False) d s n" using L by auto
    with Fetching bs False mem show ?thesis by (intro that [of _ d s]) (simp_all del: finds.simps)
  qed
next
  case (Clearing buf mt i)
  let ?f = "\<lambda>j. (d_fconf d)\<lparr>cf_conf := (cf_conf (d_fconf d))\<lparr>conf_nodes := j\<rparr>\<rparr>"
  from Clearing at obtain L where L: "file_at s (?f i) dp L" "length L + 4 \<le> Suc n"
    and buf: "\<exists>ls. buf = file_text ls @ [0] \<and> (\<forall>l \<in> set ls. line_ok l)" by auto
  show ?thesis
  proof (cases L)
    case Nil
    then have "i = None" using L(1) by (simp add: file_at_def conf_at_def)
    with Nil L buf have "finds dp env (Reading buf mt) (d\<lparr>d_fconf := ?f None\<rparr>) s n" by simp
    with Clearing \<open>i = None\<close> mem show ?thesis by (intro that [of _ _ s]) (simp_all del: finds.simps)
  next
    case (Cons x L')
    then have "file_at s (?f i) dp (x # L')" using L(1) by simp
    then obtain j where j: "call_step dp fs (Clearing buf mt i) d s = Some (Clearing buf mt j, d, drop_items [x] s)"
        "i = Some (i_addr x)" "file_at (drop_items [x] s) (?f j) dp L'" by (rule clearing_step)
    have "finds dp env (Clearing buf mt j) d (drop_items [x] s) n" using j(3) L(2) Cons buf by auto
    from that [unfolded Clearing, OF j(1) this] mem show ?thesis by (simp add: drop_items_def)
  qed
next
  case (Reading buf mt)
  with at obtain ls where ls: "file_at s (d_fconf d) dp []" "3 \<le> Suc n" "buf = file_text ls @ [0]" "\<forall>l \<in> set ls. line_ok l" by auto
  obtain d' s' L where r: "call_step dp fs (Reading (file_text ls @ [0]) mt) d s = Some (Leaving True, d', s')"
      "d_lock d' = d_lock d" "file_at s' (d_fconf d') dp L" "\<forall>k. \<not> coom s' k"
    by (rule reading_step [OF ls(1,4) mem])
  then have "finds dp env (Leaving True) d' s' n" using ls(2) by auto
  from that [unfolded Reading ls(3), OF r(1) this r(4)] show ?thesis .
next
  case (Leaving ok)
  with at obtain L where "file_at s (d_fconf d) dp L" "1 \<le> n" by auto
  then have "at_rest dp (d\<lparr>d_lock := Unlocked\<rparr>) s (length L)" by (auto simp: at_rest_def)
  then have "finds dp env (Finished ok) (d\<lparr>d_lock := Unlocked\<rparr>) s n" using \<open>1 \<le> n\<close> by auto
  with Leaving lk mem show ?thesis by (intro that [of _ "d\<lparr>d_lock := Unlocked\<rparr>" s]) (simp_all add: unlock_mutex_def del: finds.simps)
qed (use \<open>inside c\<close> in simp_all)

lemma finds_Suc: "inside c \<Longrightarrow> finds dp env c d s n \<Longrightarrow> \<exists>k. n = Suc k"
  by (cases n; cases c) auto

text \<open>At most one call is inside, the lock says so, and it finds what it needs.\<close>

definition sound :: "byte list \<Rightarrow> (fsys \<Rightarrow> bool) \<Rightarrow> conf_system \<Rightarrow> bool" where
  "sound dp env x \<longleftrightarrow> env (ambient x) \<and> (\<forall>k. \<not> coom (store x) k) \<and>
     (d_lock (shared x) = Unlocked \<and> (\<forall>i. \<not> inside (calls x i)) \<and> (\<exists>m. at_rest dp (shared x) (store x) m) \<or>
      d_lock (shared x) = Locked \<and> (\<exists>i n. inside (calls x i) \<and> (\<forall>j. j \<noteq> i \<longrightarrow> \<not> inside (calls x j)) \<and>
        finds dp env (calls x i) (shared x) (store x) n))"

lemma sound_inside:
  assumes "sound dp env x" and "inside (calls x i)"
  obtains n where "d_lock (shared x) = Locked" "\<forall>j. j \<noteq> i \<longrightarrow> \<not> inside (calls x j)"
    "finds dp env (calls x i) (shared x) (store x) (Suc n)"
  using assms finds_Suc unfolding sound_def by metis

lemma sound_own_step:
  assumes env: "tidy env dp" and dp: "0 \<notin> set dp" and x: "sound dp env x" and i: "inside (calls x i)"
    and at: "finds dp env (calls x i) (shared x) (store x) (Suc n)"
  obtains y where "conf_do dp i x = Some y" "sound dp env y" "finds dp env (calls y i) (shared y) (store y) n"
    "inside (calls y i) \<or> (\<exists>ok. calls y i = Finished ok \<and> d_lock (shared y) = Unlocked)"
proof -
  have lk: "d_lock (shared x) = Locked" "\<forall>j. j \<noteq> i \<longrightarrow> \<not> inside (calls x j)" "env (ambient x)" "\<forall>k. \<not> coom (store x) k"
    using sound_inside [OF x i] x by (auto simp: sound_def)
  obtain c d s where c: "call_step dp (ambient x) (calls x i) (shared x) (store x) = Some (c, d, s)" "finds dp env c d s n"
      "\<forall>k. \<not> coom s k"
    by (rule inside_step [OF env lk(3) dp lk(4,1) i at])
  let ?y = "x\<lparr>calls := (calls x)(i := c), mem := (d, s)\<rparr>"
  have "calls x i \<noteq> Calling" using i by auto
  then have "conf_do dp i x = Some ?y" using c(1) by (simp add: do_step_def conf_step_def)
  moreover have "sound dp env ?y"
    using call_step_inside(1) [OF c(1) i] lk c(2,3) by (auto simp: sound_def)
  moreover have "inside c \<or> (\<exists>ok. c = Finished ok \<and> d_lock d = Unlocked)" using call_step_inside(1) [OF c(1) i] by blast
  ultimately show ?thesis using c(2) by (intro that [of ?y]) simp_all
qed

lemma sound_step:
  assumes env: "tidy env dp" and dp: "0 \<notin> set dp" and x: "sound dp env x" and "threads_step (conf_step dp) (\<lambda>_. Calling) (conf_allowed env quiet) x y"
  shows "sound dp env y"
  using assms(4)
proof cases
  case (move i)
  show ?thesis
  proof (cases "inside (calls x i)")
    case True
    obtain n where "finds dp env (calls x i) (shared x) (store x) (Suc n)" by (rule sound_inside [OF x True])
    from sound_own_step [OF env dp x True this] move show ?thesis by auto
  next
    case False
    from move obtain c d s where c: "call_step dp (ambient x) (calls x i) (shared x) (store x) = Some (c, d, s)"
      and y: "y = x\<lparr>calls := (calls x)(i := c), mem := (d, s),
         taken := (if calls x i = Calling then taken x @ [(i, ambient x)] else taken x)\<rparr>"
      by (auto simp: do_step_def conf_step_def)
    note e = call_step_inside(2) [OF c False]
    with c have d: "d = (shared x)\<lparr>d_lock := Locked\<rparr>" "s = store x" by (auto simp: lock_mutex_def)
    from x e obtain m where "at_rest dp (shared x) (store x) m" by (auto simp: sound_def)
    then have "finds dp env Entered d s (m + 9)" using d by (auto simp: at_rest_def)
    with x e y d show ?thesis by (auto simp: sound_def simp del: finds.simps)
  qed
next
  case (change fs)
  with x show ?thesis by (auto simp: sound_def conf_allowed_def)
qed

lemma sound_reach:
  assumes "tidy env dp" and "0 \<notin> set dp" and "conf_reach dp env quiet x y" and "sound dp env x"
  shows "sound dp env y"
  using assms(3,4) by induction (auto intro: sound_step [OF assms(1,2)])

lemma sound_start:
  "conf_start d s x \<Longrightarrow> env (ambient x) \<Longrightarrow> \<forall>k. \<not> coom s k \<Longrightarrow> at_rest dp d s m \<Longrightarrow> sound dp env x"
  by (auto simp: conf_start_def threads_start_def sound_def)

lemma sound_release:
  assumes env: "tidy env dp" and dp: "0 \<notin> set dp" and "sound dp env x" and "inside (calls x i)"
    and "finds dp env (calls x i) (shared x) (store x) n"
  shows "\<exists>k y ok. conf_run dp i k x = Some y \<and> k \<le> n \<and> calls y i = Finished ok \<and> d_lock (shared y) = Unlocked"
  using assms(3-)
proof (induction n arbitrary: x)
  case 0
  then show ?case using finds_Suc by blast
next
  case (Suc n)
  obtain y where y: "conf_do dp i x = Some y" "sound dp env y" "finds dp env (calls y i) (shared y) (store y) n"
      "inside (calls y i) \<or> (\<exists>ok. calls y i = Finished ok \<and> d_lock (shared y) = Unlocked)"
    by (rule sound_own_step [OF env dp Suc.prems])
  show ?case
  proof (cases "inside (calls y i)")
    case True
    from Suc.IH [OF y(2) True y(3)] obtain k z ok where "conf_run dp i k y = Some z" "k \<le> n" "calls z i = Finished ok"
        "d_lock (shared z) = Unlocked" by blast
    with y(1) show ?thesis by (intro exI [of _ "Suc k"]) auto
  next
    case False
    with y(4) obtain ok where "calls y i = Finished ok" "d_lock (shared y) = Unlocked" by blast
    with y(1) show ?thesis by (intro exI [of _ "Suc 0"]) auto
  qed
qed

lemma sound_comes_out:
  assumes env: "tidy env dp" and dp: "0 \<notin> set dp" and x: "sound dp env x" and i: "inside (calls x i)"
  shows "\<exists>k y ok. conf_run dp i k x = Some y \<and> calls y i = Finished ok \<and> d_lock (shared y) = Unlocked"
proof -
  obtain n where "finds dp env (calls x i) (shared x) (store x) (Suc n)" by (rule sound_inside [OF x i])
  from sound_release [OF env dp x i this] show ?thesis by blast
qed

lemma sound_everywhere:
  assumes "tidy env dp" and "0 \<notin> set dp" and "conf_start d s x" and "env (ambient x)" and "\<forall>k. \<not> coom s k"
    and "cf_path (d_fconf d) = None \<and> cstore_ok s \<or> (\<exists>L. file_at s (d_fconf d) dp L)"
    and "conf_reach dp env quiet x y"
  shows "sound dp env y"
proof -
  obtain m where "at_rest dp d s m" using assms(6) unfolding at_rest_def by blast
  from sound_reach [OF assms(1,2,7) sound_start [OF assms(3) _ assms(5) this]] assms(4) show ?thesis by blast
qed

section \<open>A reader without the lock\<close>

text \<open>The system after some steps of call \<open>i\<close>.\<close>

definition moved :: "nat \<Rightarrow> conf_system \<Rightarrow> call \<Rightarrow> conf_default \<Rightarrow> conf_store \<Rightarrow> conf_system" where
  "moved i x c d s = x\<lparr>calls := (calls x)(i := c), mem := (d, s), taken := taken x @ [(i, ambient x)]\<rparr>"

lemma run_call_moved:
  "c \<noteq> Calling \<Longrightarrow> call_step dp (ambient x) c d s = Some (c', d', s') \<Longrightarrow>
     conf_run dp i (Suc n) (moved i x c d s) = conf_run dp i n (moved i x c' d' s')"
  "calls x i = Calling \<Longrightarrow> call_step dp (ambient x) Calling (shared x) (store x) = Some (c', d', s') \<Longrightarrow>
     conf_run dp i (Suc n) x = conf_run dp i n (moved i x c' d' s')"
  by (simp_all add: do_step_def conf_step_def moved_def)

text \<open>Seven steps take a call that finds a changed file to the point where the first node is freed.\<close>

lemma run_to_clearing:
  assumes at: "file_at (store x) (d_fconf (shared x)) dp (a # L)" and lk: "d_lock (shared x) = Unlocked"
    and mem: "\<forall>k. \<not> coom (store x) k" and i: "calls x i = Calling"
    and fs: "holds_file (ambient x) dp ls mt" and old: "mt \<noteq> updated_time (d_fconf (shared x))"
  shows "\<exists>j. conf_run dp i 7 x = Some (moved i x (Clearing (file_text ls @ [0]) mt j) ((shared x)\<lparr>d_lock := Locked\<rparr>)
      (drop_items [a] ((store x)\<lparr>cbrk := Suc (cbrk (store x))\<rparr>)))"
proof -
  let ?fs = "ambient x" and ?d = "(shared x)\<lparr>d_lock := Locked\<rparr>" and ?s = "store x"
  let ?s1 = "?s\<lparr>cbrk := Suc (cbrk ?s)\<rparr>" and ?n = "conf_nodes (cf_conf (d_fconf (shared x)))" and ?b = "file_text ls @ [0]"
  have at1: "file_at ?s1 (d_fconf ?d) dp (a # L)" using file_at_bump [OF at] by simp
  obtain bs where bs: "rd_cstr (cf_path (d_fconf ?d)) ?s = Some bs" "cstr bs = dp" using file_at_path [OF at] by auto
  obtain bs1 where bs1: "rd_cstr (cf_path (d_fconf ?d)) ?s1 = Some bs1" "cstr bs1 = dp" using file_at_path [OF at1] by auto
  have path: "cf_path (d_fconf ?d) \<noteq> None" using at by (auto simp: file_at_def)
  have f: "fs_fopen ?fs dp" "fs_stat ?fs dp = Some (length (file_text ls), mt)" "length (file_text ls) \<noteq> 0"
      "fs_fread ?fs dp (length (file_text ls)) = file_text ls" using fs by (auto simp: holds_file_def)
  have 1: "call_step dp ?fs Calling (shared x) ?s = Some (Entered, ?d, ?s)" using lk by (simp add: lock_mutex_def)
  have 2: "call_step dp ?fs Entered ?d ?s = Some (Checking, ?d, ?s)" using path by auto
  have 3: "call_step dp ?fs Checking ?d ?s = Some (Loading, ?d, ?s)"
    using conf_file_uptodate_spec [of ?s "d_fconf ?d" dp "a # L" ?fs] at f(2) old by simp
  have 4: "call_step dp ?fs Loading ?d ?s = Some (Opened, ?d, ?s)" using bs f(1) by simp
  have 5: "call_step dp ?fs Opened ?d ?s = Some (Fetching (length (file_text ls)) mt, ?d, ?s1)" using bs f mem by simp
  have 6: "call_step dp ?fs (Fetching (length (file_text ls)) mt) ?d ?s1 = Some (Clearing ?b mt ?n, ?d, ?s1)" using bs1 f by simp
  have "file_at ?s1 ((d_fconf ?d)\<lparr>cf_conf := (cf_conf (d_fconf ?d))\<lparr>conf_nodes := ?n\<rparr>\<rparr>) dp (a # L)"
    using at1 by simp
  then obtain j where 7: "call_step dp ?fs (Clearing ?b mt ?n) ?d ?s1 = Some (Clearing ?b mt j, ?d, drop_items [a] ?s1)"
    by (rule clearing_step)
  note run = run_call_moved(2) [OF i 1] run_call_moved(1) [OF _ 2] run_call_moved(1) [OF _ 3] run_call_moved(1) [OF _ 4]
    run_call_moved(1) [OF _ 5] run_call_moved(1) [OF _ 6] run_call_moved(1) [OF _ 7]
  have seven: "7 = Suc (Suc (Suc (Suc (Suc (Suc (Suc 0))))))" by simp
  show ?thesis unfolding seven using run by (intro exI [of _ j]) (simp only: call.distinct not_False_eq_True run_call.simps(1) if_True simp_thms)
qed

end
