(* ===== verification/Conf_Thread_Properties.thy ===== *)
theory Conf_Thread_Properties
  imports Conf_Threads_Refine Conf_Properties Client
begin

text \<open>
  Properties of the shared default configuration under concurrent calls. Every one is followed by its
  use at a concrete system: calls for the file \<open>/\<close> that was read at time 6 and changed at time 7.
\<close>

definition demo_calls :: conf_system where
  "demo_calls = \<lparr>calls = (\<lambda>_. Calling), mem = (\<lparr>d_fconf = demo_file 6, d_lock = Unlocked\<rparr>, demo_cstore2),
     ambient = demo_fs, taken = []\<rparr>"

lemma demo_calls_start [simp]: "conf_start \<lparr>d_fconf = demo_file 6, d_lock = Unlocked\<rparr> demo_cstore2 demo_calls"
  by (simp add: conf_start_def threads_start_def demo_calls_def)

lemma demo_calls_simps [simp]:
  "calls demo_calls = (\<lambda>_. Calling)" "ambient demo_calls = demo_fs" "mem demo_calls = (\<lparr>d_fconf = demo_file 6, d_lock = Unlocked\<rparr>, demo_cstore2)"
  "taken demo_calls = []"
  by (simp_all add: demo_calls_def)

abbreviation demo_env :: "fsys \<Rightarrow> bool" where
  "demo_env \<equiv> \<lambda>fs. fs = demo_fs"

lemma demo_tidy [simp]: "tidy demo_env [47]"
  using demo_lines_ok by (auto simp: tidy_def demo_fs_def)

text \<open>Call 0 after its first step, and after it has returned.\<close>

definition demo_entered :: conf_system where
  "demo_entered = the (conf_do [47] 0 demo_calls)"

lemma demo_entered [simp]: "conf_do [47] 0 demo_calls = Some demo_entered" "calls demo_entered 0 = Entered"
  by (simp_all add: demo_entered_def do_step_def conf_step_def lock_mutex_def)

lemma demo_entered_reach: "conf_reach [47] demo_env quiet demo_calls demo_entered"
  using threads_step.move [OF demo_entered(1)] by blast

lemma demo_at_rest: "at_rest [47] \<lparr>d_fconf = demo_file 6, d_lock = Unlocked\<rparr> demo_cstore2 1"
  using demo_file_at [of 6] by (auto simp: at_rest_def)

lemma demo_sound: "sound [47] demo_env demo_entered"
proof (rule sound_reach [OF demo_tidy _ demo_entered_reach])
  show "sound [47] demo_env demo_calls" by (rule sound_start [OF demo_calls_start _ _ demo_at_rest]) simp_all
qed simp

lemma demo_run: "\<exists>k y ok. conf_run [47] 0 k demo_calls = Some y \<and> calls y 0 = Finished ok \<and> d_lock (shared y) = Unlocked"
proof -
  obtain k y ok where "conf_run [47] 0 k demo_entered = Some y" "calls y 0 = Finished ok" "d_lock (shared y) = Unlocked"
    using sound_comes_out [OF demo_tidy _ demo_sound, of 0] by auto
  then show ?thesis by (intro exI [of _ "Suc k"] exI [of _ y]) simp
qed

text \<open>C22. The lock makes the calls of \<open>srvd_conf_file_default_get\<close> one after another, when the file
  changes only while no call is past the lock: however the steps of the calls are interleaved, and
  whatever the file becomes at the moments at which nobody holds the lock, whenever nobody holds it
  the shared configuration, the memory and every returned value are those of the sequential calls in
  the order in which they took the lock, each with the files it found. (A change under a running
  call, between its own steps, is not covered here; C23 and C24 are about runs that have them.)\<close>

theorem conf_calls_serialize:
  assumes "conf_start d s x" and "conf_reach dp env True x y" and "d_lock (shared y) = Unlocked"
  shows "\<exists>rs. serial (default_call dp) (taken y) (d, s) = Some (rs, shared y, store y) \<and> distinct (map fst (taken y)) \<and>
     (\<forall>i. calls y i = (case map_of rs i of None \<Rightarrow> Calling | Some ok \<Rightarrow> Finished ok))"
proof -
  have "(\<lambda>i fs. conf_rest dp fs Calling) = default_call dp" by (intro ext) (rule conf_rest_calling)
  with conf_calls.calls_serialize [OF assms(2), of "(d, s)"] assms(1,3) show ?thesis
    by (simp add: conf_start_def conf_allowed_def)
qed

theorem conf_calls_serialize_witness:
  "\<exists>y rs ok. conf_reach [47] demo_env True demo_calls y \<and> calls y 0 = Finished ok \<and> map_of rs 0 = Some ok \<and>
     serial (default_call [47]) (taken y) (\<lparr>d_fconf = demo_file 6, d_lock = Unlocked\<rparr>, demo_cstore2) = Some (rs, shared y, store y)"
proof -
  from demo_run obtain k y ok where y: "conf_run [47] 0 k demo_calls = Some y" "calls y 0 = Finished ok"
      "d_lock (shared y) = Unlocked" by blast
  have reach: "conf_reach [47] demo_env True demo_calls y" by (rule run_call_reach [OF y(1)])
  from conf_calls_serialize [OF demo_calls_start reach y(3)] obtain rs where
    rs: "serial (default_call [47]) (taken y) (\<lparr>d_fconf = demo_file 6, d_lock = Unlocked\<rparr>, demo_cstore2) = Some (rs, shared y, store y)"
      "calls y 0 = (case map_of rs 0 of None \<Rightarrow> Calling | Some ok \<Rightarrow> Finished ok)" by blast
  with y(2) have "map_of rs 0 = Some ok" by (auto split: option.splits)
  with rs(1) y(2) reach show ?thesis by blast
qed

text \<open>C23. At any moment at most one call is past the lock, and it can always make its next step without
  undefined behaviour, even when the file changes under it, as long as what is read in full follows
  the grammar and memory does not run out. A call that waits can enter as soon as nobody is inside.\<close>

theorem conf_calls_never_stuck:
  assumes "tidy env dp" and "0 \<notin> set dp" and "conf_start d s x" and "env (ambient x)" and "\<forall>k. \<not> coom s k"
    and "cf_path (d_fconf d) = None \<and> cstore_ok s \<or> (\<exists>L. file_at s (d_fconf d) dp L)"
    and "conf_reach dp env quiet x y"
  shows "(\<forall>i j. inside (calls y i) \<and> inside (calls y j) \<longrightarrow> i = j) \<and>
     (\<forall>i. inside (calls y i) \<longrightarrow> (\<exists>z. conf_do dp i y = Some z)) \<and>
     (\<forall>i. calls y i = Calling \<longrightarrow> (\<exists>z. conf_do dp i y = Some z) \<or> (\<exists>j. inside (calls y j)))"
proof -
  have y: "sound dp env y" by (rule sound_everywhere [OF assms])
  have "\<exists>z. conf_do dp i y = Some z" if "inside (calls y i)" for i
    using sound_inside [OF y that] sound_own_step [OF assms(1,2) y that] by metis
  moreover have "(\<exists>z. conf_do dp i y = Some z) \<or> (\<exists>j. inside (calls y j))" if "calls y i = Calling" for i
    using y that by (auto simp: sound_def do_step_def conf_step_def lock_mutex_def)
  moreover have "i = j" if "inside (calls y i) \<and> inside (calls y j)" for i j
    using sound_inside [OF y, of i] that by blast
  ultimately show ?thesis by blast
qed

theorem conf_calls_never_stuck_witness:
  "\<exists>z. conf_do [47] 0 demo_entered = Some z"
proof -
  have "\<exists>L. file_at demo_cstore2 (d_fconf \<lparr>d_fconf = demo_file 6, d_lock = Unlocked\<rparr>) [47] L" using demo_file_at by auto
  with conf_calls_never_stuck [OF demo_tidy _ demo_calls_start _ _ _ demo_entered_reach] show ?thesis by simp
qed



text \<open>C25. The lock does not cover the use of the configuration. A caller that was handed the shared file
  reads it in \<open>srvd_client_get_by_conf\<close> after the lock is free again; another call that finds the file
  changed reaches, in seven steps, a moment at which that reading is undefined: it meets a freed node.\<close>

theorem conf_reader_races:
  assumes "file_at (store x) (d_fconf (shared x)) dp (a # L)" and "d_lock (shared x) = Unlocked"
    and "\<forall>k. \<not> coom (store x) k" and "calls x i = Calling"
    and "holds_file (ambient x) dp ls mt" and "mt \<noteq> updated_time (d_fconf (shared x))"
  shows "\<exists>y. conf_run dp i 7 x = Some y \<and> (\<forall>j. j \<noteq> i \<longrightarrow> calls y j = calls x j) \<and>
     srvd_client_get_by_conf (Some None) (Some (cf_conf (d_fconf (shared y)))) (store y) m w = None"
proof -
  let ?s = "drop_items [a] ((store x)\<lparr>cbrk := Suc (cbrk (store x))\<rparr>)" and ?d = "(shared x)\<lparr>d_lock := Locked\<rparr>"
  obtain j where run: "conf_run dp i 7 x = Some (moved i x (Clearing (file_text ls @ [0]) mt j) ?d ?s)"
    using run_to_clearing [OF assms] by blast
  have "conf_nodes (cf_conf (d_fconf ?d)) = Some (i_addr a)" using assms(1) by (auto simp: file_at_def conf_at_def)
  moreover have "cnodes ?s (i_addr a) = None" by (simp add: drop_items_def)
  ultimately have "conf_find (conf_nodes (cf_conf (d_fconf ?d))) nm ?s = None" for nm
    by (subst conf_find.simps) (simp add: deref_def)
  then have "srvd_client_get_by_conf (Some None) (Some (cf_conf (d_fconf ?d))) ?s m w = None"
    by (simp add: srvd_client_get_by_conf_def srvd_conf_item_get_def)
  with run show ?thesis by (intro exI) (auto simp: moved_def)
qed

theorem conf_reader_races_witness:
  "\<forall>m w. \<exists>y. conf_run [47] 1 7 (demo_calls\<lparr>calls := (\<lambda>_. Calling)(0 := Finished True)\<rparr>) = Some y \<and> calls y 0 = Finished True \<and>
     srvd_client_get_by_conf (Some None) (Some (cf_conf (d_fconf (shared y)))) (store y) m w = None"
proof (intro allI)
  fix m w
  let ?x = "demo_calls\<lparr>calls := (\<lambda>_. Calling)(0 := Finished True)\<rparr>"
  have at: "file_at (store ?x) (d_fconf (shared ?x)) [47] ((0, (1, [97, 0]), (2, [98, 0])) # [])" using demo_file_at by simp
  have "updated_time (d_fconf (shared ?x)) \<noteq> 7" by (simp add: demo_file_def)
  with conf_reader_races [OF at, of 1 demo_lines 7 m w] obtain y where "conf_run [47] 1 7 ?x = Some y"
      "\<forall>j. j \<noteq> 1 \<longrightarrow> calls y j = calls ?x j"
      "srvd_client_get_by_conf (Some None) (Some (cf_conf (d_fconf (shared y)))) (store y) m w = None"
    by (auto simp del: One_nat_def)
  then show "\<exists>y. conf_run [47] 1 7 ?x = Some y \<and> calls y 0 = Finished True \<and>
     srvd_client_get_by_conf (Some None) (Some (cf_conf (d_fconf (shared y)))) (store y) m w = None"
    by (intro exI [of _ y]) simp
qed

end
