(* ===== verification/Nss_Threads.thy ===== *)
theory Nss_Threads
  imports Nss_Passwd
begin

text \<open>
  Threads that enumerate a database at the same time (\<open>lib/srvd/nss/passwd.c\<close> and \<open>aliases.c\<close> with the key
  macros of \<open>include/srvd/thread.h\<close>). Each of the two has a key of its own and the same code around it, so
  the steps take the function that fills the struct and the type of the request. The key is made once for the process; behind it every thread has a slot of
  its own, which points to the offset the thread allocated. A call of one thread is the sequential
  operation on its view of the process. The key has no destructor: a thread that ends loses its slot
  and the offset stays.
\<close>

record ent_process =
  made :: bool
  slots :: "nat \<Rightarrow> ptr"
  counters :: "addr \<rightharpoonup> u32"
  proc_brk :: nat
  proc_oom :: "nat \<Rightarrow> bool"

definition view :: "nat \<Rightarrow> ent_process \<Rightarrow> ent_state" where
  "view i p = \<lparr>key_made = made p, key_data = slots p i, offsets = counters p, off_brk = proc_brk p, off_oom = proc_oom p\<rparr>"

definition put_view :: "nat \<Rightarrow> ent_state \<Rightarrow> ent_process \<Rightarrow> ent_process" where
  "put_view i t p = \<lparr>made = key_made t, slots = (slots p)(i := key_data t), counters = offsets t,
     proc_brk = off_brk t, proc_oom = off_oom t\<rparr>"

inductive ent_step :: "'e fill \<Rightarrow> u16 \<Rightarrow> byte list \<Rightarrow> nat \<Rightarrow> ent_process \<Rightarrow> ent_process \<Rightarrow> bool" for fill ty dp i where
  set_entries: "nss_setent (view i p) = Some (st, t) \<Longrightarrow> ent_step fill ty dp i p (put_view i t p)"
| end_entries: "nss_endent (view i p) = Some (st, t) \<Longrightarrow> ent_step fill ty dp i p (put_view i t p)"
| get_entry: "nss_getent fill ty dp fs e buf bufsize err (view i p) x = Some (st, e', buf', err', t, x') \<Longrightarrow>
    ent_step fill ty dp i p (put_view i t p)"
| thread_ends: "ent_step fill ty dp i p (p\<lparr>slots := (slots p)(i := None)\<rparr>)"

inductive ent_reach :: "'e fill \<Rightarrow> u16 \<Rightarrow> byte list \<Rightarrow> ent_process \<Rightarrow> ent_process \<Rightarrow> bool" for fill ty dp p where
  start: "ent_reach fill ty dp p p"
| go: "ent_reach fill ty dp p q \<Longrightarrow> ent_step fill ty dp i q r \<Longrightarrow> ent_reach fill ty dp p r"

inductive_cases ent_stepE: "ent_step fill ty dp i p q"

text \<open>The entry a thread is at, if it enumerates.\<close>

definition position :: "nat \<Rightarrow> ent_process \<Rightarrow> u32 option" where
  "position i p = Option.bind (slots p i) (counters p)"

definition owned :: "ent_process \<Rightarrow> bool" where
  "owned p \<longleftrightarrow> (\<forall>i a. slots p i = Some a \<longrightarrow> counters p a \<noteq> None) \<and>
     (\<forall>i j a. slots p i = Some a \<longrightarrow> slots p j = Some a \<longrightarrow> i = j) \<and>
     (\<forall>a \<ge> proc_brk p. counters p a = None) \<and> (\<not> made p \<longrightarrow> (\<forall>i. slots p i = None))"

section \<open>What a call of a thread does to its view\<close>

definition confined :: "ent_state \<Rightarrow> ent_state \<Rightarrow> bool" where
  "confined t t' \<longleftrightarrow> off_brk t \<le> off_brk t' \<and> off_brk t' \<le> Suc (off_brk t) \<and> key_made t' \<and>
     (\<forall>a. key_data t' = Some a \<longrightarrow> (key_data t = Some a \<or> a = off_brk t) \<and> offsets t' a \<noteq> None) \<and>
     (\<forall>a. key_data t \<noteq> Some a \<longrightarrow> a \<noteq> off_brk t \<longrightarrow> offsets t' a = offsets t a) \<and>
     (\<forall>a \<ge> off_brk t'. offsets t' a = None)"

text \<open>A view whose key and offset are in order.\<close>

definition in_order :: "ent_state \<Rightarrow> bool" where
  "in_order t \<longleftrightarrow> (\<forall>a. key_data t = Some a \<longrightarrow> offsets t a \<noteq> None) \<and> (\<forall>a \<ge> off_brk t. offsets t a = None) \<and>
     (\<not> key_made t \<longrightarrow> key_data t = None)"

lemma begin_confined:
  assumes "in_order t" and "ent_begin t = (ok, t')"
  shows "confined t t'" "in_order t'" "ok \<longleftrightarrow> key_data t' \<noteq> None" "key_made t'"
  using assms
  by (auto simp: ent_begin_def ent_once_def ent_initialize_offset_def confined_def in_order_def Let_def split: if_splits)

lemma store_confined:
  assumes "confined t t1" and "in_order t1" and "key_data t1 = Some a"
  shows "confined t (t1\<lparr>offsets := (offsets t1)(a \<mapsto> v)\<rparr>)"
  using assms by (auto simp: confined_def in_order_def)

lemma setent_confined: "in_order t \<Longrightarrow> nss_setent t = Some (st, t') \<Longrightarrow> confined t t'"
  by (cases "ent_begin t")
     (auto simp: nss_setent_def dest: begin_confined intro!: store_confined elim!: bind_SomeE split: if_splits)

lemma endent_confined: "in_order t \<Longrightarrow> nss_endent t = Some (st, t') \<Longrightarrow> confined t t'"
  by (auto simp: nss_endent_def ent_once_def Let_def confined_def in_order_def release_def
      split: if_splits option.splits elim!: bind_SomeE)

lemma getent_confined:
  "in_order t \<Longrightarrow> nss_getent fill ty dp fs e buf n err t x = Some (st, e', buf', err', t', x') \<Longrightarrow> confined t t'"
  by (cases "ent_begin t")
     (auto simp: nss_getent_def dest: begin_confined intro!: store_confined elim!: bind_SomeE split: if_splits)

section \<open>The process\<close>

lemma owned_view: "owned p \<Longrightarrow> in_order (view i p)"
  by (auto simp: owned_def in_order_def view_def)

lemma put_view_step:
  assumes own: "owned p" and "confined (view i p) t"
  shows "owned (put_view i t p)" "j \<noteq> i \<Longrightarrow> position j (put_view i t p) = position j p"
    "(\<forall>j. slots p j \<noteq> Some a) \<Longrightarrow> counters p a = Some v \<Longrightarrow>
       counters (put_view i t p) a = Some v \<and> (\<forall>j. slots (put_view i t p) j \<noteq> Some a)"
proof -
  have other: "slots p j = Some a \<Longrightarrow> j \<noteq> i \<Longrightarrow> a < proc_brk p \<and> slots p i \<noteq> Some a \<and> offsets t a = counters p a" for j a
    using assms unfolding owned_def confined_def view_def by (simp, metis not_less option.distinct(1) order.irrefl)
  show "owned (put_view i t p)"
    using assms other unfolding owned_def put_view_def confined_def view_def
    by (auto split: if_splits)
  show "j \<noteq> i \<Longrightarrow> position j (put_view i t p) = position j p"
    using other [of j] by (cases "slots p j") (auto simp: position_def put_view_def)
  show "(\<forall>j. slots p j \<noteq> Some a) \<Longrightarrow> counters p a = Some v \<Longrightarrow>
       counters (put_view i t p) a = Some v \<and> (\<forall>j. slots (put_view i t p) j \<noteq> Some a)"
    using assms unfolding owned_def confined_def view_def put_view_def
    by (auto split: if_splits)
qed

lemma step_view:
  assumes "owned p" and "ent_step fill ty dp i p q"
  shows "q = p\<lparr>slots := (slots p)(i := None)\<rparr> \<or> (\<exists>t. q = put_view i t p \<and> confined (view i p) t)"
  using assms(2) owned_view [OF assms(1), of i]
  by cases (auto dest: setent_confined endent_confined getent_confined)

lemma gone_step:
  assumes "owned p" and "q = p\<lparr>slots := (slots p)(i := None)\<rparr>"
  shows "owned q" "j \<noteq> i \<Longrightarrow> position j q = position j p"
    "(\<forall>j. slots p j \<noteq> Some a) \<Longrightarrow> counters p a = Some v \<Longrightarrow> counters q a = Some v \<and> (\<forall>j. slots q j \<noteq> Some a)"
proof -
  show "owned q" using assms unfolding owned_def by (simp split: if_splits)
  show "j \<noteq> i \<Longrightarrow> position j q = position j p" using assms(2) by (cases "slots p j") (simp_all add: position_def)
qed (use assms in \<open>simp_all\<close>)

lemma step_owned:
  assumes "owned p" and "ent_step fill ty dp i p q"
  shows "owned q" "j \<noteq> i \<Longrightarrow> position j q = position j p"
    "(\<forall>j. slots p j \<noteq> Some a) \<Longrightarrow> counters p a = Some v \<Longrightarrow> counters q a = Some v \<and> (\<forall>j. slots q j \<noteq> Some a)"
proof -
  consider "q = p\<lparr>slots := (slots p)(i := None)\<rparr>" | t where "q = put_view i t p" "confined (view i p) t"
    using step_view [OF assms] by blast
  note cases = this
  show "owned q" using cases gone_step(1) [OF assms(1)] put_view_step(1) [OF assms(1)] by cases simp_all
  show "position j q = position j p" if "j \<noteq> i"
    using cases gone_step(2) [OF assms(1)] put_view_step(2) [OF assms(1)] that by cases simp_all
  show "counters q a = Some v \<and> (\<forall>j. slots q j \<noteq> Some a)" if "\<forall>j. slots p j \<noteq> Some a" "counters p a = Some v"
    using cases
  proof cases
    case 1
    from gone_step(3) [OF assms(1) this that] show ?thesis .
  next
    case (2 t)
    from put_view_step(3) [OF assms(1) 2(2) that] show ?thesis by (simp add: 2(1))
  qed
qed

lemma reach_owned:
  assumes "ent_reach fill ty dp p q" and "owned p"
  shows "owned q"
  using assms by induction (auto dest: step_owned)

lemma reach_unowned:
  assumes "ent_reach fill ty dp p q" and "owned p" and "\<forall>j. slots p j \<noteq> Some a" and "counters p a = Some v"
  shows "counters q a = Some v \<and> (\<forall>j. slots q j \<noteq> Some a)"
  using assms
proof induction
  case (go q i r)
  with step_owned(3) [OF reach_owned [OF go.hyps(1) go.prems(1)] go.hyps(2)] show ?case by blast
qed simp

section \<open>Properties\<close>

text \<open>A process in which no thread has called yet.\<close>

definition no_threads :: "(nat \<Rightarrow> bool) \<Rightarrow> ent_process" where
  "no_threads fails = \<lparr>made = False, slots = (\<lambda>_. None), counters = Map.empty, proc_brk = 0, proc_oom = fails\<rparr>"

lemma no_threads_owned: "owned (no_threads fails)"
  by (simp add: owned_def no_threads_def)

text \<open>C39. Threads enumerate independently, users as well as aliases: whatever the threads of a process have
  done, a call of one of them leaves the entry every other thread is at as it was, and no two threads
  share an offset.\<close>

theorem enumerations_are_private:
  assumes "ent_reach fill ty dp (no_threads fails) p" and "ent_step fill ty dp i p q" and "j \<noteq> i"
  shows "position j q = position j p \<and> (\<forall>a. slots q i = Some a \<longrightarrow> slots q j \<noteq> Some a)"
proof -
  note p = reach_owned [OF assms(1) no_threads_owned]
  from step_owned(1,2) [OF p assms(2)] assms(3) show ?thesis unfolding owned_def by blast
qed

theorem enumerations_are_private_witness:
  "\<exists>p q. ent_step (srvd_nss_passwd_populate True) SRVD_SERVICE_NSS_PASSWD_REQUEST_ENTITIES [47] 0 (no_threads (\<lambda>_. False)) p \<and> ent_step (srvd_nss_passwd_populate True) SRVD_SERVICE_NSS_PASSWD_REQUEST_ENTITIES [47] 1 p q \<and>
     position 1 q = Some 0 \<and> position 0 q = position 0 p \<and> position 0 p = Some 0"
proof -
  let ?z = "no_threads (\<lambda>_. False)"
  define t where "t = \<lparr>key_made = True, key_data = Some 0, offsets = [0 \<mapsto> 0 :: u32], off_brk = 1, off_oom = (\<lambda>_. False)\<rparr>"
  let ?p = "put_view 0 t ?z"
  define u where "u = \<lparr>key_made = True, key_data = Some 1, offsets = [0 \<mapsto> 0 :: u32, 1 \<mapsto> 0], off_brk = 2, off_oom = (\<lambda>_. False)\<rparr>"
  have "nss_setent (view 0 ?z) = Some (NSS_STATUS_SUCCESS, t)"
    by (simp add: nss_setent_def ent_begin_def ent_once_def ent_initialize_offset_def view_def no_threads_def t_def)
  then have p: "ent_step (srvd_nss_passwd_populate True) SRVD_SERVICE_NSS_PASSWD_REQUEST_ENTITIES [47] 0 ?z ?p" by (rule set_entries)
  have "nss_setent (view 1 ?p) = Some (NSS_STATUS_SUCCESS, u)"
    by (simp add: nss_setent_def ent_begin_def ent_once_def ent_initialize_offset_def view_def put_view_def
        no_threads_def t_def u_def)
  then have q: "ent_step (srvd_nss_passwd_populate True) SRVD_SERVICE_NSS_PASSWD_REQUEST_ENTITIES [47] 1 ?p (put_view 1 u ?p)" by (rule set_entries)
  have "position 0 (put_view 1 u ?p) = position 0 ?p"
    using enumerations_are_private [OF go [OF start p] q, of 0] by simp
  with p q show ?thesis
    by (intro exI [of _ ?p] exI [of _ "put_view 1 u ?p"]) (simp add: position_def put_view_def t_def u_def)
qed

text \<open>The offset of a thread that ends while it enumerates is never released.\<close>

theorem thread_end_keeps_offset:
  assumes "ent_reach fill ty dp (no_threads fails) p" and "slots p i = Some a"
    and "ent_reach fill ty dp (p\<lparr>slots := (slots p)(i := None)\<rparr>) q"
  shows "counters q a = counters p a \<and> counters q a \<noteq> None \<and> (\<forall>j. slots q j \<noteq> Some a)"
proof -
  let ?p = "p\<lparr>slots := (slots p)(i := None)\<rparr>"
  have p: "owned p" by (rule reach_owned [OF assms(1) no_threads_owned])
  have "counters p a \<noteq> None" and same: "slots p j = Some a \<Longrightarrow> j = i" for j
    using p assms(2) unfolding owned_def by blast+
  moreover have "\<forall>j. slots ?p j \<noteq> Some a" by (auto dest: same)
  ultimately obtain v where v: "counters p a = Some v" "\<forall>j. slots ?p j \<noteq> Some a" by blast
  have "owned ?p" by (rule gone_step(1) [OF p]) simp
  from reach_unowned [OF assms(3) this v(2)] v(1) show ?thesis by simp
qed

end
