(* ===== verification/Packet_Threads.thy ===== *)
theory Packet_Threads
  imports Critical_Section Packet_Contract
begin

text \<open>
  Threads that share a packet: append, insert, get-or-add and get-or-inject of
  \<open>lib/srvd/libsrvd/protocol/packet.c\<close> run as critical sections under \<open>packet->field_lock\<close>, step by
  step. A call is the point it has reached, with the request and the field it works on.
\<close>

datatype packet_request =
    Append u16 u16 "byte list option"
  | Insert u16 u16 "byte list option"
  | Get_or_add u16
  | Get_or_inject u16

primrec request_type :: "packet_request \<Rightarrow> u16" where
  "request_type (Append ty sz data) = ty"
| "request_type (Insert ty sz data) = ty"
| "request_type (Get_or_add ty) = ty"
| "request_type (Get_or_inject ty) = ty"

text \<open>The size and data of a request that creates its field with an entry.\<close>

primrec request_entry :: "packet_request \<Rightarrow> (u16 \<times> byte list option) option" where
  "request_entry (Append ty sz data) = Some (sz, data)"
| "request_entry (Insert ty sz data) = Some (sz, data)"
| "request_entry (Get_or_add ty) = None"
| "request_entry (Get_or_inject ty) = None"

text \<open>The stores of the two functions that link a field, one after another.\<close>

datatype link_part = Empty_end | Own_link | Neighbour | Near_end | Count

fun following :: "link_part \<Rightarrow> link_part option" where
  "following Empty_end = Some Own_link"
| "following Own_link = Some Neighbour"
| "following Neighbour = Some Near_end"
| "following Near_end = Some Count"
| "following Count = None"

fun add_part :: "link_part \<Rightarrow> ptr \<Rightarrow> ptr \<Rightarrow> heap \<Rightarrow> heap option" where
  "add_part Empty_end packet field h = do {
     k \<leftarrow> rd_packet packet h;
     if field_head k = None then upd_packet packet (field_head_update (\<lambda>_. field)) h else Some h }"
| "add_part Own_link packet field h = do {
     k \<leftarrow> rd_packet packet h;
     upd_field field (f_previous_update (\<lambda>_. field_tail k)) h }"
| "add_part Neighbour packet field h = do {
     f \<leftarrow> rd_field field h;
     if f_previous f \<noteq> None then upd_field (f_previous f) (f_next_update (\<lambda>_. field)) h else Some h }"
| "add_part Near_end packet field h = upd_packet packet (field_tail_update (\<lambda>_. field)) h"
| "add_part Count packet field h = upd_packet packet (\<lambda>k. k\<lparr>field_count := field_count k + 1\<rparr>) h"

fun inject_part :: "link_part \<Rightarrow> ptr \<Rightarrow> ptr \<Rightarrow> heap \<Rightarrow> heap option" where
  "inject_part Empty_end packet field h = do {
     k \<leftarrow> rd_packet packet h;
     if field_tail k = None then upd_packet packet (field_tail_update (\<lambda>_. field)) h else Some h }"
| "inject_part Own_link packet field h = do {
     k \<leftarrow> rd_packet packet h;
     upd_field field (f_next_update (\<lambda>_. field_head k)) h }"
| "inject_part Neighbour packet field h = do {
     f \<leftarrow> rd_field field h;
     if f_next f \<noteq> None then upd_field (f_next f) (f_previous_update (\<lambda>_. field)) h else Some h }"
| "inject_part Near_end packet field h = upd_packet packet (field_head_update (\<lambda>_. field)) h"
| "inject_part Count packet field h = upd_packet packet (\<lambda>k. k\<lparr>field_count := field_count k + 1\<rparr>) h"

primrec request_part :: "packet_request \<Rightarrow> link_part \<Rightarrow> ptr \<Rightarrow> ptr \<Rightarrow> heap \<Rightarrow> heap option" where
  "request_part (Append ty sz data) = add_part"
| "request_part (Insert ty sz data) = inject_part"
| "request_part (Get_or_add ty) = add_part"
| "request_part (Get_or_inject ty) = inject_part"

text \<open>What the stores make together.\<close>

primrec request_link :: "packet_request \<Rightarrow> ptr \<Rightarrow> ptr \<Rightarrow> heap \<Rightarrow> heap option" where
  "request_link (Append ty sz data) = srvd_protocol_packet_field_add_locked"
| "request_link (Insert ty sz data) = srvd_protocol_packet_field_inject_locked"
| "request_link (Get_or_add ty) = srvd_protocol_packet_field_add_locked"
| "request_link (Get_or_inject ty) = srvd_protocol_packet_field_inject_locked"

text \<open>The status and, for a request that asks for it, the field.\<close>

type_synonym packet_result = "bool \<times> ptr"

datatype packet_call =
    Waiting packet_request
  | Looking packet_request
  | Making packet_request
  | Starting packet_request ptr
  | Filling packet_request ptr
  | Linking link_part packet_request ptr
  | Unlocking packet_result
  | Over packet_result

text \<open>\<open>None\<close> at \<open>Waiting\<close> is a call that waits for the lock; anywhere else it is undefined behaviour.\<close>

fun packet_step :: "addr \<Rightarrow> unit \<Rightarrow> packet_call \<Rightarrow> heap \<Rightarrow> (packet_call \<times> heap) option" where
  "packet_step p e (Waiting q) h = do { h \<leftarrow> with_field_lock lock_mutex (Some p) h; Some (Looking q, h) }"
| "packet_step p e (Looking q) h = do {
     (found, field) \<leftarrow> srvd_protocol_packet_field_get_by_type (Some p) (request_type q) (Some None) h;
     Some (if \<not> found then Making q
       else if request_entry q = None then Unlocking (True, the field) else Unlocking (False, None), h) }"
| "packet_step p e (Making q) h =
     (let (f, h) = srvd_protocol_packet_field_allocate h in
      Some (if f = None then Unlocking (False, None) else Starting q f, h))"
| "packet_step p e (Starting q f) h = do {
     (ok, h) \<leftarrow> srvd_protocol_packet_field_initialize f (request_type q) h;
     if \<not> ok then do { h \<leftarrow> srvd_protocol_packet_field_free f h; Some (Unlocking (False, None), h) }
     else Some (if request_entry q = None then Linking Empty_end q f else Filling q f, h) }"
| "packet_step p e (Filling q f) h = do {
     (sz, data) \<leftarrow> request_entry q;
     (ok, h) \<leftarrow> srvd_protocol_packet_field_entry_add f sz data h;
     if \<not> ok then do {
       (_, h) \<leftarrow> srvd_protocol_packet_field_finalize f h;
       h \<leftarrow> srvd_protocol_packet_field_free f h;
       Some (Unlocking (False, None), h) }
     else Some (Linking Empty_end q f, h) }"
| "packet_step p e (Linking s q f) h = do {
     h \<leftarrow> request_part q s (Some p) f h;
     Some (case following s of Some s \<Rightarrow> Linking s q f
       | None \<Rightarrow> Unlocking (True, if request_entry q = None then f else None), h) }"
| "packet_step p e (Unlocking r) h = do { h \<leftarrow> with_field_lock unlock_mutex (Some p) h; Some (Over r, h) }"
| "packet_step p e (Over r) h = None"

fun packet_inside :: "packet_call \<Rightarrow> bool" where
  "packet_inside (Waiting q) \<longleftrightarrow> False"
| "packet_inside (Over r) \<longleftrightarrow> False"
| "packet_inside c \<longleftrightarrow> True"

fun packet_over :: "packet_call \<Rightarrow> packet_result option" where
  "packet_over (Over r) = Some r"
| "packet_over c = None"

text \<open>The sequential calls.\<close>

fun run_request :: "addr \<Rightarrow> packet_request \<Rightarrow> heap \<Rightarrow> (packet_result \<times> heap) option" where
  "run_request p (Append ty sz data) h = do {
     (r, h) \<leftarrow> srvd_protocol_packet_field_append (Some p) ty sz data h; Some ((r, None), h) }"
| "run_request p (Insert ty sz data) h = do {
     (r, h) \<leftarrow> srvd_protocol_packet_field_insert (Some p) ty sz data h; Some ((r, None), h) }"
| "run_request p (Get_or_add ty) h = do {
     (r, f, h) \<leftarrow> srvd_protocol_packet_field_get_or_add (Some p) ty (Some None) h; Some ((r, the f), h) }"
| "run_request p (Get_or_inject ty) h = do {
     (r, f, h) \<leftarrow> srvd_protocol_packet_field_get_or_inject (Some p) ty (Some None) h; Some ((r, the f), h) }"

section \<open>Steps keep the packets, all but the last link\<close>

definition lock_of :: "addr \<Rightarrow> heap \<Rightarrow> mutex option" where
  "lock_of p h = (case pkts h p of Some (Some k) \<Rightarrow> Some (field_lock k) | _ \<Rightarrow> None)"

lemma lock_of_pkts: "pkts h' = pkts h \<Longrightarrow> lock_of p h' = lock_of p h"
  by (simp add: lock_of_def)

lemma put_pkts:
  "put_entry q n h = Some h' \<Longrightarrow> pkts h' = pkts h" "put_field q f h = Some h' \<Longrightarrow> pkts h' = pkts h"
  "upd_entry q g h = Some h' \<Longrightarrow> pkts h' = pkts h" "upd_field q g' h = Some h' \<Longrightarrow> pkts h' = pkts h"
  "free_entry q h = Some h' \<Longrightarrow> pkts h' = pkts h" "free_field q h = Some h' \<Longrightarrow> pkts h' = pkts h"
  "free_block q h = Some h' \<Longrightarrow> pkts h' = pkts h" "wr_block q i bs h = Some h' \<Longrightarrow> pkts h' = pkts h"
  "with_entry_lock l q h = Some h' \<Longrightarrow> pkts h' = pkts h"
  by (auto simp: put_entry_def put_field_def upd_entry_def upd_field_def free_entry_def free_field_def free_block_def
      wr_block_def with_entry_lock_def split: option.splits elim!: bind_SomeE)

lemma malloc_pkts:
  "malloc_entry h = (q, h') \<Longrightarrow> pkts h' = pkts h" "malloc_field h = (q, h') \<Longrightarrow> pkts h' = pkts h"
  "malloc_block n h = (q, h') \<Longrightarrow> pkts h' = pkts h"
  by (auto simp: malloc_entry_def malloc_field_def malloc_block_def Let_def split: if_splits)

lemma finalize_entries_pkts: "field_finalize_entries i h = Some h' \<Longrightarrow> pkts h' = pkts h"
  by (induction rule: field_finalize_entries.raw_induct [rotated, consumes 1])
     (auto dest!: put_pkts elim!: bind_SomeE split: if_splits)

lemma field_pkts:
  "srvd_protocol_packet_field_allocate h = (f, h') \<Longrightarrow> pkts h' = pkts h"
  "srvd_protocol_packet_field_initialize f ty h = Some (ok, h') \<Longrightarrow> pkts h' = pkts h"
  "srvd_protocol_packet_field_free f h = Some h' \<Longrightarrow> pkts h' = pkts h"
  "srvd_protocol_packet_field_finalize f h = Some (ok, h') \<Longrightarrow> pkts h' = pkts h"
  "entry_create sz data h = Some (e, h') \<Longrightarrow> pkts h' = pkts h"
  "entry_link_tail f e h = Some h' \<Longrightarrow> pkts h' = pkts h"
  by (auto simp: srvd_protocol_packet_field_allocate_def srvd_protocol_packet_field_initialize_def
      srvd_protocol_packet_field_free_def srvd_protocol_packet_field_finalize_def entry_create_def entry_link_tail_def Let_def
      dest!: put_pkts malloc_pkts finalize_entries_pkts elim!: bind_SomeE split: if_splits prod.splits)

lemma entry_add_pkts: "srvd_protocol_packet_field_entry_add f sz data h = Some (ok, h') \<Longrightarrow> pkts h' = pkts h"
  by (auto simp: srvd_protocol_packet_field_entry_add_def dest!: put_pkts field_pkts elim!: bind_SomeE split: if_splits)

lemma upd_packet_lock:
  "upd_packet q g h = Some h' \<Longrightarrow> (\<And>k. field_lock (g k) = field_lock k) \<Longrightarrow> lock_of p h' = lock_of p h"
  by (auto simp: upd_packet_def rd_packet_def put_packet_def assign_def deref_def lock_of_def
      split: option.splits if_splits elim!: bind_SomeE)

lemma part_lock:
  "add_part s q f h = Some h' \<Longrightarrow> lock_of p h' = lock_of p h"
  "inject_part s q f h = Some h' \<Longrightarrow> lock_of p h' = lock_of p h"
  by (cases s; auto dest!: upd_packet_lock [where p = p] put_pkts [THEN lock_of_pkts [where p = p]] elim!: bind_SomeE split: if_splits)+

lemma request_part_lock: "request_part q s (Some p) f h = Some h' \<Longrightarrow> lock_of p h' = lock_of p h"
  by (cases q) (auto dest: part_lock)

lemma field_lock_steps:
  "with_field_lock lock_mutex (Some p) h = Some h' \<Longrightarrow> lock_of p h = Some Unlocked \<and> lock_of p h' = Some Locked"
  "with_field_lock unlock_mutex (Some p) h = Some h' \<Longrightarrow> lock_of p h = Some Locked \<and> lock_of p h' = Some Unlocked"
  by (auto simp: with_field_lock_def rd_packet_def put_packet_def assign_def deref_def lock_of_def lock_mutex_def unlock_mutex_def
      split: option.splits if_splits elim!: bind_SomeE)

lemma packet_step_inside:
  assumes "packet_step p e c h = Some (c', h')" and "packet_inside c"
  shows "packet_inside c' \<and> lock_of p h' = lock_of p h \<or> (\<exists>r. c' = Over r) \<and> lock_of p h' = Some Unlocked"
  using assms
  by (cases c)
     (auto dest!: field_pkts [THEN lock_of_pkts [where p = p]] entry_add_pkts [THEN lock_of_pkts [where p = p]]
       request_part_lock field_lock_steps elim!: bind_SomeE split: if_splits prod.splits option.splits)

section \<open>The steps of a call are the sequential call\<close>

abbreviation packet_rest :: "addr \<Rightarrow> unit \<Rightarrow> packet_call \<Rightarrow> heap \<Rightarrow> (packet_result \<times> heap) option" where
  "packet_rest p e \<equiv> finish (packet_step p e) packet_over"

lemma rest_unlocking:
  "packet_rest p e (Unlocking r) h = do { h \<leftarrow> with_field_lock unlock_mutex (Some p) h; Some (r, h) }"
  by (cases "with_field_lock unlock_mutex (Some p) h") (simp_all add: finish_step finish_ended)

text \<open>The code from each point to the label before the lock is given up.\<close>

definition link_body :: "addr \<Rightarrow> packet_request \<Rightarrow> ptr \<Rightarrow> heap \<Rightarrow> (packet_result \<times> heap) option" where
  "link_body p q f h = do {
     h \<leftarrow> request_link q (Some p) f h; Some ((True, if request_entry q = None then f else None), h) }"

definition fill_body :: "addr \<Rightarrow> packet_request \<Rightarrow> ptr \<Rightarrow> heap \<Rightarrow> (packet_result \<times> heap) option" where
  "fill_body p q f h = do {
     (sz, data) \<leftarrow> request_entry q;
     (ok, h) \<leftarrow> srvd_protocol_packet_field_entry_add f sz data h;
     if \<not> ok then do {
       (_, h) \<leftarrow> srvd_protocol_packet_field_finalize f h;
       h \<leftarrow> srvd_protocol_packet_field_free f h;
       Some ((False, None), h) }
     else link_body p q f h }"

definition start_body :: "addr \<Rightarrow> packet_request \<Rightarrow> ptr \<Rightarrow> heap \<Rightarrow> (packet_result \<times> heap) option" where
  "start_body p q f h = do {
     (ok, h) \<leftarrow> srvd_protocol_packet_field_initialize f (request_type q) h;
     if \<not> ok then do { h \<leftarrow> srvd_protocol_packet_field_free f h; Some ((False, None), h) }
     else if request_entry q = None then link_body p q f h else fill_body p q f h }"

definition look_body :: "addr \<Rightarrow> packet_request \<Rightarrow> heap \<Rightarrow> (packet_result \<times> heap) option" where
  "look_body p q h = do {
     (found, field) \<leftarrow> srvd_protocol_packet_field_get_by_type (Some p) (request_type q) (Some None) h;
     if found then Some (if request_entry q = None then (True, the field) else (False, None), h)
     else let (f, h) = srvd_protocol_packet_field_allocate h in
       if f = None then Some ((False, None), h) else start_body p q f h }"

definition closing :: "addr \<Rightarrow> (packet_result \<times> heap) option \<Rightarrow> (packet_result \<times> heap) option" where
  "closing p x = do { (r, h) \<leftarrow> x; h \<leftarrow> with_field_lock unlock_mutex (Some p) h; Some (r, h) }"

lemma closing_simps [simp]:
  "closing p None = None"
  "closing p (Some (r, h)) = do { h \<leftarrow> with_field_lock unlock_mutex (Some p) h; Some (r, h) }"
  by (simp_all add: closing_def)

lemma add_locked_parts:
  "srvd_protocol_packet_field_add_locked p f h = do {
     h \<leftarrow> add_part Empty_end p f h; h \<leftarrow> add_part Own_link p f h; h \<leftarrow> add_part Neighbour p f h;
     h \<leftarrow> add_part Near_end p f h; add_part Count p f h }"
proof (cases "rd_packet p h")
  case (Some k)
  have "rd_packet p h' = Some (k\<lparr>field_head := f\<rparr>)" if "upd_packet p (field_head_update (\<lambda>_. f)) h = Some h'" for h'
    using that Some by (auto simp: upd_packet_def rd_packet_def put_packet_def assign_def deref_def split: option.splits if_splits)
  with Some show ?thesis
    by (cases "upd_packet p (field_head_update (\<lambda>_. f)) h") (auto simp: srvd_protocol_packet_field_add_locked_def cong del: option_bind_weak_cong)
qed (simp add: srvd_protocol_packet_field_add_locked_def)

lemma inject_locked_parts:
  "srvd_protocol_packet_field_inject_locked p f h = do {
     h \<leftarrow> inject_part Empty_end p f h; h \<leftarrow> inject_part Own_link p f h; h \<leftarrow> inject_part Neighbour p f h;
     h \<leftarrow> inject_part Near_end p f h; inject_part Count p f h }"
proof (cases "rd_packet p h")
  case (Some k)
  have "rd_packet p h' = Some (k\<lparr>field_tail := f\<rparr>)" if "upd_packet p (field_tail_update (\<lambda>_. f)) h = Some h'" for h'
    using that Some by (auto simp: upd_packet_def rd_packet_def put_packet_def assign_def deref_def split: option.splits if_splits)
  with Some show ?thesis
    by (cases "upd_packet p (field_tail_update (\<lambda>_. f)) h") (auto simp: srvd_protocol_packet_field_inject_locked_def cong del: option_bind_weak_cong)
qed (simp add: srvd_protocol_packet_field_inject_locked_def)

lemma request_link_parts:
  "request_link q p f h = do {
     h \<leftarrow> request_part q Empty_end p f h; h \<leftarrow> request_part q Own_link p f h; h \<leftarrow> request_part q Neighbour p f h;
     h \<leftarrow> request_part q Near_end p f h; request_part q Count p f h }"
  by (cases q) (simp_all only: request_link.simps request_part.simps add_locked_parts inject_locked_parts)

lemma rest_part: "packet_rest p e (Linking s q f) h = do {
    h \<leftarrow> request_part q s (Some p) f h;
    packet_rest p e (case following s of Some s \<Rightarrow> Linking s q f
       | None \<Rightarrow> Unlocking (True, if request_entry q = None then f else None)) h }"
  by (cases "request_part q s (Some p) f h") (simp_all add: finish_step [of _ "Linking s q f"])

lemma closing_bind: "closing p (do { x \<leftarrow> m; g x }) = do { x \<leftarrow> m; closing p (g x) }"
  by (cases m) simp_all

lemma rest_linking: "packet_rest p e (Linking Empty_end q f) h = closing p (link_body p q f h)"
  by (simp add: rest_part link_body_def request_link_parts closing_bind rest_unlocking cong del: option_bind_weak_cong)

lemma rest_filling: "packet_rest p e (Filling q f) h = closing p (fill_body p q f h)"
proof (cases "request_entry q")
  case (Some sd)
  then obtain sz data where q: "request_entry q = Some (sz, data)" by (cases sd) simp
  show ?thesis
  proof (cases "srvd_protocol_packet_field_entry_add f sz data h")
    case (Some r)
    with q show ?thesis
      by (cases r; cases "srvd_protocol_packet_field_finalize f (snd r)";
          cases "srvd_protocol_packet_field_free f (snd (the (srvd_protocol_packet_field_finalize f (snd r))))")
         (auto simp: finish_step [of _ "Filling q f"] fill_body_def rest_linking rest_unlocking)
  qed (use q in \<open>simp add: finish_step [of _ "Filling q f"] fill_body_def\<close>)
qed (simp add: finish_step [of _ "Filling q f"] fill_body_def)

lemma rest_starting: "packet_rest p e (Starting q f) h = closing p (start_body p q f h)"
proof (cases "srvd_protocol_packet_field_initialize f (request_type q) h")
  case (Some r)
  then show ?thesis
    by (cases r; cases "srvd_protocol_packet_field_free f (snd r)")
       (auto simp: finish_step [of _ "Starting q f"] start_body_def rest_linking rest_filling rest_unlocking)
qed (simp add: finish_step [of _ "Starting q f"] start_body_def)

lemma rest_looking: "packet_rest p e (Looking q) h = closing p (look_body p q h)"
proof (cases "srvd_protocol_packet_field_get_by_type (Some p) (request_type q) (Some None) h")
  case (Some r)
  then show ?thesis
    by (cases r; cases "srvd_protocol_packet_field_allocate h")
       (auto simp: finish_step [of _ "Looking q"] finish_step [of _ "Making q"] look_body_def rest_starting rest_unlocking)
qed (simp add: finish_step [of _ "Looking q"] look_body_def)

lemma rest_waiting: "packet_rest p e (Waiting q) h = locked p h (look_body p q)"
  by (cases "with_field_lock lock_mutex (Some p) h") (simp_all add: finish_step [of _ "Waiting q"] rest_looking locked_def closing_def)

text \<open>The sequential operations are that code between lock and unlock.\<close>

lemma fill_body_create:
  assumes "request_entry q = Some (sz, data)"
  shows "fill_body p q f h = map_option (\<lambda>(r, h). ((r, None), h)) (do {
       (ok, h) \<leftarrow> srvd_protocol_packet_field_entry_add f sz data h;
       if \<not> ok then do {
         (_, h) \<leftarrow> srvd_protocol_packet_field_finalize f h;
         h \<leftarrow> srvd_protocol_packet_field_free f h;
         Some (False, h) }
       else do { h \<leftarrow> request_link q (Some p) f h; Some (True, h) } })"
proof (cases "srvd_protocol_packet_field_entry_add f sz data h")
  case (Some r)
  with assms show ?thesis
    by (cases r; cases "srvd_protocol_packet_field_finalize f (snd r)";
        cases "srvd_protocol_packet_field_free f (snd (the (srvd_protocol_packet_field_finalize f (snd r))))";
        cases "request_link q (Some p) f (snd r)")
       (auto simp: fill_body_def link_body_def)
qed (use assms in \<open>simp add: fill_body_def\<close>)

lemma look_body_create:
  assumes "request_entry q = Some (sz, data)"
  shows "look_body p q h = map_option (\<lambda>(r, h). ((r, None), h)) (field_create (request_link q) (Some p) (request_type q) sz data h)"
proof (cases "srvd_protocol_packet_field_get_by_type (Some p) (request_type q) (Some None) h")
  case (Some r)
  obtain f h1 where f: "srvd_protocol_packet_field_allocate h = (f, h1)" by (cases "srvd_protocol_packet_field_allocate h")
  show ?thesis
  proof (cases "srvd_protocol_packet_field_initialize f (request_type q) h1")
    case None
    with Some f assms show ?thesis by (cases r) (simp add: look_body_def start_body_def field_create_def)
  next
    case init: (Some r2)
    with Some f assms show ?thesis
      by (cases r; cases r2; cases "srvd_protocol_packet_field_free f (snd r2)")
         (auto simp: look_body_def start_body_def field_create_def fill_body_create)
  qed
qed (simp add: look_body_def field_create_def)

context field_linker
begin

lemma look_body_get:
  assumes "request_entry q = None" and "request_link q = link"
  shows "look_body p q h = map_option (\<lambda>(r, h). ((fst r, the (snd r)), h)) (get_or_body p (request_type q) h)"
proof (cases "srvd_protocol_packet_field_get_by_type (Some p) (request_type q) (Some None) h")
  case (Some r)
  obtain f h1 where f: "srvd_protocol_packet_field_allocate h = (f, h1)" by (cases "srvd_protocol_packet_field_allocate h")
  show ?thesis
  proof (cases "srvd_protocol_packet_field_initialize f (request_type q) h1")
    case None
    with Some f assms show ?thesis by (cases r) (simp add: look_body_def start_body_def get_or_body_def)
  next
    case init: (Some r2)
    with Some f assms show ?thesis
      by (cases r; cases r2; cases "srvd_protocol_packet_field_free f (snd r2)"; cases "link (Some p) f (snd r2)")
         (auto simp: look_body_def start_body_def get_or_body_def link_body_def)
  qed
qed (simp add: look_body_def get_or_body_def)

end

lemma locked_map: "locked p h (\<lambda>h. map_option (\<lambda>(r, h). (g r, h)) (body h)) = map_option (\<lambda>(r, h). (g r, h)) (locked p h body)"
proof (cases "with_field_lock lock_mutex (Some p) h")
  case (Some h1)
  then show ?thesis
    by (cases "body h1"; cases "with_field_lock unlock_mutex (Some p) (snd (the (body h1)))") (auto simp: locked_def)
qed (simp add: locked_def)

lemma rest_mapped:
  assumes "\<And>h. look_body p q h = map_option (\<lambda>(r, h). (g r, h)) (body h)"
  shows "packet_rest p e (Waiting q) h = map_option (\<lambda>(r, h). (g r, h)) (locked p h body)"
proof -
  have "look_body p q = (\<lambda>h. map_option (\<lambda>(r, h). (g r, h)) (body h))" by (rule ext) (rule assms)
  then show ?thesis by (simp only: rest_waiting locked_map)
qed

lemma rest_request: "packet_rest p e (Waiting q) h = run_request p q h"
proof (cases q)
  case (Append ty sz data)
  have "packet_rest p e (Waiting q) h = map_option (\<lambda>(r, h). ((r, None), h)) (locked p h (field_create (request_link q) (Some p) ty sz data))"
    by (rule rest_mapped) (simp add: look_body_create Append)
  with Append show ?thesis
    by (cases "locked p h (field_create srvd_protocol_packet_field_add_locked (Some p) ty sz data)") (auto simp: append_alt)
next
  case (Insert ty sz data)
  have "packet_rest p e (Waiting q) h = map_option (\<lambda>(r, h). ((r, None), h)) (locked p h (field_create (request_link q) (Some p) ty sz data))"
    by (rule rest_mapped) (simp add: look_body_create Insert)
  with Insert show ?thesis
    by (cases "locked p h (field_create srvd_protocol_packet_field_inject_locked (Some p) ty sz data)") (auto simp: insert_alt)
next
  case (Get_or_add ty)
  have "packet_rest p e (Waiting q) h = map_option (\<lambda>(r, h). ((fst r, the (snd r)), h)) (locked p h (adder.get_or_body p ty))"
    by (rule rest_mapped) (simp add: adder.look_body_get Get_or_add)
  with Get_or_add show ?thesis by (cases "locked p h (adder.get_or_body p ty)") (auto simp: get_or_add_alt)
next
  case (Get_or_inject ty)
  have "packet_rest p e (Waiting q) h = map_option (\<lambda>(r, h). ((fst r, the (snd r)), h)) (locked p h (injector.get_or_body p ty))"
    by (rule rest_mapped) (simp add: injector.look_body_get Get_or_inject)
  with Get_or_inject show ?thesis by (cases "locked p h (injector.get_or_body p ty)") (auto simp: get_or_inject_alt)
qed

section \<open>The critical section\<close>

interpretation packet_calls: critical_section "packet_step p" "\<lambda>i. Waiting (requests i)" packet_inside Over
  "\<lambda>h. lock_of p h = Some Unlocked" "packet_rest p"
proof unfold_locales
  fix e c c' and h h' :: heap
  assume step: "packet_step p e c h = Some (c', h')"
  then have "packet_over c = None" by (cases c) auto
  from finish_step [where step = "packet_step p e" and result = packet_over and c = c, OF this] step show "packet_rest p e c' h' = packet_rest p e c h" by simp
  show "packet_inside c \<Longrightarrow> lock_of p h \<noteq> Some Unlocked \<Longrightarrow>
      packet_inside c' \<and> lock_of p h' \<noteq> Some Unlocked \<or> (\<exists>r. c' = Over r) \<and> lock_of p h' = Some Unlocked"
    using packet_step_inside [OF step] by auto
next
  fix e i c and h h' :: heap
  assume "packet_step p e (Waiting (requests i)) h = Some (c, h')"
  then show "lock_of p h = Some Unlocked \<and> lock_of p h' \<noteq> Some Unlocked \<and> packet_inside c"
    by (auto dest!: field_lock_steps elim!: bind_SomeE)
qed (simp_all add: finish_ended)

end
