(* ===== verification/Packet_Readers.thy ===== *)
theory Packet_Readers
  imports Packet_Threads Typed_Refine "HOL-Library.Sublist"
begin

text \<open>
  Threads that look a field up by type in a packet that other threads add fields to. A lookup of
  \<open>lib/srvd/libsrvd/protocol/packet.c\<close> takes no lock: it reads the head, and then of each field the type
  and the link, while the stores of a thread inside the lock come in between.
\<close>

section \<open>The steps\<close>

datatype lookup = Entering | Comparing ptr | Passing ptr | Done ptr

fun lookup_step :: "addr \<Rightarrow> u16 \<Rightarrow> lookup \<Rightarrow> heap \<Rightarrow> lookup option" where
  "lookup_step p ty Entering h = do { k \<leftarrow> rd_packet (Some p) h; Some (Comparing (field_head k)) }"
| "lookup_step p ty (Comparing i) h =
     (if i = None then Some (Done None)
      else do { f \<leftarrow> rd_field i h; Some (if f_type f = ty then Done i else Passing i) })"
| "lookup_step p ty (Passing i) h = do { f \<leftarrow> rd_field i h; Some (Comparing (f_next f)) }"
| "lookup_step p ty (Done i) h = None"

fun lookup_over :: "lookup \<Rightarrow> ptr option" where
  "lookup_over (Done i) = Some i"
| "lookup_over r = None"

text \<open>A lookup that is left alone from where it stands.\<close>

abbreviation lookup_rest :: "addr \<Rightarrow> u16 \<Rightarrow> lookup \<Rightarrow> heap \<Rightarrow> (ptr \<times> heap) option" where
  "lookup_rest p ty \<equiv> finish (\<lambda>r h. map_option (\<lambda>r. (r, h)) (lookup_step p ty r h)) lookup_over"

text \<open>A thread changes the packet or looks a type up.\<close>

datatype packet_use = Change packet_call | Lookup u16 lookup

fun use_step :: "addr \<Rightarrow> packet_use \<Rightarrow> heap \<Rightarrow> (packet_use \<times> heap) option" where
  "use_step p (Change c) h = map_option (\<lambda>(c, h). (Change c, h)) (packet_step p () c h)"
| "use_step p (Lookup ty r) h = map_option (\<lambda>r. (Lookup ty r, h)) (lookup_step p ty r h)"

inductive packet_uses :: "addr \<Rightarrow> (nat \<Rightarrow> packet_use) \<times> heap \<Rightarrow> (nat \<Rightarrow> packet_use) \<times> heap \<Rightarrow> bool" for p where
  "use_step p (cs i) h = Some (c, h') \<Longrightarrow> packet_uses p (cs, h) (cs(i := c), h')"

inductive_cases packet_usesE: "packet_uses p (cs, h) y"

abbreviation uses_reach where
  "uses_reach p \<equiv> (packet_uses p)\<^sup>*\<^sup>*"

text \<open>The data of a request is there to be copied.\<close>

fun request_readable :: "packet_request \<Rightarrow> bool" where
  "request_readable (Append ty sz data) \<longleftrightarrow> readable sz data"
| "request_readable (Insert ty sz data) \<longleftrightarrow> readable sz data"
| "request_readable q \<longleftrightarrow> True"

fun use_begins :: "packet_use \<Rightarrow> bool" where
  "use_begins (Change c) \<longleftrightarrow> (\<exists>q. c = Waiting q \<and> request_readable q)"
| "use_begins (Lookup ty r) \<longleftrightarrow> r = Entering"

section \<open>A lookup on its own is the sequential code\<close>

lemma lookup_rest_step:
  "lookup_over r = None \<Longrightarrow> lookup_rest p ty r h = do { r \<leftarrow> lookup_step p ty r h; lookup_rest p ty r h }"
  by (subst finish_step, assumption, cases "lookup_step p ty r h") simp_all

lemma lookup_rest_simps [simp]:
  "lookup_rest p ty (Done i) h = Some (i, h)"
  "lookup_rest p ty (Comparing None) h = Some (None, h)"
  "rd_field i h = Some f \<Longrightarrow> f_type f = ty \<Longrightarrow> lookup_rest p ty (Comparing i) h = Some (i, h)"
  "rd_field i h = Some f \<Longrightarrow> f_type f \<noteq> ty \<Longrightarrow> lookup_rest p ty (Comparing i) h = lookup_rest p ty (Passing i) h"
  "rd_field i h = Some f \<Longrightarrow> lookup_rest p ty (Passing i) h = lookup_rest p ty (Comparing (f_next f)) h"
  "rd_packet (Some p) h = Some k \<Longrightarrow> lookup_rest p ty Entering h = lookup_rest p ty (Comparing (field_head k)) h"
proof -
  show fin: "lookup_rest p ty (Done i) h = Some (i, h)" for i by (rule finish_ended) simp
  show "lookup_rest p ty (Comparing None) h = Some (None, h)"
    by (subst lookup_rest_step) (simp_all add: fin)
  show "lookup_rest p ty (Comparing i) h = Some (i, h)" if "rd_field i h = Some f" "f_type f = ty"
    using that by (cases i) (subst lookup_rest_step; simp add: fin)+
  show "lookup_rest p ty (Comparing i) h = lookup_rest p ty (Passing i) h" if "rd_field i h = Some f" "f_type f \<noteq> ty"
    using that by (cases i) (simp add: rd_field_def, subst lookup_rest_step, simp_all)
  show "lookup_rest p ty (Passing i) h = lookup_rest p ty (Comparing (f_next f)) h" if "rd_field i h = Some f"
    using that by (subst lookup_rest_step) simp_all
  show "lookup_rest p ty Entering h = lookup_rest p ty (Comparing (field_head k)) h" if "rd_packet (Some p) h = Some k"
    using that by (subst lookup_rest_step) simp_all
qed

lemma lookup_rest_find: "field_find_type i ty h = Some j \<Longrightarrow> lookup_rest p ty (Comparing i) h = Some (j, h)"
proof (induction rule: field_find_type.raw_induct [rotated, consumes 1])
  case (1 go i ty h j)
  show ?case
  proof (cases i)
    case (Some a)
    with "1.hyps" obtain f where f: "rd_field i h = Some f" "(if f_type f = ty then Some i else go (f_next f) ty h) = Some j"
      by (auto elim: bind_SomeE)
    with "1.IH" [of "f_next f" ty h j] show ?thesis by (cases "f_type f = ty") simp_all
  qed (use "1.hyps" in simp)
qed

theorem lookup_alone:
  assumes "srvd_protocol_packet_field_get_by_type (Some p) ty (Some None) h = Some (found, field)"
  shows "lookup_rest p ty Entering h = Some (the field, h) \<and> (found \<longleftrightarrow> the field \<noteq> None)"
proof -
  from assms obtain k i where "rd_packet (Some p) h = Some k" "field_find_type (field_head k) ty h = Some i"
      "found \<longleftrightarrow> i \<noteq> None" "field = Some i"
    by (fastforce simp: srvd_protocol_packet_field_get_by_type_def elim!: bind_SomeE split: if_splits)
  then show ?thesis by (simp add: lookup_rest_find)
qed

section \<open>The list that a lookup walks\<close>

text \<open>Of a field a lookup reads the type and the link to the next one.\<close>

definition cell :: "heap \<Rightarrow> addr \<Rightarrow> (u16 \<times> ptr) option" where
  "cell h a = (case flds h a of Some (Some f) \<Rightarrow> Some (f_type f, f_next f) | _ \<Rightarrow> None)"

definition head_of :: "addr \<Rightarrow> heap \<Rightarrow> ptr option" where
  "head_of p h = (case pkts h p of Some (Some k) \<Rightarrow> Some (field_head k) | _ \<Rightarrow> None)"

fun fields_from :: "heap \<Rightarrow> ptr \<Rightarrow> (addr \<times> u16) list \<Rightarrow> bool" where
  "fields_from h i [] \<longleftrightarrow> i = None"
| "fields_from h i ((a, ty) # vs) \<longleftrightarrow> i = Some a \<and> (\<exists>n. cell h a = Some (ty, n) \<and> fields_from h n vs)"

definition listed :: "heap \<Rightarrow> addr \<Rightarrow> (addr \<times> u16) list \<Rightarrow> bool" where
  "listed h p V \<longleftrightarrow> (\<exists>i. head_of p h = Some i \<and> fields_from h i V)"

lemma fields_from_unique: "fields_from h i vs \<Longrightarrow> fields_from h i ws \<Longrightarrow> vs = ws"
proof (induction vs arbitrary: i ws)
  case Nil
  then show ?case by (cases ws) auto
next
  case (Cons v vs)
  then show ?case by (cases v; cases ws) auto
qed

lemma listed_unique: "listed h p V \<Longrightarrow> listed h p W \<Longrightarrow> V = W"
  by (auto simp: listed_def intro: fields_from_unique)

lemma fields_from_cong: "(\<And>a. a \<in> fst ` set vs \<Longrightarrow> cell h' a = cell h a) \<Longrightarrow> fields_from h' i vs = fields_from h i vs"
  by (induction vs arbitrary: i) auto

lemma fields_from_snoc:
  assumes "fields_from h i (us @ [(b, u)])" and "\<And>x. x \<in> fst ` set us \<Longrightarrow> cell h' x = cell h x"
    and "cell h' b = Some (u, Some a)" and "cell h' a = Some (ty, None)"
  shows "fields_from h' i (us @ [(b, u), (a, ty)])"
  using assms by (induction us arbitrary: i) auto

lemma cell_cong: "flds h' a = flds h a \<Longrightarrow> cell h' a = cell h a"
  by (simp add: cell_def)

lemma head_of_cong: "pkts h' p = pkts h p \<Longrightarrow> head_of p h' = head_of p h"
  by (simp add: head_of_def)

section \<open>What a step may do to the list\<close>

text \<open>A walk that has got as far as \<open>vs\<close> goes on over \<open>vs\<close> and perhaps fields behind it.\<close>

definition grows :: "addr \<Rightarrow> heap \<Rightarrow> heap \<Rightarrow> bool" where
  "grows p h h' \<longleftrightarrow> (\<forall>V vs i. listed h p V \<and> suffix vs V \<and> fields_from h i vs \<longrightarrow>
     (\<exists>V' vs'. listed h' p V' \<and> suffix vs' V' \<and> fields_from h' i vs' \<and> prefix vs vs'))"

lemma growsI:
  "(\<And>V vs i. listed h p V \<Longrightarrow> suffix vs V \<Longrightarrow> fields_from h i vs \<Longrightarrow>
     \<exists>V' vs'. listed h' p V' \<and> suffix vs' V' \<and> fields_from h' i vs' \<and> prefix vs vs') \<Longrightarrow> grows p h h'"
  unfolding grows_def by blast

lemma growsE:
  assumes "grows p h h'" and "listed h p V" and "suffix vs V" and "fields_from h i vs"
  obtains V' vs' where "listed h' p V'" "suffix vs' V'" "fields_from h' i vs'" "prefix vs vs'"
  using assms unfolding grows_def by blast

lemma grows_refl: "grows p h h"
  by (rule growsI) blast

lemma grows_trans:
  assumes "grows p h h'" and "grows p h' h''"
  shows "grows p h h''"
proof (rule growsI)
  fix V vs i assume "listed h p V" "suffix vs V" "fields_from h i vs"
  from growsE [OF assms(1) this] obtain V' vs' where v: "listed h' p V'" "suffix vs' V'" "fields_from h' i vs'" "prefix vs vs'" .
  from growsE [OF assms(2) v(1-3)] v(4) show "\<exists>V' vs'. listed h'' p V' \<and> suffix vs' V' \<and> fields_from h'' i vs' \<and> prefix vs vs'"
    by (metis prefix_order.order_trans)
qed

lemma grows_list:
  assumes "grows p h h'" and "listed h p V"
  obtains V' where "listed h' p V'" "set V \<subseteq> set V'"
proof -
  from assms(2) obtain i where "fields_from h i V" by (auto simp: listed_def)
  from growsE [OF assms _ this] obtain V' vs' where "listed h' p V'" "suffix vs' V'" "prefix V vs'" by blast
  with that [of V'] show thesis by (meson set_mono_prefix set_mono_suffix subset_trans)
qed

lemma grows_cells:
  assumes "head_of p h' = head_of p h" and "\<And>V a. listed h p V \<Longrightarrow> a \<in> fst ` set V \<Longrightarrow> cell h' a = cell h a"
  shows "grows p h h'"
proof (rule growsI)
  fix V vs i assume v: "listed h p V" "suffix vs V" "fields_from h i vs"
  have same: "fields_from h' j ws = fields_from h j ws" if "suffix ws V" for j ws
    using set_mono_suffix [OF that] assms(2) [OF v(1)] by (intro fields_from_cong) auto
  from v same [of V] same [of vs] assms(1) show "\<exists>V' vs'. listed h' p V' \<and> suffix vs' V' \<and> fields_from h' i vs' \<and> prefix vs vs'"
    by (intro exI [of _ V] exI [of _ vs]) (auto simp: listed_def)
qed

lemma grows_front:
  assumes "head_of p h = Some j" and "head_of p h' = Some (Some a)" and "cell h' a = Some (ty, j)"
    and "\<And>V x. listed h p V \<Longrightarrow> x \<in> fst ` set V \<Longrightarrow> cell h' x = cell h x"
  shows "grows p h h'"
proof (rule growsI)
  fix V vs i assume v: "listed h p V" "suffix vs V" "fields_from h i vs"
  have same: "fields_from h' j ws = fields_from h j ws" if "suffix ws V" for j ws
    using set_mono_suffix [OF that] assms(4) [OF v(1)] by (intro fields_from_cong) auto
  from v same [of V] same [of vs] assms(1-3) show "\<exists>V' vs'. listed h' p V' \<and> suffix vs' V' \<and> fields_from h' i vs' \<and> prefix vs vs'"
    by (intro exI [of _ "(a, ty) # V"] exI [of _ vs]) (auto simp: listed_def suffix_Cons)
qed

lemma grows_back:
  assumes "listed h p (W @ [(b, u)])" and "head_of p h' = head_of p h"
    and "cell h' b = Some (u, Some a)" and "cell h' a = Some (ty, None)"
    and "\<And>x. x \<in> fst ` set W \<Longrightarrow> cell h' x = cell h x"
  shows "grows p h h'"
proof (rule growsI)
  fix V vs i assume v: "listed h p V" "suffix vs V" "fields_from h i vs"
  have V: "V = W @ [(b, u)]" using listed_unique [OF v(1) assms(1)] .
  have more: "fields_from h' j (us @ [(b, u), (a, ty)])" if "suffix us W" "fields_from h j (us @ [(b, u)])" for j us
    using set_mono_suffix [OF that(1)] by (intro fields_from_snoc [OF that(2) assms(5,3,4)]) auto
  have list: "listed h' p (W @ [(b, u), (a, ty)])" using assms(1,2) more by (auto simp: listed_def)
  show "\<exists>V' vs'. listed h' p V' \<and> suffix vs' V' \<and> fields_from h' i vs' \<and> prefix vs vs'"
  proof (cases vs rule: rev_cases)
    case Nil
    with v(3) list show ?thesis by (intro exI [of _ "W @ [(b, u), (a, ty)]"] exI [of _ "[]"]) simp
  next
    case (snoc us x)
    with v(2) have us: "x = (b, u)" "suffix us W" by (auto simp: V suffix_def)
    then have "suffix (us @ [(b, u), (a, ty)]) (W @ [(b, u), (a, ty)])" by (auto simp: suffix_def)
    with more [OF us(2)] v(3) list snoc us(1) show ?thesis
      by (intro exI [of _ "W @ [(b, u), (a, ty)]"] exI [of _ "us @ [(b, u), (a, ty)]"]) (auto simp: prefix_def)
  qed
qed

section \<open>A lookup among steps that keep the list\<close>

text \<open>\<open>had\<close> says whether the type was listed when the lookup began; then it is still ahead.\<close>

fun lookup_at :: "addr \<Rightarrow> u16 \<Rightarrow> bool \<Rightarrow> lookup \<Rightarrow> heap \<Rightarrow> bool" where
  "lookup_at p ty had Entering h \<longleftrightarrow> (\<exists>V. listed h p V \<and> (had \<longrightarrow> ty \<in> snd ` set V))"
| "lookup_at p ty had (Comparing i) h \<longleftrightarrow>
     (\<exists>V vs. listed h p V \<and> suffix vs V \<and> fields_from h i vs \<and> (had \<longrightarrow> ty \<in> snd ` set vs))"
| "lookup_at p ty had (Passing i) h \<longleftrightarrow>
     (\<exists>V v vs. listed h p V \<and> suffix (v # vs) V \<and> fields_from h i (v # vs) \<and> (had \<longrightarrow> ty \<in> snd ` set vs))"
| "lookup_at p ty had (Done i) h \<longleftrightarrow>
     (\<exists>V. listed h p V \<and> (case i of None \<Rightarrow> \<not> had | Some a \<Rightarrow> (a, ty) \<in> set V))"

lemma lookup_at_grows:
  assumes "lookup_at p ty had r h" and "grows p h h'"
  shows "lookup_at p ty had r h'"
proof (cases r)
  case Entering
  with assms(1) obtain V where V: "listed h p V" "had \<longrightarrow> ty \<in> snd ` set V" by auto
  with grows_list [OF assms(2) V(1)] Entering show ?thesis by simp (meson image_mono subsetD)
next
  case (Comparing i)
  with assms(1) obtain V vs where V: "listed h p V" "suffix vs V" "fields_from h i vs" "had \<longrightarrow> ty \<in> snd ` set vs" by auto
  from growsE [OF assms(2) V(1-3)] obtain V' vs' where "listed h' p V'" "suffix vs' V'" "fields_from h' i vs'" "prefix vs vs'" .
  with V(4) Comparing show ?thesis by simp (meson image_mono set_mono_prefix subsetD)
next
  case (Passing i)
  with assms(1) obtain V v vs where V: "listed h p V" "suffix (v # vs) V" "fields_from h i (v # vs)" "had \<longrightarrow> ty \<in> snd ` set vs"
    by (simp only: lookup_at.simps) blast
  from growsE [OF assms(2) V(1-3)] obtain V' ws where w: "listed h' p V'" "suffix ws V'" "fields_from h' i ws" "prefix (v # vs) ws" .
  then obtain vs' where "ws = v # vs'" "prefix vs vs'" by (cases ws) auto
  with w V(4) have "suffix (v # vs') V'" "fields_from h' i (v # vs')" "had \<longrightarrow> ty \<in> snd ` set vs'"
    using set_mono_prefix [of vs vs'] by auto
  with w(1) Passing show ?thesis by (simp only: lookup_at.simps) blast
next
  case (Done i)
  with assms(1) obtain V where V: "listed h p V" "case i of None \<Rightarrow> \<not> had | Some a \<Rightarrow> (a, ty) \<in> set V" by auto
  from grows_list [OF assms(2) V(1)] obtain V' where "listed h' p V'" "set V \<subseteq> set V'" .
  with V(2) Done show ?thesis by (auto split: option.splits)
qed

lemma head_ofE:
  assumes "head_of p h = Some i"
  obtains k where "rd_packet (Some p) h = Some k" "field_head k = i"
  using assms by (auto simp: head_of_def rd_packet_def split: option.splits)

lemma cellE:
  assumes "cell h a = Some (ty, n)"
  obtains f where "rd_field (Some a) h = Some f" "f_type f = ty" "f_next f = n"
  using assms by (auto simp: cell_def rd_field_def split: option.splits)

lemma fields_from_ConsE:
  assumes "fields_from h i (v # vs)"
  obtains f where "i = Some (fst v)" "rd_field i h = Some f" "f_type f = snd v" "fields_from h (f_next f) vs"
proof -
  from assms obtain n where n: "i = Some (fst v)" "cell h (fst v) = Some (snd v, n)" "fields_from h n vs" by (cases v) auto
  from n(2) obtain f where "rd_field (Some (fst v)) h = Some f" "f_type f = snd v" "f_next f = n" by (rule cellE)
  with n that show thesis by simp
qed

text \<open>The step of a lookup is defined and keeps what is known of it.\<close>

lemma lookup_at_step:
  assumes "lookup_at p ty had r h" and "lookup_over r = None"
  obtains r' where "lookup_step p ty r h = Some r'" "lookup_at p ty had r' h"
proof (cases r)
  case Entering
  with assms obtain V i where V: "listed h p V" "head_of p h = Some i" "fields_from h i V" "had \<longrightarrow> ty \<in> snd ` set V"
    by (auto simp: listed_def)
  from V(2) obtain k where "rd_packet (Some p) h = Some k" "field_head k = i" by (rule head_ofE)
  with that [of "Comparing i"] V Entering show thesis by auto
next
  case (Comparing i)
  with assms obtain V vs where V: "listed h p V" "suffix vs V" "fields_from h i vs" "had \<longrightarrow> ty \<in> snd ` set vs" by auto
  show thesis
  proof (cases vs)
    case Nil
    with V that [of "Done None"] Comparing show thesis by auto
  next
    case (Cons v ws)
    obtain a u where v: "v = (a, u)" by (cases v)
    from fields_from_ConsE [OF V(3) [unfolded Cons v]] obtain f where f: "i = Some a" "rd_field i h = Some f" "f_type f = u"
      by auto
    show thesis
    proof (cases "u = ty")
      case True
      then have "(a, ty) \<in> set V" using set_mono_suffix [OF V(2)] Cons v by auto
      with f V(1) True that [of "Done i"] Comparing show thesis by auto
    next
      case False
      have "had \<longrightarrow> ty \<in> snd ` set ws" using V(4) Cons v False by auto
      with V(1-3) Cons have "lookup_at p ty had (Passing i) h" by (simp only: lookup_at.simps) blast
      with f False that [of "Passing i"] Comparing show thesis by simp
    qed
  qed
next
  case (Passing i)
  with assms obtain V v vs where V: "listed h p V" "suffix (v # vs) V" "fields_from h i (v # vs)" "had \<longrightarrow> ty \<in> snd ` set vs"
    by (simp only: lookup_at.simps) blast
  from V(3) obtain f where f: "rd_field i h = Some f" "fields_from h (f_next f) vs" by (rule fields_from_ConsE)
  have "suffix vs V" using V(2) by (rule suffix_ConsD)
  with f V that [of "Comparing (f_next f)"] Passing show thesis by auto
qed (use assms(2) in simp)

text \<open>Left alone, it returns.\<close>

lemma comparing_returns: "fields_from h i vs \<Longrightarrow> \<exists>j. lookup_rest p ty (Comparing i) h = Some (j, h)"
proof (induction vs arbitrary: i)
  case (Cons v vs)
  from Cons.prems obtain f where f: "rd_field i h = Some f" "fields_from h (f_next f) vs" by (rule fields_from_ConsE)
  with Cons.IH [OF f(2)] show ?case by (cases "f_type f = ty") auto
qed simp

lemma lookup_at_returns:
  assumes "lookup_at p ty had r h"
  obtains i where "lookup_rest p ty r h = Some (i, h)" "lookup_at p ty had (Done i) h"
proof -
  have "\<exists>i. lookup_rest p ty r h = Some (i, h)"
  proof (cases "lookup_over r")
    case None
    show ?thesis
    proof (cases r)
      case Entering
      with assms obtain V i where V: "head_of p h = Some i" "fields_from h i V" by (auto simp: listed_def)
      from V(1) obtain k where "rd_packet (Some p) h = Some k" "field_head k = i" by (rule head_ofE)
      with comparing_returns [OF V(2)] Entering show ?thesis by simp
    next
      case (Passing i)
      with assms obtain v vs where "fields_from h i (v # vs)" by (simp only: lookup_at.simps) blast
      then obtain f where "rd_field i h = Some f" "fields_from h (f_next f) vs" by (rule fields_from_ConsE)
      with comparing_returns [of h "f_next f" vs p ty] Passing show ?thesis by simp
    qed (use assms comparing_returns None in \<open>auto\<close>)
  qed (cases r; simp)
  then obtain i where i: "lookup_rest p ty r h = Some (i, h)" by blast
  have "finish st ov r h = Some ih \<Longrightarrow> st = (\<lambda>r h. map_option (\<lambda>r. (r, h)) (lookup_step p ty r h)) \<Longrightarrow> ov = lookup_over \<Longrightarrow>
      lookup_at p ty had r h \<Longrightarrow> lookup_at p ty had (Done (fst ih)) (snd ih)" for st ov r h ih
  proof (induction rule: finish.raw_induct [rotated, consumes 1])
    case (1 go st ov r h ih)
    show ?case
    proof (cases "lookup_over r")
      case (Some i)
      with 1 show ?thesis by (cases r) auto
    next
      case None
      from lookup_at_step [OF "1.prems"(3) None] obtain r' where r': "lookup_step p ty r h = Some r'" "lookup_at p ty had r' h" .
      with "1.hyps" "1.prems" None have "go st ov r' h = Some ih" by simp
      from "1.IH" [OF this "1.prems"(1,2) r'(2)] show ?thesis .
    qed
  qed
  from this [OF i refl refl assms] i that show thesis by simp
qed

end
