(* ===== verification/Packet_Readers_Refine.thy ===== *)
theory Packet_Readers_Refine
  imports Packet_Readers
begin

text \<open>
  The changes that lookups run beside: what is known of the packet at each point of a thread inside the
  lock, that each of its steps is defined, and that each keeps the list of fields, so that it
  only grows at its ends.
\<close>

section \<open>The list of a packet\<close>

abbreviation fields_of :: "ftree list \<Rightarrow> (addr \<times> u16) list" where
  "fields_of T \<equiv> map (\<lambda>t. (f_addr t, f_ty t)) T"

lemma field_ok_cell:
  assumes "field_ok h t"
  obtains f where "flds h (f_addr t) = Some (Some f)" "f_type f = f_ty t"
  using assms by (auto simp: field_ok_def)

lemma dlseg_fields_from:
  "dlseg f_next f_previous (flds h) bk i (map f_addr T) None l \<Longrightarrow> \<forall>t \<in> set T. field_ok h t \<Longrightarrow> fields_from h i (fields_of T)"
proof (induction T arbitrary: bk i)
  case (Cons t T)
  from Cons.prems(2) obtain f where f: "flds h (f_addr t) = Some (Some f)" "f_type f = f_ty t" by (auto elim: field_ok_cell)
  with Cons.prems Cons.IH [of "Some (f_addr t)" "f_next f"] show ?case by (auto simp: cell_def)
qed simp

lemma packet_at_listed: "packet_at lk h p T \<Longrightarrow> listed h p (fields_of T)"
  by (auto simp: packet_at_def listed_def head_of_def intro: dlseg_fields_from)

text \<open>Objects that are made or written outside the packet do not matter.\<close>

lemma grows_outside:
  assumes "packet_at lk h p T" and "pkts h' p = pkts h p" and "\<And>a. a \<in> f_addr ` set T \<Longrightarrow> flds h' a = flds h a"
  shows "grows p h h'"
proof (rule grows_cells)
  fix V a assume v: "listed h p V" "a \<in> fst ` set V"
  have "V = fields_of T" using listed_unique [OF v(1) packet_at_listed [OF assms(1)]] .
  with v(2) have "a \<in> f_addr ` set T" by force
  with assms(3) show "cell h' a = cell h a" by (intro cell_cong)
qed (rule head_of_cong [OF assms(2)])

lemma grows_modifies:
  assumes "heap_ok h" and "packet_at lk h p T" and "modifies {} F E B h h'" and "f_addr ` set T \<inter> F = {}"
  shows "grows p h h'"
proof (rule grows_outside [OF assms(2)])
  show "pkts h' p = pkts h p" using assms(3) packet_at_below(1) [OF assms(1,2)] by (simp add: modifies_def)
  fix a assume a: "a \<in> f_addr ` set T"
  with assms(4) have "a \<notin> F" by blast
  then show "flds h' a = flds h a" using assms(3) packet_at_below(2) [OF assms(1,2) a] by (simp add: modifies_def)
qed

section \<open>The stores of a link\<close>

fun parts_before :: "(link_part \<Rightarrow> ptr \<Rightarrow> ptr \<Rightarrow> heap \<Rightarrow> heap option) \<Rightarrow> link_part \<Rightarrow> ptr \<Rightarrow> ptr \<Rightarrow> heap \<Rightarrow> heap option" where
  "parts_before part Empty_end p f h = Some h"
| "parts_before part Own_link p f h = part Empty_end p f h"
| "parts_before part Neighbour p f h = do { h \<leftarrow> part Empty_end p f h; part Own_link p f h }"
| "parts_before part Near_end p f h = do { h \<leftarrow> part Empty_end p f h; h \<leftarrow> part Own_link p f h; part Neighbour p f h }"
| "parts_before part Count p f h = do {
     h \<leftarrow> part Empty_end p f h; h \<leftarrow> part Own_link p f h; h \<leftarrow> part Neighbour p f h; part Near_end p f h }"

lemma parts_chain:
  assumes "part Empty_end q f h0 = Some h1" "grows p h0 h1" "part Own_link q f h1 = Some h2" "grows p h1 h2"
    and "part Neighbour q f h2 = Some h3" "grows p h2 h3" "part Near_end q f h3 = Some h4" "grows p h3 h4"
    and "part Count q f h4 = Some h5" "grows p h4 h5"
    and "parts_before part s q f h0 = Some h"
  shows "\<exists>h'. part s q f h = Some h' \<and> grows p h h'"
  using assms by (cases s) auto

text \<open>A store to a member that lookups do not read.\<close>

lemma grows_packet:
  assumes "pkts h p = Some (Some k)" and "field_head k' = field_head k"
  shows "grows p h (h\<lparr>pkts := (pkts h)(p \<mapsto> Some k')\<rparr>)"
  by (rule grows_cells) (use assms in \<open>simp_all add: head_of_def cell_def\<close>)

lemma grows_field:
  assumes "flds h a = Some (Some f)" and "f_type f' = f_type f" and "f_next f' = f_next f"
  shows "grows p h (h\<lparr>flds := (flds h)(a \<mapsto> Some f')\<rparr>)"
  by (rule grows_cells) (use assms in \<open>simp_all add: head_of_def cell_def\<close>)

lemma add_part_grows:
  assumes at: "packet_at lk h p T" and t: "loose_field h T t"
    and before: "parts_before add_part s (Some p) (Some (f_addr t)) h = Some h'"
  shows "\<exists>h''. add_part s (Some p) (Some (f_addr t)) h' = Some h'' \<and> grows p h' h''"
proof -
  from at obtain k where k: "pkts h p = Some (Some k)"
    and seg: "dlseg f_next f_previous (flds h) None (field_head k) (map f_addr T) None (field_tail k)"
    and oks: "\<forall>t \<in> set T. field_ok h t" and dist: "distinct (map f_addr T)" by (auto simp: packet_at_def)
  from t obtain f where f: "flds h (f_addr t) = Some (Some f)" "f_next f = None" "f_previous f = None"
    by (rule loose_fieldE)
  have new: "f_addr t \<notin> f_addr ` set T" using t by (simp add: loose_field_def)
  let ?a = "f_addr t"
  show ?thesis
  proof (cases T rule: rev_cases)
    case Nil
    with seg have e: "field_head k = None" "field_tail k = None" by simp_all
    let ?k = "k\<lparr>field_head := Some ?a\<rparr>"
    let ?h1 = "h\<lparr>pkts := (pkts h)(p \<mapsto> Some ?k)\<rparr>"
    let ?h2 = "?h1\<lparr>flds := (flds ?h1)(?a \<mapsto> Some (f\<lparr>f_previous := None\<rparr>))\<rparr>"
    let ?h4 = "?h2\<lparr>pkts := (pkts ?h2)(p \<mapsto> Some (?k\<lparr>field_tail := Some ?a\<rparr>))\<rparr>"
    let ?h5 = "?h4\<lparr>pkts := (pkts ?h4)(p \<mapsto> Some (?k\<lparr>field_tail := Some ?a, field_count := field_count k + 1\<rparr>))\<rparr>"
    have "grows p h ?h1"
      by (rule grows_front [where a = ?a and ty = "f_type f" and j = None])
         (use k f e in \<open>simp_all add: head_of_def cell_def\<close>)
    moreover have "grows p ?h1 ?h2" by (rule grows_field [where f = f]) (use f in simp_all)
    moreover have "grows p ?h2 ?h4" by (rule grows_packet [where k = ?k]) simp_all
    moreover have "grows p ?h4 ?h5" by (rule grows_packet [where k = "?k\<lparr>field_tail := Some ?a\<rparr>"]) simp_all
    ultimately show ?thesis using before k f e
      by (intro parts_chain [where part = add_part and ?h0.0 = h and ?h1.0 = ?h1 and ?h2.0 = ?h2 and ?h3.0 = ?h2 and ?h4.0 = ?h4 and ?h5.0 = ?h5])
         (simp_all add: mem_simps grows_refl)
  next
    case (snoc W u)
    obtain g where g: "flds h (f_addr u) = Some (Some g)" "f_type g = f_ty u"
      using oks snoc by (auto elim: field_ok_cell)
    obtain l where e: "field_head k = Some l" "field_tail k = Some (f_addr u)" "f_next g = None"
      using seg g(1) dlseg_head_None [OF seg] by (auto simp: snoc)
    have ua: "f_addr u \<noteq> ?a" using new snoc by auto
    let ?h2 = "h\<lparr>flds := (flds h)(?a \<mapsto> Some (f\<lparr>f_previous := Some (f_addr u)\<rparr>))\<rparr>"
    let ?h3 = "?h2\<lparr>flds := (flds ?h2)(f_addr u \<mapsto> Some (g\<lparr>f_next := Some ?a\<rparr>))\<rparr>"
    let ?h4 = "?h3\<lparr>pkts := (pkts ?h3)(p \<mapsto> Some (k\<lparr>field_tail := Some ?a\<rparr>))\<rparr>"
    let ?h5 = "?h4\<lparr>pkts := (pkts ?h4)(p \<mapsto> Some (k\<lparr>field_tail := Some ?a, field_count := field_count k + 1\<rparr>))\<rparr>"
    have g2: "grows p h ?h2" by (rule grows_field [where f = f]) (use f in simp_all)
    from packet_at_listed [OF at] obtain i where "head_of p h = Some i" "fields_from h i (fields_of T)"
      by (auto simp: listed_def)
    moreover have "fields_from ?h2 j vs = fields_from h j vs" for j vs
      by (rule fields_from_cong) (use f in \<open>simp add: cell_def\<close>)
    ultimately have "listed ?h2 p (fields_of W @ [(f_addr u, f_ty u)])"
      by (simp add: listed_def snoc head_of_def)
    moreover have "cell ?h3 x = cell ?h2 x" if "x \<in> fst ` set (fields_of W)" for x
    proof -
      from that have "x \<in> f_addr ` set W" by force
      moreover have "f_addr u \<notin> f_addr ` set W" using dist snoc by simp
      ultimately have "x \<noteq> f_addr u" by blast
      then show ?thesis by (simp add: cell_def)
    qed
    ultimately have "grows p ?h2 ?h3"
      by (intro grows_back [where a = ?a and ty = "f_type f" and W = "fields_of W" and b = "f_addr u" and u = "f_ty u"])
         (use g f ua e in \<open>simp_all add: head_of_def cell_def\<close>)
    moreover have "grows p ?h3 ?h4" by (rule grows_packet [where k = k]) (use k in simp_all)
    moreover have "grows p ?h4 ?h5" by (rule grows_packet [where k = "k\<lparr>field_tail := Some ?a\<rparr>"]) simp_all
    ultimately show ?thesis using before k f g e ua g2
      by (intro parts_chain [where part = add_part and ?h0.0 = h and ?h1.0 = h and ?h2.0 = ?h2 and ?h3.0 = ?h3 and ?h4.0 = ?h4 and ?h5.0 = ?h5])
         (simp_all add: mem_simps grows_refl)
  qed
qed

lemma inject_part_grows:
  assumes at: "packet_at lk h p T" and t: "loose_field h T t"
    and before: "parts_before inject_part s (Some p) (Some (f_addr t)) h = Some h'"
  shows "\<exists>h''. inject_part s (Some p) (Some (f_addr t)) h' = Some h'' \<and> grows p h' h''"
proof -
  from at obtain k where k: "pkts h p = Some (Some k)"
    and seg: "dlseg f_next f_previous (flds h) None (field_head k) (map f_addr T) None (field_tail k)"
    and oks: "\<forall>t \<in> set T. field_ok h t" by (auto simp: packet_at_def)
  from t obtain f where f: "flds h (f_addr t) = Some (Some f)" "f_next f = None" "f_previous f = None"
    by (rule loose_fieldE)
  have new: "f_addr t \<notin> f_addr ` set T" using t by (simp add: loose_field_def)
  let ?a = "f_addr t"
  show ?thesis
  proof (cases T)
    case Nil
    with seg have e: "field_head k = None" "field_tail k = None" by simp_all
    let ?k = "k\<lparr>field_tail := Some ?a\<rparr>"
    let ?h1 = "h\<lparr>pkts := (pkts h)(p \<mapsto> Some ?k)\<rparr>"
    let ?h2 = "?h1\<lparr>flds := (flds ?h1)(?a \<mapsto> Some (f\<lparr>f_next := None\<rparr>))\<rparr>"
    let ?h4 = "?h2\<lparr>pkts := (pkts ?h2)(p \<mapsto> Some (?k\<lparr>field_head := Some ?a\<rparr>))\<rparr>"
    let ?h5 = "?h4\<lparr>pkts := (pkts ?h4)(p \<mapsto> Some (?k\<lparr>field_head := Some ?a, field_count := field_count k + 1\<rparr>))\<rparr>"
    have "grows p h ?h1" by (rule grows_packet [where k = k]) (use k in simp_all)
    moreover have "grows p ?h1 ?h2" by (rule grows_field [where f = f]) (use f in simp_all)
    moreover have "grows p ?h2 ?h4"
      by (rule grows_front [where a = ?a and ty = "f_type f" and j = None]) (use k f e in \<open>simp_all add: head_of_def cell_def\<close>)
    moreover have "grows p ?h4 ?h5" by (rule grows_packet [where k = "?k\<lparr>field_head := Some ?a\<rparr>"]) simp_all
    ultimately show ?thesis using before k f e
      by (intro parts_chain [where part = inject_part and ?h0.0 = h and ?h1.0 = ?h1 and ?h2.0 = ?h2 and ?h3.0 = ?h2 and ?h4.0 = ?h4 and ?h5.0 = ?h5])
         (simp_all add: mem_simps grows_refl)
  next
    case (Cons u W)
    obtain g where g: "flds h (f_addr u) = Some (Some g)" "f_type g = f_ty u"
      using oks Cons by (auto elim: field_ok_cell)
    obtain l where e: "field_head k = Some (f_addr u)" "field_tail k = Some l"
      using seg dlseg_tail_None [OF seg] by (auto simp: Cons)
    have ua: "f_addr u \<noteq> ?a" using new Cons by auto
    let ?h2 = "h\<lparr>flds := (flds h)(?a \<mapsto> Some (f\<lparr>f_next := Some (f_addr u)\<rparr>))\<rparr>"
    let ?h3 = "?h2\<lparr>flds := (flds ?h2)(f_addr u \<mapsto> Some (g\<lparr>f_previous := Some ?a\<rparr>))\<rparr>"
    let ?h4 = "?h3\<lparr>pkts := (pkts ?h3)(p \<mapsto> Some (k\<lparr>field_head := Some ?a\<rparr>))\<rparr>"
    let ?h5 = "?h4\<lparr>pkts := (pkts ?h4)(p \<mapsto> Some (k\<lparr>field_head := Some ?a, field_count := field_count k + 1\<rparr>))\<rparr>"
    have "grows p h ?h2"
    proof (rule grows_outside [OF at])
      fix a assume "a \<in> f_addr ` set T"
      with new have "a \<noteq> ?a" by blast
      then show "flds ?h2 a = flds h a" by simp
    qed simp
    moreover have "grows p ?h2 ?h3" by (rule grows_field [where f = g]) (use g ua in simp_all)
    moreover have "grows p ?h3 ?h4"
      by (rule grows_front [where a = ?a and ty = "f_type f" and j = "Some (f_addr u)"])
         (use k g f e ua in \<open>simp_all add: head_of_def cell_def\<close>)
    moreover have "grows p ?h4 ?h5" by (rule grows_packet [where k = "k\<lparr>field_head := Some ?a\<rparr>"]) simp_all
    ultimately show ?thesis using before k f g e ua
      by (intro parts_chain [where part = inject_part and ?h0.0 = h and ?h1.0 = h and ?h2.0 = ?h2 and ?h3.0 = ?h3 and ?h4.0 = ?h4 and ?h5.0 = ?h5])
         (simp_all add: mem_simps grows_refl)
  qed
qed

lemma request_part_grows:
  assumes "packet_at lk h p T" and "loose_field h T t"
    and "parts_before (request_part q) s (Some p) (Some (f_addr t)) h = Some h'"
  shows "\<exists>h''. request_part q s (Some p) (Some (f_addr t)) h' = Some h'' \<and> grows p h' h''"
  using assms by (cases q) (simp_all add: add_part_grows inject_part_grows)

lemma request_link_before:
  "request_link q p f h = do { h \<leftarrow> parts_before (request_part q) Count p f h; request_part q Count p f h }"
  by (simp add: request_link_parts bind_assoc cong del: option_bind_weak_cong)

lemma parts_before_following:
  "following s = Some s' \<Longrightarrow> parts_before part s' p f h = do { h \<leftarrow> parts_before part s p f h; part s p f h }"
  by (cases s) (auto simp: bind_assoc cong del: option_bind_weak_cong)

lemma request_link_spec:
  assumes "heap_ok h" and "packet_at lk h p T" and "loose_field h T t"
  obtains h' U where "request_link q (Some p) (Some (f_addr t)) h = Some h'" "packet_at lk h' p U" "heap_ok h'"
proof -
  have "\<exists>h' U. request_link q (Some p) (Some (f_addr t)) h = Some h' \<and> packet_at lk h' p U \<and> heap_ok h'"
    using add_locked_spec [OF assms] inject_locked_spec [OF assms]
    by (cases q) (auto simp: links_field_def dest: modifies_heap_ok)
  with that show thesis by blast
qed

section \<open>A thread inside the lock\<close>

abbreviation whole :: "mutex \<Rightarrow> addr \<Rightarrow> heap \<Rightarrow> bool" where
  "whole lk p h \<equiv> heap_ok h \<and> (\<exists>T. packet_at lk h p T)"

fun change_at :: "addr \<Rightarrow> packet_call \<Rightarrow> heap \<Rightarrow> bool" where
  "change_at p (Waiting q) h \<longleftrightarrow> whole Unlocked p h"
| "change_at p (Looking q) h \<longleftrightarrow> whole Locked p h"
| "change_at p (Making q) h \<longleftrightarrow> whole Locked p h"
| "change_at p (Starting q f) h \<longleftrightarrow>
     (\<exists>h0. whole Locked p h0 \<and> f \<noteq> None \<and> srvd_protocol_packet_field_allocate h0 = (f, h))"
| "change_at p (Filling q f) h \<longleftrightarrow> request_entry q \<noteq> None \<and>
     (\<exists>h0 T a. f = Some a \<and> heap_ok h0 \<and> packet_at Locked h0 p T \<and> modifies {} {} {} {} h0 h \<and> brk h0 \<le> a \<and>
        packet_at Locked h p T \<and> loose_field h T (a, request_type q, []))"
| "change_at p (Linking s q f) h \<longleftrightarrow>
     (\<exists>h0 T t. f = Some (f_addr t) \<and> heap_ok h0 \<and> packet_at Locked h0 p T \<and> loose_field h0 T t \<and>
        parts_before (request_part q) s (Some p) f h0 = Some h)"
| "change_at p (Unlocking r) h \<longleftrightarrow> whole Locked p h"
| "change_at p (Over r) h \<longleftrightarrow> whole Unlocked p h"

lemma packet_at_lock: "packet_at lk h p T \<Longrightarrow> lock_of p h = Some lk"
  by (auto simp: packet_at_def lock_of_def)

lemma parts_before_lock:
  "parts_before (request_part q) s (Some p) f h = Some h' \<Longrightarrow> lock_of p h' = lock_of p h"
  by (cases s) (auto dest!: request_part_lock elim!: bind_SomeE)

lemma change_at_locked:
  assumes "change_at p c h" and "packet_inside c"
  shows "lock_of p h = Some Locked"
  using assms
  by (cases c) (auto dest: packet_at_lock dest!: parts_before_lock field_pkts(1) [THEN lock_of_pkts [where p = p]])

fun call_request :: "packet_call \<Rightarrow> packet_request option" where
  "call_request (Waiting q) = Some q"
| "call_request (Looking q) = Some q"
| "call_request (Making q) = Some q"
| "call_request (Starting q f) = Some q"
| "call_request (Filling q f) = Some q"
| "call_request (Linking s q f) = Some q"
| "call_request (Unlocking r) = None"
| "call_request (Over r) = None"

definition call_readable :: "packet_call \<Rightarrow> bool" where
  "call_readable c \<longleftrightarrow> (case call_request c of None \<Rightarrow> True | Some q \<Rightarrow> request_readable q)"

lemma request_entry_readable: "request_readable q \<Longrightarrow> request_entry q = Some (sz, data) \<Longrightarrow> readable sz data"
  by (cases q) auto

text \<open>A step of a thread that holds the lock, or takes it.\<close>

definition moves :: "addr \<Rightarrow> packet_call \<Rightarrow> heap \<Rightarrow> bool" where
  "moves p c h \<longleftrightarrow> (\<exists>c' h'. packet_step p () c h = Some (c', h') \<and> change_at p c' h' \<and> grows p h h' \<and> call_readable c')"

lemma movesI:
  "packet_step p () c h = Some (c', h') \<Longrightarrow> change_at p c' h' \<Longrightarrow> grows p h h' \<Longrightarrow> call_readable c' \<Longrightarrow> moves p c h"
  by (auto simp: moves_def)

lemma moves_lock:
  assumes "heap_ok h" and "packet_at lk h p T" and "with_field_lock f (Some p) h = Some h'"
    and "f lk = Some lk'"
  shows "whole lk' p h' \<and> grows p h h'"
proof -
  from assms(2) obtain k where k: "pkts h p = Some (Some k)" "field_lock k = lk" by (auto simp: packet_at_def)
  with assms(3,4) have h': "h' = h\<lparr>pkts := (pkts h)(p \<mapsto> Some (k\<lparr>field_lock := lk'\<rparr>))\<rparr>" by (simp add: mem_simps)
  have "grows p h h'" unfolding h' by (rule grows_packet [where k = k]) (use k in simp_all)
  with packet_at_set_lock [OF assms(1,2) k(1), of lk'] h' modifies_heap_ok show ?thesis by blast
qed

lemma moves_waiting:
  assumes "change_at p (Waiting q) h" and "request_readable q"
  shows "moves p (Waiting q) h"
proof -
  from assms(1) obtain T k where at: "heap_ok h" "packet_at Unlocked h p T" and k: "pkts h p = Some (Some k)" "field_lock k = Unlocked"
    by (auto simp: packet_at_def)
  then obtain h' where h': "with_field_lock lock_mutex (Some p) h = Some h'" by (simp add: mem_simps)
  from moves_lock [OF at h', of Locked] h' assms(2) show ?thesis
    by (intro movesI [where c' = "Looking q" and h' = h']) (simp_all add: lock_mutex_def call_readable_def)
qed

lemma moves_unlocking:
  assumes "change_at p (Unlocking r) h"
  shows "moves p (Unlocking r) h"
proof -
  from assms obtain T k where at: "heap_ok h" "packet_at Locked h p T" and k: "pkts h p = Some (Some k)" "field_lock k = Locked"
    by (auto simp: packet_at_def)
  then obtain h' where h': "with_field_lock unlock_mutex (Some p) h = Some h'" by (simp add: mem_simps)
  from moves_lock [OF at h', of Unlocked] h' show ?thesis
    by (intro movesI [where c' = "Over r" and h' = h']) (simp_all add: unlock_mutex_def call_readable_def)
qed

lemma moves_looking:
  assumes "change_at p (Looking q) h" and "request_readable q"
  shows "moves p (Looking q) h"
proof -
  from assms(1) obtain T where at: "packet_at Locked h p T" by auto
  obtain found field where g: "srvd_protocol_packet_field_get_by_type (Some p) (request_type q) (Some None) h = Some (found, field)"
    using get_by_type_spec [OF at, of "request_type q"] by (auto split: option.splits)
  let ?c = "if \<not> found then Making q else if request_entry q = None then Unlocking (True, the field) else Unlocking (False, None)"
  show ?thesis
    by (rule movesI [where c' = ?c and h' = h]) (use g assms grows_refl in \<open>auto simp: call_readable_def\<close>)
qed

lemma allocate_modifies:
  "heap_ok h \<Longrightarrow> srvd_protocol_packet_field_allocate h = (f, h') \<Longrightarrow> modifies {} {} {} {} h h'"
  by (auto simp: srvd_protocol_packet_field_allocate_def malloc_field_def Let_def modifies_def heap_ok_def split: if_splits)

lemma moves_making:
  assumes "change_at p (Making q) h" and "request_readable q"
  shows "moves p (Making q) h"
proof -
  from assms(1) obtain T where ok: "heap_ok h" and at: "packet_at Locked h p T" by auto
  show ?thesis
  proof (rule new_field_spec [OF ok at, where ty = "request_type q"])
    fix h1 assume n: "srvd_protocol_packet_field_allocate h = (None, h1)" "packet_at Locked h1 p T" "modifies {} {} {} {} h h1"
    with grows_modifies [OF ok at n(3)] modifies_heap_ok [OF n(3)] show ?thesis
      by (intro movesI [where c' = "Unlocking (False, None)" and h' = h1]) (auto simp: call_readable_def)
  next
    fix a h1 h2 assume n: "srvd_protocol_packet_field_allocate h = (Some a, h1)" "brk h \<le> a"
    have "grows p h h1" by (rule grows_modifies [OF ok at allocate_modifies [OF ok n(1)]]) simp
    with n assms show ?thesis
      by (intro movesI [where c' = "Starting q (Some a)" and h' = h1]) (auto simp: call_readable_def)
  qed
qed

lemma moves_starting:
  assumes "change_at p (Starting q f) h" and "request_readable q"
  shows "moves p (Starting q f) h"
proof -
  from assms(1) obtain h0 T b where ok: "heap_ok h0" and at: "packet_at Locked h0 p T" and f: "f = Some b"
    and al: "srvd_protocol_packet_field_allocate h0 = (f, h)" by auto
  show ?thesis
  proof (rule new_field_spec [OF ok at, where ty = "request_type q"])
    fix a h1 h2
    assume n: "srvd_protocol_packet_field_allocate h0 = (Some a, h1)" "brk h0 \<le> a"
        "srvd_protocol_packet_field_initialize (Some a) (request_type q) h1 = Some (True, h2)"
        "packet_at Locked h2 p T" "loose_field h2 T (a, request_type q, [])" "modifies {} {} {} {} h0 h2"
    from n(1) al have h: "f = Some a" "h1 = h" by simp_all
    have m: "modifies {} {} {} {} h0 h" by (rule allocate_modifies [OF ok al])
    have at1: "packet_at Locked h p T" using packet_at_modifies [OF m ok at] by simp
    have "flds h2 x = flds h x" if "x \<in> f_addr ` set T" for x
      using packet_at_below(2) [OF ok at that] m n(6) by (simp add: modifies_def)
    then have g: "grows p h h2" using field_pkts(2) [OF n(3)] h(2) by (intro grows_outside [OF at1]) simp_all
    show ?thesis
    proof (cases "request_entry q")
      case None
      have "change_at p (Linking Empty_end q (Some a)) h2"
        using n(4,5) modifies_heap_ok [OF n(6)] by (auto intro!: exI [of _ T])
      with n(3) g None assms(2) h show ?thesis
        by (intro movesI [where c' = "Linking Empty_end q (Some a)" and h' = h2]) (simp_all add: call_readable_def)
    next
      case (Some sd)
      have "change_at p (Filling q (Some a)) h2" using n ok at Some by auto
      with n(3) g Some assms(2) h show ?thesis
        by (intro movesI [where c' = "Filling q (Some a)" and h' = h2]) (simp_all add: call_readable_def)
    qed
  qed (use al f in simp)
qed

lemma moves_linking:
  assumes "change_at p (Linking s q f) h" and "request_readable q"
  shows "moves p (Linking s q f) h"
proof -
  from assms(1) obtain h0 T t where f: "f = Some (f_addr t)" and at: "heap_ok h0" "packet_at Locked h0 p T" "loose_field h0 T t"
    and before: "parts_before (request_part q) s (Some p) f h0 = Some h" by auto
  from request_part_grows [OF at(2,3), of q s h] before f obtain h' where
    h': "request_part q s (Some p) f h = Some h'" "grows p h h'" by auto
  show ?thesis
  proof (cases "following s")
    case (Some s')
    have "parts_before (request_part q) s' (Some p) f h0 = Some h'"
      using parts_before_following [OF Some, of "request_part q" "Some p" f h0] before h' by simp
    with at f have "change_at p (Linking s' q f) h'" by (simp only: change_at.simps) blast
    with h' Some assms(2) show ?thesis
      by (intro movesI [where c' = "Linking s' q f" and h' = h']) (simp_all add: call_readable_def)
  next
    case None
    then have s: "s = Count" by (cases s) auto
    obtain g U where "request_link q (Some p) (Some (f_addr t)) h0 = Some g" "packet_at Locked g p U" "heap_ok g"
      by (rule request_link_spec [OF at])
    with before h' f s have "whole Locked p h'" by (auto simp: request_link_before)
    with h' None show ?thesis
      by (intro movesI [where c' = "Unlocking (True, if request_entry q = None then f else None)" and h' = h'])
         (simp_all add: call_readable_def)
  qed
qed

lemma moves_filling:
  assumes "change_at p (Filling q f) h" and "request_readable q" and "request_entry q = Some (sz, data)"
  shows "moves p (Filling q f) h"
proof -
  let ?ty = "request_type q"
  from assms(1) obtain h0 T a where f: "f = Some a" and h0: "heap_ok h0" "packet_at Locked h0 p T" "modifies {} {} {} {} h0 h" "brk h0 \<le> a"
    and at: "packet_at Locked h p T" and t: "loose_field h T (a, ?ty, [])" by auto
  have ok: "heap_ok h" using h0(3) by (rule modifies_heap_ok)
  have fo: "field_ok h (a, ?ty, [])" and new: "a \<notin> f_addr ` set T" using t by (simp_all add: loose_field_def)
  have failed: ?thesis if run: "srvd_protocol_packet_field_entry_add f sz data h = Some (False, h1)"
      and m1: "modifies {} {a} {} {} h h1" and fo1: "field_ok h1 (a, ?ty, [])" for h1
  proof -
    have m: "modifies {} {} {} {} h0 h1"
      by (rule modifies_weaken_new [of "{}" "{}" "{}" "{a}" "{}" "{}" "{}" "{}"])
         (use h0(4) modifies_trans [OF modifies_mono [OF h0(3)] m1] in auto)
    obtain h2 where h2: "release_field a h1 = Some h2" "packet_at Locked h2 p T" "modifies {} {} {} {} h0 h2"
      using adder.create_fail [OF h0(1,2) m fo1 h0(4)] by blast
    have "flds h2 x = flds h x" if "x \<in> f_addr ` set T" for x
      using packet_at_below(2) [OF h0(1,2) that] h0(3) h2(3) by (simp add: modifies_def)
    moreover have "pkts h2 p = pkts h p"
      using packet_at_below(1) [OF h0(1,2)] h0(3) h2(3) by (simp add: modifies_def)
    ultimately have "grows p h h2" by (intro grows_outside [OF at]) simp_all
    moreover from h2(1) obtain x g where "srvd_protocol_packet_field_finalize f h1 = Some (x, g)" "srvd_protocol_packet_field_free f g = Some h2"
      by (auto simp: release_field_def f elim!: bind_SomeE)
    ultimately show ?thesis
      using run h2(2) modifies_heap_ok [OF h2(3)] assms(3)
      by (intro movesI [where c' = "Unlocking (False, None)" and h' = h2]) (auto simp: call_readable_def)
  qed
  show ?thesis
  proof (cases "payload_ok sz data")
    case False
    with readable_cases [OF request_entry_readable [OF assms(2,3)]]
    have "srvd_protocol_packet_field_entry_add f sz data h = Some (False, h)"
      by (simp add: f field_entry_bad_payload(1))
    then show ?thesis by (rule failed [OF _ modifies_refl [OF ok] fo])
  next
    case True
    obtain r h1 where r: "srvd_protocol_packet_field_entry_add f sz data h = Some (r, h1)"
      and put: "entry_put (\<lambda>e es. es @ [e]) h a ?ty [] (payload sz data) r h1"
      using field_entry_add_spec [OF ok fo True] f by blast
    have m: "modifies {} {a} {} {} h h1" and l: "links_at h1 a = links_at h a" using put by (auto simp: entry_put_def)
    show ?thesis
    proof (cases r)
      case False
      with put have "field_ok h1 (a, ?ty, [])" by (simp add: entry_put_def)
      with r m False show ?thesis by (intro failed) simp_all
    next
      case True
      with put obtain e b where eb: "brk h \<le> e" "\<forall>x. b = Some x \<longrightarrow> brk h \<le> x" "field_ok h1 (a, ?ty, [(e, b, payload sz data)])"
        by (auto simp: entry_put_def)
      have at1: "packet_at Locked h1 p T" using packet_at_modifies [OF m ok at] new by simp
      have "loose_field h1 T (a, ?ty, [(e, b, payload sz data)])"
        using t eb l packet_at_below(3,4) [OF ok at] by (force simp: loose_field_def split: option.splits)
      with at1 have "change_at p (Linking Empty_end q f) h1"
        using f modifies_heap_ok [OF m] by (simp add: exI [of _ T]) blast
      moreover have "grows p h h1" by (rule grows_modifies [OF ok at m]) (use new in simp)
      ultimately show ?thesis using r True assms
        by (intro movesI [where c' = "Linking Empty_end q f" and h' = h1]) (simp_all add: call_readable_def)
    qed
  qed
qed

lemma inside_moves:
  assumes "change_at p c h" and "packet_inside c" and "call_readable c"
  shows "moves p c h"
proof (cases c)
  case (Filling q f)
  show ?thesis
  proof (cases "request_entry q")
    case (Some sd)
    with assms Filling show ?thesis by (cases sd) (simp add: call_readable_def moves_filling)
  qed (use assms Filling in simp)
qed (use assms in \<open>auto simp: call_readable_def simp del: change_at.simps
   intro: moves_looking moves_making moves_starting moves_linking moves_unlocking\<close>)

section \<open>All threads\<close>

fun use_inside :: "packet_use \<Rightarrow> bool" where
  "use_inside (Change c) \<longleftrightarrow> packet_inside c"
| "use_inside (Lookup ty r) \<longleftrightarrow> False"

fun use_at :: "addr \<Rightarrow> packet_use \<Rightarrow> heap \<Rightarrow> bool" where
  "use_at p (Change c) h \<longleftrightarrow> change_at p c h"
| "use_at p (Lookup ty r) h \<longleftrightarrow> whole Unlocked p h"

fun use_over :: "packet_use \<Rightarrow> bool" where
  "use_over (Change c) \<longleftrightarrow> packet_over c \<noteq> None"
| "use_over (Lookup ty r) \<longleftrightarrow> lookup_over r \<noteq> None"

text \<open>The packet has a list, and nobody but \<open>w\<close> is inside the lock.\<close>

definition uses_ok :: "addr \<Rightarrow> (nat \<Rightarrow> packet_use) \<Rightarrow> heap \<Rightarrow> bool" where
  "uses_ok p cs h \<longleftrightarrow> (\<forall>i c. cs i = Change c \<longrightarrow> call_readable c) \<and>
     (\<forall>i ty r. cs i = Lookup ty r \<longrightarrow> lookup_at p ty False r h) \<and> (\<exists>V. listed h p V) \<and>
     (\<exists>w. use_at p (cs w) h \<and> (\<forall>j. use_inside (cs j) \<longrightarrow> j = w))"

lemma use_at_outside: "\<not> use_inside c \<Longrightarrow> use_at p c h \<longleftrightarrow> whole Unlocked p h"
proof (cases c)
  case (Change d)
  then show "\<not> use_inside c \<Longrightarrow> ?thesis" by (cases d) auto
qed simp

lemma uses_ok_idle:
  assumes "uses_ok p cs h" and "lock_of p h \<noteq> Some Locked"
  shows "whole Unlocked p h \<and> \<not> use_inside (cs j)"
proof -
  from assms(1) obtain w where w: "use_at p (cs w) h" "\<forall>j. use_inside (cs j) \<longrightarrow> j = w" unfolding uses_ok_def by blast
  have "\<not> use_inside (cs w)"
  proof (cases "cs w")
    case (Change c)
    with w(1) assms(2) change_at_locked [of p c h] show ?thesis by auto
  qed simp
  with w use_at_outside show ?thesis by blast
qed

lemma uses_ok_start:
  assumes "whole Unlocked p h" and "\<forall>i. use_begins (cs i)"
  shows "uses_ok p cs h"
proof -
  have c: "\<exists>q. c = Waiting q \<and> request_readable q" if "cs i = Change c" for i c
    using assms(2) that by (metis use_begins.simps(1))
  have out: "\<not> use_inside (cs i)" for i
  proof (cases "cs i")
    case (Change d)
    with c [OF Change] show ?thesis by auto
  qed simp
  have "call_readable c" if "cs i = Change c" for i c using c [OF that] by (auto simp: call_readable_def)
  moreover obtain V where V: "listed h p V" using assms(1) packet_at_listed by blast
  moreover have "lookup_at p ty False r h" if "cs i = Lookup ty r" for i ty r
  proof -
    have "use_begins (Lookup ty r)" using assms(2) that by metis
    with V show ?thesis by auto
  qed
  moreover have "use_at p (cs 0) h" using use_at_outside [OF out] assms(1) by blast
  ultimately show ?thesis using out unfolding uses_ok_def by blast
qed

lemma uses_ok_moves:
  assumes "uses_ok p cs h" and "moves p c h" and "cs i = Change c" and "\<And>j. use_inside (cs j) \<Longrightarrow> j = i"
    and "use_step p (cs i) h = Some (d, h')"
  shows "uses_ok p (cs(i := d)) h' \<and> grows p h h'"
proof -
  from assms(2,3,5) obtain c' where c': "d = Change c'" "change_at p c' h'" "grows p h h'" "call_readable c'"
    by (auto simp: moves_def)
  from assms(1) obtain V where V: "listed h p V" unfolding uses_ok_def by blast
  from grows_list [OF c'(3) V] obtain V' where "listed h' p V'" .
  moreover have "use_at p ((cs(i := d)) i) h' \<and> (\<forall>j. use_inside ((cs(i := d)) j) \<longrightarrow> j = i)"
    using c' assms(4) by auto
  moreover have "lookup_at p ty False r h'" if "(cs(i := d)) j = Lookup ty r" for j ty r
  proof -
    from that c'(1) have "cs j = Lookup ty r" by (cases "j = i") auto
    with assms(1) have "lookup_at p ty False r h" unfolding uses_ok_def by blast
    then show ?thesis using c'(3) by (rule lookup_at_grows)
  qed
  moreover have "call_readable e" if "(cs(i := d)) j = Change e" for j e
    using that c' assms(1) by (cases "j = i") (auto simp: uses_ok_def)
  ultimately show ?thesis using c'(3) unfolding uses_ok_def by blast
qed

lemma uses_ok_step:
  assumes "uses_ok p cs h" and "use_step p (cs i) h = Some (d, h')"
  shows "uses_ok p (cs(i := d)) h' \<and> grows p h h'"
proof (cases "cs i")
  case (Lookup ty r)
  with assms(2) obtain r' where r: "d = Lookup ty r'" "h' = h" and st: "lookup_step p ty r h = Some r'" by auto
  have "lookup_at p ty False r h" using assms(1) Lookup unfolding uses_ok_def by blast
  moreover have "lookup_over r = None" using st by (cases r) auto
  ultimately have at: "lookup_at p ty False r' h" using st by (metis lookup_at_step option.inject)
  from assms(1) obtain w where w: "use_at p (cs w) h" "\<forall>j. use_inside (cs j) \<longrightarrow> j = w" unfolding uses_ok_def by blast
  have "use_at p ((cs(i := d)) w) h" using w(1) r(1) Lookup by (cases "w = i") auto
  moreover have "use_inside ((cs(i := d)) j) \<Longrightarrow> j = w" for j using w(2) r(1) by (cases "j = i") auto
  moreover have "lookup_at p u False x h" if "(cs(i := d)) j = Lookup u x" for j u x
    using that r(1) at assms(1) unfolding uses_ok_def by (cases "j = i") auto
  moreover have "call_readable e" if "(cs(i := d)) j = Change e" for j e
    using that r(1) assms(1) by (cases "j = i") (auto simp: uses_ok_def)
  moreover have "\<exists>V. listed h p V" using assms(1) unfolding uses_ok_def by blast
  ultimately show ?thesis using r(2) grows_refl unfolding uses_ok_def by blast
next
  case (Change c)
  have read: "call_readable c" using assms(1) Change unfolding uses_ok_def by blast
  show ?thesis
  proof (cases "packet_inside c")
    case True
    from assms(1) obtain w where w: "use_at p (cs w) h" "\<forall>j. use_inside (cs j) \<longrightarrow> j = w" unfolding uses_ok_def by blast
    then have i: "i = w" using Change True by auto
    with w(1) Change have "change_at p c h" by simp
    from inside_moves [OF this True read] show ?thesis
      by (rule uses_ok_moves [OF assms(1) _ Change _ assms(2)]) (use w(2) i in simp)
  next
    case False
    with assms(2) Change obtain q where c: "c = Waiting q" by (cases c) auto
    with assms(2) Change have "lock_of p h = Some Unlocked" by (auto dest!: field_lock_steps elim!: bind_SomeE)
    with uses_ok_idle [OF assms(1)] have idle: "whole Unlocked p h" "\<And>j. \<not> use_inside (cs j)" by auto
    then have "moves p c h" using c read by (intro moves_waiting [where q = q, folded c]) (simp_all add: call_readable_def)
    then show ?thesis by (rule uses_ok_moves [OF assms(1) _ Change _ assms(2)]) (use idle(2) in simp)
  qed
qed

lemma uses_ok_reach:
  assumes "uses_reach p (cs, h) (ds, g)" and "uses_ok p cs h"
  shows "uses_ok p ds g \<and> grows p h g"
  using assms(1)
proof (induction rule: rtranclp_induct2)
  case refl
  then show ?case using assms(2) grows_refl by blast
next
  case (step ds g es g')
  from step(2) show ?case by (rule packet_usesE) (use step(3) uses_ok_step grows_trans in blast)
qed

text \<open>A thread that is not over moves, unless it waits for a lock that is taken.\<close>

theorem uses_never_stuck:
  assumes "uses_reach p (cs, h) (ds, g)" and "uses_ok p cs h"
  shows "use_step p (ds i) g \<noteq> None \<or> use_over (ds i) \<or> (\<exists>q. ds i = Change (Waiting q)) \<and> lock_of p g = Some Locked"
proof -
  have ok: "uses_ok p ds g" using uses_ok_reach [OF assms] by blast
  show ?thesis
  proof (cases "ds i")
    case (Lookup ty r)
    show ?thesis
    proof (cases "lookup_over r")
      case None
      from ok Lookup have "lookup_at p ty False r g" unfolding uses_ok_def by blast
      from lookup_at_step [OF this None] Lookup show ?thesis by auto
    qed (use Lookup in auto)
  next
    case (Change c)
    then have read: "call_readable c" using ok unfolding uses_ok_def by blast
    show ?thesis
    proof (cases "packet_inside c")
      case True
      from ok obtain w where w: "use_at p (ds w) g" "\<forall>j. use_inside (ds j) \<longrightarrow> j = w" unfolding uses_ok_def by blast
      with Change True have "i = w" by auto
      with w(1) Change have "change_at p c g" by simp
      from inside_moves [OF this True read] Change show ?thesis by (auto simp: moves_def)
    next
      case False
      then consider (over) r where "c = Over r" | (waits) q where "c = Waiting q" by (cases c) auto
      then show ?thesis
      proof cases
        case waits
        show ?thesis
        proof (cases "lock_of p g = Some Locked")
          case False
          have "change_at p (Waiting q) g" using uses_ok_idle [OF ok False] by simp
          from moves_waiting [OF this] read waits Change show ?thesis by (auto simp: moves_def call_readable_def)
        qed (use waits Change in simp)
      qed (use Change in simp)
    qed
  qed
qed

section \<open>What a lookup finds\<close>

lemma lookup_reach:
  assumes "uses_reach p (ds, g) (es, g')" and "uses_ok p ds g" and "ds i = Lookup ty r0" and "lookup_at p ty had r0 g"
  obtains r where "es i = Lookup ty r" "lookup_at p ty had r g'"
proof -
  have "uses_ok p es g' \<and> (\<exists>r. es i = Lookup ty r \<and> lookup_at p ty had r g')" using assms(1)
  proof (induction rule: rtranclp_induct2)
    case refl
    with assms(2-4) show ?case by blast
  next
    case (step es g1 fs g2)
    then obtain r where r: "es i = Lookup ty r" "lookup_at p ty had r g1" and ok: "uses_ok p es g1" by blast
    from step(2) obtain j c where c: "use_step p (es j) g1 = Some (c, g2)" "fs = es(j := c)" by (rule packet_usesE) blast
    note s = uses_ok_step [OF ok c(1)]
    show ?case
    proof (cases "j = i")
      case False
      then have "fs i = Lookup ty r" using c(2) r(1) by simp
      with s c(2) lookup_at_grows [OF r(2)] show ?thesis by blast
    next
      case True
      with c(1) r(1) obtain r' where r': "lookup_step p ty r g1 = Some r'" "c = Lookup ty r'" "g2 = g1" by auto
      then have "lookup_over r = None" by (cases r) auto
      from lookup_at_step [OF r(2) this] r' have "lookup_at p ty had r' g1" by (metis option.inject)
      moreover have "fs i = Lookup ty r'" using c(2) r'(2) True by simp
      ultimately show ?thesis using s c(2) r'(3) by blast
    qed
  qed
  with that show thesis by blast
qed

end
