(* ===== verification/Packet_Thread_Properties.thy ===== *)
theory Packet_Thread_Properties
  imports Packet_Readers_Refine Demo
begin

text \<open>
  What threads that share a packet make of it: the effect of each request on the abstract packet, and
  that interleaved calls have the effect of the requests in the order of the lock.
\<close>

section \<open>On the abstract packet\<close>

text \<open>What a request does and answers when memory suffices.\<close>

fun effect :: "packet_request \<Rightarrow> spacket \<Rightarrow> bool \<times> spacket" where
  "effect (Append ty sz data) sp = (let ok = (ty \<notin> fst ` set sp \<and> payload_ok sz data) in
     (ok, if ok then sp @ [(ty, [payload sz data])] else sp))"
| "effect (Insert ty sz data) sp = (let ok = (ty \<notin> fst ` set sp \<and> payload_ok sz data) in
     (ok, if ok then (ty, [payload sz data]) # sp else sp))"
| "effect (Get_or_add ty) sp = (True, if ty \<in> fst ` set sp then sp else sp @ [(ty, [])])"
| "effect (Get_or_inject ty) sp = (True, if ty \<in> fst ` set sp then sp else (ty, []) # sp)"

fun effects :: "(nat \<Rightarrow> packet_request) \<Rightarrow> nat list \<Rightarrow> spacket \<Rightarrow> (nat \<times> bool) list \<times> spacket" where
  "effects requests [] sp = ([], sp)"
| "effects requests (i # q) sp = (let (ok, sp) = effect (requests i) sp; (rs, sp) = effects requests q sp in ((i, ok) # rs, sp))"

lemma find_type_abs: "find (\<lambda>t. f_ty t = ty) T = None \<longleftrightarrow> ty \<notin> fst ` set (abs_packet T)"
  by (induction T) (auto simp: abs_packet_def abs_field_def)

lemma run_request_effect:
  assumes ok: "heap_ok h" and at: "packet_at Unlocked h p T" and mem: "\<forall>k. \<not> oom h k" and q: "request_readable q"
  shows "\<exists>f h' U. run_request p q h = Some ((fst (effect q (abs_packet T)), f), h') \<and> packet_at Unlocked h' p U \<and>
     heap_ok h' \<and> oom h' = oom h \<and> abs_packet U = snd (effect q (abs_packet T))"
proof -
  have room: "no_oom h h'" for h' using mem by (simp add: no_oom_def)
  have keeps: "modifies P F E B h h' \<Longrightarrow> heap_ok h' \<and> oom h' = oom h" for P F E B h' by (simp add: modifies_def)
  show ?thesis
  proof (cases q)
    case (Append ty sz data)
    then have "readable sz data" using q by simp
    then obtain r h' U where r: "srvd_protocol_packet_field_append (Some p) ty sz data h = Some (r, h')"
      "packet_at Unlocked h' p U" "modifies {p} (f_addr ` set T) {} {} h h'"
      "r \<longleftrightarrow> ty \<notin> fst ` set (abs_packet T) \<and> payload_ok sz data \<and> no_oom h h'"
      "abs_packet U = (if r then abs_packet T @ [(ty, [payload sz data])] else abs_packet T)"
      by (rule append_abs [OF ok at, of sz data ty])
    have "effect q (abs_packet T) = (r, abs_packet U)" using r(4,5) room by (simp add: Append Let_def)
    with r Append keeps [OF r(3)] show ?thesis by (intro exI [of _ None] exI [of _ h'] exI [of _ U]) simp
  next
    case (Insert ty sz data)
    then have "readable sz data" using q by simp
    then obtain r h' U where r: "srvd_protocol_packet_field_insert (Some p) ty sz data h = Some (r, h')"
      "packet_at Unlocked h' p U" "modifies {p} (f_addr ` set T) {} {} h h'"
      "r \<longleftrightarrow> ty \<notin> fst ` set (abs_packet T) \<and> payload_ok sz data \<and> no_oom h h'"
      "abs_packet U = (if r then (ty, [payload sz data]) # abs_packet T else abs_packet T)"
      by (rule insert_abs [OF ok at, of sz data ty])
    have "effect q (abs_packet T) = (r, abs_packet U)" using r(4,5) room by (simp add: Insert Let_def)
    with r Insert keeps [OF r(3)] show ?thesis by (intro exI [of _ None] exI [of _ h'] exI [of _ U]) simp
  next
    case (Get_or_add ty)
    obtain r out h' U where r: "srvd_protocol_packet_field_get_or_add (Some p) ty (Some None) h = Some (r, out, h')"
      "packet_at Unlocked h' p U" "modifies {p} (f_addr ` set T) {} {} h h'" "adder.get_or_post h ty T (r, out) h' U"
      by (rule get_or_add_spec [OF ok at, of ty])
    have "effect q (abs_packet T) = (r, abs_packet U)"
    proof (cases "find (\<lambda>t. f_ty t = ty) T")
      case None
      with r(4) room find_type_abs [of ty T] show ?thesis
        by (auto simp: Get_or_add adder.get_or_post_def abs_packet_def abs_field_def)
    next
      case (Some t)
      with r(4) find_type_abs [of ty T] show ?thesis by (auto simp: Get_or_add adder.get_or_post_def)
    qed
    with r Get_or_add keeps [OF r(3)] show ?thesis by (intro exI [of _ "the out"] exI [of _ h'] exI [of _ U]) simp
  next
    case (Get_or_inject ty)
    obtain r out h' U where r: "srvd_protocol_packet_field_get_or_inject (Some p) ty (Some None) h = Some (r, out, h')"
      "packet_at Unlocked h' p U" "modifies {p} (f_addr ` set T) {} {} h h'" "injector.get_or_post h ty T (r, out) h' U"
      by (rule get_or_inject_spec [OF ok at, of ty])
    have "effect q (abs_packet T) = (r, abs_packet U)"
    proof (cases "find (\<lambda>t. f_ty t = ty) T")
      case None
      with r(4) room find_type_abs [of ty T] show ?thesis
        by (auto simp: Get_or_inject injector.get_or_post_def abs_packet_def abs_field_def)
    next
      case (Some t)
      with r(4) find_type_abs [of ty T] show ?thesis by (auto simp: Get_or_inject injector.get_or_post_def)
    qed
    with r Get_or_inject keeps [OF r(3)] show ?thesis by (intro exI [of _ "the out"] exI [of _ h'] exI [of _ U]) simp
  qed
qed

lemma serial_effects:
  assumes "heap_ok h" and "packet_at Unlocked h p T" and "\<forall>k. \<not> oom h k" and "\<forall>i. request_readable (requests i)"
    and "serial (\<lambda>i (e :: unit). run_request p (requests i)) q h = Some (rs, h')"
  shows "\<exists>U. packet_at Unlocked h' p U \<and> abs_packet U = snd (effects requests (map fst q) (abs_packet T)) \<and>
     map (\<lambda>(i, r). (i, fst r)) rs = fst (effects requests (map fst q) (abs_packet T))"
  using assms
proof (induction q arbitrary: h T rs)
  case Nil
  then show ?case by auto
next
  case (Cons a q)
  obtain i e where a: "a = (i, e)" by (cases a)
  obtain f h1 T1 where r: "run_request p (requests i) h = Some ((fst (effect (requests i) (abs_packet T)), f), h1)"
      "packet_at Unlocked h1 p T1" "heap_ok h1" "oom h1 = oom h" "abs_packet T1 = snd (effect (requests i) (abs_packet T))"
    using run_request_effect [OF Cons.prems(1-3), of "requests i"] Cons.prems(4) by blast
  with Cons.prems(5) a obtain rs1 where rs: "rs = (i, (fst (effect (requests i) (abs_packet T)), f)) # rs1"
      "serial (\<lambda>i e. run_request p (requests i)) q h1 = Some (rs1, h')"
    by (auto elim!: bind_SomeE)
  from Cons.IH [OF r(3,2) _ Cons.prems(4) rs(2)] Cons.prems(3) r(4) obtain U where
    "packet_at Unlocked h' p U" "abs_packet U = snd (effects requests (map fst q) (abs_packet T1))"
    "map (\<lambda>(i, r). (i, fst r)) rs1 = fst (effects requests (map fst q) (abs_packet T1))" by auto
  with a rs(1) r(5) show ?case by (auto simp: split_def Let_def)
qed

section \<open>Properties\<close>

text \<open>C20. Threads that share a packet: however the steps of their appends, inserts and look-ups that
  create are interleaved, whenever the lock is free the packet is the one that the requests make one
  after another in the order in which they took the lock, and every call that has returned has the
  status it has in that order. So of several threads that append a field of one type, the first to
  get the lock succeeds and the others fail.\<close>

theorem shared_packet_is_serial:
  assumes "threads_reach (packet_step p) (\<lambda>i. Waiting (requests i)) (\<lambda>_ _. False) x y"
    and "threads_start (\<lambda>i. Waiting (requests i)) h x" and "heap_ok h" and "packet_at Unlocked h p T"
    and "\<forall>k. \<not> oom h k" and "\<forall>i. request_readable (requests i)" and "lock_of p (mem y) = Some Unlocked"
  shows "\<exists>U. packet_at Unlocked (mem y) p U \<and> abs_packet U = snd (effects requests (map fst (taken y)) (abs_packet T)) \<and>
     (\<forall>i. case map_of (fst (effects requests (map fst (taken y)) (abs_packet T))) i of
        None \<Rightarrow> calls y i = Waiting (requests i) | Some ok \<Rightarrow> (\<exists>f. calls y i = Over (ok, f)))"
proof -
  have unl: "lock_of p h = Some Unlocked" using assms(4) by (auto simp: packet_at_def lock_of_def)
  have "(\<lambda>i e. packet_rest p e (Waiting (requests i))) = (\<lambda>i (e :: unit). run_request p (requests i))"
    by (intro ext) (rule rest_request)
  with packet_calls.calls_serialize [OF assms(1,2) unl _ assms(7)] obtain rs where
    rs: "serial (\<lambda>i e. run_request p (requests i)) (taken y) h = Some (rs, mem y)"
      "\<And>i. calls y i = (case map_of rs i of None \<Rightarrow> Waiting (requests i) | Some r \<Rightarrow> Over r)" by auto
  obtain U where U: "packet_at Unlocked (mem y) p U" "abs_packet U = snd (effects requests (map fst (taken y)) (abs_packet T))"
    "map (\<lambda>(i, r). (i, fst r)) rs = fst (effects requests (map fst (taken y)) (abs_packet T))"
    using serial_effects [OF assms(3-6) rs(1)] by blast
  have "map_of (map (\<lambda>(i, r). (i, fst r)) rs) i = map_option fst (map_of rs i)" for i by (simp add: map_of_map)
  with U rs(2) show ?thesis by (intro exI [of _ U]) (auto split: option.splits)
qed

text \<open>Every thread wants to append the same field to a packet that has one of another type.\<close>

abbreviation demo_request :: packet_request where
  "demo_request \<equiv> Append 101 1 (Some [7])"

definition demo_threads :: "(packet_call, heap, unit) threads" where
  "demo_threads = \<lparr>calls = (\<lambda>_. Waiting demo_request), mem = demo_full, ambient = (), taken = []\<rparr>"

lemma demo_thread_runs:
  "\<exists>n y ok f. run_call (packet_step 0) (\<lambda>_. Waiting demo_request) 0 n demo_threads = Some y \<and> calls y 0 = Over (ok, f) \<and>
     lock_of 0 (mem y) = Some Unlocked"
proof -
  obtain f h' U where r: "run_request 0 demo_request demo_full = Some ((fst (effect demo_request (abs_packet demo_shape)), f), h')"
      "packet_at Unlocked h' 0 U"
    using run_request_effect [of demo_full 0 demo_shape demo_request] by (auto simp: readable_def)
  let ?r = "(fst (effect demo_request (abs_packet demo_shape)), f)"
  have "packet_rest 0 (ambient demo_threads) (calls demo_threads 0) (mem demo_threads) = Some (?r, h')"
    using r(1) unfolding demo_threads_def threads.simps rest_request .
  from finish_runs [where step = "packet_step 0" and x = demo_threads and i = 0 and result = packet_over, OF this]
  obtain n y where y: "run_call (packet_step 0) (\<lambda>_. Waiting demo_request) 0 n demo_threads = Some y"
      "mem y = h'" "packet_over (calls y 0) = Some ?r" by blast
  have "calls y 0 = Over ?r" using y(3) by (cases "calls y 0") auto
  moreover have "lock_of 0 h' = Some Unlocked" using r(2) by (auto simp: packet_at_def lock_of_def)
  ultimately show ?thesis using y(1,2) by blast
qed

theorem shared_packet_is_serial_witness:
  "\<exists>y U ok f. threads_reach (packet_step 0) (\<lambda>_. Waiting demo_request) (\<lambda>_ _. False) demo_threads y \<and>
     packet_at Unlocked (mem y) 0 U \<and> calls y 0 = Over (ok, f) \<and>
     map_of (fst (effects (\<lambda>_. demo_request) (map fst (taken y)) (abs_packet demo_shape))) 0 = Some ok \<and>
     abs_packet U = snd (effects (\<lambda>_. demo_request) (map fst (taken y)) (abs_packet demo_shape))"
proof -
  obtain n y ok f where y: "run_call (packet_step 0) (\<lambda>_. Waiting demo_request) 0 n demo_threads = Some y"
      "calls y 0 = Over (ok, f)" "lock_of 0 (mem y) = Some Unlocked" using demo_thread_runs by blast
  have reach: "threads_reach (packet_step 0) (\<lambda>_. Waiting demo_request) (\<lambda>_ _. False) demo_threads y" by (rule run_call_reach [OF y(1)])
  have start: "threads_start (\<lambda>_. Waiting demo_request) demo_full demo_threads" by (simp add: threads_start_def demo_threads_def)
  obtain U where U: "packet_at Unlocked (mem y) 0 U"
      "abs_packet U = snd (effects (\<lambda>_. demo_request) (map fst (taken y)) (abs_packet demo_shape))"
      "case map_of (fst (effects (\<lambda>_. demo_request) (map fst (taken y)) (abs_packet demo_shape))) 0 of
        None \<Rightarrow> calls y 0 = Waiting demo_request | Some ok \<Rightarrow> (\<exists>f. calls y 0 = Over (ok, f))"
    using shared_packet_is_serial [OF reach start demo_heap_ok(2) demo_full_at _ _ y(3)] by (auto simp: readable_def)
  from U(3) y(2) have "map_of (fst (effects (\<lambda>_. demo_request) (map fst (taken y)) (abs_packet demo_shape))) 0 = Some ok"
    by (auto split: option.splits)
  with U(1,2) y(2) reach show ?thesis by blast
qed

text \<open>C21. A lookup by type that runs without the lock while other threads append, insert and create
  fields, store by store: from wherever it stands it returns when it is left alone, without a step that
  is undefined. The field it then answers is in the packet and has the type, even if the thread that
  links it is not done yet; and when it answers that there is none, there was none when it began.\<close>

theorem lookup_beside_changes:
  assumes "heap_ok h" and "packet_at Unlocked h p T" and "\<forall>i. use_begins (cs i)"
    and "uses_reach p (cs, h) (ds, g)" and "ds i = Lookup ty Entering"
    and "uses_reach p (ds, g) (es, g')" and "es i = Lookup ty r"
  shows "\<exists>V V' j. listed g p V \<and> listed g' p V' \<and> set V \<subseteq> set V' \<and> lookup_rest p ty r g' = Some (j, g') \<and>
     (case j of None \<Rightarrow> ty \<notin> snd ` set V | Some a \<Rightarrow> (a, ty) \<in> set V')"
proof -
  have "uses_ok p cs h" using assms(1,2) by (intro uses_ok_start [OF _ assms(3)]) blast
  with uses_ok_reach [OF assms(4)] have ok: "uses_ok p ds g" by blast
  then obtain V where V: "listed g p V" unfolding uses_ok_def by blast
  then have "lookup_at p ty (ty \<in> snd ` set V) Entering g" by auto
  from lookup_reach [OF assms(6) ok assms(5) this] assms(7) have at: "lookup_at p ty (ty \<in> snd ` set V) r g'" by auto
  obtain j where j: "lookup_rest p ty r g' = Some (j, g')" "lookup_at p ty (ty \<in> snd ` set V) (Done j) g'"
    by (rule lookup_at_returns [OF at])
  then obtain V' where V': "listed g' p V'" "case j of None \<Rightarrow> ty \<notin> snd ` set V | Some a \<Rightarrow> (a, ty) \<in> set V'" by auto
  from uses_ok_reach [OF assms(6) ok] have "grows p g g'" by blast
  from grows_list [OF this V] listed_unique [OF V'(1)] have "set V \<subseteq> set V'" by blast
  with V V' j(1) show ?thesis by blast
qed

text \<open>A lookup passes the last field, and finds the one that is linked behind it meanwhile.\<close>

primrec run_uses :: "addr \<Rightarrow> nat list \<Rightarrow> (nat \<Rightarrow> packet_use) \<times> heap \<Rightarrow> ((nat \<Rightarrow> packet_use) \<times> heap) option" where
  "run_uses p [] x = Some x"
| "run_uses p (i # is) x = do { (c, h) \<leftarrow> use_step p (fst x i) (snd x); run_uses p is ((fst x)(i := c), h) }"

lemma run_uses_reach: "run_uses p is x = Some y \<Longrightarrow> uses_reach p x y"
proof (induction "is" arbitrary: x)
  case (Cons i "is")
  from Cons.prems obtain c h where c: "use_step p (fst x i) (snd x) = Some (c, h)" "run_uses p is ((fst x)(i := c), h) = Some y"
    by (auto elim: bind_SomeE)
  have "packet_uses p x ((fst x)(i := c), h)" using packet_uses.intros [of p "fst x" i "snd x" c h] c(1) by simp
  then show ?case using Cons.IH [OF c(2)] by (rule converse_rtranclp_into_rtranclp)
qed simp

definition demo_uses :: "nat \<Rightarrow> packet_use" where
  "demo_uses i = (if i = 0 then Change (Waiting (Get_or_add 9)) else Lookup 9 Entering)"

declare field_find_type.simps [code]

lemma demo_uses_run:
  "map_option (\<lambda>x. (fst x 0, fst x 1)) (run_uses 0 [1, 1, 0, 0, 0, 0, 0, 0, 0, 1, 1] (demo_uses, demo_full)) =
     Some (Change (Linking Near_end (Get_or_add 9) (Some 5)), Lookup 9 (Done (Some 5)))"
  by code_simp

theorem lookup_beside_changes_witness:
  "\<exists>es g V'. uses_reach 0 (demo_uses, demo_full) (es, g) \<and> es 0 = Change (Linking Near_end (Get_or_add 9) (Some 5)) \<and>
     es 1 = Lookup 9 (Done (Some 5)) \<and> listed g 0 V' \<and> {(4, 701), (5, 9)} \<subseteq> set V'"
proof -
  from demo_uses_run obtain es g where run: "run_uses 0 [1, 1, 0, 0, 0, 0, 0, 0, 0, 1, 1] (demo_uses, demo_full) = Some (es, g)"
      "es 0 = Change (Linking Near_end (Get_or_add 9) (Some 5))" "es 1 = Lookup 9 (Done (Some 5))" by auto
  have begins: "\<forall>i. use_begins (demo_uses i)" by (simp add: demo_uses_def)
  from lookup_beside_changes [OF demo_heap_ok(2) demo_full_at begins rtranclp.rtrancl_refl _ run_uses_reach [OF run(1)] run(3)]
  obtain V V' where v: "listed demo_full 0 V" "listed g 0 V'" "set V \<subseteq> set V'" "(5, 9) \<in> set V'"
    by (auto simp: demo_uses_def)
  moreover have "V = [(4, 701)]" using listed_unique [OF v(1) packet_at_listed [OF demo_full_at]] by simp
  ultimately have "{(4, 701), (5, 9)} \<subseteq> set V'" by simp
  with v(2) run(2,3) run_uses_reach [OF run(1)] show ?thesis by blast
qed

end
