(* ===== verification/Log.thy ===== *)
theory Log
  imports CString "HOL-Library.Char_ord"
begin

text \<open>
  Log output: \<open>lib/srvd/libsrvd/log.c\<close> and \<open>include/srvd/log.h\<close>. A line is formatted by
  \<open>vsnprintf\<close> into a buffer of 1024 bytes and written to \<open>stderr\<close> behind the name of its
  severity. Of \<open>printf\<close> the program uses \<open>%s\<close>, \<open>%c\<close>, \<open>%d\<close>, \<open>%u\<close> and \<open>%lu\<close>;
  an argument of another type than its directive asks for is undefined (C11, 7.21.6.1), and so is a
  directive without argument. \<open>int\<close> has 32 bits, \<open>long\<close>, \<open>size_t\<close> and \<open>ssize_t\<close> have 64.
\<close>

section \<open>Severities\<close>

datatype srvd_log_severity = INFO | NOTICE | WARNING | ERROR

primrec severity_index :: "srvd_log_severity \<Rightarrow> nat" where
  "severity_index INFO = 0"
| "severity_index NOTICE = 1"
| "severity_index WARNING = 2"
| "severity_index ERROR = 3"

lemma severity_index_inject [simp]: "severity_index a = severity_index b \<longleftrightarrow> a = b"
  by (cases a; cases b) simp_all

text \<open>The enumerators are integers and ordered as such.\<close>

instantiation srvd_log_severity :: linorder
begin

definition less_eq_srvd_log_severity :: "srvd_log_severity \<Rightarrow> srvd_log_severity \<Rightarrow> bool" where
  "less_eq_srvd_log_severity a b \<longleftrightarrow> severity_index a \<le> severity_index b"

definition less_srvd_log_severity :: "srvd_log_severity \<Rightarrow> srvd_log_severity \<Rightarrow> bool" where
  "less_srvd_log_severity a b \<longleftrightarrow> severity_index a < severity_index b"

instance
  by standard (auto simp: less_eq_srvd_log_severity_def less_srvd_log_severity_def)

end

definition severity_map :: "byte list list" where
  "severity_map = [bytes ''INFO'', bytes ''NOTICE'', bytes ''WARNING'', bytes ''ERROR'']"

section \<open>Formatting\<close>

datatype argument =
    A_int "32 word"
  | A_uint "32 word"
  | A_long "64 word"
  | A_ulong "64 word"
  | A_str "byte list"

fun decimal :: "nat \<Rightarrow> byte list" where
  "decimal n = (if n < 10 then [48 + of_nat n] else decimal (n div 10) @ [48 + of_nat (n mod 10)])"

declare decimal.simps [simp del]

definition signed_decimal :: "int \<Rightarrow> byte list" where
  "signed_decimal i = (if i < 0 then 45 # decimal (nat (- i)) else decimal (nat i))"

datatype directive = Dir_d | Dir_u | Dir_lu | Dir_c | Dir_s

fun convert :: "directive \<Rightarrow> argument \<Rightarrow> byte list option" where
  "convert Dir_d (A_int w) = Some (signed_decimal (sint w))"
| "convert Dir_u (A_uint w) = Some (decimal (unat w))"
| "convert Dir_u (A_int w) = (if 0 \<le> sint w then Some (decimal (unat w)) else None)"
| "convert Dir_lu (A_ulong w) = Some (decimal (unat w))"
| "convert Dir_c (A_int w) = Some [ucast w]"
| "convert Dir_s (A_str bs) = (if 0 \<in> set bs then Some (cstr bs) else None)"
| "convert _ _ = None"

text \<open>The directive after a percent sign, and what follows it.\<close>

fun directive_at :: "byte list \<Rightarrow> (directive \<times> byte list) option" where
  "directive_at [] = None"
| "directive_at (c # cs) =
     (if c = 100 then Some (Dir_d, cs)
      else if c = 117 then Some (Dir_u, cs)
      else if c = 99 then Some (Dir_c, cs)
      else if c = 115 then Some (Dir_s, cs)
      else if c = 108 then (case cs of [] \<Rightarrow> None | d # ds \<Rightarrow> if d = 117 then Some (Dir_lu, ds) else None)
      else None)"

lemma directive_at_shorter: "directive_at cs = Some (d, ds) \<Longrightarrow> length ds < length cs"
  by (cases cs) (auto split: if_splits list.splits)

function format :: "byte list \<Rightarrow> argument list \<Rightarrow> byte list option" where
  "format [] args = Some []"
| "format (c # cs) args =
     (if c \<noteq> 37 then map_option ((#) c) (format cs args)
      else case directive_at cs of None \<Rightarrow> None
      | Some (d, ds) \<Rightarrow> (case args of [] \<Rightarrow> None
        | a # args \<Rightarrow> do { t \<leftarrow> convert d a; map_option ((@) t) (format ds args) }))"
  by pat_completeness auto
termination
  by (relation "measure (\<lambda>(cs, args). length cs)") (auto dest: directive_at_shorter)

section \<open>Writing a line\<close>

definition LOG_LINE_LENGTH :: nat where "LOG_LINE_LENGTH = 1024"

text \<open>\<open>vsnprintf\<close>: at most one byte less than the buffer has, and a NUL behind them.\<close>

definition vsnprintf :: "nat \<Rightarrow> byte list \<Rightarrow> argument list \<Rightarrow> byte list option" where
  "vsnprintf n fmt args = map_option (\<lambda>msg. take (n - 1) msg @ [0]) (format fmt args)"

definition line_format :: "byte list" where
  "line_format = bytes ''[%s] %s'' @ [10]"

text \<open>The last argument and the result are what has been written to \<open>stderr\<close>.\<close>

definition srvd_log :: "srvd_log_severity \<Rightarrow> byte list \<Rightarrow> argument list \<Rightarrow> byte list \<Rightarrow> byte list option" where
  "srvd_log severity fmt args err = do {
     buffer \<leftarrow> vsnprintf LOG_LINE_LENGTH fmt args;
     line \<leftarrow> format line_format [A_str (severity_map ! severity_index severity @ [0]), A_str buffer];
     Some (err @ line) }"

definition SRVD_LOG_INFO :: "byte list \<Rightarrow> argument list \<Rightarrow> byte list \<Rightarrow> byte list option" where
  "SRVD_LOG_INFO = srvd_log INFO"

definition SRVD_LOG_NOTICE :: "byte list \<Rightarrow> argument list \<Rightarrow> byte list \<Rightarrow> byte list option" where
  "SRVD_LOG_NOTICE = srvd_log NOTICE"

definition SRVD_LOG_WARNING :: "byte list \<Rightarrow> argument list \<Rightarrow> byte list \<Rightarrow> byte list option" where
  "SRVD_LOG_WARNING = srvd_log WARNING"

definition SRVD_LOG_ERROR :: "byte list \<Rightarrow> argument list \<Rightarrow> byte list \<Rightarrow> byte list option" where
  "SRVD_LOG_ERROR = srvd_log ERROR"

section \<open>Formats by pieces\<close>

text \<open>A format as the literal texts and directives it is made of, and what it prints.\<close>

datatype piece = Lit "byte list" | Dir directive

primrec directive_text :: "directive \<Rightarrow> byte list" where
  "directive_text Dir_d = [100]"
| "directive_text Dir_u = [117]"
| "directive_text Dir_lu = [108, 117]"
| "directive_text Dir_c = [99]"
| "directive_text Dir_s = [115]"

primrec piece_text :: "piece \<Rightarrow> byte list" where
  "piece_text (Lit t) = t"
| "piece_text (Dir d) = 37 # directive_text d"

fun render :: "piece list \<Rightarrow> argument list \<Rightarrow> byte list option" where
  "render [] args = Some []"
| "render (Lit t # ps) args = map_option ((@) t) (render ps args)"
| "render (Dir d # ps) [] = None"
| "render (Dir d # ps) (a # args) = do { t \<leftarrow> convert d a; map_option ((@) t) (render ps args) }"

lemma directive_at_text: "directive_at (directive_text d @ cs) = Some (d, cs)"
  by (cases d) simp_all

lemma format_literal: "37 \<notin> set t \<Longrightarrow> format (t @ cs) args = map_option ((@) t) (format cs args)"
  by (induction t; cases "format cs args") auto

text \<open>Reading a format prints what its pieces say.\<close>

lemma format_pieces:
  "\<forall>t. Lit t \<in> set ps \<longrightarrow> 37 \<notin> set t \<Longrightarrow> format (concat (map piece_text ps)) args = render ps args"
proof (induction ps arbitrary: args)
  case (Cons p ps)
  then have IH: "format (concat (map piece_text ps)) as = render ps as" for as by simp
  show ?case
  proof (cases p)
    case (Lit t)
    then show ?thesis using Cons.prems IH by (simp add: format_literal)
  next
    case (Dir d)
    then show ?thesis using IH by (auto simp: directive_at_text split: list.split intro!: Option.bind_cong)
  qed
qed simp

section \<open>The line that is written\<close>

lemma severity_name:
  "severity_map ! severity_index v \<in> set severity_map" "0 \<notin> set (severity_map ! severity_index v)"
  "length (severity_map ! severity_index v) \<le> 7" "\<forall>c \<in> set (severity_map ! severity_index v). c \<noteq> 10 \<and> c \<noteq> 93"
  by (cases v; simp add: severity_map_def bytes_def)+

lemma line_format_prints:
  "0 \<notin> set a \<Longrightarrow> format line_format [A_str (a @ [0]), A_str b] =
     (if 0 \<in> set b then Some ([91] @ a @ [93, 32] @ cstr b @ [10]) else None)"
  using format_pieces [of "[Lit [91], Dir Dir_s, Lit [93, 32], Dir Dir_s, Lit [10]]" "[A_str (a @ [0]), A_str b]"]
  by (simp add: line_format_def bytes_def cstr_append_NUL)

definition log_line :: "srvd_log_severity \<Rightarrow> byte list \<Rightarrow> byte list" where
  "log_line v msg = [91] @ severity_map ! severity_index v @ [93, 32] @ cstr (take 1023 msg) @ [10]"

lemma cstr_snoc_NUL: "cstr (xs @ [0]) = cstr xs"
  by (induction xs) auto

lemma srvd_log_line:
  "srvd_log v fmt args err = map_option (\<lambda>msg. err @ log_line v msg) (format fmt args)"
  by (cases "format fmt args")
     (simp_all add: srvd_log_def vsnprintf_def line_format_prints severity_name LOG_LINE_LENGTH_def log_line_def cstr_snoc_NUL)

lemma length_decimal: "n < 10 ^ k \<Longrightarrow> 0 < k \<Longrightarrow> length (decimal n) \<le> k"
proof (induction n arbitrary: k rule: decimal.induct)
  case (1 n)
  show ?case
  proof (cases "n < 10")
    case True
    then show ?thesis using 1(3) by (subst decimal.simps) simp
  next
    case False
    with 1(2) obtain j where j: "k = Suc j" "0 < j" by (cases k; cases "k - 1") auto
    then have "n div 10 < 10 ^ j" using 1(2) by (simp add: div_less_iff_less_mult mult.commute)
    with 1(1) [OF False] j False show ?thesis by (subst decimal.simps) simp
  qed
qed

lemma decimal_digits: "set (decimal n) \<subseteq> {48..57}"
proof (induction n rule: decimal.induct)
  case (1 n)
  have "48 + of_nat d \<in> {48..57 :: byte}" if "d < 10" for d :: nat
  proof -
    have "d \<in> {0, 1, 2, 3, 4, 5, 6, 7, 8, 9}" using that by auto
    then show ?thesis by auto
  qed
  with 1 show ?case by (subst decimal.simps) simp
qed

section \<open>Properties\<close>

text \<open>C40. Whatever is logged, one entry is added to \<open>stderr\<close>: the severity in brackets, at most 1023
  bytes of the message, and a line end. A message of at most 1023 bytes without NUL is written as it
  is, and two entries of different severities never look the same.\<close>

theorem log_writes_one_entry:
  assumes "format fmt args = Some msg"
  shows "\<exists>text. srvd_log v fmt args err = Some (err @ [91] @ severity_map ! severity_index v @ [93, 32] @ text @ [10]) \<and>
     length text \<le> 1023 \<and> 0 \<notin> set text \<and> (length msg \<le> 1023 \<and> 0 \<notin> set msg \<longrightarrow> text = msg) \<and>
     (\<forall>u fmt' args'. srvd_log u fmt' args' err = srvd_log v fmt args err \<longrightarrow> u = v)"
proof -
  have "u = v" if "srvd_log u fmt' args' err = srvd_log v fmt args err" for u fmt' args'
    using that assms by (cases u; cases v) (auto simp: srvd_log_line log_line_def severity_map_def bytes_def)
  moreover have "length (cstr (take 1023 msg)) \<le> 1023" using length_cstr_le [of "take 1023 msg"] by simp
  ultimately show ?thesis using assms
    by (intro exI [of _ "cstr (take 1023 msg)"]) (auto simp: srvd_log_line log_line_def cstr_no_NUL cstr_id)
qed

theorem log_writes_one_entry_witness:
  "\<exists>text. srvd_log WARNING (bytes ''type %d'') [A_int 7] [] =
       Some ([] @ [91] @ severity_map ! severity_index WARNING @ [93, 32] @ text @ [10]) \<and> text = bytes ''type 7''"
proof -
  have f: "format (bytes ''type %d'') [A_int 7] = Some (bytes ''type 7'')"
    by (simp add: bytes_def signed_decimal_def decimal.simps)
  show ?thesis using log_writes_one_entry [OF f, of WARNING "[]"] by (auto simp: bytes_def)
qed

text \<open>
  The messages of the code about a file that ends too early, and about a short read or write. The first
  ends with a line end of its own, so an empty line follows it; the second passes a \<open>ssize_t\<close> and a
  \<open>size_t\<close> where \<open>int\<close> and \<open>unsigned\<close> are asked for.
\<close>

definition fmt_end_of_file :: "byte list" where
  "fmt_end_of_file = bytes ''srvd_conf_file_parse: Syntax error: Unexpected end of file at %s:%lu'' @ [10]"

definition fmt_short_write :: "byte list" where
  "fmt_short_write = bytes ''srvd_server_unsock_execute: Interrupted: Wrote %d of %u bytes''"

theorem log_end_of_file:
  assumes "0 \<notin> set path" and "length path \<le> 900"
  shows "SRVD_LOG_ERROR fmt_end_of_file [A_str (path @ [0]), A_ulong line] err =
     Some (err @ bytes ''[ERROR] srvd_conf_file_parse: Syntax error: Unexpected end of file at '' @ path @ [58] @
       decimal (unat line) @ [10, 10])"
proof -
  let ?t = "bytes ''srvd_conf_file_parse: Syntax error: Unexpected end of file at ''"
  let ?m = "?t @ path @ [58] @ decimal (unat line) @ [10]"
  have "format fmt_end_of_file [A_str (path @ [0]), A_ulong line] = Some ?m"
    using format_pieces [of "[Lit ?t, Dir Dir_s, Lit [58], Dir Dir_lu, Lit [10]]" "[A_str (path @ [0]), A_ulong line]"] assms(1)
    by (simp add: fmt_end_of_file_def bytes_def cstr_append_NUL)
  moreover have "unat line < 10 ^ 20" using unsigned_less [of line, where 'a = nat] by simp
  then have "length (decimal (unat line)) \<le> 20" by (rule length_decimal) simp
  moreover have "0 \<notin> set (decimal (unat line))" using decimal_digits [of "unat line"] by auto
  ultimately show ?thesis using assms
    by (simp add: SRVD_LOG_ERROR_def srvd_log_line log_line_def cstr_id bytes_def severity_map_def)
qed

theorem log_short_write_undefined:
  "SRVD_LOG_ERROR fmt_short_write [A_long result, A_ulong whole] err = None"
  using format_pieces [of "[Lit (bytes ''srvd_server_unsock_execute: Interrupted: Wrote ''), Dir Dir_d, Lit (bytes '' of ''), Dir Dir_u,
      Lit (bytes '' bytes'')]" "[A_long result, A_ulong whole]"]
  by (simp add: SRVD_LOG_ERROR_def srvd_log_line fmt_short_write_def bytes_def)

end
