(* ===== verification/Objects.thy ===== *)
theory Objects
  imports Unsock_Server Conf_File
begin

text \<open>
  Objects of the program on the C heap: the pairs of an allocator and a releaser in
  \<open>protocol/serial_packet.c\<close>, \<open>conf.c\<close> and \<open>server/unsock.c\<close>, which wrap \<open>malloc\<close> and \<open>free\<close>. The
  other operations of these objects take their value, because their callers keep them in local
  variables or inside other objects. A store holds the objects of one type; a new object has no
  value until its initialiser has set one.
\<close>

record 'a objects =
  object_at :: "addr \<rightharpoonup> 'a option"
  object_brk :: nat
  object_oom :: "nat \<Rightarrow> bool"

definition object_malloc :: "'a objects \<Rightarrow> ptr \<times> 'a objects" where
  "object_malloc m = (let a = object_brk m; m' = m\<lparr>object_brk := Suc a\<rparr> in
     if object_oom m a then (None, m') else (Some a, m'\<lparr>object_at := (object_at m)(a \<mapsto> None)\<rparr>))"

definition object_free :: "ptr \<Rightarrow> 'a objects \<Rightarrow> 'a objects option" where
  "object_free p m = (if p = None then Some m else map_option (\<lambda>c. m\<lparr>object_at := c\<rparr>) (release p (object_at m)))"

definition srvd_protocol_serial_packet_allocate :: "serial objects \<Rightarrow> ptr \<times> serial objects" where
  "srvd_protocol_serial_packet_allocate = object_malloc"

definition srvd_protocol_serial_packet_free :: "ptr \<Rightarrow> serial objects \<Rightarrow> serial objects option" where
  "srvd_protocol_serial_packet_free = object_free"

definition srvd_conf_allocate :: "conf objects \<Rightarrow> ptr \<times> conf objects" where
  "srvd_conf_allocate = object_malloc"

definition srvd_conf_free :: "ptr \<Rightarrow> conf objects \<Rightarrow> conf objects option" where
  "srvd_conf_free = object_free"

definition srvd_conf_file_allocate :: "conf_file objects \<Rightarrow> ptr \<times> conf_file objects" where
  "srvd_conf_file_allocate = object_malloc"

definition srvd_conf_file_free :: "ptr \<Rightarrow> conf_file objects \<Rightarrow> conf_file objects option" where
  "srvd_conf_file_free = object_free"

definition srvd_server_unsock_allocate :: "server_unsock objects \<Rightarrow> ptr \<times> server_unsock objects" where
  "srvd_server_unsock_allocate = object_malloc"

definition srvd_server_unsock_free :: "ptr \<Rightarrow> server_unsock objects \<Rightarrow> server_unsock objects option" where
  "srvd_server_unsock_free = object_free"

section \<open>What such a pair promises\<close>

definition objects_ok :: "'a objects \<Rightarrow> bool" where
  "objects_ok m \<longleftrightarrow> (\<forall>a \<ge> object_brk m. object_at m a = None)"

locale object_pair =
  fixes alloc :: "'a objects \<Rightarrow> ptr \<times> 'a objects" and dispose :: "ptr \<Rightarrow> 'a objects \<Rightarrow> 'a objects option"
  assumes alloc_fails: "object_oom m (object_brk m) \<Longrightarrow> \<exists>m'. alloc m = (None, m') \<and> object_at m' = object_at m"
    and alloc_fresh: "objects_ok m \<Longrightarrow> \<not> object_oom m (object_brk m) \<Longrightarrow>
      \<exists>a m'. alloc m = (Some a, m') \<and> object_at m a = None \<and> object_at m' = (object_at m)(a \<mapsto> None) \<and> objects_ok m'"
    and dispose_null: "dispose None m = Some m"
    and dispose_live: "object_at m a \<noteq> None \<Longrightarrow> \<exists>m'. dispose (Some a) m = Some m' \<and> object_at m' = (object_at m)(a := None)"
    and dispose_dead: "object_at m a = None \<Longrightarrow> dispose (Some a) m = None"
begin

lemma pair_restores:
  assumes "objects_ok m" and "alloc m = (p, m1)"
  shows "\<exists>m2. dispose p m1 = Some m2 \<and> object_at m2 = object_at m"
proof (cases "object_oom m (object_brk m)")
  case True
  then show ?thesis using alloc_fails [OF True] assms(2) dispose_null by auto
next
  case False
  from alloc_fresh [OF assms(1) False] obtain a where
    a: "p = Some a" "object_at m a = None" "object_at m1 = (object_at m)(a \<mapsto> None)" using assms(2) by auto
  with dispose_live [of m1 a] show ?thesis by (auto intro!: ext)
qed

lemma no_double_dispose: "object_at m a \<noteq> None \<Longrightarrow> dispose (Some a) m = Some m' \<Longrightarrow> dispose (Some a) m' = None"
  using dispose_live [of m a] dispose_dead [of m' a] by auto

end

lemma object_pair_malloc: "object_pair object_malloc object_free"
  by unfold_locales (auto simp: object_malloc_def object_free_def release_def objects_ok_def Let_def)

interpretation serials: object_pair srvd_protocol_serial_packet_allocate srvd_protocol_serial_packet_free
  unfolding srvd_protocol_serial_packet_allocate_def srvd_protocol_serial_packet_free_def by (rule object_pair_malloc)

interpretation confs: object_pair srvd_conf_allocate srvd_conf_free
  unfolding srvd_conf_allocate_def srvd_conf_free_def by (rule object_pair_malloc)

interpretation conf_files: object_pair srvd_conf_file_allocate srvd_conf_file_free
  unfolding srvd_conf_file_allocate_def srvd_conf_file_free_def by (rule object_pair_malloc)

interpretation servers: object_pair srvd_server_unsock_allocate srvd_server_unsock_free
  unfolding srvd_server_unsock_allocate_def srvd_server_unsock_free_def by (rule object_pair_malloc)

end
