(* ===== verification/Spec2Isabelle.thy ===== *)
theory Spec2Isabelle
  imports Protocol_Properties Registry_Properties Conf_Properties Server_Properties Client_Properties
    Nss_Properties User_Properties Alias_Properties Conf_Test Conf_Thread_Properties Nss_Threads
    Packet_Thread_Properties Log Objects
begin

text \<open>
  A verification development for srvd, a service daemon for POSIX systems: a server answers typed
  requests on a UNIX domain socket, and the name switch modules of the C library ask it for users
  and mail aliases.

  The parts of the program, from the bottom up, and the theories that model them.

  Packets in memory (\<open>protocol/packet.c\<close>, \<open>packet.h\<close>): a packet is a doubly linked list of typed
  fields, each a doubly linked list of entries. \<open>Store\<close> is the C heap: packets, fields, entries and
  data blocks at addresses that \<open>malloc\<close> hands out in order, where any allocation may fail; an
  access outside a live object is \<open>None\<close>. \<open>Packet\<close> has every operation under its C name, with the
  locks of the fields and 16 bit counters that wrap. \<open>Packet_Rep\<close> relates the heap to the abstract
  packet, a list of types with their lists of byte strings, and \<open>Entry_Refine\<close>, \<open>Release_Refine\<close>,
  \<open>Packet_Refine\<close>, \<open>Packet_Ops\<close> and \<open>Typed_Refine\<close> show what each operation does to it, on success, when
  an allocation fails and on wrong arguments. \<open>Packet_Contract\<close> is the interface to the rest, and
  \<open>Packet_Held\<close> the packets together with the objects they own. \<open>Heap_Count\<close> counts the objects of
  each kind: an operation makes and releases those by which it changes its packet, no more. \<open>Intrusive_List\<close> and \<open>Chain\<close> are the
  lists these proofs and those of the registry and the configuration share.

  \<open>Critical_Section\<close> is the interface of operations that threads call under one lock, with the theorem
  that interleaved calls have the effect of calls in the order of the lock. \<open>Packet_Threads\<close> interprets
  it for a packet that threads share, \<open>Conf_Threads_Refine\<close> for the default configuration.
  \<open>Packet_Readers\<close> adds threads that look a field up without the lock, and says of every store of the
  others what it may do to the list such a lookup walks; \<open>Packet_Readers_Refine\<close> shows that they keep to it.

  The wire format (\<open>protocol/serial_packet.c\<close>): \<open>Serial\<close> has the serialiser and the unserialiser with
  every access to a buffer checked. \<open>Serial_Refine\<close> shows that the serialiser writes the wire form of
  the abstract packet, \<open>Unserialize_Refine\<close> that the unserialiser follows a parser on byte lists,
  whose result may also be that the code reads past the buffer or leaves a freed field linked.
  \<open>Unserialize_Frame\<close> and \<open>Finalize_Mono\<close> bound what it touches.

  The service registry (\<open>server.c\<close>): \<open>Registry\<close> and \<open>Registry_Refine\<close>; a list of handlers by request
  type that refines a finite map. The contract of such a table is the locale of \<open>Table\<close>, which the
  registry and the configuration items interpret.

  The configuration (\<open>conf.c\<close>): \<open>Conf\<close> and \<open>Conf_Refine\<close> for the items, \<open>Conf_Parse\<close> and
  \<open>Conf_Parse_Refine\<close> for the state machine that reads a file, with the grammar of what it accepts,
  \<open>Conf_File\<close> and \<open>Conf_File_Refine\<close> for files, the test for changes and the cached default file.
  \<open>Conf_Threads\<close> lets any number of calls for the default file interleave, with the file changing
  between their steps; \<open>Conf_Threads_Refine\<close> shows what the lock gives them and what it does not.

  The server (\<open>server/unsock.c\<close>): \<open>Socket\<close> has descriptors as streams of bytes, and a schedule that may
  make any system call fail or cut it short. \<open>Service\<close> has requests and responses (\<open>service.c\<close>);
  \<open>Unsock_Server\<close> the server and its loop; \<open>Unsock_Refine\<close>, \<open>Server_Refine\<close>, \<open>Server_Turn\<close> and \<open>Server_Loop\<close> what
  one turn and many turns do, and \<open>Server_Memory\<close> that they keep no object. A handler is code of the application, so it is a parameter: the theorems
  ask that handlers do to the response what some function on abstract packets says, and
  \<open>Demo_Service\<close> has one that does.

  The client (\<open>client.c\<close>, \<open>client/unsock.c\<close>, the query of \<open>service.c\<close>): \<open>Client\<close>, \<open>Query\<close> and their
  refinements \<open>Client_Refine\<close> and \<open>Query_Refine\<close>. A query reads the default configuration, makes the
  client object it names, connects, sends the request and reads the response and its status.

  The name services (\<open>service/nss/passwd.c\<close>, \<open>service/nss/aliases.c\<close>, \<open>nss/passwd.c\<close>, \<open>nss/aliases.c\<close>):
  \<open>Nss_Service\<close> has the getters of requests and the setters of responses, \<open>Nss_Lookup\<close> what both
  databases share, \<open>Nss_Passwd\<close> and \<open>Nss_Aliases\<close> the lookups themselves. \<open>Nss_Refine\<close>, \<open>Passwd_Record\<close>,
  \<open>Alias_Refine\<close>, \<open>Alias_Record\<close> and \<open>Request_Refine\<close> give their meaning on abstract packets. The
  lookups are proved once, in the locale of \<open>Nss_Client\<close>, for every function that fills a struct from
  a response, and interpreted for both databases. \<open>Nss_Threads\<close> has the threads of a process, each with
  an enumeration of its own behind the shared key.

  The whole way: \<open>Nss_Session\<close> follows a caller through several lookups against a server that stays.
  \<open>Nss_Database\<close> has a database as a list of entries, what a service for any such list promises and a
  handler that keeps the promise with the library's own getters and setters. \<open>Nss_Exchange\<close> proves
  once, for every database and every lookup, that the answer of the handler is what the lookup fills
  in. \<open>User_Service\<close> and \<open>User_Refine\<close> interpret both for users, \<open>Alias_Service\<close> and
  \<open>Alias_Properties\<close> for mail aliases.

  The test program (\<open>test/test-conf.c\<close>): \<open>Conf_Test\<close> has its checks and its result, over the parser
  and the items of the configuration.

  Log output (\<open>log.c\<close>): \<open>Log\<close> has the formatting and the line that is written. The other theories
  leave their log calls out, as nothing reads what they write.

  \<open>Objects\<close> has the allocators and releasers of the objects that the program keeps in variables.
  \<open>Prelude\<close> and \<open>CString\<close> hold bytes, byte order, buffers and C strings.
\<close>

text \<open>
  The properties stand in the theories named \<open>Properties\<close>, and at the end of \<open>Nss_Threads\<close>,
  \<open>Conf_Test\<close> and \<open>Log\<close>.

  \<open>Protocol_Properties\<close>: serialising writes the wire form; unserialising follows the parser, never
  writes outside its packet, and undoes serialising; which inputs make it read past the end, by how
  many bytes, or leave a freed field; appending, adding and looking up fields and entries refine the abstract packet on
  every outcome of the allocations; finalising releases exactly what the packet owns.
  \<open>Packet_Thread_Properties\<close>: a packet that threads add fields to is the one their requests make one
  after another; a lookup by type that runs beside them without the lock is never undefined and answers
  a field of the packet, or that there was none when it began.
  \<open>Registry_Properties\<close>: the registry is a finite map, keeps its invariant and releases everything.
  \<open>Conf_Properties\<close>: parsing a file of the grammar yields its items, always makes progress, and what
  it does to broken files; the items, of which the first value of a name stays whatever is added, the
  file, and the cache, which is read again exactly when the file has another time.
  \<open>Conf_Test\<close>: which checks of the test program hold, for any file it may find.
  \<open>Server_Properties\<close>: a turn answers the request with the status of its handler in front, as far as
  the connection takes it, and leaves all other descriptors as they were, and the memory, too, when
  the handlers keep no objects; as long as no client sends a packet that breaks the parser, every
  client is served, for any number of turns.
  \<open>Client_Properties\<close>: a query against a running server gets the answer that the service computes;
  what it leaks when the server is not there; the choice of the adapter.
  \<open>Nss_Properties\<close>: requests are read back; \<open>struct passwd\<close> is well formed after every response
  without empty entries; a
  record survives the way from the setters to the caller's struct.
  \<open>User_Properties\<close>: with a server in front of a list of users, enumerating gives them all in order
  and then the end, and a lookup by name gives the user of that name. \<open>Alias_Properties\<close>: the same for
  mail aliases and their members.
  \<open>Conf_Thread_Properties\<close>: interleaved calls have the effect of calls in the order of the lock when
  the file changes only while nobody holds it; whenever it changes, none is stuck or undefined and each
  comes out again; and a caller that reads the items it was handed races
  with the next one. \<open>Nss_Threads\<close>: enumerations of different threads do not disturb each other.
  \<open>Log\<close>: the shape and the bound of a log entry.

  Conventions and bounds. A definition returns \<open>None\<close> where the behaviour of C is undefined, so a
  theorem whose conclusion is a \<open>Some\<close> shows that the code is defined there, and that its loops end:
  loops over lists are \<open>partial_function (option)\<close>. The loop of the server does not end and takes the
  number of turns as an argument; the theorems hold for every number. Types, counters and sizes of
  packets have 16 bits, the sizes of the wire format 32; a size in memory is a natural number. A
  path of a socket has 108 bytes and a pointer 8, and the machine is little endian, as on Linux.

  Threads interleave where the code shares state between them on purpose: at the fields of a packet, at
  the default configuration and at the key of an enumeration. A step there is the code between two
  accesses to what is shared; a call waits at the lock by having no step. Everywhere else one thread
  runs, and locks are checked to be taken and released in turn.

  Not modelled: the interleaving of lookups by offset, and of a thread that walks the entries of a
  field, with changes; weak memory, so a store is seen by all threads in the order of the code; the
  effect of a log call that is undefined itself; the contents of the members of a new object before its
  initialiser; the build, and the macros of \<open>srvd.h\<close>, each of which is a branch of the functions that
  use it. The module for PAM has no code. An object given to an operation is a value where the callers
  keep it in a variable, so two pointers to one such object are not covered.
\<close>

end
